(* ===== verification/Prelude.thy ===== *)
theory Prelude
  imports Main "HOL-Library.Word"
begin

text \<open>
  Shared ground of the development: the machine integers of the target (a 32-bit
  little-endian ARM Cortex-M33), the outcome of a C function that may stop in undefined
  behaviour or in a failed assertion, byte strings, and the lemmas on lists and words that
  several components use.
\<close>

unbundle bit_operations_syntax

section \<open>Machine integers and bytes\<close>

type_synonym u8 = "8 word"
type_synonym u16 = "16 word"
type_synonym u32 = "32 word"
type_synonym u64 = "64 word"
type_synonym bytes = "u8 list"

text \<open>The bytes of a C string, without its terminator.\<close>

definition bytes_of_string :: "string \<Rightarrow> bytes" where
  "bytes_of_string s = map of_char s"

lemma length_bytes_of_string [simp]: "length (bytes_of_string s) = length s"
  by (simp add: bytes_of_string_def)

lemma bytes_of_string_append [simp]:
  "bytes_of_string (s @ t) = bytes_of_string s @ bytes_of_string t"
  by (simp add: bytes_of_string_def)

lemma bytes_of_string_Nil [simp]: "bytes_of_string [] = []"
  by (simp add: bytes_of_string_def)

section \<open>Outcomes of C functions\<close>

text \<open>
  A C function either returns (possibly an error code, which is a value of its own), or
  it stops: it reads through a null pointer or one it has freed, writes or reads outside a
  buffer, copies between overlapping ranges with \<open>memcpy\<close>, fails an assertion, or converts
  a number the target type cannot hold.
  \<open>Out_Of_Fuel\<close> ends a loop that is still
  running after the number of rounds it was given; \<open>Not_Modelled\<close> marks a branch of the code
  this development leaves out.
\<close>

datatype fault =
    Null_Deref
  | Out_Of_Bounds
  | Assert_Failed
  | Use_After_Free
  | Overlapping_Copy
  | Undefined_Value
  | Out_Of_Fuel
  | Not_Modelled

type_synonym 'a outcome = "fault + 'a"

definition chain :: "'a outcome \<Rightarrow> ('a \<Rightarrow> 'b outcome) \<Rightarrow> 'b outcome" where
  "chain m f = (case m of Inl e \<Rightarrow> Inl e | Inr x \<Rightarrow> f x)"

definition require :: "fault \<Rightarrow> bool \<Rightarrow> unit outcome" where
  "require e b = (if b then Inr () else Inl e)"

lemma chain_Inl [simp]: "chain (Inl e) f = Inl e"
  by (simp add: chain_def)

lemma chain_Inr [simp]: "chain (Inr x) f = f x"
  by (simp add: chain_def)

lemma require_True [simp]: "require e True = Inr ()"
  by (simp add: require_def)

lemma require_False [simp]: "require e False = Inl e"
  by (simp add: require_def)

lemma chain_eq_Inr: "chain m f = Inr y \<longleftrightarrow> (\<exists>x. m = Inr x \<and> f x = Inr y)"
  by (cases m) auto

lemma require_eq_Inr [simp]: "require e b = Inr u \<longleftrightarrow> b"
  by (simp add: require_def)

lemma chain_require [simp]: "chain (require e b) f = (if b then f () else Inl e)"
  by (simp add: require_def)

section \<open>Lists\<close>

lemma take_Suc_snoc: "n < length xs \<Longrightarrow> take (Suc n) xs = take n xs @ [xs ! n]"
  by (rule take_Suc_conv_app_nth)

lemma length_4_conv:
  "length xs = 4 \<Longrightarrow> xs = [xs ! 0, xs ! 1, xs ! 2, xs ! 3]"
  by (rule nth_equalityI) (auto simp: less_Suc_eq numeral_eq_Suc)

lemma length_numeral_conv:
  "length xs = numeral k \<longleftrightarrow> (\<exists>y ys. xs = y # ys \<and> length ys = pred_numeral k)"
  by (simp add: numeral_eq_Suc length_Suc_conv)

section \<open>Words\<close>

lemma uint_less_2p32 [simp]: "uint (x :: u32) < 4294967296"
  using uint_lt2p [of x] by simp

lemma unat_less_2p: "unat (x :: 'a::len word) < 2 ^ LENGTH('a)"
  by (rule unsigned_less)

lemma unat_less_2p32 [simp]: "unat (x :: u32) < 4294967296"
  using unat_less_2p [of x] by simp

lemma unat_less_256 [simp]: "unat (x :: u8) < 256"
  using unat_less_2p [of x] by simp

end
