(* ===== verification/Bytes.thy ===== *)
theory Bytes
  imports Prelude
begin

text \<open>
  Little-endian encoding of 16-, 32- and 64-bit integers, as \<open>lz4.c\<close> and \<open>lz4frame.c\<close>
  read and write them. The contract every pair of a reader and a writer keeps is the locale
  \<open>byte_codec\<close>; the frame and block layers rest on its interpretations.
\<close>

section \<open>The contract of a fixed-width codec\<close>

locale byte_codec =
  fixes enc :: "'a \<Rightarrow> bytes"
    and dec :: "bytes \<Rightarrow> 'a"
    and width :: nat
  assumes enc_length: "length (enc x) = width"
    and dec_enc: "dec (enc x @ r) = x"
begin

lemma dec_enc_exact: "dec (enc x) = x"
  using dec_enc [of x "[]"] by simp

lemma enc_inject: "enc x = enc y \<longleftrightarrow> x = y"
  by (metis dec_enc_exact)

lemma take_enc: "take width (enc x @ r) = enc x"
  by (simp add: enc_length)

lemma drop_enc: "drop width (enc x @ r) = r"
  by (simp add: enc_length)

lemma dec_after: "dec (drop (length p) (p @ enc x @ r)) = x"
  by (simp add: dec_enc)

lemma enc_append_inject: "enc x @ r = enc y @ s \<longleftrightarrow> x = y \<and> r = s"
  by (metis dec_enc drop_enc)

end

section \<open>The readers and writers of the code\<close>

definition LZ4_readLE16 :: "bytes \<Rightarrow> u16" where
  "LZ4_readLE16 p = ucast (p ! 0) + push_bit 8 (ucast (p ! 1))"

definition LZ4_writeLE16 :: "u16 \<Rightarrow> bytes" where
  "LZ4_writeLE16 v = [ucast v, ucast (drop_bit 8 v)]"

definition LZ4F_readLE32 :: "bytes \<Rightarrow> u32" where
  "LZ4F_readLE32 src =
     ucast (src ! 0) + push_bit 8 (ucast (src ! 1)) + push_bit 16 (ucast (src ! 2))
     + push_bit 24 (ucast (src ! 3))"

definition LZ4F_writeLE32 :: "u32 \<Rightarrow> bytes" where
  "LZ4F_writeLE32 v =
     [ucast v, ucast (drop_bit 8 v), ucast (drop_bit 16 v), ucast (drop_bit 24 v)]"

definition LZ4F_readLE64 :: "bytes \<Rightarrow> u64" where
  "LZ4F_readLE64 src =
     ucast (src ! 0) + push_bit 8 (ucast (src ! 1)) + push_bit 16 (ucast (src ! 2))
     + push_bit 24 (ucast (src ! 3)) + push_bit 32 (ucast (src ! 4))
     + push_bit 40 (ucast (src ! 5)) + push_bit 48 (ucast (src ! 6))
     + push_bit 56 (ucast (src ! 7))"

definition LZ4F_writeLE64 :: "u64 \<Rightarrow> bytes" where
  "LZ4F_writeLE64 v =
     [ucast v, ucast (drop_bit 8 v), ucast (drop_bit 16 v), ucast (drop_bit 24 v),
      ucast (drop_bit 32 v), ucast (drop_bit 40 v), ucast (drop_bit 48 v),
      ucast (drop_bit 56 v)]"

section \<open>The contract holds\<close>

lemma byte_back: "ucast (ucast (x :: 'a::len word) :: u8) = (take_bit 8 x :: 'a word)"
  if "8 \<le> LENGTH('a)"
  using that by (intro bit_word_eqI) (auto simp: bit_simps)

lemma take_bit_byte:
  "take_bit n x + push_bit n (take_bit 8 (drop_bit n x)) = take_bit (n + 8) (x :: 'a::len word)"
  using bits_ident [of n "take_bit (n + 8) x"]
  by (simp add: drop_bit_take_bit add.commute)

lemmas take_bit_bytes =
  take_bit_byte [of 8, simplified] take_bit_byte [of 16, simplified]
  take_bit_byte [of 24, simplified] take_bit_byte [of 32, simplified]
  take_bit_byte [of 40, simplified] take_bit_byte [of 48, simplified]
  take_bit_byte [of 56, simplified]

interpretation le16: byte_codec LZ4_writeLE16 LZ4_readLE16 2
  by unfold_locales
    (simp_all add: LZ4_readLE16_def LZ4_writeLE16_def byte_back take_bit_bytes take_bit_word_eq_self)

interpretation le32: byte_codec LZ4F_writeLE32 LZ4F_readLE32 4
  by unfold_locales
    (simp_all add: LZ4F_readLE32_def LZ4F_writeLE32_def byte_back take_bit_bytes take_bit_word_eq_self)

interpretation le64: byte_codec LZ4F_writeLE64 LZ4F_readLE64 8
  by unfold_locales
    (simp_all add: LZ4F_readLE64_def LZ4F_writeLE64_def byte_back take_bit_bytes take_bit_word_eq_self)

end
