(* ===== verification/Lz4_Format.thy ===== *)
theory Lz4_Format
  imports Bytes
begin

text \<open>
  The LZ4 block format as an abstract specification: what a compressed block means. A block
  is a list of sequences, each a run of literals and a back reference into the output
  produced so far, and ends in a run of literals. The compressor of \<open>lz4.c\<close> is proved
  against \<open>lz4_decode\<close> in the theories that follow.
\<close>

section \<open>Decoding\<close>

text \<open>A length continued over bytes: every 255 says that another byte follows.\<close>

fun lz4_vlen :: "bytes \<Rightarrow> (nat \<times> bytes) option" where
  "lz4_vlen [] = None"
| "lz4_vlen (b # bs) =
     (if b = 255 then map_option (\<lambda>(n, r). (n + 255, r)) (lz4_vlen bs) else Some (unat b, bs))"

definition lz4_len :: "nat \<Rightarrow> bytes \<Rightarrow> (nat \<times> bytes) option" where
  "lz4_len nibble bs =
     (if nibble = 15 then map_option (\<lambda>(n, r). (n + 15, r)) (lz4_vlen bs) else Some (nibble, bs))"

text \<open>A match is copied byte by byte: it may overlap the bytes it produces.\<close>

fun lz4_copy :: "bytes \<Rightarrow> nat \<Rightarrow> nat \<Rightarrow> bytes" where
  "lz4_copy out off 0 = out"
| "lz4_copy out off (Suc n) = lz4_copy (out @ [out ! (length out - off)]) off n"

lemma lz4_vlen_shrinks: "lz4_vlen bs = Some (n, r) \<Longrightarrow> length r < length bs"
proof (induction bs arbitrary: n)
  case (Cons b bs)
  then show ?case by (cases "b = 255") (auto dest: less_SucI)
qed simp

lemma lz4_len_shrinks: "lz4_len k bs = Some (n, r) \<Longrightarrow> length r \<le> length bs"
  by (auto simp: lz4_len_def dest: lz4_vlen_shrinks less_imp_le split: if_splits)

text \<open>
  \<open>lz4_decode bs out\<close> decodes the block \<open>bs\<close> behind the output \<open>out\<close>, which holds the
  history (earlier blocks of the frame) and what this block has produced so far.
\<close>

function lz4_decode :: "bytes \<Rightarrow> bytes \<Rightarrow> bytes option" where
  "lz4_decode [] out = None"
| "lz4_decode (t # bs) out =
     (case lz4_len (unat (drop_bit 4 t)) bs of
        None \<Rightarrow> None
      | Some (ll, bs1) \<Rightarrow>
          if length bs1 < ll then None
          else if length bs1 = ll then Some (out @ bs1)
          else if length bs1 < ll + 2 then None
          else
            let out1 = out @ take ll bs1;
                off = unat (LZ4_readLE16 (drop ll bs1))
            in if off = 0 \<or> length out1 < off then None
               else (case lz4_len (unat (t AND 15)) (drop (ll + 2) bs1) of
                       None \<Rightarrow> None
                     | Some (ml, bs2) \<Rightarrow> lz4_decode bs2 (lz4_copy out1 off (ml + 4))))"
  by pat_completeness auto
termination
  by (relation "measure (\<lambda>(bs, out). length bs)")
    (auto dest!: lz4_len_shrinks)

section \<open>Restrictions at the end of a block\<close>

text \<open>
  A block of the format also keeps its distance from the end: a match begins at least twelve bytes
  and ends at least five bytes before the end of the output \<open>N\<close>, and at least five literals
  follow it. Decoders rely on it, and encoders must obey.
\<close>

function lz4_strict :: "nat \<Rightarrow> bytes \<Rightarrow> bytes \<Rightarrow> bool" where
  "lz4_strict N [] out \<longleftrightarrow> False"
| "lz4_strict N (t # bs) out \<longleftrightarrow>
     (case lz4_len (unat (drop_bit 4 t)) bs of
        None \<Rightarrow> False
      | Some (ll, bs1) \<Rightarrow>
          ll \<le> length bs1 \<and>
          (if length bs1 = ll then length out + ll \<le> N
           else
             ll + 2 \<le> length bs1 \<and> length out + ll + 12 \<le> N \<and>
             (let out1 = out @ take ll bs1;
                  off = unat (LZ4_readLE16 (drop ll bs1))
              in 0 < off \<and> off \<le> length out1 \<and>
                 (case lz4_len (unat (t AND 15)) (drop (ll + 2) bs1) of
                    None \<Rightarrow> False
                  | Some (ml, bs2) \<Rightarrow>
                      6 \<le> length bs2 \<and> length out1 + ml + 4 + 5 \<le> N
                      \<and> lz4_strict N bs2 (lz4_copy out1 off (ml + 4))))))"
  by pat_completeness auto
termination
  by (relation "measure (\<lambda>(N, bs, out). length bs)")
    (auto dest!: lz4_len_shrinks)

definition encodes :: "bytes \<Rightarrow> bytes \<Rightarrow> bytes \<Rightarrow> bool" where
  "encodes bs hist W \<longleftrightarrow> lz4_decode bs hist = Some W \<and> lz4_strict (length W) bs hist"

section \<open>Encoding one sequence\<close>

definition enc_vlen :: "nat \<Rightarrow> bytes" where
  "enc_vlen n = replicate (n div 255) 255 @ [of_nat (n mod 255)]"

definition enc_len :: "nat \<Rightarrow> bytes" where
  "enc_len n = (if n \<ge> 15 then enc_vlen (n - 15) else [])"

definition lz4_token :: "nat \<Rightarrow> nat \<Rightarrow> u8" where
  "lz4_token ll ml = of_nat (min ll 15 * 16 + min ml 15)"

text \<open>\<open>ml\<close> is the match length less the minimum of four.\<close>

definition enc_seq :: "bytes \<Rightarrow> nat \<Rightarrow> nat \<Rightarrow> bytes" where
  "enc_seq lits off ml =
     lz4_token (length lits) ml # enc_len (length lits) @ lits @ LZ4_writeLE16 (of_nat off) @ enc_len ml"

definition enc_last :: "bytes \<Rightarrow> bytes" where
  "enc_last lits = lz4_token (length lits) 0 # enc_len (length lits) @ lits"

lemma enc_vlen_small: "n < 255 \<Longrightarrow> enc_vlen n = [of_nat n]"
  by (simp add: enc_vlen_def)

lemma enc_vlen_step: "enc_vlen (n + 255) = 255 # enc_vlen n"
proof -
  have "(n + 255) div 255 = Suc (n div 255)"
    using div_add_self2 [of 255 n] by simp
  then show ?thesis by (simp add: enc_vlen_def)
qed

lemma of_nat_u8_eq_255: "n < 255 \<Longrightarrow> (of_nat n :: u8) \<noteq> 255"
  by (auto simp: word_unat_eq_iff unsigned_of_nat take_bit_eq_mod)

lemma lz4_vlen_enc: "lz4_vlen (enc_vlen n @ r) = Some (n, r)"
proof (induction n rule: less_induct)
  case (less n)
  show ?case
  proof (cases "n < 255")
    case True
    then show ?thesis
      by (simp add: enc_vlen_small of_nat_u8_eq_255 unsigned_of_nat take_bit_eq_mod)
  next
    case False
    then have "enc_vlen n = 255 # enc_vlen (n - 255)" using enc_vlen_step [of "n - 255"] by simp
    with False less [of "n - 255"] show ?thesis by simp
  qed
qed

lemma lz4_len_enc: "lz4_len (min n 15) (enc_len n @ r) = Some (n, r)"
  by (auto simp: lz4_len_def enc_len_def lz4_vlen_enc)

lemma unat_token: "unat (lz4_token ll ml) = min ll 15 * 16 + min ml 15"
proof -
  have "min ll 15 \<le> 15" "min ml 15 \<le> 15" by simp_all
  then have "min ll 15 * 16 + min ml 15 < 256" by arith
  then show ?thesis
    unfolding lz4_token_def unsigned_of_nat take_bit_eq_mod by simp
qed

lemma token_lits: "unat (drop_bit 4 (lz4_token ll ml)) = min ll 15"
proof -
  have "min ml 15 < 16" by simp
  then have "(min ll 15 * 16 + min ml 15) div 16 = min ll 15"
    by (simp del: min_less_iff_disj)
  then show ?thesis by (simp add: drop_bit_eq_div unat_div_distrib unat_token)
qed

lemma token_match: "unat (lz4_token ll ml AND 15) = min ml 15"
proof -
  have "min ml 15 < 16" by simp
  then have "(min ll 15 * 16 + min ml 15) mod 16 = min ml 15"
    by (simp del: min_less_iff_disj)
  then have "unat (take_bit 4 (lz4_token ll ml)) = min ml 15"
    by (simp add: take_bit_eq_mod unat_mod_distrib unat_token)
  then show ?thesis by (simp add: take_bit_eq_mask mask_eq_exp_minus_1)
qed

lemma decode_enc_seq:
  assumes "0 < off" and "off \<le> length out + length lits" and "off < 65536"
  shows "lz4_decode (enc_seq lits off ml @ r) out = lz4_decode r (lz4_copy (out @ lits) off (ml + 4))"
proof -
  have off: "unat (of_nat off :: u16) = off"
    using assms(3) by (simp add: unsigned_of_nat take_bit_eq_mod)
  show ?thesis
    using assms off
    by (simp add: enc_seq_def token_lits token_match lz4_len_enc le16.dec_enc le16.enc_length
        le16.drop_enc flip: drop_drop)
qed

lemma decode_enc_last: "lz4_decode (enc_last lits) out = Some (out @ lits)"
  using lz4_len_enc [of "length lits" lits] by (simp add: enc_last_def token_lits)

lemma strict_enc_seq:
  assumes "0 < off" and "off \<le> length out + length lits" and "off < 65536"
    and "length out + length lits + 12 \<le> N" and "length out + length lits + ml + 9 \<le> N" and "6 \<le> length r"
  shows "lz4_strict N (enc_seq lits off ml @ r) out \<longleftrightarrow> lz4_strict N r (lz4_copy (out @ lits) off (ml + 4))"
proof -
  have off: "unat (of_nat off :: u16) = off"
    using assms(3) by (simp add: unsigned_of_nat take_bit_eq_mod)
  show ?thesis
    using assms off
    by (simp add: enc_seq_def token_lits token_match lz4_len_enc le16.dec_enc le16.enc_length
        le16.drop_enc add.assoc flip: drop_drop)
qed

lemma strict_enc_last: "length out + length lits \<le> N \<Longrightarrow> lz4_strict N (enc_last lits) out"
  using lz4_len_enc [of "length lits" lits] by (simp add: enc_last_def token_lits)

lemma length_enc_last: "length lits < length (enc_last lits)"
  by (simp add: enc_last_def)

section \<open>Copying out of a window\<close>

text \<open>
  \<open>W\<close> is the whole output a decoder is to produce, history included. If the bytes from
  position \<open>i\<close> on repeat those \<open>off\<close> before them, a copy extends the prefix of \<open>W\<close>.
\<close>

definition repeats :: "bytes \<Rightarrow> nat \<Rightarrow> nat \<Rightarrow> nat \<Rightarrow> bool" where
  "repeats W i off n \<longleftrightarrow> 0 < off \<and> off \<le> i \<and> i + n \<le> length W \<and> (\<forall>k<n. W ! (i + k) = W ! (i + k - off))"

lemma repeats_Suc:
  "repeats W i off (Suc n) \<Longrightarrow> repeats W (Suc i) off n \<and> W ! i = W ! (i - off) \<and> i < length W"
  by (auto simp: repeats_def dest: spec [of _ 0] spec [of _ "Suc _"])

lemma lz4_copy_window: "repeats W i off n \<Longrightarrow> lz4_copy (take i W) off n = take (i + n) W"
proof (induction n arbitrary: i)
  case (Suc n)
  note step = repeats_Suc [OF Suc.prems]
  then have "take i W @ [take i W ! (length (take i W) - off)] = take (Suc i) W"
    using Suc.prems by (simp add: take_Suc_snoc repeats_def)
  with Suc.IH [of "Suc i"] step show ?case by simp
qed simp

end
