(* ===== verification/Lz4_Match.thy ===== *)
theory Lz4_Match
  imports Lz4_Format
begin

text \<open>
  How \<open>lz4.c\<close> reads memory and compares it: the unaligned little-endian loads, the count of
  common bytes by words (\<open>LZ4_count\<close>, \<open>LZ4_NbCommonBytes\<close>), the hash of four bytes and the
  catch-up loop. The memory is a map from addresses to bytes, so that a source and its
  dictionary may lie anywhere and may adjoin each other. The word-wise count is proved equal
  to a byte-wise one.
\<close>

type_synonym memory = "int \<Rightarrow> u8"

section \<open>Loads\<close>

definition LZ4_read16 :: "memory \<Rightarrow> int \<Rightarrow> u16" where
  "LZ4_read16 m p = LZ4_readLE16 [m p, m (p + 1)]"

definition LZ4_read32 :: "memory \<Rightarrow> int \<Rightarrow> u32" where
  "LZ4_read32 m p = LZ4F_readLE32 [m p, m (p + 1), m (p + 2), m (p + 3)]"

text \<open>The bytes from \<open>p\<close> on, as many as \<open>n\<close>.\<close>

definition mem_bytes :: "memory \<Rightarrow> int \<Rightarrow> nat \<Rightarrow> bytes" where
  "mem_bytes m p n = map (\<lambda>k. m (p + int k)) [0..<n]"

lemma length_mem_bytes [simp]: "length (mem_bytes m p n) = n"
  by (simp add: mem_bytes_def)

lemma nth_mem_bytes [simp]: "k < n \<Longrightarrow> mem_bytes m p n ! k = m (p + int k)"
  by (simp add: mem_bytes_def)

lemma mem_bytes_0 [simp]: "mem_bytes m p 0 = []"
  by (simp add: mem_bytes_def)

lemma mem_bytes_add: "mem_bytes m p (a + b) = mem_bytes m p a @ mem_bytes m (p + int a) b"
  by (rule nth_equalityI) (auto simp: nth_append algebra_simps)

section \<open>Counting common bytes\<close>

definition builtin_ctz :: "u32 \<Rightarrow> nat" where
  "builtin_ctz v = length (takeWhile (\<lambda>i. \<not> bit v i) [0..<32])"

definition LZ4_NbCommonBytes :: "u32 \<Rightarrow> nat" where
  "LZ4_NbCommonBytes val = builtin_ctz val div 8"

text \<open>
  The loop over machine words and the two tail tests; the first word is compared ahead of
  the loop. \<open>pStart\<close> is where the count began.
\<close>

function LZ4_count_from :: "memory \<Rightarrow> int \<Rightarrow> int \<Rightarrow> int \<Rightarrow> int \<Rightarrow> nat" where
  "LZ4_count_from m pStart pIn pMatch pInLimit =
     (if pIn < pInLimit - 3 then
        let diff = LZ4_read32 m pMatch XOR LZ4_read32 m pIn
        in if diff = 0 then LZ4_count_from m pStart (pIn + 4) (pMatch + 4) pInLimit
           else nat (pIn + int (LZ4_NbCommonBytes diff) - pStart)
      else
        let two = (pIn < pInLimit - 1 \<and> LZ4_read16 m pMatch = LZ4_read16 m pIn);
            pIn1 = (if two then pIn + 2 else pIn);
            pMatch1 = (if two then pMatch + 2 else pMatch);
            pIn2 = (if pIn1 < pInLimit \<and> m pMatch1 = m pIn1 then pIn1 + 1 else pIn1)
        in nat (pIn2 - pStart))"
  by pat_completeness auto
termination by (relation "measure (\<lambda>(m, s, pIn, q, lim). nat (lim - pIn))") auto

declare LZ4_count_from.simps [simp del]

definition LZ4_count :: "memory \<Rightarrow> int \<Rightarrow> int \<Rightarrow> int \<Rightarrow> nat" where
  "LZ4_count m pIn pMatch pInLimit =
     (if pIn < pInLimit - 3 then
        let diff = LZ4_read32 m pMatch XOR LZ4_read32 m pIn
        in if diff = 0 then LZ4_count_from m pIn (pIn + 4) (pMatch + 4) pInLimit
           else LZ4_NbCommonBytes diff
      else LZ4_count_from m pIn pIn pMatch pInLimit)"

text \<open>The reference: compare byte by byte.\<close>

fun common_bytes :: "memory \<Rightarrow> int \<Rightarrow> int \<Rightarrow> nat \<Rightarrow> nat" where
  "common_bytes m p q 0 = 0"
| "common_bytes m p q (Suc n) = (if m p = m q then Suc (common_bytes m (p + 1) (q + 1) n) else 0)"

lemma common_bytes_le: "common_bytes m p q n \<le> n"
  by (induction m p q n rule: common_bytes.induct) auto

lemma common_bytes_eq: "k < common_bytes m p q n \<Longrightarrow> m (p + int k) = m (q + int k)"
proof (induction m p q n arbitrary: k rule: common_bytes.induct)
  case (2 m p q n)
  then show ?case by (cases k) (auto split: if_splits simp: algebra_simps)
qed simp

section \<open>The word-wise count is the byte-wise count\<close>

lemma LZ4F_readLE32_or:
  "LZ4F_readLE32 [a, b, c, d] =
     ucast a OR push_bit 8 (ucast b) OR push_bit 16 (ucast c) OR push_bit 24 (ucast d)"
proof -
  have 1: "ucast a + push_bit 8 (ucast b) = (ucast a OR push_bit 8 (ucast b) :: u32)"
    by (rule disjunctive_add) (auto simp: bit_simps dest: bit_imp_le_length)
  have 2: "(ucast a OR push_bit 8 (ucast b)) + push_bit 16 (ucast c)
    = (ucast a OR push_bit 8 (ucast b) OR push_bit 16 (ucast c) :: u32)"
    by (subst disjunctive_add) (auto simp: bit_simps or.assoc dest: bit_imp_le_length)
  have 3: "(ucast a OR push_bit 8 (ucast b) OR push_bit 16 (ucast c)) + push_bit 24 (ucast d)
    = (ucast a OR push_bit 8 (ucast b) OR push_bit 16 (ucast c) OR push_bit 24 (ucast d) :: u32)"
    by (subst disjunctive_add) (auto simp: bit_simps or.assoc dest: bit_imp_le_length)
  show ?thesis by (simp add: LZ4F_readLE32_def 1 2 3)
qed

lemma bit_read32:
  assumes "k < 4" and "i < 8"
  shows "bit (LZ4_read32 m p) (8 * k + i) = bit (m (p + int k)) i"
proof -
  have *: "\<not> bit (x :: u8) n" if "8 \<le> n" for x n using that by (auto dest: bit_imp_le_length)
  have "k = 0 \<or> k = 1 \<or> k = 2 \<or> k = 3" using assms by auto
  then show ?thesis
    using assms by (elim disjE) (auto simp: LZ4_read32_def LZ4F_readLE32_or bit_simps *)
qed

lemma byte_eq_bits: "x = y \<longleftrightarrow> (\<forall>i<8. bit (x :: u8) i = bit y i)"
  by (auto intro: bit_word_eqI)

lemma builtin_ctz_eq:
  assumes "bit v i" and "\<And>j. j < i \<Longrightarrow> \<not> bit v j" and "i < 32"
  shows "builtin_ctz v = i"
proof -
  have "[0..<32] = [0..<i] @ i # [Suc i..<32]"
    using assms(3) upt_add_eq_append [of 0 i "32 - i"] by (simp add: upt_conv_Cons)
  moreover have "takeWhile (\<lambda>i. \<not> bit v i) ([0..<i] @ i # [Suc i..<32]) = [0..<i]"
    using assms by (subst takeWhile_append2) auto
  ultimately show ?thesis by (simp add: builtin_ctz_def)
qed

lemma NbCommonBytes_diff:
  assumes "k < 4" and "\<And>j. j < k \<Longrightarrow> m (p + int j) = m (q + int j)"
    and "m (p + int k) \<noteq> m (q + int k)"
  shows "LZ4_NbCommonBytes (LZ4_read32 m q XOR LZ4_read32 m p) = k"
proof -
  let ?v = "LZ4_read32 m q XOR LZ4_read32 m p"
  let ?P = "\<lambda>i. i < 8 \<and> bit (m (p + int k)) i \<noteq> bit (m (q + int k)) i"
  obtain i where "?P i" using assms(3) byte_eq_bits [of "m (p + int k)"] by auto
  define i where "i = (LEAST i. ?P i)"
  have i: "?P i" unfolding i_def by (rule LeastI) (rule \<open>?P _\<close>)
  have least: "\<not> ?P j" if "j < i" for j using that unfolding i_def by (rule not_less_Least)
  have "builtin_ctz ?v = 8 * k + i"
  proof (rule builtin_ctz_eq)
    show "bit ?v (8 * k + i)"
      using i assms(1) bit_read32 [of k i m p] bit_read32 [of k i m q] by (auto simp: bit_xor_iff)
    show "8 * k + i < 32" using assms(1) i by auto
    fix j assume "j < 8 * k + i"
    have "bit (LZ4_read32 m p) (8 * (j div 8) + j mod 8) = bit (LZ4_read32 m q) (8 * (j div 8) + j mod 8)"
    proof (cases "j div 8 < k")
      case True
      then show ?thesis using assms(1) assms(2) [of "j div 8"]
        by (simp only: bit_read32 less_trans [of _ k 4])
    next
      case False
      moreover have "i < 8" using i by simp
      ultimately have "j < 8 * Suc k" using \<open>j < 8 * k + i\<close> by simp
      then have "j div 8 < Suc k" by (simp add: div_less_iff_less_mult mult.commute)
      with False have jk: "j div 8 = k" by simp
      moreover have "8 * (j div 8) + j mod 8 = j" by simp
      ultimately have "j mod 8 < i" using \<open>j < 8 * k + i\<close> by linarith
      from jk this show ?thesis using assms(1) least [of "j mod 8"] i by (simp only: bit_read32) (auto simp: bit_read32)
    qed
    then show "\<not> bit ?v j" by (simp add: bit_xor_iff)
  qed
  with i show ?thesis by (simp add: LZ4_NbCommonBytes_def)
qed

lemma LZ4_read32_eq:
  "LZ4_read32 m p = LZ4_read32 m q \<longleftrightarrow> (\<forall>k<4. m (p + int k) = m (q + int k))"
proof
  assume eq: "LZ4_read32 m p = LZ4_read32 m q"
  show "\<forall>k<4. m (p + int k) = m (q + int k)"
    unfolding byte_eq_bits
  proof (intro allI impI)
    fix k i :: nat assume "k < 4" "i < 8"
    then show "bit (m (p + int k)) i = bit (m (q + int k)) i"
      using bit_read32 [of k i m p] bit_read32 [of k i m q] eq by simp
  qed
next
  assume eq: "\<forall>k<4. m (p + int k) = m (q + int k)"
  have "[m p, m (p + 1), m (p + 2), m (p + 3)] = [m q, m (q + 1), m (q + 2), m (q + 3)]"
    using spec [OF eq, of 0] spec [OF eq, of 1] spec [OF eq, of 2] spec [OF eq, of 3] by simp
  then show "LZ4_read32 m p = LZ4_read32 m q" by (simp add: LZ4_read32_def)
qed

lemma LZ4_readLE16_inject: "LZ4_readLE16 [a, b] = LZ4_readLE16 [c, d] \<longleftrightarrow> a = c \<and> b = d"
proof -
  have wr: "LZ4_writeLE16 (LZ4_readLE16 [a, b]) = [a, b]" for a b :: u8
  proof -
    have *: "ucast a + push_bit 8 (ucast b) = (ucast a OR push_bit 8 (ucast b) :: u16)"
      by (rule disjunctive_add) (auto simp: bit_simps dest: bit_imp_le_length)
    have "\<not> bit a (8 + n)" for n using bit_imp_le_length [of a "8 + n"] by auto
    then show ?thesis
      unfolding LZ4_readLE16_def LZ4_writeLE16_def
      by (auto simp: * bit_simps dest: bit_imp_le_length intro!: bit_word_eqI)
  qed
  show ?thesis by (metis wr list.inject)
qed

lemma LZ4_read16_eq:
  "LZ4_read16 m p = LZ4_read16 m q \<longleftrightarrow> m p = m q \<and> m (p + 1) = m (q + 1)"
  by (simp add: LZ4_read16_def LZ4_readLE16_inject)

lemma common_bytes_equal:
  assumes "k \<le> n" and "\<forall>j<k. m (p + int j) = m (q + int j)"
  shows "common_bytes m p q n = k + common_bytes m (p + int k) (q + int k) (n - k)"
  using assms
proof (induction k arbitrary: p q n)
  case (Suc k)
  then obtain n' where n: "n = Suc n'" by (cases n) auto
  have "\<forall>j<k. m (p + 1 + int j) = m (q + 1 + int j)"
    using Suc.prems(2) by (auto dest: spec [of _ "Suc _"] simp: algebra_simps)
  moreover have "m p = m q" using Suc.prems(2) by (auto dest: spec [of _ 0])
  ultimately show ?case
    using Suc.IH [of n' "p + 1" "q + 1"] Suc.prems(1) n by (simp add: algebra_simps)
qed simp

lemma common_bytes_differ:
  assumes "k < n" and "\<forall>j<k. m (p + int j) = m (q + int j)" and "m (p + int k) \<noteq> m (q + int k)"
  shows "common_bytes m p q n = k"
proof -
  obtain n' where "n - k = Suc n'" using assms(1) by (cases "n - k") auto
  then show ?thesis using common_bytes_equal [of k n m p q] assms by simp
qed

lemma word_differs:
  assumes "LZ4_read32 m q XOR LZ4_read32 m p \<noteq> 0" and "4 \<le> n"
  shows "LZ4_NbCommonBytes (LZ4_read32 m q XOR LZ4_read32 m p) = common_bytes m p q n"
proof -
  let ?P = "\<lambda>k. k < 4 \<and> m (p + int k) \<noteq> m (q + int k)"
  have "LZ4_read32 m q \<noteq> LZ4_read32 m p" using assms(1) by auto
  then have ex: "\<exists>k. ?P k" by (auto simp: LZ4_read32_eq)
  define k where "k = (LEAST k. ?P k)"
  have k: "?P k" unfolding k_def by (rule LeastI_ex [OF ex])
  have least: "m (p + int j) = m (q + int j)" if "j < k" for j
    using not_less_Least [of j ?P] that k unfolding k_def [symmetric] by auto
  show ?thesis
    using NbCommonBytes_diff [of k m p q] common_bytes_differ [of k n m p q] k least assms(2) by simp
qed

lemma xor_eq_zero: "(a :: u32) XOR b = 0 \<longleftrightarrow> a = b"
proof
  assume "a XOR b = 0"
  then have "\<not> bit (a XOR b) n" for n by simp
  then show "a = b" by (intro bit_word_eqI) (simp add: bit_xor_iff)
qed simp

lemma word_equal:
  assumes "LZ4_read32 m q XOR LZ4_read32 m p = 0" and "4 \<le> n"
  shows "common_bytes m p q n = 4 + common_bytes m (p + 4) (q + 4) (n - 4)"
proof -
  have "LZ4_read32 m p = LZ4_read32 m q" using assms(1) by (simp add: xor_eq_zero)
  then show ?thesis
    using common_bytes_equal [of 4 n m p q] assms(2) by (simp add: LZ4_read32_eq)
qed

lemma LZ4_count_from_eq:
  assumes "pStart \<le> pIn"
  shows "LZ4_count_from m pStart pIn pMatch pInLimit
    = nat (pIn - pStart) + common_bytes m pIn pMatch (nat (pInLimit - pIn))"
  using assms
proof (induction m pStart pIn pMatch pInLimit rule: LZ4_count_from.induct)
  case (1 m pStart pIn pMatch pInLimit)
  let ?diff = "LZ4_read32 m pMatch XOR LZ4_read32 m pIn"
  consider (words) "pIn < pInLimit - 3" | (three) "pIn = pInLimit - 3" | (two) "pIn = pInLimit - 2"
    | (one) "pIn = pInLimit - 1" | (none) "pInLimit \<le> pIn"
    by linarith
  then show ?case
  proof cases
    case words
    then have four: "4 \<le> nat (pInLimit - pIn)" by simp
    show ?thesis
    proof (cases "?diff = 0")
      case True
      have "nat (pInLimit - pIn) - 4 = nat (pInLimit - (pIn + 4))" by simp
      with True words 1 word_equal [OF True four] show ?thesis
        by (simp add: LZ4_count_from.simps [of m pStart pIn] Let_def)
    next
      case False
      with words 1 word_differs [OF False four] show ?thesis
        by (simp add: LZ4_count_from.simps [of m pStart pIn] Let_def)
    qed
  next
    case three
    then have "nat (pInLimit - pIn) = 3" by simp
    with three 1 show ?thesis
      unfolding LZ4_count_from.simps [of m pStart pIn pMatch pInLimit]
      by (auto simp: Let_def LZ4_read16_eq numeral_eq_Suc nat_diff_distrib' add.commute)
        (auto simp: nat_eq_iff Suc_nat_eq_nat_zadd1 add.commute)?
  next
    case two
    then have "nat (pInLimit - pIn) = 2" by simp
    with two 1 show ?thesis
      unfolding LZ4_count_from.simps [of m pStart pIn pMatch pInLimit]
      by (auto simp: Let_def LZ4_read16_eq numeral_eq_Suc nat_diff_distrib')
  next
    case one
    then have "nat (pInLimit - pIn) = 1" by simp
    with one 1 show ?thesis
      unfolding LZ4_count_from.simps [of m pStart pIn pMatch pInLimit]
      by (auto simp: Let_def LZ4_read16_eq numeral_eq_Suc nat_diff_distrib')
  next
    case none
    with 1 show ?thesis by (simp add: LZ4_count_from.simps [of m pStart pIn] Let_def)
  qed
qed

lemma LZ4_count_eq:
  "LZ4_count m pIn pMatch pInLimit = common_bytes m pIn pMatch (nat (pInLimit - pIn))"
proof (cases "pIn < pInLimit - 3")
  case True
  then have four: "4 \<le> nat (pInLimit - pIn)" by simp
  have *: "nat (pInLimit - pIn) - 4 = nat (pInLimit - (pIn + 4))" by simp
  show ?thesis
    using True word_equal [OF _ four, of m pMatch] word_differs [OF _ four, of m pMatch] *
    by (auto simp: LZ4_count_def Let_def LZ4_count_from_eq)
qed (simp add: LZ4_count_def LZ4_count_from_eq)

section \<open>Hashing\<close>

definition LZ4_HASHLOG :: nat where
  "LZ4_HASHLOG = 12"

definition LZ4_hash4 :: "u32 \<Rightarrow> u32" where
  "LZ4_hash4 sequence = drop_bit (32 - LZ4_HASHLOG) (sequence * 2654435761)"

definition LZ4_hashPosition :: "memory \<Rightarrow> int \<Rightarrow> u32" where
  "LZ4_hashPosition m p = LZ4_hash4 (LZ4_read32 m p)"

lemma unat_hash4: "unat (LZ4_hash4 s) < 2 ^ LZ4_HASHLOG"
  by (simp add: LZ4_hash4_def LZ4_HASHLOG_def drop_bit_eq_div unat_div_distrib less_mult_imp_div_less)

section \<open>Catching up\<close>

text \<open>\<open>while (((ip>anchor) & (match > lowLimit)) && (ip[-1]==match[-1])) { ip--; match--; }\<close>\<close>

function LZ4_catch_up :: "memory \<Rightarrow> int \<Rightarrow> int \<Rightarrow> int \<Rightarrow> int \<Rightarrow> int \<times> int" where
  "LZ4_catch_up m anchor lowLimit ip match =
     (if ip > anchor \<and> match > lowLimit \<and> m (ip - 1) = m (match - 1)
      then LZ4_catch_up m anchor lowLimit (ip - 1) (match - 1) else (ip, match))"
  by pat_completeness auto
termination by (relation "measure (\<lambda>(m, anchor, lowLimit, ip, match). nat (ip - anchor))") auto

declare LZ4_catch_up.simps [simp del]

text \<open>How far the loop steps back.\<close>

lemma LZ4_catch_up_steps:
  assumes "anchor \<le> ip" and "lowLimit \<le> match"
  shows "\<exists>k. LZ4_catch_up m anchor lowLimit ip match = (ip - int k, match - int k)
    \<and> anchor \<le> ip - int k \<and> lowLimit \<le> match - int k
    \<and> (\<forall>j<k. m (ip - int k + int j) = m (match - int k + int j))"
  using assms
proof (induction m anchor lowLimit ip match rule: LZ4_catch_up.induct)
  case (1 m anchor lowLimit ip match)
  show ?case
  proof (cases "ip > anchor \<and> match > lowLimit \<and> m (ip - 1) = m (match - 1)")
    case True
    with 1 obtain k where k: "LZ4_catch_up m anchor lowLimit (ip - 1) (match - 1) = (ip - 1 - int k, match - 1 - int k)"
      "anchor \<le> ip - 1 - int k" "lowLimit \<le> match - 1 - int k"
      "\<forall>j<k. m (ip - 1 - int k + int j) = m (match - 1 - int k + int j)"
      by auto
    have "m (ip - int (Suc k) + int j) = m (match - int (Suc k) + int j)" if "j < Suc k" for j
      using that k(4) True by (cases "j = k") (auto simp: algebra_simps)
    with True k show ?thesis
      by (intro exI [of _ "Suc k"]) (auto simp: LZ4_catch_up.simps [of m anchor lowLimit ip match] algebra_simps)
  next
    case False
    with "1.prems" show ?thesis
      by (intro exI [of _ 0]) (auto simp: LZ4_catch_up.simps [of m anchor lowLimit ip match])
  qed
qed

end
