(* ===== verification/Lz4_Compress.thy ===== *)
theory Lz4_Compress
  imports Lz4_Match
begin

text \<open>
  The block compressor \<open>LZ4_compress_generic_validated\<close> of \<open>lz4.c\<close>, in the instances the
  streaming interface reaches: table type \<open>byU32\<close>, output directive \<open>limitedOutput\<close>, the
  dictionary either directly before the source (\<open>withPrefix64k\<close>) or elsewhere in memory
  (\<open>usingExtDict\<close>), with and without the check for small dictionaries.

  Pointers are integers, indexes are 32-bit words as in the code. The output is the list of
  bytes from \<open>dest\<close> to \<open>op\<close>; \<open>v_top\<close> is one past the highest position written so far,
  which the wild copies and the four-byte fills push beyond \<open>op\<close>.
\<close>

section \<open>The constants of one call\<close>

datatype dict_directive = noDict | withPrefix64k | usingExtDict | usingDictCtx

datatype dictIssue_directive = noDictIssue | dictSmall

record lz4_call =
  c_source :: int
  c_inputSize :: nat
  c_maxOutputSize :: nat
  c_startIndex :: u32
  c_dictionary :: int
  c_dictSize :: u32
  c_dictDirective :: dict_directive
  c_dictIssue :: dictIssue_directive
  c_acceleration :: nat

definition c_base :: "lz4_call \<Rightarrow> int" where
  "c_base c = c_source c - uint (c_startIndex c)"

definition c_prefixIdxLimit :: "lz4_call \<Rightarrow> u32" where
  "c_prefixIdxLimit c = c_startIndex c - c_dictSize c"

definition c_dictEnd :: "lz4_call \<Rightarrow> int" where
  "c_dictEnd c = (if c_dictionary c \<noteq> 0 then c_dictionary c + uint (c_dictSize c) else c_dictionary c)"

definition c_dictBase :: "lz4_call \<Rightarrow> int" where
  "c_dictBase c =
     (if c_dictionary c = 0 then 0 else c_dictionary c + uint (c_dictSize c) - uint (c_startIndex c))"

definition c_iend :: "lz4_call \<Rightarrow> int" where
  "c_iend c = c_source c + int (c_inputSize c)"

definition c_mflimitPlusOne :: "lz4_call \<Rightarrow> int" where
  "c_mflimitPlusOne c = c_iend c - 12 + 1"

definition c_matchlimit :: "lz4_call \<Rightarrow> int" where
  "c_matchlimit c = c_iend c - 5"

definition c_lowLimit :: "lz4_call \<Rightarrow> int" where
  "c_lowLimit c = c_source c - (if c_dictDirective c = withPrefix64k then uint (c_dictSize c) else 0)"

type_synonym hash_table = "u32 \<Rightarrow> u32"

definition LZ4_putIndexOnHash :: "u32 \<Rightarrow> u32 \<Rightarrow> hash_table \<Rightarrow> hash_table" where
  "LZ4_putIndexOnHash idx h tbl = tbl(h := idx)"

definition LZ4_getIndexOnHash :: "u32 \<Rightarrow> hash_table \<Rightarrow> u32" where
  "LZ4_getIndexOnHash h tbl = tbl h"

definition LZ4_putPositionOnHash :: "int \<Rightarrow> u32 \<Rightarrow> hash_table \<Rightarrow> int \<Rightarrow> hash_table" where
  "LZ4_putPositionOnHash p h tbl srcBase = tbl(h := word_of_int (p - srcBase))"

definition LZ4_putPosition :: "memory \<Rightarrow> int \<Rightarrow> hash_table \<Rightarrow> int \<Rightarrow> hash_table" where
  "LZ4_putPosition m p tbl srcBase = LZ4_putPositionOnHash p (LZ4_hashPosition m p) tbl srcBase"

section \<open>The variables of the main loop\<close>

record lz4_vars =
  v_table :: hash_table
  v_ip :: int
  v_anchor :: int
  v_match :: int
  v_lowLimit :: int
  v_offset :: u32
  v_token :: nat
  v_out :: bytes
  v_top :: nat

text \<open>Where control is: at the top of the main loop with \<open>forwardH\<close> loaded, or at \<open>_next_match\<close>.\<close>

datatype lz4_label = Main_Loop u32 | Next_Match

datatype lz4_goto = Goto lz4_label lz4_vars | Last_Literals lz4_vars | Return_0 lz4_vars

section \<open>Finding a match\<close>

text \<open>The candidate for an index: where to compare, and how far back a match may reach.\<close>

definition LZ4_candidate :: "lz4_call \<Rightarrow> u32 \<Rightarrow> int \<times> int" where
  "LZ4_candidate c matchIndex =
     (if c_dictDirective c = usingExtDict
      then (if matchIndex < c_startIndex c then (c_dictBase c + uint matchIndex, c_dictionary c)
            else (c_base c + uint matchIndex, c_source c))
      else (c_base c + uint matchIndex, c_lowLimit c))"

definition LZ4_rejected :: "memory \<Rightarrow> lz4_call \<Rightarrow> u32 \<Rightarrow> u32 \<Rightarrow> int \<Rightarrow> int \<Rightarrow> bool" where
  "LZ4_rejected m c matchIndex current match ip \<longleftrightarrow>
     (c_dictIssue c = dictSmall \<and> matchIndex < c_prefixIdxLimit c)
     \<or> matchIndex + 65535 < current
     \<or> LZ4_read32 m match \<noteq> LZ4_read32 m ip"

text \<open>
  The search loop. \<open>None\<close> is its jump to \<open>_last_literals\<close>; otherwise it leaves \<open>ip\<close>,
  \<open>match\<close>, \<open>lowLimit\<close> and \<open>offset\<close>. The table is updated in both cases.
\<close>

function LZ4_find_match ::
  "memory \<Rightarrow> lz4_call \<Rightarrow> hash_table \<Rightarrow> u32 \<Rightarrow> int \<Rightarrow> nat \<Rightarrow> nat
     \<Rightarrow> hash_table \<times> (int \<times> int \<times> int \<times> u32) option" where
  "LZ4_find_match m c tbl forwardH forwardIp step searchMatchNb =
     (let h = forwardH;
          current = word_of_int (forwardIp - c_base c);
          matchIndex = LZ4_getIndexOnHash h tbl;
          ip = forwardIp;
          forwardIp1 = forwardIp + int step;
          step1 = searchMatchNb div 64
      in if forwardIp1 > c_mflimitPlusOne c then (tbl, None)
         else
           let (match, lowLimit) = LZ4_candidate c matchIndex;
               forwardH1 = LZ4_hashPosition m forwardIp1;
               tbl1 = LZ4_putIndexOnHash current h tbl
           in if LZ4_rejected m c matchIndex current match ip
              then LZ4_find_match m c tbl1 forwardH1 forwardIp1 step1 (Suc searchMatchNb)
              else (tbl1, Some (ip, match, lowLimit, current - matchIndex)))"
  by pat_completeness auto
termination
  by (relation "measures [\<lambda>(m, c, t, h, f, s, n). nat (c_mflimitPlusOne c + 1 - f),
      \<lambda>(m, c, t, h, f, s, n). if s = 0 then 1 + (64 - n) else 0]") (auto split: if_splits)

declare LZ4_find_match.simps [simp del]

section \<open>Encoding\<close>

text \<open>\<open>for(; len >= 255 ; len-=255) *op++ = 255; *op++ = (BYTE)len;\<close>\<close>

fun LZ4_write_length :: "nat \<Rightarrow> bytes" where
  "LZ4_write_length len = (if len \<ge> 255 then 255 # LZ4_write_length (len - 255) else [of_nat len])"

declare LZ4_write_length.simps [simp del]

text \<open>
  The highest position \<open>LZ4_wildCopy8\<close> writes when it copies \<open>n\<close> bytes to \<open>d\<close>: whole groups
  of eight, and at least one.
\<close>

definition LZ4_wildCopy8_end :: "nat \<Rightarrow> nat \<Rightarrow> nat" where
  "LZ4_wildCopy8_end d n = d + 8 * max 1 ((n + 7) div 8)"

text \<open>From the match found to \<open>_next_match\<close>: catch up, then the token and the literals.\<close>

definition LZ4_encode_literals :: "memory \<Rightarrow> lz4_call \<Rightarrow> lz4_vars \<Rightarrow> lz4_goto" where
  "LZ4_encode_literals m c v =
     (let (ip, match) = LZ4_catch_up m (v_anchor v) (v_lowLimit v) (v_ip v) (v_match v);
          v1 = v\<lparr>v_ip := ip, v_match := match\<rparr>;
          litLength = nat (ip - v_anchor v);
          token = length (v_out v);
          op = token + 1
      in if op + litLength + (2 + 1 + 5) + litLength div 255 > c_maxOutputSize c then Return_0 v1
         else
           let head = (if litLength \<ge> 15
                       then push_bit 4 15 # LZ4_write_length (litLength - 15)
                       else [push_bit 4 (of_nat litLength)]);
               out1 = v_out v @ head;
               out2 = out1 @ mem_bytes m (v_anchor v) litLength
           in Goto Next_Match
                (v1\<lparr>v_token := token, v_out := out2,
                     v_top := max (v_top v) (LZ4_wildCopy8_end (length out1) litLength)\<rparr>))"

definition LZ4_search :: "memory \<Rightarrow> lz4_call \<Rightarrow> u32 \<Rightarrow> lz4_vars \<Rightarrow> lz4_goto" where
  "LZ4_search m c forwardH v =
     (case LZ4_find_match m c (v_table v) forwardH (v_ip v) 1 (64 * c_acceleration c) of
        (tbl, None) \<Rightarrow> Last_Literals (v\<lparr>v_table := tbl\<rparr>)
      | (tbl, Some (ip, match, lowLimit, dist)) \<Rightarrow>
          LZ4_encode_literals m c
            (v\<lparr>v_table := tbl, v_ip := ip, v_match := match, v_lowLimit := lowLimit,
                v_offset := (if c_dictDirective c = usingExtDict then dist else v_offset v)\<rparr>))"

text \<open>The length of the match beyond its first four bytes, and where it ends.\<close>

definition LZ4_match_length :: "memory \<Rightarrow> lz4_call \<Rightarrow> lz4_vars \<Rightarrow> nat \<times> int" where
  "LZ4_match_length m c v =
     (let ip = v_ip v; match = v_match v in
      if c_dictDirective c = usingExtDict \<and> v_lowLimit v = c_dictionary c
      then
        let limit0 = ip + (c_dictEnd c - match);
            limit = (if limit0 > c_matchlimit c then c_matchlimit c else limit0);
            matchCode = LZ4_count m (ip + 4) (match + 4) limit;
            ip1 = ip + int matchCode + 4
        in if ip1 = limit
           then let more = LZ4_count m limit (c_source c) (c_matchlimit c)
                in (matchCode + more, ip1 + int more)
           else (matchCode, ip1)
      else
        let matchCode = LZ4_count m (ip + 4) (match + 4) (c_matchlimit c)
        in (matchCode, ip + int matchCode + 4))"

text \<open>
  The length bytes of a match, for \<open>matchCode\<close> less \<open>ML_MASK\<close>: four bytes of 255 are written
  at \<open>op\<close>, and again for every 1020 of the length, then \<open>op\<close> moves on and the last byte is
  the remainder. The second component is where the last fill ends.
\<close>

fun LZ4_match_fill :: "nat \<Rightarrow> nat \<Rightarrow> nat \<times> nat" where
  "LZ4_match_fill op matchCode =
     (if matchCode \<ge> 4 * 255 then LZ4_match_fill (op + 4) (matchCode - 4 * 255) else (op, matchCode))"

declare LZ4_match_fill.simps [simp del]

definition LZ4_encode_length :: "nat \<Rightarrow> lz4_vars \<Rightarrow> lz4_vars" where
  "LZ4_encode_length matchCode v =
     (let tok = v_out v ! v_token v in
      if matchCode \<ge> 15
      then
        let op = length (v_out v);
            (op1, rest) = LZ4_match_fill op (matchCode - 15);
            op2 = op1 + rest div 255;
            out1 = (v_out v)[v_token v := tok + 15]
        in v\<lparr>v_out := out1 @ replicate (op2 - op) 255 @ [of_nat (rest mod 255)],
              v_top := max (v_top v) (max (op1 + 4) (op2 + 1))\<rparr>
      else v\<lparr>v_out := (v_out v)[v_token v := tok + of_nat matchCode]\<rparr>)"

text \<open>After a match: fill the table, and see whether the next position matches at once.\<close>

definition LZ4_test_next :: "memory \<Rightarrow> lz4_call \<Rightarrow> lz4_vars \<Rightarrow> lz4_goto" where
  "LZ4_test_next m c v =
     (let ip = v_ip v;
          tbl = LZ4_putPosition m (ip - 2) (v_table v) (c_base c);
          h = LZ4_hashPosition m ip;
          current = word_of_int (ip - c_base c);
          matchIndex = LZ4_getIndexOnHash h tbl;
          (match, lowLimit) = LZ4_candidate c matchIndex;
          v1 = v\<lparr>v_table := LZ4_putIndexOnHash current h tbl, v_match := match, v_lowLimit := lowLimit\<rparr>
      in if (c_dictIssue c = dictSmall \<longrightarrow> matchIndex \<ge> c_prefixIdxLimit c)
           \<and> matchIndex + 65535 \<ge> current \<and> LZ4_read32 m match = LZ4_read32 m ip
         then Goto Next_Match
                (v1\<lparr>v_token := length (v_out v), v_out := v_out v @ [0],
                     v_top := max (v_top v) (length (v_out v) + 1),
                     v_offset := (if c_dictDirective c = usingExtDict then current - matchIndex
                                  else v_offset v)\<rparr>)
         else Goto (Main_Loop (LZ4_hashPosition m (ip + 1))) (v1\<lparr>v_ip := ip + 1\<rparr>))"

definition LZ4_encode_offset :: "lz4_call \<Rightarrow> lz4_vars \<Rightarrow> lz4_vars" where
  "LZ4_encode_offset c v =
     (let offset = (if c_dictDirective c = usingExtDict then ucast (v_offset v)
                    else word_of_int (v_ip v - v_match v));
          out1 = v_out v @ LZ4_writeLE16 offset
      in v\<lparr>v_out := out1, v_top := max (v_top v) (length out1)\<rparr>)"

definition LZ4_next_match :: "memory \<Rightarrow> lz4_call \<Rightarrow> lz4_vars \<Rightarrow> lz4_goto" where
  "LZ4_next_match m c v =
     (let v0 = LZ4_encode_offset c v;
          (matchCode, ip) = LZ4_match_length m c v0;
          v1 = v0\<lparr>v_ip := ip\<rparr>
      in if length (v_out v1) + (1 + 5) + (matchCode + 240) div 255 > c_maxOutputSize c then Return_0 v1
         else
           let v2 = (LZ4_encode_length matchCode v1)\<lparr>v_anchor := ip\<rparr>
           in if ip \<ge> c_mflimitPlusOne c then Last_Literals v2
              else LZ4_test_next m c v2)"

section \<open>The main loop and the last literals\<close>

fun LZ4_step :: "memory \<Rightarrow> lz4_call \<Rightarrow> lz4_label \<Rightarrow> lz4_vars \<Rightarrow> lz4_goto" where
  "LZ4_step m c (Main_Loop forwardH) v = LZ4_search m c forwardH v"
| "LZ4_step m c Next_Match v = LZ4_next_match m c v"

definition LZ4_last_literals :: "memory \<Rightarrow> lz4_call \<Rightarrow> lz4_vars \<Rightarrow> nat \<times> lz4_vars" where
  "LZ4_last_literals m c v =
     (let lastRun = nat (c_iend c - v_anchor v) in
      if length (v_out v) + lastRun + 1 + (lastRun + 255 - 15) div 255 > c_maxOutputSize c then (0, v)
      else
        let head = (if lastRun \<ge> 15 then push_bit 4 15 # LZ4_write_length (lastRun - 15)
                    else [push_bit 4 (of_nat lastRun)]);
            out1 = v_out v @ head @ mem_bytes m (v_anchor v) lastRun
        in (length out1, v\<lparr>v_out := out1, v_top := max (v_top v) (length out1)\<rparr>))"

text \<open>Each part of an iteration moves forward, which ends the main loop.\<close>

lemma LZ4_find_match_ip:
  "LZ4_find_match m c tbl forwardH forwardIp step nb = (tbl', Some (ip, match, low, d)) \<Longrightarrow> forwardIp \<le> ip"
proof (induction m c tbl forwardH forwardIp step nb rule: LZ4_find_match.induct)
  case (1 m c tbl forwardH forwardIp step nb)
  from "1.prems" show ?case
    unfolding LZ4_find_match.simps [of m c tbl forwardH forwardIp step nb]
    by (auto simp: Let_def split: if_splits prod.splits dest!: "1.IH" [OF refl refl refl refl refl refl])
qed

lemma LZ4_catch_up_ip: "fst (LZ4_catch_up m anchor low ip match) \<ge> min anchor ip"
proof (induction m anchor low ip match rule: LZ4_catch_up.induct)
  case (1 m anchor low ip match)
  then show ?case by (auto simp: LZ4_catch_up.simps [of m anchor low ip match])
qed

lemma LZ4_match_length_ip: "LZ4_match_length m c v = (n, ip) \<Longrightarrow> v_ip v + 4 \<le> ip"
  by (auto simp: LZ4_match_length_def Let_def split: if_splits)

lemma LZ4_encode_length_ip [simp]: "v_ip (LZ4_encode_length n v) = v_ip v"
  by (simp add: LZ4_encode_length_def Let_def split: prod.splits)

lemma LZ4_search_goto:
  assumes "LZ4_search m c h v = Goto l w"
  shows "l = Next_Match \<and> min (v_anchor v) (v_ip v) \<le> v_ip w"
proof -
  obtain tbl ip match low d where f: "LZ4_find_match m c (v_table v) h (v_ip v) 1 (64 * c_acceleration c)
      = (tbl, Some (ip, match, low, d))"
    using assms by (auto simp: LZ4_search_def split: prod.splits option.splits)
  obtain ip' match' where k: "LZ4_catch_up m (v_anchor v) low ip match = (ip', match')" by fastforce
  have "l = Next_Match \<and> v_ip w = ip'"
    using assms f k by (auto simp: LZ4_search_def LZ4_encode_literals_def Let_def split: if_splits)
  with LZ4_find_match_ip [OF f] LZ4_catch_up_ip [of "v_anchor v" ip m low match] k show ?thesis by auto
qed

lemma LZ4_test_next_goto:
  assumes "LZ4_test_next m c v = Goto l w"
  shows "(l = Next_Match \<and> v_ip w = v_ip v) \<or> (\<exists>h. l = Main_Loop h \<and> v_ip w = v_ip v + 1 \<and> v_anchor w = v_anchor v)"
  using assms by (auto simp: LZ4_test_next_def Let_def split: if_splits prod.splits)

lemma LZ4_next_match_goto:
  assumes "LZ4_next_match m c v = Goto l w"
  shows "\<exists>e. v_ip v + 4 \<le> e \<and> e < c_iend c \<and> e \<le> v_ip w
    \<and> (l = Next_Match \<or> (\<exists>h. l = Main_Loop h \<and> v_anchor w = e))"
proof -
  obtain n e where me: "LZ4_match_length m c (LZ4_encode_offset c v) = (n, e)" by fastforce
  from LZ4_match_length_ip [OF me] have "v_ip v + 4 \<le> e" by (simp add: LZ4_encode_offset_def Let_def)
  with assms me show ?thesis
    by (auto simp: LZ4_next_match_def Let_def c_mflimitPlusOne_def split: if_splits dest!: LZ4_test_next_goto)
qed

function LZ4_main :: "memory \<Rightarrow> lz4_call \<Rightarrow> lz4_label \<Rightarrow> lz4_vars \<Rightarrow> nat \<times> lz4_vars" where
  "LZ4_main m c l v =
     (case LZ4_step m c l v of
        Goto l1 v1 \<Rightarrow> LZ4_main m c l1 v1
      | Last_Literals v1 \<Rightarrow> LZ4_last_literals m c v1
      | Return_0 v1 \<Rightarrow> (0, v1))"
  by pat_completeness auto

text \<open>What is left of the source, twice, and one more at the top of the loop.\<close>

fun LZ4_left :: "lz4_call \<Rightarrow> lz4_label \<Rightarrow> lz4_vars \<Rightarrow> nat" where
  "LZ4_left c (Main_Loop h) v = 2 * nat (c_iend c - min (v_anchor v) (v_ip v)) + 1"
| "LZ4_left c Next_Match v = 2 * nat (c_iend c - v_ip v)"

lemma LZ4_step_progress:
  assumes "LZ4_step m c l v = Goto l1 v1"
  shows "LZ4_left c l1 v1 < LZ4_left c l v"
proof (cases l)
  case (Main_Loop h)
  with assms show ?thesis by (auto dest!: LZ4_search_goto)
next
  case Next_Match
  with assms have "LZ4_next_match m c v = Goto l1 v1" by simp
  from LZ4_next_match_goto [OF this] show ?thesis
    using Next_Match by (cases l1) auto
qed

termination LZ4_main
  by (relation "measure (\<lambda>(m, c, l, v). LZ4_left c l v)") (auto dest: LZ4_step_progress)

declare LZ4_main.simps [simp del]

section \<open>The whole function\<close>

datatype tableType = clearedTable | byPtr | byU32 | byU16

record LZ4_stream =
  hashTable :: hash_table
  currentOffset :: u32
  tableType :: tableType
  dictionary :: int
  dictCtx :: int
  dictSize :: u32

definition LZ4_call_of ::
  "LZ4_stream \<Rightarrow> int \<Rightarrow> nat \<Rightarrow> nat \<Rightarrow> dict_directive \<Rightarrow> dictIssue_directive \<Rightarrow> nat \<Rightarrow> lz4_call" where
  "LZ4_call_of cctx source inputSize maxOutputSize dictDirective dictIssue acceleration =
     \<lparr>c_source = source, c_inputSize = inputSize, c_maxOutputSize = maxOutputSize,
      c_startIndex = currentOffset cctx, c_dictionary = dictionary cctx, c_dictSize = dictSize cctx,
      c_dictDirective = dictDirective, c_dictIssue = dictIssue, c_acceleration = acceleration\<rparr>"

definition LZ4_init_vars :: "lz4_call \<Rightarrow> hash_table \<Rightarrow> lz4_vars" where
  "LZ4_init_vars c tbl =
     \<lparr>v_table = tbl, v_ip = c_source c, v_anchor = c_source c, v_match = 0, v_lowLimit = c_lowLimit c,
      v_offset = 0, v_token = 0, v_out = [], v_top = 0\<rparr>"

text \<open>The work on one block: sources shorter than \<open>LZ4_minLength\<close> are literals only.\<close>

definition LZ4_run :: "memory \<Rightarrow> lz4_call \<Rightarrow> hash_table \<Rightarrow> nat \<times> lz4_vars" where
  "LZ4_run m c tbl =
     (let v = LZ4_init_vars c tbl in
      if c_inputSize c < 13 then LZ4_last_literals m c v
      else
        let tbl1 = LZ4_putPosition m (c_source c) tbl (c_base c);
            ip1 = c_source c + 1
        in LZ4_main m c (Main_Loop (LZ4_hashPosition m ip1)) (v\<lparr>v_table := tbl1, v_ip := ip1\<rparr>))"

record lz4_result =
  r_result :: nat
  r_out :: bytes
  r_top :: nat
  r_stream :: LZ4_stream

definition LZ4_compress_generic_validated ::
  "memory \<Rightarrow> LZ4_stream \<Rightarrow> int \<Rightarrow> nat \<Rightarrow> nat \<Rightarrow> dict_directive \<Rightarrow> dictIssue_directive \<Rightarrow> nat \<Rightarrow> lz4_result" where
  "LZ4_compress_generic_validated m cctx source inputSize maxOutputSize dictDirective dictIssue acceleration =
     (let c = LZ4_call_of cctx source inputSize maxOutputSize dictDirective dictIssue acceleration;
          cctx1 = cctx\<lparr>dictSize := dictSize cctx + of_nat inputSize,
                        currentOffset := currentOffset cctx + of_nat inputSize,
                        tableType := byU32\<rparr>;
          (result, v) = LZ4_run m c (hashTable cctx)
      in \<lparr>r_result = result, r_out = v_out v, r_top = v_top v,
          r_stream = cctx1\<lparr>hashTable := v_table v\<rparr>\<rparr>)"

definition LZ4_MAX_INPUT_SIZE :: nat where
  "LZ4_MAX_INPUT_SIZE = 2113929216"

definition LZ4_compress_generic ::
  "memory \<Rightarrow> LZ4_stream \<Rightarrow> int \<Rightarrow> nat \<Rightarrow> nat \<Rightarrow> dict_directive \<Rightarrow> dictIssue_directive \<Rightarrow> nat \<Rightarrow> lz4_result" where
  "LZ4_compress_generic m cctx src srcSize dstCapacity dictDirective dictIssue acceleration =
     (if srcSize > LZ4_MAX_INPUT_SIZE then \<lparr>r_result = 0, r_out = [], r_top = 0, r_stream = cctx\<rparr>
      else if srcSize = 0 then
        (if dstCapacity \<le> 0 then \<lparr>r_result = 0, r_out = [], r_top = 0, r_stream = cctx\<rparr>
         else \<lparr>r_result = 1, r_out = [0], r_top = 1, r_stream = cctx\<rparr>)
      else LZ4_compress_generic_validated m cctx src srcSize dstCapacity dictDirective dictIssue acceleration)"

end
