(* ===== verification/Lz4_Stream.thy ===== *)
theory Lz4_Stream
  imports Lz4_Compress
begin

text \<open>
  The streaming interface of \<open>lz4.c\<close>: a stream carries the hash table and the position of
  the dictionary (the history) from one block to the next.
\<close>

definition KB64 :: u32 where
  "KB64 = 65536"

definition LZ4_initStream :: LZ4_stream where
  "LZ4_initStream =
     \<lparr>hashTable = (\<lambda>_. 0), currentOffset = 0, tableType = clearedTable, dictionary = 0, dictCtx = 0,
      dictSize = 0\<rparr>"

definition LZ4_prepareTable :: "LZ4_stream \<Rightarrow> nat \<Rightarrow> tableType \<Rightarrow> LZ4_stream" where
  "LZ4_prepareTable cctx inputSize ttype =
     (let cctx1 =
            (if tableType cctx \<noteq> clearedTable \<and>
                (tableType cctx \<noteq> ttype
                 \<or> (ttype = byU16 \<and> currentOffset cctx + of_nat inputSize \<ge> 65535)
                 \<or> (ttype = byU32 \<and> currentOffset cctx > 1073741824)
                 \<or> ttype = byPtr
                 \<or> inputSize \<ge> 4096)
             then cctx\<lparr>hashTable := (\<lambda>_. 0), currentOffset := 0, tableType := clearedTable\<rparr>
             else cctx);
          cctx2 = (if currentOffset cctx1 \<noteq> 0 \<and> ttype = byU32
                   then cctx1\<lparr>currentOffset := currentOffset cctx1 + KB64\<rparr> else cctx1)
      in cctx2\<lparr>dictCtx := 0, dictionary := 0, dictSize := 0\<rparr>)"

definition LZ4_resetStream_fast :: "LZ4_stream \<Rightarrow> LZ4_stream" where
  "LZ4_resetStream_fast ctx = LZ4_prepareTable ctx 0 byU32"

definition LZ4_renormDictT :: "LZ4_stream \<Rightarrow> nat \<Rightarrow> LZ4_stream" where
  "LZ4_renormDictT dict nextSize =
     (if currentOffset dict + of_nat nextSize > 0x80000000
      then
        let delta = currentOffset dict - KB64;
            dictEnd = dictionary dict + uint (dictSize dict);
            size1 = (if dictSize dict > KB64 then KB64 else dictSize dict)
        in dict\<lparr>hashTable := (\<lambda>i. if hashTable dict i < delta then 0 else hashTable dict i - delta),
                currentOffset := KB64,
                dictSize := size1,
                dictionary := dictEnd - uint size1\<rparr>
      else dict)"

text \<open>The two adjustments of the dictionary before a block is compressed.\<close>

definition LZ4_invalidate_tiny :: "LZ4_stream \<Rightarrow> int \<Rightarrow> LZ4_stream" where
  "LZ4_invalidate_tiny s source =
     (if dictSize s - 1 < 4 - 1 \<and> dictionary s + uint (dictSize s) \<noteq> source
      then s\<lparr>dictSize := 0, dictionary := source\<rparr> else s)"

definition LZ4_overlap :: "LZ4_stream \<Rightarrow> int \<Rightarrow> nat \<Rightarrow> LZ4_stream" where
  "LZ4_overlap s source inputSize =
     (let dictEnd = dictionary s + uint (dictSize s);
          sourceEnd = source + int inputSize
      in if sourceEnd > dictionary s \<and> sourceEnd < dictEnd
         then
           let size0 = word_of_int (dictEnd - sourceEnd);
               size1 = (if size0 > KB64 then KB64 else size0);
               size2 = (if size1 < 4 then 0 else size1)
           in s\<lparr>dictSize := size2, dictionary := dictEnd - uint size2\<rparr>
         else s)"

definition LZ4_clamp_acceleration :: "int \<Rightarrow> nat" where
  "LZ4_clamp_acceleration acceleration =
     nat (if acceleration < 1 then 1 else if acceleration > 65537 then 65537 else acceleration)"

definition LZ4_dict_issue :: "LZ4_stream \<Rightarrow> dictIssue_directive" where
  "LZ4_dict_issue s = (if dictSize s < KB64 \<and> dictSize s < currentOffset s then dictSmall else noDictIssue)"

text \<open>
  A stream with an attached dictionary context (\<open>dictCtx\<close>) does not occur in this program,
  whose frames are opened without a dictionary; that branch is left out.
\<close>

definition LZ4_compress_fast_continue ::
  "memory \<Rightarrow> LZ4_stream \<Rightarrow> int \<Rightarrow> nat \<Rightarrow> nat \<Rightarrow> int \<Rightarrow> lz4_result outcome" where
  "LZ4_compress_fast_continue m s source inputSize maxOutputSize acceleration =
     (let s1 = LZ4_renormDictT s inputSize;
          accel = LZ4_clamp_acceleration acceleration;
          s2 = LZ4_invalidate_tiny s1 source;
          s3 = LZ4_overlap s2 source inputSize
      in if dictionary s2 + uint (dictSize s2) = source
         then Inr (LZ4_compress_generic m s3 source inputSize maxOutputSize withPrefix64k (LZ4_dict_issue s3) accel)
         else if dictCtx s3 \<noteq> 0 then Inl Not_Modelled
         else
           let r = LZ4_compress_generic m s3 source inputSize maxOutputSize usingExtDict (LZ4_dict_issue s3) accel
           in Inr (r\<lparr>r_stream := (r_stream r)\<lparr>dictionary := source, dictSize := of_nat inputSize\<rparr>\<rparr>))"

definition memmove :: "memory \<Rightarrow> int \<Rightarrow> int \<Rightarrow> nat \<Rightarrow> memory" where
  "memmove m dst src n = (\<lambda>p. if dst \<le> p \<and> p < dst + int n then m (src + (p - dst)) else m p)"

definition LZ4_saveDict :: "memory \<Rightarrow> LZ4_stream \<Rightarrow> int \<Rightarrow> nat \<Rightarrow> memory \<times> LZ4_stream \<times> nat" where
  "LZ4_saveDict m dict safeBuffer dsize =
     (let previousDictEnd = dictionary dict + uint (dictSize dict);
          size1 = (if dsize > 65536 then 65536 else dsize);
          size2 = (if size1 > unat (dictSize dict) then unat (dictSize dict) else size1);
          m1 = (if size2 > 0 then memmove m safeBuffer (previousDictEnd - int size2) size2 else m)
      in (m1, dict\<lparr>dictionary := safeBuffer, dictSize := of_nat size2\<rparr>, size2))"

end
