(* ===== verification/Xxhash.thy ===== *)
theory Xxhash
  imports Bytes
begin

text \<open>
  The 32-bit hash of \<open>xxhash.c\<close>: the one-shot \<open>XXH32\<close> and the streaming
  \<open>XXH32_reset\<close>, \<open>XXH32_update\<close>, \<open>XXH32_digest\<close>. The frame layer checks its header
  and its content with it. The pointer \<open>p\<close> that walks over the input is the list of the
  bytes still to read, so \<open>p += 4\<close> is \<open>drop 4\<close>. The target is little-endian, so
  \<open>XXH_readLE32\<close> is a plain little-endian read; alignment does not change its value.
\<close>

section \<open>The contract of a streaming hash\<close>

text \<open>
  \<open>rep st xs\<close> says that the state \<open>st\<close> has absorbed the bytes \<open>xs\<close>. A provider shows
  that absorbing and finishing agree with its one-shot function; clients may then split
  their input as they like.
\<close>

locale streaming_hash =
  fixes init :: 's
    and upd :: "'s \<Rightarrow> bytes \<Rightarrow> 's"
    and fin :: "'s \<Rightarrow> 'h"
    and oneshot :: "bytes \<Rightarrow> 'h"
    and rep :: "'s \<Rightarrow> bytes \<Rightarrow> bool"
  assumes rep_init: "rep init []"
    and rep_upd: "rep st xs \<Longrightarrow> rep (upd st ys) (xs @ ys)"
    and rep_fin: "rep st xs \<Longrightarrow> fin st = oneshot xs"
begin

lemma rep_foldl: "rep st xs \<Longrightarrow> rep (foldl upd st cs) (xs @ concat cs)"
proof (induction cs arbitrary: st xs)
  case (Cons c cs)
  from Cons.IH [OF rep_upd [OF Cons.prems]] show ?case by simp
qed simp

lemma fin_foldl: "fin (foldl upd init cs) = oneshot (concat cs)"
  using rep_fin [OF rep_foldl [OF rep_init]] by simp

lemma split_irrelevant:
  "concat cs = concat ds \<Longrightarrow> fin (foldl upd init cs) = fin (foldl upd init ds)"
  by (simp add: fin_foldl)

end

section \<open>Rounds\<close>

definition PRIME32_1 :: u32 where "PRIME32_1 = 2654435761"
definition PRIME32_2 :: u32 where "PRIME32_2 = 2246822519"
definition PRIME32_3 :: u32 where "PRIME32_3 = 3266489917"
definition PRIME32_4 :: u32 where "PRIME32_4 = 668265263"
definition PRIME32_5 :: u32 where "PRIME32_5 = 374761393"

lemmas prime32_defs = PRIME32_1_def PRIME32_2_def PRIME32_3_def PRIME32_4_def PRIME32_5_def

definition XXH_rotl32 :: "u32 \<Rightarrow> nat \<Rightarrow> u32" where
  "XXH_rotl32 x r = push_bit r x OR drop_bit (32 - r) x"

definition XXH_readLE32 :: "bytes \<Rightarrow> u32" where
  "XXH_readLE32 p =
     ucast (p ! 0) + push_bit 8 (ucast (p ! 1)) + push_bit 16 (ucast (p ! 2))
     + push_bit 24 (ucast (p ! 3))"

definition XXH32_round :: "u32 \<Rightarrow> u32 \<Rightarrow> u32" where
  "XXH32_round seed input = XXH_rotl32 (seed + input * PRIME32_2) 13 * PRIME32_1"

definition XXH32_avalanche :: "u32 \<Rightarrow> u32" where
  "XXH32_avalanche h =
     (let h = h XOR drop_bit 15 h;
          h = h * PRIME32_2;
          h = h XOR drop_bit 13 h;
          h = h * PRIME32_3
      in h XOR drop_bit 16 h)"

definition PROCESS1 :: "u32 \<times> bytes \<Rightarrow> u32 \<times> bytes" where
  "PROCESS1 = (\<lambda>(h, p). (XXH_rotl32 (h + ucast (p ! 0) * PRIME32_5) 11 * PRIME32_1, drop 1 p))"

definition PROCESS4 :: "u32 \<times> bytes \<Rightarrow> u32 \<times> bytes" where
  "PROCESS4 = (\<lambda>(h, p). (XXH_rotl32 (h + XXH_readLE32 p * PRIME32_3) 17 * PRIME32_4, drop 4 p))"

text \<open>The switch on \<open>len & 15\<close>, with its fall-throughs written out.\<close>

definition XXH32_finalize :: "u32 \<Rightarrow> bytes \<Rightarrow> nat \<Rightarrow> u32" where
  "XXH32_finalize h32 ptr len =
     (let s = (h32, ptr); k = len mod 16;
          p1 = PROCESS1; p4 = PROCESS4
      in XXH32_avalanche (fst (
        if k = 12 then p4 (p4 (p4 s)) else if k = 8 then p4 (p4 s) else if k = 4 then p4 s
        else if k = 13 then p1 (p4 (p4 (p4 s))) else if k = 9 then p1 (p4 (p4 s))
        else if k = 5 then p1 (p4 s)
        else if k = 14 then p1 (p1 (p4 (p4 (p4 s)))) else if k = 10 then p1 (p1 (p4 (p4 s)))
        else if k = 6 then p1 (p1 (p4 s))
        else if k = 15 then p1 (p1 (p1 (p4 (p4 (p4 s)))))
        else if k = 11 then p1 (p1 (p1 (p4 (p4 s)))) else if k = 7 then p1 (p1 (p1 (p4 s)))
        else if k = 3 then p1 (p1 (p1 s)) else if k = 2 then p1 (p1 s)
        else if k = 1 then p1 s else s)))"

section \<open>The one-shot hash\<close>

type_synonym lanes = "u32 \<times> u32 \<times> u32 \<times> u32"

definition XXH32_lanes_init :: "u32 \<Rightarrow> lanes" where
  "XXH32_lanes_init seed = (seed + PRIME32_1 + PRIME32_2, seed + PRIME32_2, seed + 0, seed - PRIME32_1)"

text \<open>The body of the loop over 16-byte stripes.\<close>

definition XXH32_stripe :: "lanes \<Rightarrow> bytes \<Rightarrow> lanes" where
  "XXH32_stripe = (\<lambda>(v1, v2, v3, v4) p.
     (XXH32_round v1 (XXH_readLE32 p), XXH32_round v2 (XXH_readLE32 (drop 4 p)),
      XXH32_round v3 (XXH_readLE32 (drop 8 p)), XXH32_round v4 (XXH_readLE32 (drop 12 p))))"

text \<open>The loop \<open>do { ... } while (p < limit)\<close> with \<open>limit = bEnd - 15\<close>.\<close>

function XXH32_stripes :: "lanes \<Rightarrow> bytes \<Rightarrow> lanes \<times> bytes" where
  "XXH32_stripes v p =
     (let v' = XXH32_stripe v p; p' = drop 16 p
      in if length p' > 15 then XXH32_stripes v' p' else (v', p'))"
  by pat_completeness auto
termination
  by (relation "measure (\<lambda>(v, p). length p)") auto

declare XXH32_stripes.simps [simp del]

definition XXH32_merge :: "lanes \<Rightarrow> u32" where
  "XXH32_merge = (\<lambda>(v1, v2, v3, v4).
     XXH_rotl32 v1 1 + XXH_rotl32 v2 7 + XXH_rotl32 v3 12 + XXH_rotl32 v4 18)"

definition XXH32 :: "bytes \<Rightarrow> u32 \<Rightarrow> u32" where
  "XXH32 input seed =
     (let (h32, p) = (if length input \<ge> 16
            then (let (v, p) = XXH32_stripes (XXH32_lanes_init seed) input in (XXH32_merge v, p))
            else (seed + PRIME32_5, input));
          h32 = h32 + of_nat (length input)
      in XXH32_finalize h32 p (length input mod 16))"

section \<open>The streaming hash\<close>

record XXH32_state =
  total_len_32 :: u32
  large_len :: bool
  lanes :: lanes
  mem32 :: bytes
  memsize :: nat

definition XXH32_reset :: "u32 \<Rightarrow> XXH32_state" where
  "XXH32_reset seed =
     \<lparr>total_len_32 = 0, large_len = False, lanes = XXH32_lanes_init seed,
      mem32 = replicate 16 0, memsize = 0\<rparr>"

text \<open>\<open>memcpy\<close> of \<open>input\<close> into \<open>mem32\<close> at an offset.\<close>

definition mem32_copy :: "bytes \<Rightarrow> nat \<Rightarrow> bytes \<Rightarrow> bytes" where
  "mem32_copy mem off input = take off mem @ input @ drop (off + length input) mem"

text \<open>"Some data left from previous update": complete the buffered stripe.\<close>

definition XXH32_pending :: "XXH32_state \<Rightarrow> bytes \<Rightarrow> XXH32_state \<times> bytes" where
  "XXH32_pending st p =
     (if memsize st \<noteq> 0
      then (let n = 16 - memsize st;
                m = mem32_copy (mem32 st) (memsize st) (take n p)
            in (st\<lparr>lanes := XXH32_stripe (lanes st) m, mem32 := m, memsize := 0\<rparr>, drop n p))
      else (st, p))"

text \<open>\<open>if (p <= bEnd-16)\<close>: the full stripes of the input.\<close>

definition XXH32_full :: "XXH32_state \<times> bytes \<Rightarrow> XXH32_state \<times> bytes" where
  "XXH32_full = (\<lambda>(st, p).
     if length p \<ge> 16
     then (let (v, p') = XXH32_stripes (lanes st) p in (st\<lparr>lanes := v\<rparr>, p'))
     else (st, p))"

text \<open>\<open>if (p < bEnd)\<close>: buffer what is left.\<close>

definition XXH32_rest :: "XXH32_state \<times> bytes \<Rightarrow> XXH32_state" where
  "XXH32_rest = (\<lambda>(st, p).
     if p \<noteq> [] then st\<lparr>mem32 := mem32_copy (mem32 st) 0 p, memsize := length p\<rparr> else st)"

definition XXH32_update :: "XXH32_state \<Rightarrow> bytes \<Rightarrow> XXH32_state" where
  "XXH32_update st input =
     (let len = length input;
          total = total_len_32 st + of_nat len;
          st = st\<lparr>total_len_32 := total, large_len := large_len st \<or> len \<ge> 16 \<or> total \<ge> 16\<rparr>
      in if memsize st + len < 16
         then st\<lparr>mem32 := mem32_copy (mem32 st) (memsize st) input, memsize := memsize st + len\<rparr>
         else XXH32_rest (XXH32_full (XXH32_pending st input)))"

definition XXH32_digest :: "XXH32_state \<Rightarrow> u32" where
  "XXH32_digest st =
     (let h32 = (if large_len st then XXH32_merge (lanes st)
                 else (case lanes st of (v1, v2, v3, v4) \<Rightarrow> v3 + PRIME32_5));
          h32 = h32 + total_len_32 st
      in XXH32_finalize h32 (mem32 st) (memsize st))"

section \<open>Streaming agrees with one-shot\<close>

text \<open>What the lanes have absorbed: every full stripe of the input.\<close>

function xxh_absorb :: "lanes \<Rightarrow> bytes \<Rightarrow> lanes" where
  "xxh_absorb v p = (if length p < 16 then v else xxh_absorb (XXH32_stripe v p) (drop 16 p))"
  by pat_completeness auto
termination
  by (relation "measure (\<lambda>(v, p). length p)") auto

declare xxh_absorb.simps [simp del]

lemma xxh_absorb_short [simp]: "length p < 16 \<Longrightarrow> xxh_absorb v p = v"
  by (simp add: xxh_absorb.simps)

lemma XXH32_stripe_append:
  "16 \<le> length p \<Longrightarrow> XXH32_stripe v (p @ q) = XXH32_stripe v p"
  by (cases v) (auto simp: XXH32_stripe_def XXH_readLE32_def nth_append)

lemma xxh_absorb_append:
  "16 dvd length p \<Longrightarrow> xxh_absorb v (p @ q) = xxh_absorb (xxh_absorb v p) q"
proof (induction v p rule: xxh_absorb.induct)
  case (1 v p)
  show ?case
  proof (cases "p = []")
    case False
    with "1.prems" have le: "16 \<le> length p" by (simp add: dvd_imp_le)
    with "1.prems" have "16 dvd length (drop 16 p)" by (auto simp: dvd_minus_self)
    with le "1.IH" show ?thesis
      by (simp add: xxh_absorb.simps [of v p] xxh_absorb.simps [of v "p @ q"] XXH32_stripe_append)
  qed simp
qed

lemma XXH32_stripes_eq:
  "16 \<le> length p \<Longrightarrow>
   XXH32_stripes v p = (xxh_absorb v p, drop (16 * (length p div 16)) p)"
proof (induction v p rule: XXH32_stripes.induct)
  case (1 v p)
  have step: "length p div 16 = Suc (length (drop 16 p) div 16)"
    using "1.prems" by (simp add: le_div_geq)
  show ?case
  proof (cases "length (drop 16 p) > 15")
    case True
    then have "XXH32_stripes (XXH32_stripe v p) (drop 16 p)
        = (xxh_absorb (XXH32_stripe v p) (drop 16 p),
           drop (16 * (length (drop 16 p) div 16)) (drop 16 p))"
      by (intro "1.IH") auto
    then show ?thesis
      using True "1.prems" step
      by (subst XXH32_stripes.simps) (simp add: xxh_absorb.simps [of v p] add.commute)
  next
    case False
    then show ?thesis
      using "1.prems" step
      by (subst XXH32_stripes.simps) (simp add: xxh_absorb.simps [of v p])
  qed
qed

text \<open>The tail of the input, read four bytes and then one byte at a time.\<close>

fun xxh_tail :: "u32 \<Rightarrow> bytes \<Rightarrow> u32" where
  "xxh_tail h (a # b # c # d # r) = xxh_tail (fst (PROCESS4 (h, [a, b, c, d]))) r"
| "xxh_tail h (a # r) = xxh_tail (fst (PROCESS1 (h, [a]))) r"
| "xxh_tail h [] = XXH32_avalanche h"

lemma length_less_16:
  assumes "length (xs :: 'a list) < 16"
  shows "length xs \<in> {0, 1, 2, 3, 4, 5, 6, 7, 8, 9, 10, 11, 12, 13, 14, 15}"
  using assms by (auto simp: numeral_eq_Suc less_Suc_eq)

lemma funpow_2: "(f ^^ 2) x = f (f x)"
  by (simp add: numeral_2_eq_2)

lemma funpow_3: "(f ^^ 3) x = f (f (f x))"
  by (simp add: numeral_3_eq_3)

lemma XXH32_finalize_powers:
  assumes "k < 16"
  shows "XXH32_finalize h p k =
     XXH32_avalanche (fst ((PROCESS1 ^^ (k mod 4)) ((PROCESS4 ^^ (k div 4)) (h, p))))"
proof -
  have "k \<in> {0, 1, 2, 3, 4, 5, 6, 7, 8, 9, 10, 11, 12, 13, 14, 15}"
    using length_less_16 [of "replicate k ()"] assms by simp
  then show ?thesis
    unfolding insert_iff empty_iff
    by (elim disjE FalseE; hypsubst) (simp_all add: XXH32_finalize_def funpow_2 funpow_3)
qed

lemma PROCESS4_Cons:
  "PROCESS4 (h, a # b # c # d # r) =
     (XXH_rotl32 (h + XXH_readLE32 [a, b, c, d] * PRIME32_3) 17 * PRIME32_4, r)"
  by (simp add: PROCESS4_def XXH_readLE32_def)

lemma PROCESS1_Cons:
  "PROCESS1 (h, a # r) = (XXH_rotl32 (h + ucast a * PRIME32_5) 11 * PRIME32_1, r)"
  by (simp add: PROCESS1_def)

lemma xxh_tail_short:
  assumes "length r < 4"
  shows "xxh_tail h r = XXH32_avalanche (fst ((PROCESS1 ^^ length r) (h, r @ junk)))"
proof -
  from assms consider "r = []" | a where "r = [a]" | a b where "r = [a, b]"
    | a b c where "r = [a, b, c]"
    by (cases r rule: remdups_adj.cases) (auto simp: less_Suc_eq numeral_eq_Suc length_Suc_conv)
  then show ?thesis
    by cases (simp_all add: PROCESS1_Cons)
qed

lemma xxh_tail_powers:
  "length r = 4 * k + n \<Longrightarrow> n < 4 \<Longrightarrow>
   XXH32_avalanche (fst ((PROCESS1 ^^ n) ((PROCESS4 ^^ k) (h, r @ junk)))) = xxh_tail h r"
proof (induction k arbitrary: h r)
  case 0
  then show ?case using xxh_tail_short [of r h junk] by simp
next
  case (Suc k)
  then obtain a b c d r' where r: "r = a # b # c # d # r'" and len: "length r' = 4 * k + n"
    by (auto simp: length_Suc_conv numeral_eq_Suc)
  show ?case
    using Suc.IH [OF len Suc.prems(2)] by (simp add: r funpow_swap1 PROCESS4_Cons)
qed

lemma XXH32_finalize_tail:
  "length r < 16 \<Longrightarrow> XXH32_finalize h (r @ junk) (length r) = xxh_tail h r"
  using xxh_tail_powers [of r "length r div 4" "length r mod 4" h junk]
  by (subst XXH32_finalize_powers) simp_all

text \<open>The invariant of the streaming state.\<close>

definition xxh_rep :: "u32 \<Rightarrow> XXH32_state \<Rightarrow> bytes \<Rightarrow> bool" where
  "xxh_rep seed st xs \<longleftrightarrow>
     length (mem32 st) = 16 \<and> memsize st = length xs mod 16 \<and>
     take (memsize st) (mem32 st) = drop (16 * (length xs div 16)) xs \<and>
     lanes st = xxh_absorb (XXH32_lanes_init seed) xs \<and>
     total_len_32 st = of_nat (length xs) \<and> (large_len st \<longleftrightarrow> 16 \<le> length xs)"

lemma xxh_rep_reset: "xxh_rep seed (XXH32_reset seed) []"
  by (simp add: xxh_rep_def XXH32_reset_def)

text \<open>The input as its full stripes and its tail.\<close>

lemma xxh_split:
  obtains f r where "xs = f @ r" "16 dvd length f" "length r < 16"
proof
  show "xs = take (16 * (length xs div 16)) xs @ drop (16 * (length xs div 16)) xs" by simp
  show "16 dvd length (take (16 * (length xs div 16)) xs)" by (simp add: min_absorb2)
  show "length (drop (16 * (length xs div 16)) xs) < 16" by (simp add: minus_mult_div_eq_mod)
qed

lemma drop_full:
  "16 dvd length f \<Longrightarrow> length r < 16 \<Longrightarrow> drop (16 * (length (f @ r) div 16)) (f @ r) = r"
  by (auto elim!: dvdE)

lemma mod_full: "16 dvd length f \<Longrightarrow> length r < 16 \<Longrightarrow> length (f @ r) mod 16 = length r"
  by (auto elim!: dvdE)

lemma total_large:
  assumes "n < 16" and "m < 16"
  shows "(16 \<le> (of_nat n + of_nat m :: u32)) \<longleftrightarrow> 16 \<le> n + m"
proof -
  have "unat (of_nat n + of_nat m :: u32) = n + m"
    using assms by (simp add: unsigned_of_nat take_bit_eq_mod flip: of_nat_add)
  then show ?thesis by (simp add: word_le_nat_alt)
qed

lemma xxh_large_upd:
  assumes "xxh_rep seed st xs"
  shows "(large_len st \<or> 16 \<le> length ys \<or> 16 \<le> total_len_32 st + of_nat (length ys))
     \<longleftrightarrow> 16 \<le> length (xs @ ys)"
  using assms total_large [of "length xs" "length ys"]
  by (cases "16 \<le> length xs"; cases "16 \<le> length ys") (auto simp: xxh_rep_def)

lemma mem32_copy_take:
  "off + length input \<le> length m \<Longrightarrow> off \<le> length m \<Longrightarrow>
   take (off + length input) (mem32_copy m off input) = take off m @ input"
  by (simp add: mem32_copy_def)

lemma length_mem32_copy:
  "off + length input \<le> length m \<Longrightarrow> length (mem32_copy m off input) = length m"
  by (simp add: mem32_copy_def)

text \<open>The part of an update that runs once a full stripe is at hand.\<close>

lemma xxh_rep_process:
  assumes f: "16 dvd length f" and v: "v = xxh_absorb (XXH32_lanes_init seed) f"
    and m: "length m = 16"
    and v': "(v', p') = (if length p \<ge> 16 then XXH32_stripes v p else (v, p))"
  shows "v' = xxh_absorb (XXH32_lanes_init seed) (f @ p)"
    and "p' = drop (16 * (length (f @ p) div 16)) (f @ p)"
    and "length p' = length (f @ p) mod 16"
    and "length (mem32_copy m 0 p') = 16"
    and "take (length p') (mem32_copy m 0 p') = p'"
proof -
  show abs: "v' = xxh_absorb (XXH32_lanes_init seed) (f @ p)"
    using v' f v by (auto simp: XXH32_stripes_eq xxh_absorb_append split: if_splits)
  show p': "p' = drop (16 * (length (f @ p) div 16)) (f @ p)"
    using v' f by (auto simp: XXH32_stripes_eq elim!: dvdE split: if_splits)
  show len: "length p' = length (f @ p) mod 16"
    unfolding p' by (simp only: length_drop minus_mult_div_eq_mod)
  have "length p' \<le> 16" unfolding len by (simp add: less_imp_le)
  then show "length (mem32_copy m 0 p') = 16" "take (length p') (mem32_copy m 0 p') = p'"
    using m by (auto simp: mem32_copy_def)
qed

lemma xxh_rep_upd:
  assumes rep: "xxh_rep seed st xs"
  shows "xxh_rep seed (XXH32_update st ys) (xs @ ys)"
proof -
  obtain f r where fr: "xs = f @ r" "16 dvd length f" "length r < 16"
    by (rule xxh_split)
  note tail_r = drop_full [OF fr(2,3), folded fr(1)] mod_full [OF fr(2,3), folded fr(1)]
  have st: "length (mem32 st) = 16" "memsize st = length r" "take (length r) (mem32 st) = r"
    "lanes st = xxh_absorb (XXH32_lanes_init seed) f" "total_len_32 st = of_nat (length xs)"
    using rep fr(2,3) tail_r by (auto simp: xxh_rep_def xxh_absorb_append fr(1))
  note large = xxh_large_upd [OF rep, of ys]
  show ?thesis
  proof (cases "length r + length ys < 16")
    case True
    then have "xs @ ys = f @ (r @ ys)" and lt: "length (r @ ys) < 16" using fr by simp_all
    then have tail: "drop (16 * (length (xs @ ys) div 16)) (xs @ ys) = r @ ys"
      "length (xs @ ys) mod 16 = length r + length ys"
      "xxh_absorb (XXH32_lanes_init seed) (xs @ ys) = lanes st"
      using drop_full [OF fr(2) lt] mod_full [OF fr(2) lt] xxh_absorb_append [OF fr(2)] st(4)
      by simp_all
    have "XXH32_update st ys = st\<lparr>total_len_32 := of_nat (length (xs @ ys)),
        large_len := 16 \<le> length (xs @ ys),
        mem32 := mem32_copy (mem32 st) (length r) ys, memsize := length r + length ys\<rparr>"
      using True st large unfolding XXH32_update_def Let_def by simp
    moreover have "take (length r + length ys) (mem32_copy (mem32 st) (length r) ys) = r @ ys"
      "length (mem32_copy (mem32 st) (length r) ys) = 16"
      using True st by (simp_all add: mem32_copy_take length_mem32_copy)
    ultimately show ?thesis
      unfolding xxh_rep_def tail by simp
  next
    case False
    note big = this
    define n where "n = 16 - length r"
    define m where "m = (if r = [] then mem32 st else mem32_copy (mem32 st) (length r) (take n ys))"
    define f' where "f' = (if r = [] then f else f @ m)"
    define p where "p = (if r = [] then ys else drop n ys)"
    define v where "v = (if r = [] then lanes st else XXH32_stripe (lanes st) m)"
    have m: "length m = 16" "r \<noteq> [] \<Longrightarrow> m = r @ take n ys"
      using st fr(3) big by (auto simp: m_def n_def mem32_copy_def)
    have "xxh_absorb u m = XXH32_stripe u m" for u
      using m(1) by (simp add: xxh_absorb.simps [of _ m])
    then have v: "v = xxh_absorb (XXH32_lanes_init seed) f'"
      using fr(2) st(4) by (simp add: v_def f'_def xxh_absorb_append)
    have f': "16 dvd length f'" "v = xxh_absorb (XXH32_lanes_init seed) f'" "f' @ p = xs @ ys"
      using fr m by (auto simp: f'_def v p_def)
    obtain v' p' where v': "(v', p') = (if length p \<ge> 16 then XXH32_stripes v p else (v, p))"
      by (metis surj_pair)
    note proc = xxh_rep_process [OF f'(1,2) m(1) v', unfolded f'(3)]
    define st1 where "st1 = st\<lparr>total_len_32 := of_nat (length (xs @ ys)),
        large_len := 16 \<le> length (xs @ ys)\<rparr>"
    have pend: "XXH32_pending st1 ys = (st1\<lparr>lanes := v, mem32 := m, memsize := 0\<rparr>, p)"
      using st(1,2) by (cases st) (simp add: XXH32_pending_def Let_def st1_def v_def m_def n_def p_def)
    have "XXH32_full (XXH32_pending st1 ys) = (st1\<lparr>lanes := v', mem32 := m, memsize := 0\<rparr>, p')"
      unfolding pend using v' [symmetric] by (auto simp: XXH32_full_def split: if_splits)
    then have "XXH32_update st ys = XXH32_rest (st1\<lparr>lanes := v', mem32 := m, memsize := 0\<rparr>, p')"
      using big st large unfolding XXH32_update_def Let_def by (simp add: st1_def)
    then show ?thesis
      unfolding xxh_rep_def proc(1,2,3) [symmetric]
      using proc(4,5) m(1) by (simp add: XXH32_rest_def st1_def)
  qed
qed

lemma xxh_rep_digest:
  assumes rep: "xxh_rep seed st xs"
  shows "XXH32_digest st = XXH32 xs seed"
proof -
  obtain f r where fr: "xs = f @ r" "16 dvd length f" "length r < 16"
    by (rule xxh_split)
  note tail_r = drop_full [OF fr(2,3), folded fr(1)] mod_full [OF fr(2,3), folded fr(1)]
  have "take (length r) (mem32 st) = r" and ms: "memsize st = length r"
    using rep tail_r by (auto simp: xxh_rep_def)
  then have mem: "mem32 st = r @ drop (length r) (mem32 st)"
    by (metis append_take_drop_id)
  have fin: "XXH32_finalize h (mem32 st) (memsize st) = xxh_tail h r"
    "XXH32_finalize h r (length xs mod 16) = xxh_tail h r" for h
    using XXH32_finalize_tail [OF fr(3), of h "drop (length r) (mem32 st)"] mem ms
      XXH32_finalize_tail [OF fr(3), of h "[]"] tail_r(2) by simp_all
  show ?thesis
  proof (cases "16 \<le> length xs")
    case True
    with rep fin tail_r(1) show ?thesis
      by (simp add: XXH32_digest_def XXH32_def XXH32_stripes_eq xxh_rep_def)
  next
    case False
    with rep fin tail_r(1) show ?thesis
      by (simp add: XXH32_digest_def XXH32_def XXH32_lanes_init_def xxh_rep_def)
  qed
qed

interpretation xxh32: streaming_hash "XXH32_reset seed" XXH32_update XXH32_digest
    "\<lambda>xs. XXH32 xs seed" "xxh_rep seed" for seed
  by unfold_locales (simp_all add: xxh_rep_reset xxh_rep_upd xxh_rep_digest)

end
