(* ===== verification/Lz4_Frame.thy ===== *)
theory Lz4_Frame
  imports Lz4_Stream Xxhash
begin

text \<open>
  The frame layer \<open>lz4frame.c\<close> on its compression side: error codes, bounds, the frame
  header, blocks, the update/flush/end cycle with its temporary buffer, and the reading of a
  header. Sizes that can carry an error code are 32-bit words (\<open>size_t\<close> of the target).
  The high-compression levels and the one-shot compressor for independent blocks are not
  modelled; a frame that would need them yields \<open>Not_Modelled\<close>.
\<close>

section \<open>Error codes\<close>

datatype LZ4F_errorCodes =
    OK_NoError | ERROR_GENERIC | ERROR_maxBlockSize_invalid | ERROR_blockMode_invalid
  | ERROR_contentChecksumFlag_invalid | ERROR_compressionLevel_invalid
  | ERROR_headerVersion_wrong | ERROR_blockChecksum_invalid | ERROR_reservedFlag_set
  | ERROR_allocation_failed | ERROR_srcSize_tooLarge | ERROR_dstMaxSize_tooSmall
  | ERROR_frameHeader_incomplete | ERROR_frameType_unknown | ERROR_frameSize_wrong
  | ERROR_srcPtr_wrong | ERROR_decompressionFailed | ERROR_headerChecksum_invalid
  | ERROR_contentChecksum_invalid | ERROR_frameDecoding_alreadyStarted | ERROR_maxCode

fun LZ4F_code :: "LZ4F_errorCodes \<Rightarrow> u32" where
  "LZ4F_code OK_NoError = 0"
| "LZ4F_code ERROR_GENERIC = 1"
| "LZ4F_code ERROR_maxBlockSize_invalid = 2"
| "LZ4F_code ERROR_blockMode_invalid = 3"
| "LZ4F_code ERROR_contentChecksumFlag_invalid = 4"
| "LZ4F_code ERROR_compressionLevel_invalid = 5"
| "LZ4F_code ERROR_headerVersion_wrong = 6"
| "LZ4F_code ERROR_blockChecksum_invalid = 7"
| "LZ4F_code ERROR_reservedFlag_set = 8"
| "LZ4F_code ERROR_allocation_failed = 9"
| "LZ4F_code ERROR_srcSize_tooLarge = 10"
| "LZ4F_code ERROR_dstMaxSize_tooSmall = 11"
| "LZ4F_code ERROR_frameHeader_incomplete = 12"
| "LZ4F_code ERROR_frameType_unknown = 13"
| "LZ4F_code ERROR_frameSize_wrong = 14"
| "LZ4F_code ERROR_srcPtr_wrong = 15"
| "LZ4F_code ERROR_decompressionFailed = 16"
| "LZ4F_code ERROR_headerChecksum_invalid = 17"
| "LZ4F_code ERROR_contentChecksum_invalid = 18"
| "LZ4F_code ERROR_frameDecoding_alreadyStarted = 19"
| "LZ4F_code ERROR_maxCode = 20"

definition err0r :: "LZ4F_errorCodes \<Rightarrow> u32" where
  "err0r code = - LZ4F_code code"

definition LZ4F_isError :: "u32 \<Rightarrow> bool" where
  "LZ4F_isError code \<longleftrightarrow> code > - LZ4F_code ERROR_maxCode"

section \<open>Preferences and sizes\<close>

datatype LZ4F_blockMode = LZ4F_blockLinked | LZ4F_blockIndependent

record LZ4F_preferences =
  blockSizeID :: u32
  blockMode :: LZ4F_blockMode
  contentChecksumFlag :: bool
  contentSize :: u64
  dictID :: u32
  blockChecksumFlag :: bool
  compressionLevel :: int
  autoFlush :: bool

definition BHSize :: u32 where "BHSize = 4"
definition BFSize :: u32 where "BFSize = 4"
definition minFHSize :: nat where "minFHSize = 7"
definition maxFHSize :: nat where "maxFHSize = 19"
definition LZ4HC_CLEVEL_MIN :: int where "LZ4HC_CLEVEL_MIN = 3"
definition LZ4F_MAGICNUMBER :: u32 where "LZ4F_MAGICNUMBER = 0x184D2204"
definition LZ4F_MAGIC_SKIPPABLE_START :: u32 where "LZ4F_MAGIC_SKIPPABLE_START = 0x184D2A50"
definition LZ4F_BLOCKUNCOMPRESSED_FLAG :: u32 where "LZ4F_BLOCKUNCOMPRESSED_FLAG = 0x80000000"

definition LZ4F_getBlockSize :: "u32 \<Rightarrow> u32" where
  "LZ4F_getBlockSize bsid =
     (let bsid = (if bsid = 0 then 4 else bsid) in
      if bsid < 4 \<or> bsid > 7 then err0r ERROR_maxBlockSize_invalid
      else [65536, 262144, 1048576, 4194304] ! unat (bsid - 4))"

definition LZ4F_compressBound_internal :: "u32 \<Rightarrow> LZ4F_preferences \<Rightarrow> u32 \<Rightarrow> u32" where
  "LZ4F_compressBound_internal srcSize prefs alreadyBuffered =
     (let flush = autoFlush prefs \<or> srcSize = 0;
          blockSize = LZ4F_getBlockSize (blockSizeID prefs);
          maxBuffered = blockSize - 1;
          bufferedSize = min alreadyBuffered maxBuffered;
          maxSrcSize = srcSize + bufferedSize;
          nbFullBlocks = maxSrcSize div blockSize;
          partialBlockSize = maxSrcSize AND (blockSize - 1);
          lastBlockSize = (if flush then partialBlockSize else 0);
          nbBlocks = nbFullBlocks + (if lastBlockSize > 0 then 1 else 0);
          blockCRCSize = BFSize * (if blockChecksumFlag prefs then 1 else 0);
          frameEnd = BHSize + (if contentChecksumFlag prefs then 1 else 0) * BFSize
      in (BHSize + blockCRCSize) * nbBlocks + blockSize * nbFullBlocks + lastBlockSize + frameEnd)"

definition LZ4F_compressBound :: "u32 \<Rightarrow> LZ4F_preferences \<Rightarrow> u32" where
  "LZ4F_compressBound srcSize prefs =
     (if autoFlush prefs then LZ4F_compressBound_internal srcSize prefs 0
      else LZ4F_compressBound_internal srcSize prefs (- 1))"

definition LZ4F_headerChecksum :: "bytes \<Rightarrow> u8" where
  "LZ4F_headerChecksum header = ucast (drop_bit 8 (XXH32 header 0))"

section \<open>The compression context\<close>

record LZ4F_cctx =
  prefs :: LZ4F_preferences
  version :: u32
  cStage :: nat
  maxBlockSize :: nat
  maxBufferSize :: nat
  tmpBuff :: int
  tmpIn :: int
  tmpInSize :: nat
  totalInSize :: u64
  xxh :: XXH32_state
  lz4CtxPtr :: "LZ4_stream option"
  lz4CtxAlloc :: nat
  lz4CtxState :: nat

definition zero_prefs :: LZ4F_preferences where
  "zero_prefs =
     \<lparr>blockSizeID = 0, blockMode = LZ4F_blockLinked, contentChecksumFlag = False, contentSize = 0,
      dictID = 0, blockChecksumFlag = False, compressionLevel = 0, autoFlush = False\<rparr>"

definition zero_xxh :: XXH32_state where
  "zero_xxh =
     \<lparr>total_len_32 = 0, large_len = False, lanes = (0, 0, 0, 0), mem32 = replicate 16 0, memsize = 0\<rparr>"

text \<open>\<open>allocated\<close> says whether the allocator had memory for the context.\<close>

definition LZ4F_createCompressionContext :: "bool \<Rightarrow> u32 \<Rightarrow> u32 \<times> LZ4F_cctx option" where
  "LZ4F_createCompressionContext allocated ver =
     (if \<not> allocated then (err0r ERROR_allocation_failed, None)
      else (LZ4F_code OK_NoError,
        Some \<lparr>prefs = zero_prefs, version = ver, cStage = 0, maxBlockSize = 0, maxBufferSize = 0,
              tmpBuff = 0, tmpIn = 0, tmpInSize = 0, totalInSize = 0, xxh = zero_xxh,
              lz4CtxPtr = None, lz4CtxAlloc = 0, lz4CtxState = 0\<rparr>))"

section \<open>Opening a frame\<close>

text \<open>The stream is reset at the start of a frame of linked blocks; no dictionary is attached.\<close>

definition LZ4F_initStream :: "LZ4_stream \<Rightarrow> LZ4F_blockMode \<Rightarrow> LZ4_stream" where
  "LZ4F_initStream ctx bmode =
     (let ctx1 = (if bmode = LZ4F_blockLinked then LZ4_resetStream_fast ctx else ctx)
      in ctx1\<lparr>dictCtx := 0\<rparr>)"

text \<open>
  What the allocator answers while a frame is opened: whether a stream could be had, and the
  address of the temporary buffer (0 when there is none).
\<close>

record LZ4F_alloc =
  a_stream :: bool
  a_buffer :: int

definition LZ4F_ctx_management :: "LZ4F_alloc \<Rightarrow> LZ4F_cctx \<Rightarrow> u32 + LZ4F_cctx" where
  "LZ4F_ctx_management al cctx =
     (if lz4CtxAlloc cctx < 1
      then (if \<not> a_stream al then Inl (err0r ERROR_allocation_failed)
            else Inr (cctx\<lparr>lz4CtxPtr := Some LZ4_initStream, lz4CtxAlloc := 1, lz4CtxState := 1\<rparr>))
      else if lz4CtxState cctx \<noteq> 1
      then Inr (cctx\<lparr>lz4CtxPtr := Some LZ4_initStream, lz4CtxState := 1\<rparr>)
      else Inr cctx)"

definition LZ4F_buffer_management ::
  "LZ4F_alloc \<Rightarrow> memory \<Rightarrow> LZ4F_cctx \<Rightarrow> u32 + memory \<times> LZ4F_cctx" where
  "LZ4F_buffer_management al m cctx =
     (let linked = (blockMode (prefs cctx) = LZ4F_blockLinked);
          required = (if autoFlush (prefs cctx) then (if linked then 65536 else 0)
                      else maxBlockSize cctx + (if linked then 131072 else 0))
      in if maxBufferSize cctx < required
         then
           let cctx1 = cctx\<lparr>maxBufferSize := 0, tmpBuff := a_buffer al\<rparr>
           in if a_buffer al = 0 then Inl (err0r ERROR_allocation_failed)
              else Inr ((\<lambda>p. if a_buffer al \<le> p \<and> p < a_buffer al + int required then 0 else m p),
                        cctx1\<lparr>maxBufferSize := required\<rparr>)
         else Inr (m, cctx))"

definition LZ4F_FLG :: "LZ4F_preferences \<Rightarrow> u8" where
  "LZ4F_FLG p =
     push_bit 6 (1 AND 3)
     + push_bit 5 (if blockMode p = LZ4F_blockLinked then 0 else 1)
     + push_bit 4 (if blockChecksumFlag p then 1 else 0)
     + push_bit 3 (if contentSize p > 0 then 1 else 0)
     + push_bit 2 (if contentChecksumFlag p then 1 else 0)
     + (if dictID p > 0 then 1 else 0)"

definition LZ4F_BD :: "LZ4F_preferences \<Rightarrow> u8" where
  "LZ4F_BD p = push_bit 4 (ucast (blockSizeID p AND 7))"

definition LZ4F_descriptor :: "LZ4F_preferences \<Rightarrow> bytes" where
  "LZ4F_descriptor p =
     [LZ4F_FLG p, LZ4F_BD p]
     @ (if contentSize p \<noteq> 0 then LZ4F_writeLE64 (contentSize p) else [])
     @ (if dictID p \<noteq> 0 then LZ4F_writeLE32 (dictID p) else [])"

definition LZ4F_header :: "LZ4F_preferences \<Rightarrow> bytes" where
  "LZ4F_header p =
     LZ4F_writeLE32 LZ4F_MAGICNUMBER @ LZ4F_descriptor p @ [LZ4F_headerChecksum (LZ4F_descriptor p)]"

type_synonym frame_result = "u32 \<times> bytes \<times> memory \<times> LZ4F_cctx"

definition LZ4F_compressBegin ::
  "LZ4F_alloc \<Rightarrow> memory \<Rightarrow> LZ4F_cctx \<Rightarrow> nat \<Rightarrow> LZ4F_preferences \<Rightarrow> frame_result outcome" where
  "LZ4F_compressBegin al m cctx dstCapacity preferences =
     (if dstCapacity < maxFHSize then Inr (err0r ERROR_dstMaxSize_tooSmall, [], m, cctx)
      else if compressionLevel preferences \<ge> LZ4HC_CLEVEL_MIN then Inl Not_Modelled
      else
        let cctx0 = cctx\<lparr>prefs := preferences\<rparr> in
        case LZ4F_ctx_management al cctx0 of
          Inl e \<Rightarrow> Inr (e, [], m, cctx0\<lparr>lz4CtxPtr := None\<rparr>)
        | Inr cctx1 \<Rightarrow>
            let p = (if blockSizeID preferences = 0 then preferences\<lparr>blockSizeID := 4\<rparr> else preferences);
                cctx2 = cctx1\<lparr>prefs := p, maxBlockSize := unat (LZ4F_getBlockSize (blockSizeID p))\<rparr>
            in (case LZ4F_buffer_management al m cctx2 of
                  Inl e \<Rightarrow> Inr (e, [], m, cctx2\<lparr>maxBufferSize := 0, tmpBuff := 0\<rparr>)
                | Inr (m1, cctx3) \<Rightarrow>
                    let cctx4 = cctx3\<lparr>tmpIn := tmpBuff cctx3, tmpInSize := 0, xxh := XXH32_reset 0\<rparr>;
                        cctx5 = (if blockMode p = LZ4F_blockLinked
                                 then cctx4\<lparr>lz4CtxPtr := map_option (\<lambda>s. LZ4F_initStream s LZ4F_blockLinked) (lz4CtxPtr cctx4)\<rparr>
                                 else cctx4);
                        cctx6 = (if contentSize p \<noteq> 0 then cctx5\<lparr>totalInSize := 0\<rparr> else cctx5);
                        out = LZ4F_header p
                    in Inr (of_nat (length out), out, m1, cctx6\<lparr>cStage := 1\<rparr>)))"

section \<open>Blocks\<close>

type_synonym compressFunc = "memory \<Rightarrow> LZ4_stream \<Rightarrow> int \<Rightarrow> nat \<Rightarrow> nat \<Rightarrow> int \<Rightarrow> lz4_result outcome"

definition LZ4F_makeBlock ::
  "memory \<Rightarrow> int \<Rightarrow> nat \<Rightarrow> compressFunc \<Rightarrow> LZ4_stream \<Rightarrow> int \<Rightarrow> bool \<Rightarrow> (bytes \<times> LZ4_stream) outcome" where
  "LZ4F_makeBlock m src srcSize compress lz4ctx level crcFlag =
     chain (compress m lz4ctx src srcSize (srcSize - 1) level) (\<lambda>r.
       let (header, body) =
             (if r_result r = 0
              then (LZ4F_writeLE32 (of_nat srcSize OR LZ4F_BLOCKUNCOMPRESSED_FLAG), mem_bytes m src srcSize)
              else (LZ4F_writeLE32 (of_nat (r_result r)), r_out r));
           crc = (if crcFlag then LZ4F_writeLE32 (XXH32 body 0) else [])
       in Inr (header @ body @ crc, r_stream r))"

definition LZ4F_compressBlock_continue :: compressFunc where
  "LZ4F_compressBlock_continue m ctx src srcSize dstCapacity level =
     LZ4_compress_fast_continue m ctx src srcSize dstCapacity (if level < 0 then - level + 1 else 1)"

definition LZ4F_selectCompression :: "LZ4F_blockMode \<Rightarrow> int \<Rightarrow> compressFunc outcome" where
  "LZ4F_selectCompression bmode level =
     (if level < LZ4HC_CLEVEL_MIN \<and> bmode = LZ4F_blockLinked then Inr LZ4F_compressBlock_continue
      else Inl Not_Modelled)"

text \<open>One block with the context's own stream and settings.\<close>

definition LZ4F_block :: "memory \<Rightarrow> LZ4F_cctx \<Rightarrow> int \<Rightarrow> nat \<Rightarrow> compressFunc \<Rightarrow> (bytes \<times> LZ4F_cctx) outcome" where
  "LZ4F_block m cctx src srcSize compress =
     (case lz4CtxPtr cctx of
        None \<Rightarrow> Inl Null_Deref
      | Some s \<Rightarrow>
          chain (LZ4F_makeBlock m src srcSize compress s (compressionLevel (prefs cctx)) (blockChecksumFlag (prefs cctx)))
            (\<lambda>(out, s1). Inr (out, cctx\<lparr>lz4CtxPtr := Some s1\<rparr>)))"

definition LZ4F_localSaveDict :: "memory \<Rightarrow> LZ4F_cctx \<Rightarrow> (memory \<times> LZ4F_cctx \<times> nat) outcome" where
  "LZ4F_localSaveDict m cctx =
     (if compressionLevel (prefs cctx) < LZ4HC_CLEVEL_MIN
      then (case lz4CtxPtr cctx of
              None \<Rightarrow> Inl Null_Deref
            | Some s \<Rightarrow>
                let (m1, s1, k) = LZ4_saveDict m s (tmpBuff cctx) 65536
                in Inr (m1, cctx\<lparr>lz4CtxPtr := Some s1\<rparr>, k))
      else Inl Not_Modelled)"

section \<open>Feeding a frame\<close>

datatype LZ4F_lastBlockStatus = notDone | fromTmpBuffer | fromSrcBuffer

text \<open>
  The stages of \<open>LZ4F_compressUpdate\<close> pass on the bytes written so far, how much of the
  source is consumed, and where the last block came from.
\<close>

record update_vars =
  u_mem :: memory
  u_ctx :: LZ4F_cctx
  u_out :: bytes
  u_pos :: nat
  u_last :: LZ4F_lastBlockStatus

definition LZ4F_complete_tmp :: "compressFunc \<Rightarrow> int \<Rightarrow> nat \<Rightarrow> update_vars \<Rightarrow> update_vars outcome" where
  "LZ4F_complete_tmp compress srcBuffer srcSize u =
     (let cctx = u_ctx u; blockSize = maxBlockSize cctx in
      if tmpInSize cctx > 0
      then
        let sizeToCopy = blockSize - tmpInSize cctx in
        if sizeToCopy > srcSize
        then Inr (u\<lparr>u_mem := memmove (u_mem u) (tmpIn cctx + int (tmpInSize cctx)) srcBuffer srcSize,
                    u_pos := srcSize, u_ctx := cctx\<lparr>tmpInSize := tmpInSize cctx + srcSize\<rparr>\<rparr>)
        else
          let m1 = memmove (u_mem u) (tmpIn cctx + int (tmpInSize cctx)) srcBuffer sizeToCopy in
          chain (LZ4F_block m1 cctx (tmpIn cctx) blockSize compress) (\<lambda>(out, cctx1).
            Inr \<lparr>u_mem = m1,
                 u_ctx = cctx1\<lparr>tmpIn := (if blockMode (prefs cctx1) = LZ4F_blockLinked
                                        then tmpIn cctx1 + int blockSize else tmpIn cctx1),
                               tmpInSize := 0\<rparr>,
                 u_out = u_out u @ out, u_pos = sizeToCopy, u_last = fromTmpBuffer\<rparr>)
      else Inr u)"

text \<open>The loop over full blocks runs \<open>k\<close> times: once for every whole block left.\<close>

fun LZ4F_full_blocks :: "nat \<Rightarrow> compressFunc \<Rightarrow> int \<Rightarrow> update_vars \<Rightarrow> update_vars outcome" where
  "LZ4F_full_blocks 0 compress srcBuffer u = Inr u"
| "LZ4F_full_blocks (Suc k) compress srcBuffer u =
     chain (LZ4F_block (u_mem u) (u_ctx u) (srcBuffer + int (u_pos u)) (maxBlockSize (u_ctx u)) compress)
       (\<lambda>(out, cctx1).
         LZ4F_full_blocks k compress srcBuffer
           (u\<lparr>u_ctx := cctx1, u_out := u_out u @ out, u_pos := u_pos u + maxBlockSize (u_ctx u),
              u_last := fromSrcBuffer\<rparr>))"

definition LZ4F_last_block :: "compressFunc \<Rightarrow> int \<Rightarrow> nat \<Rightarrow> update_vars \<Rightarrow> update_vars outcome" where
  "LZ4F_last_block compress srcBuffer srcSize u =
     (if autoFlush (prefs (u_ctx u)) \<and> u_pos u < srcSize
      then chain (LZ4F_block (u_mem u) (u_ctx u) (srcBuffer + int (u_pos u)) (srcSize - u_pos u) compress)
        (\<lambda>(out, cctx1).
          Inr (u\<lparr>u_ctx := cctx1, u_out := u_out u @ out, u_pos := srcSize, u_last := fromSrcBuffer\<rparr>))
      else Inr u)"

text \<open>The first component is an error code the function returns at once.\<close>

definition LZ4F_preserve_dict :: "bool \<Rightarrow> update_vars \<Rightarrow> (u32 option \<times> update_vars) outcome" where
  "LZ4F_preserve_dict stableSrc u =
     (let cctx = u_ctx u in
      if blockMode (prefs cctx) = LZ4F_blockLinked \<and> u_last u = fromSrcBuffer
      then
        if stableSrc then Inr (None, u\<lparr>u_ctx := cctx\<lparr>tmpIn := tmpBuff cctx\<rparr>\<rparr>)
        else chain (LZ4F_localSaveDict (u_mem u) cctx) (\<lambda>(m1, cctx1, k).
          if k = 0 then Inr (Some (err0r ERROR_GENERIC), u\<lparr>u_mem := m1, u_ctx := cctx1\<rparr>)
          else Inr (None, u\<lparr>u_mem := m1, u_ctx := cctx1\<lparr>tmpIn := tmpBuff cctx1 + int k\<rparr>\<rparr>))
      else Inr (None, u))"

definition LZ4F_keep_tmp :: "update_vars \<Rightarrow> update_vars outcome" where
  "LZ4F_keep_tmp u =
     (let cctx = u_ctx u in
      if tmpIn cctx + int (maxBlockSize cctx) > tmpBuff cctx + int (maxBufferSize cctx) \<and> \<not> autoFlush (prefs cctx)
      then chain (LZ4F_localSaveDict (u_mem u) cctx) (\<lambda>(m1, cctx1, k).
        Inr (u\<lparr>u_mem := m1, u_ctx := cctx1\<lparr>tmpIn := tmpBuff cctx1 + int k\<rparr>\<rparr>))
      else Inr u)"

definition LZ4F_fill_tmp :: "int \<Rightarrow> nat \<Rightarrow> update_vars \<Rightarrow> update_vars" where
  "LZ4F_fill_tmp srcBuffer srcSize u =
     (let cctx = u_ctx u in
      if u_pos u < srcSize
      then
        let sizeToCopy = srcSize - u_pos u
        in u\<lparr>u_mem := memmove (u_mem u) (tmpIn cctx) (srcBuffer + int (u_pos u)) sizeToCopy,
             u_ctx := cctx\<lparr>tmpInSize := sizeToCopy\<rparr>\<rparr>
      else u)"

text \<open>The content checksum is taken over the source as it is in memory after the copies.\<close>

definition LZ4F_account :: "int \<Rightarrow> nat \<Rightarrow> update_vars \<Rightarrow> frame_result" where
  "LZ4F_account srcBuffer srcSize u =
     (let cctx = u_ctx u;
          cctx1 = (if contentChecksumFlag (prefs cctx)
                   then cctx\<lparr>xxh := XXH32_update (xxh cctx) (mem_bytes (u_mem u) srcBuffer srcSize)\<rparr> else cctx)
      in (of_nat (length (u_out u)), u_out u, u_mem u,
          cctx1\<lparr>totalInSize := totalInSize cctx1 + of_nat srcSize\<rparr>))"

definition LZ4F_compressUpdate ::
  "memory \<Rightarrow> LZ4F_cctx \<Rightarrow> nat \<Rightarrow> int \<Rightarrow> nat \<Rightarrow> bool \<Rightarrow> frame_result outcome" where
  "LZ4F_compressUpdate m cctx dstCapacity srcBuffer srcSize stableSrc =
     (if cStage cctx \<noteq> 1 then Inr (err0r ERROR_GENERIC, [], m, cctx)
      else if dstCapacity < unat (LZ4F_compressBound_internal (of_nat srcSize) (prefs cctx) (of_nat (tmpInSize cctx)))
      then Inr (err0r ERROR_dstMaxSize_tooSmall, [], m, cctx)
      else
        chain (LZ4F_selectCompression (blockMode (prefs cctx)) (compressionLevel (prefs cctx))) (\<lambda>compress.
        chain (LZ4F_complete_tmp compress srcBuffer srcSize
                 \<lparr>u_mem = m, u_ctx = cctx, u_out = [], u_pos = 0, u_last = notDone\<rparr>) (\<lambda>u1.
        chain (LZ4F_full_blocks ((srcSize - u_pos u1) div maxBlockSize cctx) compress srcBuffer u1) (\<lambda>u2.
        chain (LZ4F_last_block compress srcBuffer srcSize u2) (\<lambda>u3.
        chain (LZ4F_preserve_dict stableSrc u3) (\<lambda>(res, u4).
          case res of
            Some e \<Rightarrow> Inr (e, u_out u4, u_mem u4, u_ctx u4)
          | None \<Rightarrow>
              chain (LZ4F_keep_tmp u4) (\<lambda>u5.
                Inr (LZ4F_account srcBuffer srcSize (LZ4F_fill_tmp srcBuffer srcSize u5)))))))))"

section \<open>Closing a frame\<close>

definition LZ4F_flush :: "memory \<Rightarrow> LZ4F_cctx \<Rightarrow> nat \<Rightarrow> frame_result outcome" where
  "LZ4F_flush m cctx dstCapacity =
     (if tmpInSize cctx = 0 then Inr (0, [], m, cctx)
      else if cStage cctx \<noteq> 1 then Inr (err0r ERROR_GENERIC, [], m, cctx)
      else if dstCapacity < tmpInSize cctx + unat BHSize + unat BFSize
      then Inr (err0r ERROR_dstMaxSize_tooSmall, [], m, cctx)
      else
        chain (LZ4F_selectCompression (blockMode (prefs cctx)) (compressionLevel (prefs cctx))) (\<lambda>compress.
        chain (LZ4F_block m cctx (tmpIn cctx) (tmpInSize cctx) compress) (\<lambda>(out, cctx1).
          let cctx2 = (if blockMode (prefs cctx1) = LZ4F_blockLinked
                       then cctx1\<lparr>tmpIn := tmpIn cctx1 + int (tmpInSize cctx1)\<rparr> else cctx1)\<lparr>tmpInSize := 0\<rparr>
          in if tmpIn cctx2 + int (maxBlockSize cctx2) > tmpBuff cctx2 + int (maxBufferSize cctx2)
             then chain (LZ4F_localSaveDict m cctx2) (\<lambda>(m1, cctx3, k).
               Inr (of_nat (length out), out, m1, cctx3\<lparr>tmpIn := tmpBuff cctx3 + int k\<rparr>))
             else Inr (of_nat (length out), out, m, cctx2))))"

definition LZ4F_compressEnd :: "memory \<Rightarrow> LZ4F_cctx \<Rightarrow> nat \<Rightarrow> frame_result outcome" where
  "LZ4F_compressEnd m cctx dstCapacity =
     chain (LZ4F_flush m cctx dstCapacity) (\<lambda>(flushSize, out0, m1, cctx1).
       if LZ4F_isError flushSize then Inr (flushSize, out0, m1, cctx1)
       else
         let cap = dstCapacity - unat flushSize in
         if cap < 4 then Inr (err0r ERROR_dstMaxSize_tooSmall, out0, m1, cctx1)
         else
           let out1 = out0 @ LZ4F_writeLE32 0 in
           if contentChecksumFlag (prefs cctx1) \<and> cap < 8
           then Inr (err0r ERROR_dstMaxSize_tooSmall, out1, m1, cctx1)
           else
             let out2 = (if contentChecksumFlag (prefs cctx1)
                         then out1 @ LZ4F_writeLE32 (XXH32_digest (xxh cctx1)) else out1);
                 cctx2 = cctx1\<lparr>cStage := 0, maxBufferSize := 0\<rparr>
             in if contentSize (prefs cctx2) \<noteq> 0 \<and> contentSize (prefs cctx2) \<noteq> totalInSize cctx2
                then Inr (err0r ERROR_frameSize_wrong, out2, m1, cctx2)
                else Inr (of_nat (length out2), out2, m1, cctx2))"

section \<open>Reading a header\<close>

datatype header_result =
    Header_Error LZ4F_errorCodes
  | Skippable_Frame
  | Header_Incomplete nat
  | Frame_Header LZ4F_preferences nat

definition LZ4F_decodeHeader :: "bytes \<Rightarrow> header_result" where
  "LZ4F_decodeHeader src =
     (if length src < minFHSize then Header_Error ERROR_frameHeader_incomplete
      else if LZ4F_readLE32 src AND 0xFFFFFFF0 = LZ4F_MAGIC_SKIPPABLE_START then Skippable_Frame
      else if LZ4F_readLE32 src \<noteq> LZ4F_MAGICNUMBER then Header_Error ERROR_frameType_unknown
      else
        let FLG = src ! 4;
            ver = drop_bit 6 FLG AND 3;
            blockChecksumBit = drop_bit 4 FLG AND 1;
            blockModeBit = drop_bit 5 FLG AND 1;
            contentSizeFlag = drop_bit 3 FLG AND 1;
            contentChecksumBit = drop_bit 2 FLG AND 1;
            dictIDFlag = FLG AND 1
        in if drop_bit 1 FLG AND 1 \<noteq> 0 then Header_Error ERROR_reservedFlag_set
           else if ver \<noteq> 1 then Header_Error ERROR_headerVersion_wrong
           else
             let frameHeaderSize = minFHSize + (if contentSizeFlag \<noteq> 0 then 8 else 0) + (if dictIDFlag \<noteq> 0 then 4 else 0)
             in if length src < frameHeaderSize then Header_Incomplete frameHeaderSize
                else
                  let BD = src ! 5;
                      bsid = drop_bit 4 BD AND 7
                  in if drop_bit 7 BD AND 1 \<noteq> 0 then Header_Error ERROR_reservedFlag_set
                     else if bsid < 4 then Header_Error ERROR_maxBlockSize_invalid
                     else if BD AND 15 \<noteq> 0 then Header_Error ERROR_reservedFlag_set
                     else if LZ4F_headerChecksum (take (frameHeaderSize - 5) (drop 4 src)) \<noteq> src ! (frameHeaderSize - 1)
                     then Header_Error ERROR_headerChecksum_invalid
                     else Frame_Header
                       (zero_prefs\<lparr>blockMode := (if blockModeBit = 0 then LZ4F_blockLinked else LZ4F_blockIndependent),
                                   blockChecksumFlag := (blockChecksumBit \<noteq> 0),
                                   contentChecksumFlag := (contentChecksumBit \<noteq> 0),
                                   blockSizeID := ucast bsid,
                                   contentSize := (if contentSizeFlag \<noteq> 0 then LZ4F_readLE64 (drop 6 src) else 0),
                                   dictID := (if dictIDFlag \<noteq> 0 then LZ4F_readLE32 (drop (frameHeaderSize - 5) src) else 0)\<rparr>)
                       frameHeaderSize)"

definition LZ4F_headerSize :: "bytes \<Rightarrow> u32" where
  "LZ4F_headerSize src =
     (if length src < 5 then err0r ERROR_frameHeader_incomplete
      else if LZ4F_readLE32 src AND 0xFFFFFFF0 = LZ4F_MAGIC_SKIPPABLE_START then 8
      else if LZ4F_readLE32 src \<noteq> LZ4F_MAGICNUMBER then err0r ERROR_frameType_unknown
      else
        let FLG = src ! 4;
            contentSizeFlag = drop_bit 3 FLG AND 1;
            dictIDFlag = FLG AND 1
        in of_nat minFHSize + (if contentSizeFlag \<noteq> 0 then 8 else 0) + (if dictIDFlag \<noteq> 0 then 4 else 0))"

end
