(* ===== verification/Zephyr.thy ===== *)
theory Zephyr
  imports Complex_Main Prelude "HOL-Library.State_Monad" "HOL-Library.Multiset"
begin

text \<open>
  The outside of the program: Zephyr's kernel, file system and drivers, the modem library,
  the sockets, the HTTP client, cJSON and the SUPL library. None of them is under \<open>src/\<close>, so
  none is modelled: a call of one is an event, recorded in the trace of the world with the
  arguments the code passes, and its answer is whatever the environment of the world says at
  that point of the trace. A function of the firmware is a computation in the state monad
  over a world, so that the order and the arguments of its calls can be stated.

  Log output (\<open>LOG_INF\<close>, \<open>LOG_ERR\<close>, \<open>printk\<close>, \<open>printf\<close>) is not recorded.
\<close>

section \<open>Calls\<close>

datatype sem = rollover_event_sem | lte_ready

datatype timeout = K_NO_WAIT | K_FOREVER | K_MSEC nat

definition K_SECONDS :: "nat \<Rightarrow> timeout" where
  "K_SECONDS s = K_MSEC (1000 * s)"

datatype heap_object = Fs_file_object | Nmea_data_frame

datatype kernel_call =
    K_malloc heap_object
  | K_free int
  | K_sleep timeout
  | K_sem_give sem
  | K_sem_take sem timeout
  | K_msgq_put int timeout
  | K_msgq_get timeout
  | K_poll
  | K_uptime_get

text \<open>A file object is the log's, which is allocated, or one on the stack of its function.\<close>

datatype fs_file = Allocated_File int | Config_File | Upload_File

datatype fs_flag = FS_O_READ | FS_O_WRITE | FS_O_CREATE

datatype fs_call =
    Fs_open fs_file string "fs_flag list"
  | Fs_read fs_file nat
  | Fs_write fs_file bytes
  | Fs_sync fs_file
  | Fs_seek_cur fs_file int
  | Fs_close fs_file
  | Fs_rename string string
  | Fs_stat string
  | Fs_mkdir string
  | Fs_opendir string
  | Fs_readdir
  | Fs_closedir
  | Fs_mount string
  | Disk_access_init string
  | Disk_sector_count string
  | Disk_sector_size string

datatype led = red_led | green_led | blue_led

datatype device_call =
    Gpio_configure_led led
  | Gpio_configure_button
  | Gpio_interrupt_button
  | Gpio_add_callback
  | Gpio_pin_set led nat
  | Gpio_binding
  | Adc_ready
  | Adc_channel_setup
  | Adc_read

datatype func_mode =
  ACTIVATE_GNSS | DEACTIVATE_LTE | ACTIVATE_UICC | OFFLINE_UICC_ON

datatype modem_info = MODEM_INFO_FW_VERSION | MODEM_INFO_ICCID | MODEM_INFO_IMEI

datatype modem_call =
    Lte_lc_connect_async
  | Lte_lc_func_mode_set func_mode
  | Lte_lc_system_mode_set_ltem_gps
  | Lte_lc_system_mode_get
  | Modem_info_init
  | Modem_info_string_get modem_info
  | Modem_key_exists nat
  | Modem_key_cmp nat string
  | Modem_key_delete nat
  | Modem_key_write nat string

datatype gnss_data = DATA_PVT | DATA_NMEA | DATA_AGPS_REQ

datatype gnss_call =
    Gnss_read gnss_data
  | Gnss_event_handler_set
  | Gnss_fix_interval_set nat
  | Gnss_fix_retry_set nat
  | Gnss_nmea_mask_set nat
  | Gnss_elevation_threshold_set nat
  | Gnss_use_case_set nat
  | Gnss_power_mode_set nat
  | Gnss_start
  | Gnss_stop
  | Gnss_agps_write nat

datatype address_family = AF_INET | AF_INET6 | AF_OTHER

datatype protocol = IPPROTO_TCP | IPPROTO_TLS_1_2

datatype sock_opt =
    SO_RCVTIMEO nat
  | TLS_PEER_VERIFY_REQUIRED
  | TLS_SEC_TAG_LIST nat
  | TLS_HOSTNAME string

text \<open>An address of the resolver's list is named by its position and its family.\<close>

datatype net_call =
    Getaddrinfo string
  | Freeaddrinfo
  | Socket address_family protocol
  | Setsockopt int sock_opt
  | Connect int nat nat
  | Send int bytes
  | Recv int nat
  | Close int
  | Errno

text \<open>
  An HTTP request as the code fills it in: the method is always \<open>PUT\<close>, the header fields are
  the ones of its list before the \<open>NULL\<close>.
\<close>

record http_request =
  req_url :: string
  req_host :: string
  req_headers :: "string list"
  req_file :: string

datatype http_call =
    Http_request int http_request
  | Http_done

datatype supl_call = Supl_init | Supl_session

text \<open>cJSON nodes are pointers; 0 is \<open>NULL\<close>.\<close>

datatype json_call =
    CJSON_Parse string
  | CJSON_GetObjectItem int string
  | CJSON_valueint int
  | CJSON_valuestring int
  | CJSON_Delete int
  | CJSON_CreateObject
  | CJSON_AddNumber int string rat
  | CJSON_AddString int string string
  | CJSON_AddItem int string int
  | CJSON_AddArray int string
  | CJSON_AddArrayNumber int rat
  | CJSON_Print int nat
  | Base64_encode string nat

datatype call =
    Kernel kernel_call
  | Fs fs_call
  | Device device_call
  | Modem modem_call
  | Gnss gnss_call
  | Net net_call
  | Http http_call
  | Supl supl_call
  | Json json_call

type_synonym trace = "call list"

text \<open>The error number of an operation that would have to wait longer.\<close>

definition EAGAIN :: int where "EAGAIN = 11"

section \<open>The environment\<close>

text \<open>
  A position-velocity-time frame of the modem. Its floating-point fields are rationals: the
  firmware only copies and prints them.
\<close>

record nrf_modem_gnss_datetime =
  year :: u16
  month :: u8
  day :: u8
  hour :: u8
  minute :: u8
  seconds :: u8

record nrf_modem_gnss_pvt_data_frame =
  pvt_latitude :: rat
  pvt_longitude :: rat
  pvt_altitude :: rat
  datetime :: nrf_modem_gnss_datetime
  pvt_flags :: u8
  pvt_sv :: "(u16 \<times> u8) list"

text \<open>What the HTTP client does with the callbacks of a request before it returns.\<close>

datatype http_event = Payload | Response string

text \<open>
  The answers: the integer a call returns; the characters it leaves in the caller's buffer; a
  size or a flag it stores (the size of a file, whether an entry is a directory, whether a
  certificate exists); the sample of the converter; the position frame or the assistance
  request it reads; the families of the resolved addresses; whether there is a memory block
  for the compression context and its stream, and the address of the compressor's buffer; the
  callbacks of a request; and the rounding of a number to single precision.
\<close>

record environment =
  ans :: "trace \<Rightarrow> int"
  text_ans :: "trace \<Rightarrow> string"
  size_ans :: "trace \<Rightarrow> nat"
  flag_ans :: "trace \<Rightarrow> bool"
  sample_ans :: "trace \<Rightarrow> 16 word"
  frame_ans :: "trace \<Rightarrow> nrf_modem_gnss_pvt_data_frame"
  agps_ans :: "trace \<Rightarrow> u32 \<times> u32 \<times> u32"
  addr_ans :: "trace \<Rightarrow> address_family list"
  http_ans :: "trace \<Rightarrow> http_event list"
  heap_cctx :: "trace \<Rightarrow> bool"
  heap_stream :: "trace \<Rightarrow> bool"
  heap_buffer :: "trace \<Rightarrow> int"
  to_float :: "rat \<Rightarrow> rat"

record world =
  outside :: environment
  events :: trace
  stopped :: "fault option"

section \<open>Computations\<close>

text \<open>Once a computation has stopped, in a fault, nothing of the world changes any more.\<close>

definition call :: "call \<Rightarrow> ('z world_scheme, int) state" where
  "call c = State (\<lambda>w. if stopped w = None
      then (ans (outside w) (events w @ [c]), w\<lparr>events := events w @ [c]\<rparr>) else (0, w))"

definition stop :: "fault \<Rightarrow> 'a \<Rightarrow> ('z world_scheme, 'a) state" where
  "stop e x = State (\<lambda>w. (x, if stopped w = None then w\<lparr>stopped := Some e\<rparr> else w))"

definition ask :: "('z world_scheme \<Rightarrow> 'a) \<Rightarrow> ('z world_scheme, 'a) state" where
  "ask f = State (\<lambda>w. (f w, w))"

text \<open>A condition without which the next statement is undefined or an assertion fails.\<close>

definition check :: "fault \<Rightarrow> bool \<Rightarrow> ('z world_scheme, unit) state" where
  "check e b = (if b then State_Monad.return () else stop e ())"

text \<open>
  A change of static variables keeps the outside and the trace; \<open>assign\<close> is only used with
  such changes.
\<close>

definition assign :: "('z world_scheme \<Rightarrow> 'z world_scheme) \<Rightarrow> ('z world_scheme, unit) state" where
  "assign f = State (\<lambda>w. ((), if stopped w = None then f w else w))"

text \<open>What the latest call left in the caller's buffer.\<close>

definition said :: "('z world_scheme, string) state" where
  "said = ask (\<lambda>w. text_ans (outside w) (events w))"

text \<open>Calls whose result is ignored, one after the other.\<close>

definition perform :: "call \<Rightarrow> ('z world_scheme, unit) state" where
  "perform c = do { _ \<leftarrow> call c; State_Monad.return () }"

lemma run_call [simp]:
  "stopped w = None \<Longrightarrow> run_state (call c) w =
     (ans (outside w) (events w @ [c]), w\<lparr>events := events w @ [c]\<rparr>)"
  by (simp add: call_def)

lemma run_call_stopped [simp]: "stopped w = Some e \<Longrightarrow> run_state (call c) w = (0, w)"
  by (simp add: call_def)

lemma run_perform [simp]:
  "run_state (perform c) w = ((), if stopped w = None then w\<lparr>events := events w @ [c]\<rparr> else w)"
  by (simp add: call_def perform_def)

lemma run_stop [simp]:
  "run_state (stop e x) w = (x, if stopped w = None then w\<lparr>stopped := Some e\<rparr> else w)"
  by (simp add: stop_def)

lemma run_check [simp]:
  "run_state (check e b) w = ((), if b \<or> stopped w \<noteq> None then w else w\<lparr>stopped := Some e\<rparr>)"
  by (simp add: check_def)

lemma run_ask [simp]: "run_state (ask f) w = (f w, w)"
  by (simp add: ask_def)

lemma run_assign [simp]:
  "run_state (assign f) w = ((), if stopped w = None then f w else w)"
  by (simp add: assign_def)

lemma run_said [simp]: "run_state said w = (text_ans (outside w) (events w), w)"
  by (simp add: said_def)

section \<open>Reasoning about traces\<close>

text \<open>
  \<open>does P m\<close>: every run of \<open>m\<close> leaves the environment as it is, appends only calls that
  satisfy \<open>P\<close> to the trace, and does nothing at all in a world that has stopped.
\<close>

definition appends :: "(call \<Rightarrow> bool) \<Rightarrow> 'z world_scheme \<Rightarrow> 'z world_scheme \<Rightarrow> bool" where
  "appends P w w' \<longleftrightarrow> outside w' = outside w \<and> (\<exists>cs. events w' = events w @ cs \<and> list_all P cs)
     \<and> (stopped w \<noteq> None \<longrightarrow> w' = w)"

definition does :: "(call \<Rightarrow> bool) \<Rightarrow> ('z world_scheme, 'a) state \<Rightarrow> bool" where
  "does P = state_io_rel (appends P)"

named_theorems does_rules

lemma appends_refl: "appends P w w"
  by (simp add: appends_def)

lemma appends_trans: "appends P u v \<Longrightarrow> appends P v w \<Longrightarrow> appends P u w"
  by (force simp: appends_def)

lemma does_appends: "does P m \<Longrightarrow> appends P w (snd (run_state m w))"
  by (auto simp: does_def state_io_rel_def)

lemma does_outside: "does P m \<Longrightarrow> outside (snd (run_state m w)) = outside w"
  by (drule does_appends [of _ _ w]) (auto simp: appends_def)

lemma does_events:
  "does P m \<Longrightarrow> \<exists>cs. events (snd (run_state m w)) = events w @ cs \<and> list_all P cs"
  by (drule does_appends [of _ _ w]) (auto simp: appends_def)

lemma does_sticky: "does P m \<Longrightarrow> stopped w \<noteq> None \<Longrightarrow> snd (run_state m w) = w"
  by (drule does_appends [of _ _ w]) (auto simp: appends_def)

lemma does_bind [does_rules]:
  "does P m \<Longrightarrow> (\<And>x. does P (f x)) \<Longrightarrow> does P (State_Monad.bind m f)"
  unfolding does_def state_io_rel_def
  by (auto split: prod.split) (metis appends_trans snd_conv)

lemma does_return [does_rules]: "does P (State_Monad.return x)"
  by (simp add: does_def state_io_rel_def appends_refl)

lemma does_stop [does_rules]: "does P (stop e x)"
  by (simp add: does_def state_io_rel_def appends_def)

lemma does_check [does_rules]: "does P (check e b)"
  by (simp add: check_def does_return does_stop)

lemma does_ask [does_rules]: "does P (ask f)"
  by (simp add: does_def state_io_rel_def appends_refl)

lemma does_said [does_rules]: "does P said"
  by (simp add: said_def does_ask)

lemma does_call [does_rules]: "P c \<Longrightarrow> does P (call c)"
  by (simp add: does_def state_io_rel_def appends_def call_def)

lemma does_perform [does_rules]: "P c \<Longrightarrow> does P (perform c)"
  by (simp add: does_def state_io_rel_def appends_def)

lemma does_assign [does_rules]:
  "(\<And>w. outside (f w) = outside w) \<Longrightarrow> (\<And>w. events (f w) = events w) \<Longrightarrow> does P (assign f)"
  by (simp add: does_def state_io_rel_def appends_def)

lemma does_if [does_rules]: "(b \<Longrightarrow> does P m) \<Longrightarrow> (\<not> b \<Longrightarrow> does P n) \<Longrightarrow> does P (if b then m else n)"
  by simp

lemma does_option [does_rules]:
  "does P m \<Longrightarrow> (\<And>x. does P (f x)) \<Longrightarrow> does P (case y of None \<Rightarrow> m | Some x \<Rightarrow> f x)"
  by (cases y) simp_all

lemma does_sum [does_rules]:
  "(\<And>x. does P (f x)) \<Longrightarrow> (\<And>x. does P (g x)) \<Longrightarrow> does P (case y of Inl x \<Rightarrow> f x | Inr x \<Rightarrow> g x)"
  by (cases y) simp_all

lemma does_bool [does_rules]:
  "does P m \<Longrightarrow> does P n \<Longrightarrow> does P (case b of True \<Rightarrow> m | False \<Rightarrow> n)"
  by (cases b) simp_all

lemma does_prod [does_rules]: "(\<And>a b. does P (f a b)) \<Longrightarrow> does P (case p of (a, b) \<Rightarrow> f a b)"
  by (cases p) simp

lemma does_Let [does_rules]: "does P (f x) \<Longrightarrow> does P (Let x f)"
  by simp

lemma does_mono: "does P m \<Longrightarrow> (\<And>c. P c \<Longrightarrow> Q c) \<Longrightarrow> does Q m"
  unfolding does_def state_io_rel_def appends_def by (metis list_all_iff)

section \<open>Reasoning about results\<close>

text \<open>
  \<open>wp m Q w\<close>: if \<open>m\<close> starts in \<open>w\<close> and has not stopped in the end, then \<open>Q\<close> holds of its
  result and the last world.
\<close>

definition wp :: "('z world_scheme, 'a) state \<Rightarrow> ('a \<Rightarrow> 'z world_scheme \<Rightarrow> bool) \<Rightarrow> 'z world_scheme \<Rightarrow> bool" where
  "wp m Q w \<longleftrightarrow> stopped w = None \<longrightarrow> stopped (snd (run_state m w)) = None
     \<longrightarrow> Q (fst (run_state m w)) (snd (run_state m w))"

named_theorems wp_rules

lemma wpI: "(\<And>x w'. stopped w = None \<Longrightarrow> run_state m w = (x, w') \<Longrightarrow> stopped w' = None \<Longrightarrow> Q x w') \<Longrightarrow> wp m Q w"
  by (simp add: wp_def)

lemma wpD: "wp m Q w \<Longrightarrow> stopped w = None \<Longrightarrow> run_state m w = (x, w') \<Longrightarrow> stopped w' = None \<Longrightarrow> Q x w'"
  by (simp add: wp_def)

lemma wp_mono: "wp m Q w \<Longrightarrow> (\<And>x w'. stopped w' = None \<Longrightarrow> Q x w' \<Longrightarrow> R x w') \<Longrightarrow> wp m R w"
  by (simp add: wp_def)

lemma wp_bind [wp_rules]:
  assumes "\<And>x. does (\<lambda>_. True) (f x)" and "wp m (\<lambda>x. wp (f x) Q) w"
  shows "wp (State_Monad.bind m f) Q w"
proof (rule wpI)
  fix y w2
  assume s: "stopped w = None" "run_state (State_Monad.bind m f) w = (y, w2)" "stopped w2 = None"
  obtain x w1 where m: "run_state m w = (x, w1)" by (cases "run_state m w")
  with s(2) have f: "run_state (f x) w1 = (y, w2)" by simp
  have "stopped w1 = None"
    using does_sticky [OF assms(1), of w1 x] f s(3) by fastforce
  with assms(2) m f s show "Q y w2" by (simp add: wp_def)
qed

lemma wp_return [wp_rules]: "Q x w \<Longrightarrow> wp (State_Monad.return x) Q w"
  by (simp add: wp_def)

lemma wp_stop [wp_rules]: "wp (stop e x) Q w"
  by (simp add: wp_def)

lemma wp_check [wp_rules]: "(b \<Longrightarrow> Q () w) \<Longrightarrow> wp (check e b) Q w"
  by (simp add: wp_def)

lemma wp_ask [wp_rules]: "Q (f w) w \<Longrightarrow> wp (ask f) Q w"
  by (simp add: wp_def)

lemma wp_said [wp_rules]: "Q (text_ans (outside w) (events w)) w \<Longrightarrow> wp said Q w"
  by (simp add: wp_def)

lemma wp_call [wp_rules]:
  "Q (ans (outside w) (events w @ [c])) (w\<lparr>events := events w @ [c]\<rparr>) \<Longrightarrow> wp (call c) Q w"
  by (simp add: wp_def)

lemma wp_perform [wp_rules]: "Q () (w\<lparr>events := events w @ [c]\<rparr>) \<Longrightarrow> wp (perform c) Q w"
  by (simp add: wp_def)

lemma wp_assign [wp_rules]: "Q () (f w) \<Longrightarrow> wp (assign f) Q w"
  by (simp add: wp_def)

lemma wp_if [wp_rules]: "(b \<Longrightarrow> wp m Q w) \<Longrightarrow> (\<not> b \<Longrightarrow> wp n Q w) \<Longrightarrow> wp (if b then m else n) Q w"
  by simp

lemma wp_option [wp_rules]:
  "(y = None \<Longrightarrow> wp m Q w) \<Longrightarrow> (\<And>x. y = Some x \<Longrightarrow> wp (f x) Q w)
   \<Longrightarrow> wp (case y of None \<Rightarrow> m | Some x \<Rightarrow> f x) Q w"
  by (cases y) simp_all

lemma wp_sum [wp_rules]:
  "(\<And>x. y = Inl x \<Longrightarrow> wp (f x) Q w) \<Longrightarrow> (\<And>x. y = Inr x \<Longrightarrow> wp (g x) Q w)
   \<Longrightarrow> wp (case y of Inl x \<Rightarrow> f x | Inr x \<Rightarrow> g x) Q w"
  by (cases y) simp_all

lemma wp_bool [wp_rules]:
  "(b \<Longrightarrow> wp m Q w) \<Longrightarrow> (\<not> b \<Longrightarrow> wp n Q w) \<Longrightarrow> wp (case b of True \<Rightarrow> m | False \<Rightarrow> n) Q w"
  by (cases b) simp_all

lemma wp_prod [wp_rules]:
  "(\<And>a b. p = (a, b) \<Longrightarrow> wp (f a b) Q w) \<Longrightarrow> wp (case p of (a, b) \<Rightarrow> f a b) Q w"
  by (cases p) simp

lemma wp_Let [wp_rules]: "wp (f x) Q w \<Longrightarrow> wp (Let x f) Q w"
  by simp

text \<open>\<open>keeps f m\<close>: no run of \<open>m\<close> changes the part \<open>f\<close> of the world.\<close>

definition keeps :: "('s \<Rightarrow> 'b) \<Rightarrow> ('s, 'a) state \<Rightarrow> bool" where
  "keeps f = state_io_rel (\<lambda>w w'. f w' = f w)"

named_theorems keeps_rules

lemma keepsD: "keeps f m \<Longrightarrow> f (snd (run_state m w)) = f w"
  by (simp add: keeps_def state_io_rel_def)

lemma keeps_bind [keeps_rules]:
  "keeps f m \<Longrightarrow> (\<And>x. keeps f (g x)) \<Longrightarrow> keeps f (State_Monad.bind m g)"
  unfolding keeps_def state_io_rel_def by (auto split: prod.split) (metis snd_conv)

lemma keeps_return [keeps_rules]: "keeps f (State_Monad.return x)"
  by (simp add: keeps_def state_io_rel_def)

lemma keeps_ask [keeps_rules]: "keeps f (ask g)"
  by (simp add: keeps_def state_io_rel_def)

lemma keeps_said [keeps_rules]: "keeps f said"
  by (simp add: said_def keeps_ask)

lemma keeps_call [keeps_rules]: "(\<And>w t. f (w\<lparr>events := t\<rparr>) = f w) \<Longrightarrow> keeps f (call c)"
  by (simp add: keeps_def state_io_rel_def call_def)

lemma keeps_perform [keeps_rules]: "(\<And>w t. f (w\<lparr>events := t\<rparr>) = f w) \<Longrightarrow> keeps f (perform c)"
  by (simp add: keeps_def state_io_rel_def)

lemma keeps_stop [keeps_rules]: "(\<And>w e. f (w\<lparr>stopped := e\<rparr>) = f w) \<Longrightarrow> keeps f (stop e x)"
  by (simp add: keeps_def state_io_rel_def)

lemma keeps_check [keeps_rules]: "(\<And>w e. f (w\<lparr>stopped := e\<rparr>) = f w) \<Longrightarrow> keeps f (check e b)"
  by (simp add: check_def keeps_return keeps_stop)

lemma keeps_assign [keeps_rules]: "(\<And>w. f (g w) = f w) \<Longrightarrow> keeps f (assign g)"
  by (simp add: keeps_def state_io_rel_def)

lemma keeps_if [keeps_rules]: "(b \<Longrightarrow> keeps f m) \<Longrightarrow> (\<not> b \<Longrightarrow> keeps f n) \<Longrightarrow> keeps f (if b then m else n)"
  by simp

lemma keeps_option [keeps_rules]:
  "keeps f m \<Longrightarrow> (\<And>x. keeps f (g x)) \<Longrightarrow> keeps f (case y of None \<Rightarrow> m | Some x \<Rightarrow> g x)"
  by (cases y) simp_all

lemma keeps_sum [keeps_rules]:
  "(\<And>x. keeps f (g x)) \<Longrightarrow> (\<And>x. keeps f (h x)) \<Longrightarrow> keeps f (case y of Inl x \<Rightarrow> g x | Inr x \<Rightarrow> h x)"
  by (cases y) simp_all

lemma keeps_bool [keeps_rules]: "keeps f m \<Longrightarrow> keeps f n \<Longrightarrow> keeps f (case b of True \<Rightarrow> m | False \<Rightarrow> n)"
  by (cases b) simp_all

lemma keeps_prod [keeps_rules]: "(\<And>a b. keeps f (g a b)) \<Longrightarrow> keeps f (case p of (a, b) \<Rightarrow> g a b)"
  by (cases p) simp

lemma keeps_Let [keeps_rules]: "keeps f (g x) \<Longrightarrow> keeps f (Let x g)"
  by simp

lemma keepsI: "(\<And>w. f (snd (run_state m w)) = f w) \<Longrightarrow> keeps f m"
  by (simp add: keeps_def state_io_rel_def)

lemma keeps_pair: "keeps f m \<Longrightarrow> keeps g m \<Longrightarrow> keeps (\<lambda>w. (f w, g w)) m"
  by (intro keepsI) (simp add: keepsD)

lemma keeps_does:
  assumes "does P m" and "\<And>t cs. list_all P cs \<Longrightarrow> g (t @ cs) = g t"
  shows "keeps (\<lambda>w. g (events w)) m"
proof (rule keepsI)
  fix w
  show "g (events (snd (run_state m w))) = g (events w)"
    using does_events [OF assms(1), of w] assms(2) by auto
qed

lemma count_list_all: "list_all P cs \<Longrightarrow> \<not> P c \<Longrightarrow> count_list cs c = 0"
  by (induction cs) auto

lemma wp_does:
  assumes "does P m" and "\<And>x w' cs. outside w' = outside w \<Longrightarrow> events w' = events w @ cs \<Longrightarrow> list_all P cs \<Longrightarrow> Q x w'"
  shows "wp m Q w"
  unfolding wp_def using does_events [OF assms(1), of w] does_outside [OF assms(1), of w] assms(2) by blast

lemma wp_conj: "wp m Q w \<Longrightarrow> wp m R w \<Longrightarrow> wp m (\<lambda>x v. Q x v \<and> R x v) w"
  by (simp add: wp_def)

lemma wp_keeps: "keeps f m \<Longrightarrow> (\<And>x w'. f w' = f w \<Longrightarrow> Q x w') \<Longrightarrow> wp m Q w"
  unfolding wp_def using keepsD by metis

text \<open>\<open>only_calls m\<close>: a run of \<open>m\<close> ends without a fault and changes nothing but the trace.\<close>

definition only_calls :: "('z world_scheme, 'a) state \<Rightarrow> bool" where
  "only_calls m \<longleftrightarrow> (\<forall>w. stopped w = None \<longrightarrow> (\<exists>x cs. run_state m w = (x, w\<lparr>events := events w @ cs\<rparr>)))"

named_theorems only_calls_rules

lemma only_callsD: "only_calls m \<Longrightarrow> stopped w = None \<Longrightarrow> \<exists>x cs. run_state m w = (x, w\<lparr>events := events w @ cs\<rparr>)"
  by (simp add: only_calls_def)

lemma only_calls_bind [only_calls_rules]:
  assumes "only_calls m" and "\<And>x. only_calls (f x)"
  shows "only_calls (State_Monad.bind m f)"
  unfolding only_calls_def
proof (intro allI impI)
  fix w :: "'a world_scheme"
  assume s: "stopped w = None"
  then obtain x cs where m: "run_state m w = (x, w\<lparr>events := events w @ cs\<rparr>)"
    using only_callsD [OF assms(1)] by blast
  moreover obtain y ds where "run_state (f x) (w\<lparr>events := events w @ cs\<rparr>) = (y, w\<lparr>events := (events w @ cs) @ ds\<rparr>)"
    using only_callsD [OF assms(2), of "w\<lparr>events := events w @ cs\<rparr>" x] s by auto
  ultimately show "\<exists>y cs. run_state (State_Monad.bind m f) w = (y, w\<lparr>events := events w @ cs\<rparr>)"
    by (intro exI [of _ y] exI [of _ "cs @ ds"]) simp
qed

lemma only_calls_return [only_calls_rules]: "only_calls (State_Monad.return x)"
  unfolding only_calls_def by (metis append_Nil2 run_state_return world.surjective world.update_convs(2))

lemma only_calls_ask [only_calls_rules]: "only_calls (ask f)"
  unfolding only_calls_def by (metis append_Nil2 run_ask world.surjective world.update_convs(2))

lemma only_calls_call [only_calls_rules]: "only_calls (call c)"
  by (auto simp: only_calls_def)

lemma only_calls_perform [only_calls_rules]: "only_calls (perform c)"
  by (auto simp: only_calls_def)

lemma only_calls_said [only_calls_rules]: "only_calls said"
  unfolding said_def by (rule only_calls_ask)

lemma only_calls_if [only_calls_rules]:
  "(b \<Longrightarrow> only_calls m) \<Longrightarrow> (\<not> b \<Longrightarrow> only_calls n) \<Longrightarrow> only_calls (if b then m else n)"
  by simp

lemma only_calls_Let [only_calls_rules]: "only_calls (g x) \<Longrightarrow> only_calls (Let x g)"
  by simp

lemma only_calls_wp: "only_calls m \<Longrightarrow> (\<And>x cs. Q x (w\<lparr>events := events w @ cs\<rparr>)) \<Longrightarrow> wp m Q w"
  unfolding wp_def only_calls_def by (metis fst_conv snd_conv)

section \<open>Open sockets\<close>

text \<open>
  The descriptors that are open after a trace, as a multiset: a socket that was created is open
  until it is closed.
\<close>

fun sockets_rev :: "environment \<Rightarrow> trace \<Rightarrow> int multiset" where
  "sockets_rev E [] = {#}"
| "sockets_rev E (c # cs) =
     (let S = sockets_rev E cs in
      case c of
        Net (Socket a p) \<Rightarrow> (let s = ans E (rev (c # cs)) in if 0 \<le> s then add_mset s S else S)
      | Net (Close s) \<Rightarrow> S - {#s#}
      | _ \<Rightarrow> S)"

definition sockets :: "environment \<Rightarrow> trace \<Rightarrow> int multiset" where
  "sockets E t = sockets_rev E (rev t)"

abbreviation open_sockets :: "'z world_scheme \<Rightarrow> int multiset" where
  "open_sockets w \<equiv> sockets (outside w) (events w)"

definition no_socket :: "call \<Rightarrow> bool" where
  "no_socket c \<longleftrightarrow> (case c of Net (Socket a p) \<Rightarrow> False | Net (Close s) \<Rightarrow> False | _ \<Rightarrow> True)"

lemma sockets_Nil [simp]: "sockets E [] = {#}"
  by (simp add: sockets_def)

lemma sockets_snoc:
  "sockets E (t @ [c]) =
     (case c of
        Net (Socket a p) \<Rightarrow> (if 0 \<le> ans E (t @ [c]) then add_mset (ans E (t @ [c])) (sockets E t) else sockets E t)
      | Net (Close s) \<Rightarrow> sockets E t - {#s#}
      | _ \<Rightarrow> sockets E t)"
  by (simp add: sockets_def Let_def split: call.splits net_call.splits)

lemma sockets_create [simp]:
  "sockets E (t @ [Net (Socket a p)]) =
     (if 0 \<le> ans E (t @ [Net (Socket a p)]) then add_mset (ans E (t @ [Net (Socket a p)])) (sockets E t) else sockets E t)"
  by (simp add: sockets_snoc)

lemma sockets_close [simp]: "sockets E (t @ [Net (Close s)]) = sockets E t - {#s#}"
  by (simp add: sockets_snoc)

lemma sockets_other: "no_socket c \<Longrightarrow> sockets E (t @ [c]) = sockets E t"
  by (simp add: sockets_snoc no_socket_def split: call.splits net_call.splits)

lemma sockets_append: "list_all no_socket cs \<Longrightarrow> sockets E (t @ cs) = sockets E t"
proof (induction cs rule: rev_induct)
  case (snoc c cs)
  then have "sockets E ((t @ cs) @ [c]) = sockets E (t @ cs)" by (intro sockets_other) simp
  with snoc show ?case by simp
qed simp

lemma no_socket_simps [simp]:
  "no_socket (Kernel k)" "no_socket (Fs f)" "no_socket (Device d)" "no_socket (Modem m)" "no_socket (Gnss g)"
  "no_socket (Http h)" "no_socket (Supl u)" "no_socket (Json j)"
  "no_socket (Net (Getaddrinfo a))" "no_socket (Net Freeaddrinfo)" "no_socket (Net (Setsockopt s q))"
  "no_socket (Net (Connect s i pt))" "no_socket (Net (Send s bs))" "no_socket (Net (Recv s n))" "no_socket (Net Errno)"
  by (simp_all add: no_socket_def)

lemma does_sockets:
  "does no_socket m \<Longrightarrow> open_sockets (snd (run_state m w)) = open_sockets w"
  using does_events [of no_socket m w] does_outside [of no_socket m w] by (auto simp: sockets_append)

section \<open>A quiet outside\<close>

text \<open>An environment that answers every call with 0 and nothing else, the base of the examples.\<close>

definition quiet_frame :: nrf_modem_gnss_pvt_data_frame where
  "quiet_frame =
     \<lparr>pvt_latitude = 0, pvt_longitude = 0, pvt_altitude = 0,
      datetime = \<lparr>year = 2023, month = 3, day = 29, hour = 12, minute = 0, seconds = 0\<rparr>,
      pvt_flags = 0, pvt_sv = []\<rparr>"

definition quiet :: environment where
  "quiet =
     \<lparr>ans = (\<lambda>_. 0), text_ans = (\<lambda>_. []), size_ans = (\<lambda>_. 0), flag_ans = (\<lambda>_. False),
      sample_ans = (\<lambda>_. 0), frame_ans = (\<lambda>_. quiet_frame), agps_ans = (\<lambda>_. (0, 0, 0)),
      addr_ans = (\<lambda>_. []), http_ans = (\<lambda>_. []), heap_cctx = (\<lambda>_. True), heap_stream = (\<lambda>_. True),
      heap_buffer = (\<lambda>_. 65536), to_float = (\<lambda>x. x)\<rparr>"

definition idle_world :: world where
  "idle_world = \<lparr>outside = quiet, events = [], stopped = None\<rparr>"

end
