(* ===== verification/Lz4_File.thy ===== *)
theory Lz4_File
  imports Lz4_Frame Zephyr
begin

text \<open>
  \<open>lz4file.c\<close>: the compressed log file. Text is collected in a source buffer of 4096
  characters; when it would overflow, its content is compressed into the open frame and the
  compressed bytes are written to \<open><name>.tmp\<close>, which is renamed once the file is closed.

  The firmware has one such file, \<open>lz4fid\<close> of \<open>main.c\<close>; it and the memory the compressor
  reads are part of the world.
\<close>

definition CHUNKSIZE :: nat where "CHUNKSIZE = 4096"
definition BUFFERSIZE :: nat where "BUFFERSIZE = 4200"
definition LZ4_SUCCESS :: int where "LZ4_SUCCESS = 0"
definition LZ4_ERR_COMPRESS :: int where "LZ4_ERR_COMPRESS = -2"
definition LZ4_ERR_IO :: int where "LZ4_ERR_IO = -3"
definition LZ4F_ERROR_GENERIC :: int where "LZ4F_ERROR_GENERIC = 1"
definition LZ4F_VERSION :: u32 where "LZ4F_VERSION = 100"

text \<open>A context that was freed is still pointed to.\<close>

datatype context_ptr = No_Context | Context LZ4F_cctx | Freed_Context

record lz4streamfile =
  ctx :: context_ptr
  fid :: int
  cap :: nat
  filename :: string
  nsrcdata :: nat
  isOpen :: bool
  reuseContext :: bool

record lz4_world = world +
  memory_of :: memory
  lz4id :: lz4streamfile
  lz4id_addr :: int

text \<open>The source buffer lies behind the destination buffer in the structure.\<close>

definition srcbuf :: "'z lz4_world_scheme \<Rightarrow> int" where
  "srcbuf w = lz4id_addr w + 4212"

definition set_lz4id :: "(lz4streamfile \<Rightarrow> lz4streamfile) \<Rightarrow> ('z lz4_world_scheme, unit) state" where
  "set_lz4id f = assign (\<lambda>w. w\<lparr>lz4id := f (lz4id w)\<rparr>)"

definition init_lz4stream :: "bool \<Rightarrow> ('z lz4_world_scheme, unit) state" where
  "init_lz4stream reuse =
     set_lz4id (\<lambda>f. f\<lparr>ctx := No_Context, fid := 0, isOpen := False, reuseContext := reuse, nsrcdata := 0\<rparr>)"

definition kPrefs :: LZ4F_preferences where
  "kPrefs =
     \<lparr>blockSizeID = 4, blockMode = LZ4F_blockLinked, contentChecksumFlag = False, contentSize = 0,
      dictID = 0, blockChecksumFlag = False, compressionLevel = -1, autoFlush = True\<rparr>"

definition handle_lz4error :: "u32 \<Rightarrow> int" where
  "handle_lz4error errcode = (if LZ4F_isError errcode then -1 else 0)"

definition tempname :: "string \<Rightarrow> string" where
  "tempname src = src @ ''.tmp''"

text \<open>The name must fit the 200 characters of \<open>filename\<close>, terminator included.\<close>

definition lz4open :: "string \<Rightarrow> ('z lz4_world_scheme, int) state" where
  "lz4open path = do {
     p \<leftarrow> call (Kernel (K_malloc Fs_file_object));
     set_lz4id (\<lambda>f. f\<lparr>fid := p\<rparr>);
     if p = 0 then stop Null_Deref LZ4_ERR_IO
     else if length path \<ge> 200 then stop Out_Of_Bounds LZ4_ERR_IO
     else do {
       set_lz4id (\<lambda>f. f\<lparr>filename := path\<rparr>);
       r \<leftarrow> call (Fs (Fs_open (Allocated_File p) (tempname path) [FS_O_WRITE, FS_O_CREATE]));
       if r \<noteq> 0 then do {
         a \<leftarrow> ask lz4id_addr;
         perform (Kernel (K_free a));
         State_Monad.return LZ4_ERR_IO
       } else do {
         set_lz4id (\<lambda>f. f\<lparr>cap := unat (LZ4F_compressBound (of_nat CHUNKSIZE) kPrefs)\<rparr>);
         c \<leftarrow> ask (\<lambda>w. cap (lz4id w));
         if \<not> (maxFHSize \<le> c \<and> c \<le> BUFFERSIZE) then stop Assert_Failed LZ4_ERR_IO
         else do {
           h \<leftarrow> ask (\<lambda>w. heap_cctx (outside w) (events w));
           set_lz4id (\<lambda>f. if ctx f = No_Context
             then f\<lparr>ctx := (case snd (LZ4F_createCompressionContext h LZ4F_VERSION) of
                               None \<Rightarrow> No_Context | Some c \<Rightarrow> Context c)\<rparr>
             else f);
           x \<leftarrow> ask (\<lambda>w. ctx (lz4id w));
           al \<leftarrow> ask (\<lambda>w. \<lparr>a_stream = heap_stream (outside w) (events w),
                            a_buffer = heap_buffer (outside w) (events w)\<rparr>);
           m \<leftarrow> ask memory_of;
           case x of
             No_Context \<Rightarrow> stop Null_Deref LZ4_ERR_IO
           | Freed_Context \<Rightarrow> stop Use_After_Free LZ4_ERR_IO
           | Context cctx \<Rightarrow>
               (case LZ4F_compressBegin al m cctx c kPrefs of
                  Inl e \<Rightarrow> stop e LZ4_ERR_IO
                | Inr (headerSize, out, m1, cctx1) \<Rightarrow> do {
                    set_lz4id (\<lambda>f. f\<lparr>ctx := Context cctx1\<rparr>);
                    assign (\<lambda>w. w\<lparr>memory_of := m1\<rparr>);
                    if handle_lz4error headerSize \<noteq> 0 then State_Monad.return LZ4_ERR_IO
                    else do {
                      written \<leftarrow> call (Fs (Fs_write (Allocated_File p) out));
                      if handle_lz4error (word_of_int written) \<noteq> 0 then State_Monad.return LZ4_ERR_IO
                      else do {
                        set_lz4id (\<lambda>f. f\<lparr>isOpen := True\<rparr>);
                        State_Monad.return LZ4_SUCCESS
                      }
                    }
                  })
         }
       }
     }
   }"

text \<open>The output of a call of the frame layer goes to the file when there is any.\<close>

definition lz4_put :: "u32 \<Rightarrow> bytes \<Rightarrow> ('z lz4_world_scheme, unit) state" where
  "lz4_put nwritten out = do {
     f \<leftarrow> ask lz4id;
     if 0 < nwritten then
       if \<not> unat nwritten < BUFFERSIZE then stop Assert_Failed ()
       else do {
         perform (Fs (Fs_write (Allocated_File (fid f)) out));
         perform (Fs (Fs_sync (Allocated_File (fid f))))
       }
     else State_Monad.return ()
   }"

text \<open>A call of the frame layer on the context and memory of the world.\<close>

definition with_context ::
  "(memory \<Rightarrow> LZ4F_cctx \<Rightarrow> frame_result outcome) \<Rightarrow> ('z lz4_world_scheme, u32 \<times> bytes) state" where
  "with_context g = do {
     x \<leftarrow> ask (\<lambda>w. ctx (lz4id w));
     m \<leftarrow> ask memory_of;
     case x of
       No_Context \<Rightarrow> stop Null_Deref (0, [])
     | Freed_Context \<Rightarrow> stop Use_After_Free (0, [])
     | Context cctx \<Rightarrow>
         (case g m cctx of
            Inl e \<Rightarrow> stop e (0, [])
          | Inr (n, out, m1, cctx1) \<Rightarrow> do {
              set_lz4id (\<lambda>f. f\<lparr>ctx := Context cctx1\<rparr>);
              assign (\<lambda>w. w\<lparr>memory_of := m1\<rparr>);
              State_Monad.return (n, out)
            })
   }"

definition lz4_compress_srcbuf :: "('z lz4_world_scheme, u32) state" where
  "lz4_compress_srcbuf = do {
     f \<leftarrow> ask lz4id;
     src \<leftarrow> ask srcbuf;
     (nwritten, out) \<leftarrow> with_context (\<lambda>m c. LZ4F_compressUpdate m c (cap f) src (nsrcdata f) False);
     set_lz4id (\<lambda>f. f\<lparr>nsrcdata := 0\<rparr>);
     lz4_put nwritten out;
     State_Monad.return nwritten
   }"

definition store :: "memory \<Rightarrow> int \<Rightarrow> bytes \<Rightarrow> memory" where
  "store m a bs = (\<lambda>p. if a \<le> p \<and> p < a + int (length bs) then bs ! nat (p - a) else m p)"

definition lz4_append :: "string \<Rightarrow> ('z lz4_world_scheme, unit) state" where
  "lz4_append data =
     (if \<not> length data < CHUNKSIZE then stop Assert_Failed ()
      else do {
        f \<leftarrow> ask lz4id;
        assign (\<lambda>w. w\<lparr>memory_of := store (memory_of w) (srcbuf w + int (nsrcdata f)) (bytes_of_string data)\<rparr>);
        set_lz4id (\<lambda>f. f\<lparr>nsrcdata := nsrcdata f + length data\<rparr>)
      })"

definition lz4_finish :: "('z lz4_world_scheme, u32) state" where
  "lz4_finish = do {
     f \<leftarrow> ask lz4id;
     (nwritten, out) \<leftarrow> with_context (\<lambda>m c. LZ4F_compressEnd m c (cap f));
     lz4_put nwritten out;
     State_Monad.return nwritten
   }"

text \<open>\<open>None\<close> is the \<open>NULL\<close> that ends the file.\<close>

definition lz4write :: "string option \<Rightarrow> ('z lz4_world_scheme, int) state" where
  "lz4write data = do {
     f \<leftarrow> ask lz4id;
     let ndata = (case data of None \<Rightarrow> 0 | Some s \<Rightarrow> length s);
     let flush = (CHUNKSIZE < ndata + nsrcdata f \<or> data = None \<and> nsrcdata f > 0);
     nwritten \<leftarrow> (if flush then lz4_compress_srcbuf else State_Monad.return 0);
     if flush \<and> handle_lz4error nwritten \<noteq> 0 then State_Monad.return LZ4_ERR_COMPRESS
     else do {
       (if ndata > 0 then lz4_append (the data) else State_Monad.return ());
       nwritten \<leftarrow> (if data = None then lz4_finish else State_Monad.return nwritten);
       if handle_lz4error nwritten \<noteq> 0 then State_Monad.return LZ4_ERR_COMPRESS
       else State_Monad.return LZ4_SUCCESS
     }
   }"

definition lz4close :: "('z lz4_world_scheme, int) state" where
  "lz4close = do {
     f \<leftarrow> ask lz4id;
     if \<not> isOpen f then State_Monad.return LZ4F_ERROR_GENERIC
     else do {
       _ \<leftarrow> lz4write None;
       perform (Fs (Fs_close (Allocated_File (fid f))));
       perform (Kernel (K_free (fid f)));
       (if \<not> reuseContext f then set_lz4id (\<lambda>f. f\<lparr>ctx := Freed_Context\<rparr>) else State_Monad.return ());
       perform (Fs (Fs_rename (tempname (filename f)) (filename f)));
       set_lz4id (\<lambda>f. f\<lparr>isOpen := False\<rparr>);
       set_lz4id (\<lambda>f. f\<lparr>filename := []\<rparr>);
       State_Monad.return LZ4_SUCCESS
     }
   }"

end
