(* ===== verification/Led_Buttons.thy ===== *)
theory Led_Buttons
  imports Lz4_File
begin

text \<open>
  \<open>led_buttons.c\<close>: the LED status every other part sets, the thread that shows it, the
  button that asks for a rollover, and the battery voltage.
\<close>

definition LED_ERROR :: int where "LED_ERROR = 0"
definition LED_SEARCHING :: int where "LED_SEARCHING = 1"
definition LED_LOGGING :: int where "LED_LOGGING = 2"
definition LED_UPLOADING :: int where "LED_UPLOADING = 3"
definition LED_BOOTING :: int where "LED_BOOTING = 4"

definition LED_ON :: nat where "LED_ON = 1"
definition LED_OFF :: nat where "LED_OFF = 0"

lemmas led_constants = LED_ERROR_def LED_SEARCHING_def LED_LOGGING_def LED_UPLOADING_def LED_BOOTING_def

text \<open>\<open>adc_dev\<close> says whether the pointer of that name is set.\<close>

record led_world = lz4_world +
  led_status :: int
  adc_dev :: bool

section \<open>Button and status\<close>

definition button_pressed_callback :: "('z world_scheme, unit) state" where
  "button_pressed_callback = perform (Kernel (K_sem_give rollover_event_sem))"

definition init_button :: "('z world_scheme, bool) state" where
  "init_button = do {
     ret \<leftarrow> call (Device Gpio_configure_button);
     if ret \<noteq> 0 then State_Monad.return False
     else do {
       ret \<leftarrow> call (Device Gpio_interrupt_button);
       if ret \<noteq> 0 then State_Monad.return False
       else do {
         perform (Device Gpio_add_callback);
         State_Monad.return True
       }
     }
   }"

definition set_led_status :: "int \<Rightarrow> ('z led_world_scheme, unit) state" where
  "set_led_status status = do {
     s \<leftarrow> ask led_status;
     if s \<noteq> status then assign (\<lambda>w. w\<lparr>led_status := status\<rparr>) else State_Monad.return ()
   }"

definition get_led_status :: "('z led_world_scheme, int) state" where
  "get_led_status = ask led_status"

lemma run_set_led_status [simp]:
  "run_state (set_led_status s) w = ((), if stopped w = None then w\<lparr>led_status := s\<rparr> else w)"
  by (simp add: set_led_status_def)

lemma run_get_led_status [simp]: "run_state get_led_status w = (led_status w, w)"
  by (simp add: get_led_status_def)

section \<open>The blinking thread\<close>

definition turn_leds_off :: "('z world_scheme, unit) state" where
  "turn_leds_off = do {
     perform (Device (Gpio_pin_set red_led LED_OFF));
     perform (Device (Gpio_pin_set green_led LED_OFF));
     perform (Device (Gpio_pin_set blue_led LED_OFF))
   }"

definition init_leds :: "('z world_scheme, unit) state" where
  "init_leds = do {
     perform (Device (Gpio_configure_led red_led));
     perform (Device (Gpio_configure_led green_led));
     perform (Device (Gpio_configure_led blue_led))
   }"

definition k_sleep :: "nat \<Rightarrow> ('z world_scheme, unit) state" where
  "k_sleep ms = perform (Kernel (K_sleep (K_MSEC ms)))"

text \<open>The body of the loop; the status is read once per round.\<close>

definition led_round :: "('z led_world_scheme, unit) state" where
  "led_round = do {
     s \<leftarrow> ask led_status;
     if s = LED_SEARCHING then do {
       perform (Device (Gpio_pin_set red_led LED_ON));
       perform (Device (Gpio_pin_set green_led LED_ON));
       k_sleep 1000; turn_leds_off; k_sleep 4000
     } else if s = LED_LOGGING then do {
       perform (Device (Gpio_pin_set green_led LED_ON));
       k_sleep 100; turn_leds_off; k_sleep 14900
     } else if s = LED_ERROR then do {
       perform (Device (Gpio_pin_set red_led LED_ON));
       k_sleep 1000; turn_leds_off; k_sleep 9000
     } else if s = LED_UPLOADING then do {
       perform (Device (Gpio_pin_set blue_led LED_ON));
       k_sleep 1000; turn_leds_off; k_sleep 4000
     } else if s = LED_BOOTING then do {
       perform (Device (Gpio_pin_set green_led LED_ON));
       k_sleep 1000; turn_leds_off; k_sleep 1000
     } else k_sleep 1000
   }"

fun led_rounds :: "nat \<Rightarrow> ('z led_world_scheme, unit) state" where
  "led_rounds 0 = State_Monad.return ()"
| "led_rounds (Suc n) = do { led_round; led_rounds n }"

text \<open>The thread up to its \<open>n\<close>-th round; it only returns when its initialisation fails.\<close>

definition led_button_checker :: "nat \<Rightarrow> ('z led_world_scheme, int) state" where
  "led_button_checker n = do {
     g \<leftarrow> call (Device Gpio_binding);
     if g = 0 then State_Monad.return (-1)
     else do {
       ok \<leftarrow> init_button;
       if \<not> ok then State_Monad.return (-1)
       else do { init_leds; led_rounds n; State_Monad.return 0 }
     }
   }"

section \<open>Battery voltage\<close>

text \<open>
  The conversion \<open>(3.6f / 1.023) * ((4.7f + 10.0f) / 10.0f)\<close>, with the constants as the
  machine numbers the literals denote (two of single precision, one of double precision),
  multiplied out exactly and truncated.
\<close>

definition battery_millivolt :: "int \<Rightarrow> int" where
  "battery_millivolt sample =
     (sample * 7549747 * 4503599627370496 * 6165627) div (2097152 * 4607182418800017 * 4194304)"

text \<open>The value is stored only when the reading succeeds; a value that no 16-bit number holds is undefined.\<close>

definition get_battery_voltage :: "('z led_world_scheme, int \<times> u16 option) state" where
  "get_battery_voltage = do {
     d \<leftarrow> ask adc_dev;
     if \<not> d then State_Monad.return (-1, None)
     else do {
       err \<leftarrow> call (Device Adc_read);
       if err \<noteq> 0 then State_Monad.return (err, None)
       else do {
         sample \<leftarrow> ask (\<lambda>w. sint (sample_ans (outside w) (events w)));
         let mv = battery_millivolt sample;
         check Undefined_Value (0 \<le> mv \<and> mv < 65536);
         State_Monad.return (0, Some (word_of_int mv))
       }
     }
   }"

definition init_adc :: "('z led_world_scheme, bool) state" where
  "init_adc = do {
     assign (\<lambda>w. w\<lparr>adc_dev := True\<rparr>);
     ready \<leftarrow> call (Device Adc_ready);
     if ready = 0 then State_Monad.return False
     else do {
       err \<leftarrow> call (Device Adc_channel_setup);
       if err \<noteq> 0 then State_Monad.return False
       else State_Monad.return True
     }
   }"

section \<open>What the thread shows\<close>

fun sleep_of :: "call \<Rightarrow> nat" where
  "sleep_of (Kernel (K_sleep (K_MSEC ms))) = ms"
| "sleep_of _ = 0"

definition slept :: "trace \<Rightarrow> nat" where
  "slept cs = sum_list (map sleep_of cs)"

text \<open>The level a pin has after some calls, from the level it had before.\<close>

fun pin_after :: "led \<Rightarrow> trace \<Rightarrow> nat \<Rightarrow> nat" where
  "pin_after l [] v = v"
| "pin_after l (Device (Gpio_pin_set k x) # cs) v = pin_after l cs (if k = l then x else v)"
| "pin_after l (_ # cs) v = pin_after l cs v"

definition round_calls :: "int \<Rightarrow> trace" where
  "round_calls s =
     (let blink = (\<lambda>ls on off. map (\<lambda>l. Device (Gpio_pin_set l LED_ON)) ls @ [Kernel (K_sleep (K_MSEC on))]
            @ map (\<lambda>l. Device (Gpio_pin_set l LED_OFF)) [red_led, green_led, blue_led] @ [Kernel (K_sleep (K_MSEC off))])
      in if s = LED_SEARCHING then blink [red_led, green_led] 1000 4000
         else if s = LED_LOGGING then blink [green_led] 100 14900
         else if s = LED_ERROR then blink [red_led] 1000 9000
         else if s = LED_UPLOADING then blink [blue_led] 1000 4000
         else if s = LED_BOOTING then blink [green_led] 1000 1000
         else [Kernel (K_sleep (K_MSEC 1000))])"

lemma led_round_calls:
  "stopped w = None \<Longrightarrow> run_state led_round w = ((), w\<lparr>events := events w @ round_calls (led_status w)\<rparr>)"
  by (simp add: led_round_def round_calls_def turn_leds_off_def k_sleep_def Let_def led_constants)

lemma led_rounds_calls:
  "stopped w = None \<Longrightarrow> run_state (led_rounds n) w
     = ((), w\<lparr>events := events w @ concat (replicate n (round_calls (led_status w)))\<rparr>)"
  by (induction n arbitrary: w) (simp_all add: led_round_calls)

lemma round_slept: "1000 \<le> slept (round_calls s)"
  by (simp add: slept_def round_calls_def Let_def)

lemma round_off: "v \<le> LED_OFF \<Longrightarrow> pin_after l (round_calls s) v = LED_OFF"
  by (cases l) (simp_all add: round_calls_def Let_def LED_ON_def LED_OFF_def)

lemma pin_after_append: "pin_after l (as @ bs) v = pin_after l bs (pin_after l as v)"
  by (induction l as v rule: pin_after.induct) simp_all

lemma slept_append [simp]: "slept (as @ bs) = slept as + slept bs"
  by (simp add: slept_def)

lemma rounds_off_slept:
  "pin_after l (concat (replicate n (round_calls s))) LED_OFF = LED_OFF
   \<and> 1000 * n \<le> slept (concat (replicate n (round_calls s)))"
proof (induction n)
  case (Suc n)
  with round_slept [of s] show ?case by (simp add: pin_after_append round_off)
qed (simp add: slept_def)

text \<open>A started device whose converter answers 512, the middle of its range.\<close>

definition idle_led :: led_world where
  "idle_led =
     \<lparr>outside = quiet\<lparr>sample_ans := (\<lambda>_. 512)\<rparr>, events = [], stopped = None, memory_of = (\<lambda>_. 0),
      lz4id = \<lparr>ctx = No_Context, fid = 0, cap = 0, filename = [], nsrcdata = 0, isOpen = False, reuseContext = True\<rparr>,
      lz4id_addr = 1000, led_status = LED_BOOTING, adc_dev = True\<rparr>"



section \<open>Battery bounds\<close>

lemma battery_mono: "s \<le> t \<Longrightarrow> battery_millivolt s \<le> battery_millivolt t"
  unfolding battery_millivolt_def by (intro zdiv_mono1 mult_right_mono) simp_all

text \<open>The ideal scale is 3600 mV over 1023 steps times the divider 1.47, that is 1764/341 mV a step.\<close>

lemma battery_ideal:
  assumes "0 \<le> s" and "s \<le> 1023"
  shows "0 \<le> battery_millivolt s" and "341 * battery_millivolt s \<le> 1764 * s"
    and "1764 * s \<le> 341 * (battery_millivolt s + 1)" and "battery_millivolt s \<le> 5292"
proof -
  define A where "A = (7549747 * 4503599627370496 * 6165627 :: int)"
  define B where "B = (2097152 * 4607182418800017 * 4194304 :: int)"
  define v where "v = battery_millivolt s"
  have v: "v = s * A div B" by (simp add: v_def battery_millivolt_def A_def B_def mult.assoc)
  have B: "0 < B" by (simp add: B_def)
  have vB: "v * B \<le> s * A" "s * A < (v + 1) * B"
    using div_mult_mod_eq [of "s * A" B] pos_mod_bound [OF B, of "s * A"] pos_mod_sign [OF B, of "s * A"]
    unfolding v ring_distribs mult_1 by linarith+
  have k: "341 * A \<le> 1764 * B" "1023 * (1764 * B - 341 * A) \<le> B" by (simp_all add: A_def B_def)
  have "0 \<le> s * A" using assms by (simp add: A_def)
  then show "0 \<le> battery_millivolt s" using B unfolding v_def [symmetric] v by (simp add: pos_imp_zdiv_nonneg_iff)
  have "s * (341 * A) \<le> s * (1764 * B)" using k(1) assms(1) by (rule mult_left_mono)
  then have "(341 * v) * B \<le> (1764 * s) * B" using vB(1) by (simp add: algebra_simps)
  then show 1: "341 * battery_millivolt s \<le> 1764 * s" using B by (simp add: v_def [symmetric])
  have "s * (1764 * B - 341 * A) \<le> 1023 * (1764 * B - 341 * A)"
    using assms(2) k(1) by (intro mult_right_mono) auto
  then have "(1764 * s) * B < (341 * (v + 1) + 1) * B"
    using k(2) vB(2) by (simp add: algebra_simps)
  then show "1764 * s \<le> 341 * (battery_millivolt s + 1)" using B by (simp add: v_def [symmetric])
  show "battery_millivolt s \<le> 5292" using 1 assms(2) by simp
qed

text \<open>A 10-bit sample gives a reading without error, within one millivolt of the ideal scale
  of the voltage divider (1764/341 mV a step) and at most 5292 mV.\<close>

theorem battery_reading:
  assumes "stopped w = None" and "adc_dev w"
    and "ans (outside w) (events w @ [Device Adc_read]) = 0"
    and "s = sint (sample_ans (outside w) (events w @ [Device Adc_read]))" and "0 \<le> s" and "s \<le> 1023"
  shows "\<exists>v. run_state get_battery_voltage w = ((0, Some v), w\<lparr>events := events w @ [Device Adc_read]\<rparr>)
    \<and> 341 * uint v \<le> 1764 * s \<and> 1764 * s \<le> 341 * (uint v + 1) \<and> uint v \<le> 5292"
proof -
  note b = battery_ideal [OF assms(5,6)]
  define v where "v = (word_of_int (battery_millivolt s) :: u16)"
  have v: "uint v = battery_millivolt s"
    using b(1,4) by (simp add: v_def uint_word_of_int)
  have "run_state get_battery_voltage w = ((0, Some v), w\<lparr>events := events w @ [Device Adc_read]\<rparr>)"
    using assms(1-3) b(1,4) by (simp add: get_battery_voltage_def v_def Let_def flip: assms(4))
  with b v show ?thesis by auto
qed

theorem battery_reading_witness:
  "\<exists>v. run_state get_battery_voltage idle_led = ((0, Some v), idle_led\<lparr>events := events idle_led @ [Device Adc_read]\<rparr>)
    \<and> 341 * uint v \<le> 1764 * 512 \<and> 1764 * 512 \<le> 341 * (uint v + 1) \<and> uint v \<le> 5292"
  using battery_reading [of idle_led 512] by (simp add: idle_led_def quiet_def)

end
