(* ===== verification/Sd_Card.thy ===== *)
theory Sd_Card
  imports Zephyr
begin

text \<open>
  \<open>featherw_datalogger.c\<close>: mounting the card, its paths, reading a line and listing a
  directory. Where the code fills an array of its caller, the result is the string it leaves
  there, and the size of the array is an argument: a string that does not fit stops the
  program.
\<close>

section \<open>Mounting\<close>

definition FEA_SUCCESS :: int where "FEA_SUCCESS = 0"
definition FEA_ERR_INIT :: int where "FEA_ERR_INIT = -1"
definition FEA_ERR_SECCOUNT :: int where "FEA_ERR_SECCOUNT = -2"
definition FEA_ERR_SECSIZE :: int where "FEA_ERR_SECSIZE = -3"
definition FEA_ERR_MOUNT :: int where "FEA_ERR_MOUNT = -4"

definition disk_mount_pt :: string where "disk_mount_pt = ''/SD:''"
definition sddata :: string where "sddata = ''/SD:/data''"
definition sdconfig :: string where "sdconfig = ''/SD:/config''"
definition sdarchive :: string where "sdarchive = ''/SD:/archive''"

definition mount_sdcard :: "('z world_scheme, int) state" where
  "mount_sdcard = do {
     r \<leftarrow> call (Fs (Disk_access_init ''SD''));
     if r \<noteq> 0 then State_Monad.return FEA_ERR_INIT
     else do {
       r \<leftarrow> call (Fs (Disk_sector_count ''SD''));
       if r \<noteq> 0 then State_Monad.return FEA_ERR_SECCOUNT
       else do {
         r \<leftarrow> call (Fs (Disk_sector_size ''SD''));
         if r \<noteq> 0 then State_Monad.return FEA_ERR_SECSIZE
         else do {
           res \<leftarrow> call (Fs (Fs_mount disk_mount_pt));
           if res = 0 then State_Monad.return FEA_SUCCESS
           else State_Monad.return FEA_ERR_MOUNT
         }
       }
     }
   }"

section \<open>Paths\<close>

definition get_sd_path :: "string \<Rightarrow> string option \<Rightarrow> string" where
  "get_sd_path dir filename = (case filename of None \<Rightarrow> dir | Some f \<Rightarrow> dir @ ''/'' @ f)"

definition get_sd_config_path :: "string option \<Rightarrow> string" where
  "get_sd_config_path = get_sd_path sdconfig"

definition get_sd_data_path :: "string option \<Rightarrow> string" where
  "get_sd_data_path = get_sd_path sddata"

definition get_sd_archive_path :: "string option \<Rightarrow> string" where
  "get_sd_archive_path = get_sd_path sdarchive"

lemma get_sd_data_path_inject:
  "get_sd_data_path (Some a) = get_sd_data_path (Some b) \<longleftrightarrow> a = b"
  by (simp add: get_sd_data_path_def get_sd_path_def)

section \<open>Files\<close>

definition file_size :: "string \<Rightarrow> ('z world_scheme, nat) state" where
  "file_size path = do {
     r \<leftarrow> call (Fs (Fs_stat path));
     n \<leftarrow> ask (\<lambda>w. size_ans (outside w) (events w));
     State_Monad.return (if r = 0 then n else 0)
   }"

definition file_exists :: "string \<Rightarrow> ('z world_scheme, bool) state" where
  "file_exists path = do {
     r \<leftarrow> call (Fs (Fs_stat path));
     State_Monad.return (r = 0)
   }"

definition ensure_dir :: "string \<Rightarrow> ('z world_scheme, int) state" where
  "ensure_dir dir = do {
     e \<leftarrow> file_exists dir;
     if \<not> e then call (Fs (Fs_mkdir dir)) else State_Monad.return 0
   }"

definition initialize_sdcard_files :: "('z world_scheme, int) state" where
  "initialize_sdcard_files = do {
     stat \<leftarrow> ensure_dir (get_sd_data_path None);
     if stat \<noteq> 0 then State_Monad.return FEA_ERR_INIT
     else do {
       stat \<leftarrow> ensure_dir (get_sd_archive_path None);
       if stat \<noteq> 0 then State_Monad.return FEA_ERR_INIT
       else do {
         stat \<leftarrow> ensure_dir (get_sd_config_path None);
         if stat \<noteq> 0 then State_Monad.return FEA_ERR_INIT
         else State_Monad.return FEA_SUCCESS
       }
     }
   }"

section \<open>Lines\<close>

text \<open>
  \<open>strchr\<close>: the place of the first character \<open>c\<close> before the terminator; \<open>Inl ()\<close> when neither
  is in the array, whose end the search then crosses.
\<close>

fun strchr :: "string \<Rightarrow> char \<Rightarrow> unit + nat option" where
  "strchr [] c = Inl ()"
| "strchr (x # xs) c =
     (if x = c then Inr (Some 0)
      else if x = CHR 0x00 then Inr None
      else (case strchr xs c of Inl u \<Rightarrow> Inl u | Inr r \<Rightarrow> Inr (map_option Suc r)))"

text \<open>
  The result is the number \<open>fs_gets\<close> returns and the characters of the buffer, with the
  terminator that it appends, if any; at the end of the file the buffer is as it was.
\<close>

definition fs_gets :: "fs_file \<Rightarrow> nat \<Rightarrow> string \<Rightarrow> ('z world_scheme, int \<times> string) state" where
  "fs_gets f bufsz old = do {
     nread \<leftarrow> call (Fs (Fs_read f bufsz));
     buf \<leftarrow> said;
     if 0 < nread \<and> nread < int bufsz
     then State_Monad.return (nread, take (nat nread) buf @ [CHR 0x00])
     else if nread = int bufsz
     then (case strchr (take bufsz buf) (CHR 0x0A) of
             Inl _ \<Rightarrow> stop Out_Of_Bounds (-1, [])
           | Inr r \<Rightarrow>
               let slen = (case r of None \<Rightarrow> bufsz | Some i \<Rightarrow> i + 1) in
               if slen < bufsz
               then do {
                 s \<leftarrow> call (Fs (Fs_seek_cur f (- int (bufsz - slen))));
                 if s < 0 then State_Monad.return (-2, take slen buf @ [CHR 0x00])
                 else State_Monad.return (int slen, take slen buf @ [CHR 0x00])
               }
               else State_Monad.return (int bufsz, take bufsz buf))
     else State_Monad.return (-1, if nread = 0 then old else buf)
   }"

section \<open>Directories\<close>

definition lsdir_init :: "string \<Rightarrow> ('z world_scheme, int) state" where
  "lsdir_init dirpath = call (Fs (Fs_opendir dirpath))"

definition lsdir_close :: "('z world_scheme, int) state" where
  "lsdir_close = call (Fs Fs_closedir)"

text \<open>The comparison starts before the name when the name is shorter than the suffix.\<close>

definition name_matches :: "string option \<Rightarrow> string \<Rightarrow> bool outcome" where
  "name_matches endswith name =
     (case endswith of
        None \<Rightarrow> Inr True
      | Some s \<Rightarrow>
          if length name < length s then Inl Out_Of_Bounds
          else Inr (drop (length name - length s) name = s))"

fun lsdir_next :: "nat \<Rightarrow> string option \<Rightarrow> nat \<Rightarrow> ('z world_scheme, string option) state" where
  "lsdir_next 0 endswith room = stop Out_Of_Fuel None"
| "lsdir_next (Suc n) endswith room = do {
     res \<leftarrow> call (Fs Fs_readdir);
     name \<leftarrow> said;
     isdir \<leftarrow> ask (\<lambda>w. flag_ans (outside w) (events w));
     if res \<noteq> 0 \<or> name = [] then State_Monad.return None
     else if isdir then lsdir_next n endswith room
     else (case name_matches endswith name of
             Inl e \<Rightarrow> stop e None
           | Inr False \<Rightarrow> lsdir_next n endswith room
           | Inr True \<Rightarrow>
               if room \<le> length name then stop Out_Of_Bounds None
               else State_Monad.return (Some name))
   }"

section \<open>Footprints\<close>

lemma does_file_size [does_rules]: "P (Fs (Fs_stat path)) \<Longrightarrow> does P (file_size path)"
  unfolding file_size_def by (intro does_rules)

lemma does_file_exists [does_rules]: "P (Fs (Fs_stat path)) \<Longrightarrow> does P (file_exists path)"
  unfolding file_exists_def by (intro does_rules)

lemma does_ensure_dir [does_rules]:
  "P (Fs (Fs_stat dir)) \<Longrightarrow> P (Fs (Fs_mkdir dir)) \<Longrightarrow> does P (ensure_dir dir)"
  unfolding ensure_dir_def by (intro does_rules)

lemma does_fs_gets [does_rules]:
  "P (Fs (Fs_read f n)) \<Longrightarrow> (\<And>k. P (Fs (Fs_seek_cur f k))) \<Longrightarrow> does P (fs_gets f n old)"
  unfolding fs_gets_def by (intro does_rules)

lemma does_lsdir_init [does_rules]: "P (Fs (Fs_opendir d)) \<Longrightarrow> does P (lsdir_init d)"
  unfolding lsdir_init_def by (intro does_rules)

lemma does_lsdir_close [does_rules]: "P (Fs Fs_closedir) \<Longrightarrow> does P lsdir_close"
  unfolding lsdir_close_def by (intro does_rules)

lemma does_lsdir_next [does_rules]:
  "P (Fs Fs_readdir) \<Longrightarrow> does P (lsdir_next n e room)"
proof (induction n)
  case (Suc n)
  then show ?case unfolding lsdir_next.simps by (intro does_rules)
qed (simp add: does_stop)

section \<open>Directories on the card\<close>

text \<open>At some point of the trace the card confirmed that the directory is there.\<close>

definition ensured :: "environment \<Rightarrow> trace \<Rightarrow> string \<Rightarrow> bool" where
  "ensured E t d \<longleftrightarrow> (\<exists>u v c. t = u @ [c] @ v \<and> c \<in> {Fs (Fs_stat d), Fs (Fs_mkdir d)} \<and> ans E (u @ [c]) = 0)"

definition sd_dirs :: "string list" where
  "sd_dirs = [get_sd_data_path None, get_sd_archive_path None, get_sd_config_path None]"

definition dirs_result :: "'z world_scheme \<Rightarrow> string list \<Rightarrow> int \<times> 'z world_scheme \<Rightarrow> bool" where
  "dirs_result w ds = (\<lambda>(r, w'). outside w' = outside w \<and> stopped w' = None \<and>
     (if r = 0 then \<forall>d \<in> set ds. ensured (outside w) (events w') d
      else \<exists>d t. d \<in> set ds \<and> events w' = t @ [Fs (Fs_mkdir d)] \<and> ans (outside w) (events w') \<noteq> 0))"

lemma ensured_more: "ensured E t d \<Longrightarrow> ensured E (t @ s) d"
  unfolding ensured_def by force

lemma ensured_more2: "ensured E (t @ s) d \<Longrightarrow> ensured E (t @ s @ r) d"
  using ensured_more [of E "t @ s" d r] by simp

lemma ensure_dir_result:
  "stopped w = None \<Longrightarrow> dirs_result w [d] (run_state (ensure_dir d) w)
    \<and> (\<exists>cs. events (snd (run_state (ensure_dir d) w)) = events w @ cs)"
  by (auto simp: dirs_result_def ensure_dir_def file_exists_def ensured_def)
    (metis append.assoc append_Cons append_Nil)+



section \<open>Reading a line\<close>

lemma strchr_found:
  "CHR 0x00 \<notin> set s \<Longrightarrow> c \<in> set s \<Longrightarrow> strchr s c = Inr (Some (length (takeWhile (\<lambda>x. x \<noteq> c) s)))"
  by (induction s c rule: strchr.induct) auto

text \<open>How much of the rest of a file one call returns.\<close>

definition line_length :: "nat \<Rightarrow> string \<Rightarrow> nat" where
  "line_length bufsz rest =
     (if length rest < bufsz then length rest else length (takeWhile (\<lambda>x. x \<noteq> CHR 0x0A) rest) + 1)"

lemma takeWhile_take:
  "c \<in> set (take n s) \<Longrightarrow> takeWhile (\<lambda>x. x \<noteq> c) (take n s) = takeWhile (\<lambda>x. x \<noteq> c) s"
  using takeWhile_append1 [of c "take n s" "\<lambda>x. x \<noteq> c" "drop n s"] by simp

lemma length_takeWhile_found: "c \<in> set s \<Longrightarrow> length (takeWhile (\<lambda>x. x \<noteq> c) s) < length s"
  by (induction s) auto

text \<open>
  C26: Let \<open>rest\<close> be what is left of a text file. \<open>fs_gets\<close> returns its first line with the line
  end, or all of it when it is shorter than the buffer (even when that is more than one line),
  and moves the file back by exactly the characters it read too many, so that the next call
  continues behind the line.
\<close>

theorem fs_gets_line:
  assumes "stopped w = None" and "rest \<noteq> []" and "CHR 0x00 \<notin> set rest"
    and "length rest < bufsz \<or> CHR 0x0A \<in> set (take bufsz rest)"
    and "ans (outside w) (events w @ [Fs (Fs_read f bufsz)]) = int (length (take bufsz rest))"
    and "text_ans (outside w) (events w @ [Fs (Fs_read f bufsz)]) = take bufsz rest"
    and "\<And>k. 0 \<le> ans (outside w) (events w @ [Fs (Fs_read f bufsz), Fs (Fs_seek_cur f k)])"
  shows "\<exists>n cs. n = line_length bufsz rest
    \<and> run_state (fs_gets f bufsz old) w =
        ((int n, take n rest @ (if n < bufsz then [CHR 0x00] else [])), w\<lparr>events := events w @ cs\<rparr>)
    \<and> cs = Fs (Fs_read f bufsz) # (if bufsz \<le> length rest \<and> n < bufsz then [Fs (Fs_seek_cur f (int n - int bufsz))] else [])"
proof (cases "length rest < bufsz")
  case True
  then show ?thesis using assms by (simp add: fs_gets_def line_length_def)
next
  case False
  define i where "i = length (takeWhile (\<lambda>x. x \<noteq> CHR 0x0A) rest)"
  have nl: "CHR 0x0A \<in> set (take bufsz rest)" using assms(4) False by simp
  have "CHR 0x00 \<notin> set (take bufsz rest)" using assms(3) by (meson in_set_takeD)
  then have s: "strchr (take bufsz rest) (CHR 0x0A) = Inr (Some i)"
    using strchr_found [OF _ nl] takeWhile_take [OF nl] by (simp add: i_def)
  have i: "i < bufsz"
    using length_takeWhile_found [OF nl] False by (simp add: i_def takeWhile_take [OF nl])
  have len: "line_length bufsz rest = Suc i" using False by (simp add: line_length_def i_def)
  have seek: "\<not> ans (outside w) (events w @ [Fs (Fs_read f bufsz), Fs (Fs_seek_cur f k)]) < 0" for k
    using assms(7) [of k] by simp
  show ?thesis
  proof (cases "Suc i < bufsz")
    case True
    with len seek show ?thesis
      using assms(1,5,6) False s i by (auto simp: fs_gets_def Let_def min_def of_nat_diff)
  next
    case full: False
    with i have "bufsz = Suc i" by simp
    with len show ?thesis
      using assms(1,5,6) False s by (simp add: fs_gets_def Let_def)
  qed
qed

theorem fs_gets_line_witness:
  "\<exists>w :: world. \<exists>cs. run_state (fs_gets Config_File 6 []) w = ((3, ''ab'' @ [CHR 0x0A, CHR 0x00]), w\<lparr>events := events w @ cs\<rparr>)
    \<and> cs = [Fs (Fs_read Config_File 6), Fs (Fs_seek_cur Config_File (-3))]"
proof -
  let ?rest = "''ab'' @ [CHR 0x0A] @ ''cdef''"
  let ?w = "idle_world\<lparr>outside := quiet\<lparr>text_ans := (\<lambda>_. take 6 ?rest),
      ans := (\<lambda>t. if last t = Fs (Fs_read Config_File 6) then 6 else 0)\<rparr>\<rparr>"
  have "\<exists>n cs. n = line_length 6 ?rest
    \<and> run_state (fs_gets Config_File 6 []) ?w =
        ((int n, take n ?rest @ (if n < 6 then [CHR 0x00] else [])), ?w\<lparr>events := events ?w @ cs\<rparr>)
    \<and> cs = Fs (Fs_read Config_File 6) # (if 6 \<le> length ?rest \<and> n < 6 then [Fs (Fs_seek_cur Config_File (int n - int 6))] else [])"
    by (rule fs_gets_line) (simp_all add: idle_world_def)
  then show ?thesis
    by (intro exI [of _ ?w]) (simp add: line_length_def)
qed

section \<open>Listing a directory\<close>

text \<open>
  What a directory that is being read still holds: the \<open>k\<close>-th read from here gives the \<open>k\<close>-th
  entry, whatever other calls come between, and an empty name behind the last.
\<close>

definition reads :: "trace \<Rightarrow> nat" where
  "reads cs = length (filter (\<lambda>c. c = Fs Fs_readdir) cs)"

definition serves :: "environment \<Rightarrow> trace \<Rightarrow> (string \<times> bool) list \<Rightarrow> bool" where
  "serves E t es \<longleftrightarrow> (\<forall>cs. let u = t @ cs @ [Fs Fs_readdir] in
     ans E u = 0 \<and>
     (if reads cs < length es
      then text_ans E u = fst (es ! reads cs) \<and> flag_ans E u = snd (es ! reads cs)
      else text_ans E u = []))"

lemma reads_append [simp]: "reads (as @ bs) = reads as + reads bs"
  by (simp add: reads_def)

lemma reads_Cons [simp]: "reads (c # cs) = (if c = Fs Fs_readdir then Suc (reads cs) else reads cs)"
  by (simp add: reads_def)

lemma reads_Nil [simp]: "reads [] = 0"
  by (simp add: reads_def)

lemma serves_drop: "serves E t es \<Longrightarrow> reads cs \<le> length es \<Longrightarrow> serves E (t @ cs) (drop (reads cs) es)"
  unfolding serves_def Let_def
proof (intro allI)
  fix csa
  assume h: "\<forall>cs. ans E (t @ cs @ [Fs Fs_readdir]) = 0 \<and>
      (if reads cs < length es
       then text_ans E (t @ cs @ [Fs Fs_readdir]) = fst (es ! reads cs) \<and> flag_ans E (t @ cs @ [Fs Fs_readdir]) = snd (es ! reads cs)
       else text_ans E (t @ cs @ [Fs Fs_readdir]) = [])" and le: "reads cs \<le> length es"
  have "reads csa < length (drop (reads cs) es) \<longleftrightarrow> reads (cs @ csa) < length es"
    using le by auto
  moreover have "drop (reads cs) es ! reads csa = es ! reads (cs @ csa)"
    using le by simp
  ultimately show "ans E ((t @ cs) @ csa @ [Fs Fs_readdir]) = 0 \<and>
      (if reads csa < length (drop (reads cs) es)
       then text_ans E ((t @ cs) @ csa @ [Fs Fs_readdir]) = fst (drop (reads cs) es ! reads csa) \<and>
         flag_ans E ((t @ cs) @ csa @ [Fs Fs_readdir]) = snd (drop (reads cs) es ! reads csa)
       else text_ans E ((t @ cs) @ csa @ [Fs Fs_readdir]) = [])"
    using spec [OF h, of "cs @ csa"] by (simp only: append_assoc) simp
qed

lemma serves_same: "serves E t es \<Longrightarrow> reads cs = 0 \<Longrightarrow> serves E (t @ cs) es"
  using serves_drop [of E t es cs] by simp

text \<open>An entry is a name and whether it is a directory; these are the ones the code can handle.\<close>

definition entry_ok :: "string \<Rightarrow> nat \<Rightarrow> string \<times> bool \<Rightarrow> bool" where
  "entry_ok s room e \<longleftrightarrow> fst e \<noteq> [] \<and> (\<not> snd e \<longrightarrow> length s \<le> length (fst e) \<and> length (fst e) < room)"

definition has_suffix :: "string \<Rightarrow> string \<Rightarrow> bool" where
  "has_suffix s name \<longleftrightarrow> length s \<le> length name \<and> drop (length name - length s) name = s"

definition selected :: "string \<Rightarrow> string \<times> bool \<Rightarrow> bool" where
  "selected s e \<longleftrightarrow> \<not> snd e \<and> has_suffix s (fst e)"

lemma lsdir_next_serves:
  assumes "stopped w = None" and "serves (outside w) (events w) es" and "\<forall>e \<in> set es. entry_ok s room e" and "length es < n"
  shows "let skipped = takeWhile (\<lambda>e. \<not> selected s e) es;
             rest = drop (length skipped) es
         in run_state (lsdir_next n (Some s) room) w =
              (if rest = [] then None else Some (fst (hd rest)),
               w\<lparr>events := events w @ replicate (Suc (length skipped)) (Fs Fs_readdir)\<rparr>)"
  using assms
proof (induction es arbitrary: w n)
  case Nil
  then obtain k where "n = Suc k" by (cases n) auto
  moreover have "ans (outside w) (events w @ [Fs Fs_readdir]) = 0"
    "text_ans (outside w) (events w @ [Fs Fs_readdir]) = []"
    using Nil.prems(2) unfolding serves_def Let_def by (auto dest: spec [of _ "[]"])
  ultimately show ?case using Nil.prems(1) by simp
next
  case (Cons e es)
  obtain k where n: "n = Suc k" using Cons.prems(4) by (cases n) auto
  let ?w = "w\<lparr>events := events w @ [Fs Fs_readdir]\<rparr>"
  have a: "ans (outside w) (events w @ [Fs Fs_readdir]) = 0"
    "text_ans (outside w) (events w @ [Fs Fs_readdir]) = fst e"
    "flag_ans (outside w) (events w @ [Fs Fs_readdir]) = snd e"
    using Cons.prems(2) unfolding serves_def Let_def by (auto dest: spec [of _ "[]"])
  have e: "entry_ok s room e" using Cons.prems(3) by simp
  have "serves (outside ?w) (events ?w) es"
    using serves_drop [OF Cons.prems(2), of "[Fs Fs_readdir]"] by simp
  from Cons.IH [OF _ this, of k] Cons.prems n
  have ih: "let skipped = takeWhile (\<lambda>e. \<not> selected s e) es; rest = drop (length skipped) es
         in run_state (lsdir_next k (Some s) room) ?w =
              (if rest = [] then None else Some (fst (hd rest)),
               ?w\<lparr>events := events ?w @ replicate (Suc (length skipped)) (Fs Fs_readdir)\<rparr>)" by simp
  show ?case
  proof (cases "selected s e")
    case True
    then show ?thesis
      using a e n Cons.prems(1) by (simp add: selected_def has_suffix_def entry_ok_def name_matches_def)
  next
    case False
    then show ?thesis
      using a e n Cons.prems(1) ih
      by (auto simp: selected_def has_suffix_def entry_ok_def name_matches_def Let_def)
  qed
qed


definition listing :: "(string \<times> bool) list \<Rightarrow> environment" where
  "listing es = quiet
     \<lparr>text_ans := (\<lambda>t. if reads (butlast t) < length es then fst (es ! reads (butlast t)) else []),
      flag_ans := (\<lambda>t. if reads (butlast t) < length es then snd (es ! reads (butlast t)) else False)\<rparr>"

lemma listing_serves: "serves (listing es) [] es"
  by (simp add: serves_def listing_def quiet_def Let_def butlast_append)


end
