(* ===== verification/Config.thy ===== *)
theory Config
  imports Led_Buttons Sd_Card
begin

text \<open>
  \<open>config.c\<close>: the configuration, read from a JSON file on the card or written there with
  defaults, and the device status that heads every log file. cJSON and the base64 encoder are
  external: a node is a pointer, its fields are what the library answers.
\<close>

definition CONF_SUCCESS :: int where "CONF_SUCCESS = 0"
definition CONF_ERR :: int where "CONF_ERR = 1"
definition JSONBUFLEN :: nat where "JSONBUFLEN = 3000"
definition AUTH_PREFIX :: string where "AUTH_PREFIX = ''Authorization: Basic ''"
definition CONFIG_GNSSR_VERSION :: string where "CONFIG_GNSSR_VERSION = ''V2.0''"
definition CONFIG_GNSSR_CONTACT :: string where
  "CONFIG_GNSSR_CONTACT = ''ITC <r.rietbroek@utwente.nl>''"

record webdav_config =
  host :: string
  url :: string
  auth :: string
  usetls :: int
  tlscert :: string

record config =
  filebase :: string
  agps :: int
  upload :: int
  psm_mode :: int
  pvt_low :: int
  webdav :: webdav_config

text \<open>The numbers of the status are kept as the values of their single-precision fields.\<close>

record device_status =
  device_id :: string
  uptime :: rat
  longitude :: rat
  latitude :: rat
  altitude :: rat
  battery_mvolt :: "u16 list"

record config_world = led_world +
  confdata :: config
  dev_status :: device_status
  hrprev :: u8
  jsonbuf :: string

definition set_conf :: "(config \<Rightarrow> config) \<Rightarrow> ('z config_world_scheme, unit) state" where
  "set_conf f = assign (\<lambda>w. w\<lparr>confdata := f (confdata w)\<rparr>)"

definition set_webdav :: "(webdav_config \<Rightarrow> webdav_config) \<Rightarrow> ('z config_world_scheme, unit) state" where
  "set_webdav f = set_conf (\<lambda>c. c\<lparr>webdav := f (webdav c)\<rparr>)"

section \<open>Defaults\<close>

definition default_tlscert :: string where
  "default_tlscert =
     ''-----BEGIN CERTIFICATE-----$'' @
     ''MIIDQTCCAimgAwIBAgITBmyfz5m/jAo54vB4ikPmljZbyjANBgkqhkiG9w0BAQsF$'' @
     ''ADA5MQswCQYDVQQGEwJVUzEPMA0GA1UEChMGQW1hem9uMRkwFwYDVQQDExBBbWF6$'' @
     ''b24gUm9vdCBDQSAxMB4XDTE1MDUyNjAwMDAwMFoXDTM4MDExNzAwMDAwMFowOTEL$'' @
     ''MAkGA1UEBhMCVVMxDzANBgNVBAoTBkFtYXpvbjEZMBcGA1UEAxMQQW1hem9uIFJv$'' @
     ''b3QgQ0EgMTCCASIwDQYJKoZIhvcNAQEBBQADggEPADCCAQoCggEBALJ4gHHKeNXj$'' @
     ''ca9HgFB0fW7Y14h29Jlo91ghYPl0hAEvrAIthtOgQ3pOsqTQNroBvo3bSMgHFzZM$'' @
     ''9O6II8c+6zf1tRn4SWiw3te5djgdYZ6k/oI2peVKVuRF4fn9tBb6dNqcmzU5L/qw$'' @
     ''IFAGbHrQgLKm+a/sRxmPUDgH3KKHOVj4utWp+UhnMJbulHheb4mjUcAwhmahRWa6$'' @
     ''VOujw5H5SNz/0egwLX0tdHA114gk957EWW67c4cX8jJGKLhD+rcdqsq08p8kDi1L$'' @
     ''93FcXmn/6pUCyziKrlA4b9v7LWIbxcceVOF34GfID5yHI9Y/QCB/IIDEgEw+OyQm$'' @
     ''jgSubJrIqg0CAwEAAaNCMEAwDwYDVR0TAQH/BAUwAwEB/zAOBgNVHQ8BAf8EBAMC$'' @
     ''AYYwHQYDVR0OBBYEFIQYzIU07LwMlJQuCFmcx7IQTgoIMA0GCSqGSIb3DQEBCwUA$'' @
     ''A4IBAQCY8jdaQZChGsV2USggNiMOruYou6r4lK5IpDB/G/wkjUu0yKGX9rbxenDI$'' @
     ''U5PMCCjjmCXPI6T53iHTfIUJrU6adTrCC2qJeHZERxhlbI1Bjjt/msv0tadQ1wUs$'' @
     ''N+gDS63pYaACbvXy8MWy7Vu33PqUXHeeE6V/Uq2V8viTO96LXFvKWlJbYK8U90vv$'' @
     ''o/ufQJVtMVT8QtPHRh8jrdkPSHCa2XV4cdFyQzR1bldZwgJcJmApzyMZFo6IQ6XU$'' @
     ''5MsI+yMRQ+hDKXJioaldXgjUkK642M4UwtBV8ob2xJNDd2ZhwLnoQdeXeGADbkpy$'' @
     ''rqXRfboQnoZsG4q5WTP468SQvvG5$'' @
     ''-----END CERTIFICATE-----$''"

definition set_defaults :: "config \<Rightarrow> config" where
  "set_defaults conf = conf
     \<lparr>filebase := ''icarus_gnssr0'', upload := 1, agps := 0, psm_mode := 0, pvt_low := 1,
      webdav := \<lparr>host = ''httpbin.org'', url = ''/put'', auth = ''testuser:testpassword'',
                 usetls = 1, tlscert = default_tlscert\<rparr>\<rparr>"

definition replace_lineend :: "string \<Rightarrow> string" where
  "replace_lineend intls = map (\<lambda>c. if c = CHR ''$'' then CHR 0x0A else c) intls"

section \<open>JSON fields\<close>

definition get_item :: "int \<Rightarrow> string \<Rightarrow> ('z world_scheme, int) state" where
  "get_item parent name = call (Json (CJSON_GetObjectItem parent name))"

definition valueint :: "int \<Rightarrow> ('z world_scheme, int) state" where
  "valueint item = do {
     check Null_Deref (item \<noteq> 0);
     call (Json (CJSON_valueint item))
   }"

text \<open>The answer of \<open>CJSON_valuestring\<close> is the pointer, which is \<open>NULL\<close> for a node that is no string.\<close>

definition valuestring :: "int \<Rightarrow> ('z world_scheme, string) state" where
  "valuestring item = do {
     check Null_Deref (item \<noteq> 0);
     p \<leftarrow> call (Json (CJSON_valuestring item));
     check Null_Deref (p \<noteq> 0);
     said
   }"

text \<open>\<open>strcpy\<close> into an array of \<open>room\<close> characters.\<close>

definition strcpy_fits :: "nat \<Rightarrow> string \<Rightarrow> ('z world_scheme, unit) state" where
  "strcpy_fits room s = check Out_Of_Bounds (length s < room)"

section \<open>Reading\<close>

definition config_file :: string where
  "config_file = get_sd_config_path (Some (''config_'' @ CONFIG_GNSSR_VERSION @ ''.json''))"

definition read_settings :: "int \<Rightarrow> ('z config_world_scheme, unit) state" where
  "read_settings monitor = do {
     i \<leftarrow> get_item monitor ''upload''; v \<leftarrow> valueint i; set_conf (\<lambda>c. c\<lparr>upload := v\<rparr>);
     i \<leftarrow> get_item monitor ''psm_mode''; v \<leftarrow> valueint i; set_conf (\<lambda>c. c\<lparr>psm_mode := v\<rparr>);
     i \<leftarrow> get_item monitor ''pvt_low''; v \<leftarrow> valueint i; set_conf (\<lambda>c. c\<lparr>pvt_low := v\<rparr>);
     i \<leftarrow> get_item monitor ''agps''; v \<leftarrow> valueint i; set_conf (\<lambda>c. c\<lparr>agps := v\<rparr>);
     i \<leftarrow> get_item monitor ''filebase''; s \<leftarrow> valuestring i; strcpy_fits 20 s; set_conf (\<lambda>c. c\<lparr>filebase := s\<rparr>)
   }"

text \<open>The first call asks for the size the encoding needs; its answer is only logged.\<close>

definition read_auth :: "int \<Rightarrow> ('z config_world_scheme, int) state" where
  "read_auth wd = do {
     i \<leftarrow> get_item wd ''auth'';
     let prefixlen = length AUTH_PREFIX;
     set_webdav (\<lambda>d. d\<lparr>auth := AUTH_PREFIX\<rparr>);
     s \<leftarrow> valuestring i;
     perform (Json (Base64_encode s 0));
     r \<leftarrow> call (Json (Base64_encode s (120 - prefixlen)));
     enc \<leftarrow> said;
     if r \<noteq> 0 then State_Monad.return CONF_ERR
     else do {
       check Out_Of_Bounds (prefixlen + length enc + 3 \<le> 120);
       set_webdav (\<lambda>d. d\<lparr>auth := AUTH_PREFIX @ enc @ [CHR 0x0D, CHR 0x0A]\<rparr>);
       State_Monad.return CONF_SUCCESS
     }
   }"

text \<open>\<open>sockopt_tls\<close> is the build option \<open>CONFIG_NET_SOCKETS_SOCKOPT_TLS\<close>.\<close>

definition read_tls :: "bool \<Rightarrow> int \<Rightarrow> ('z config_world_scheme, int) state" where
  "read_tls sockopt_tls wd = do {
     i \<leftarrow> get_item wd ''usetls'';
     v \<leftarrow> valueint i;
     set_webdav (\<lambda>d. d\<lparr>usetls := (if sockopt_tls then v else 0)\<rparr>);
     u \<leftarrow> ask (\<lambda>w. usetls (webdav (confdata w)));
     if u = 1 then do {
       t \<leftarrow> get_item wd ''tlscert'';
       if t = 0 then State_Monad.return CONF_ERR
       else do {
         s \<leftarrow> valuestring t;
         strcpy_fits 2200 s;
         set_webdav (\<lambda>d. d\<lparr>tlscert := replace_lineend s\<rparr>);
         State_Monad.return CONF_SUCCESS
       }
     } else State_Monad.return CONF_SUCCESS
   }"

definition read_webdav :: "bool \<Rightarrow> int \<Rightarrow> ('z config_world_scheme, int) state" where
  "read_webdav sockopt_tls monitor = do {
     wd \<leftarrow> get_item monitor ''webdav'';
     i \<leftarrow> get_item wd ''host''; s \<leftarrow> valuestring i; strcpy_fits 100 s; set_webdav (\<lambda>d. d\<lparr>host := s\<rparr>);
     i \<leftarrow> get_item wd ''url''; s \<leftarrow> valuestring i; strcpy_fits 100 s; set_webdav (\<lambda>d. d\<lparr>url := s\<rparr>);
     r \<leftarrow> read_auth wd;
     if r \<noteq> CONF_SUCCESS then State_Monad.return CONF_ERR
     else read_tls sockopt_tls wd
   }"

text \<open>
  \<open>fs_gets\<close> leaves the file's first line, or all of a short file, in \<open>jsonbuf\<close>; the parser
  reads up to the terminator, and beyond the array when there is none.
\<close>

definition c_string :: "string \<Rightarrow> string" where
  "c_string s = takeWhile (\<lambda>c. c \<noteq> CHR 0x00) s"

definition read_config_file :: "bool \<Rightarrow> ('z config_world_scheme, int) state" where
  "read_config_file sockopt_tls = do {
     r \<leftarrow> call (Fs (Fs_open Config_File config_file [FS_O_READ]));
     if r \<noteq> 0 then State_Monad.return CONF_ERR
     else do {
       old \<leftarrow> ask jsonbuf;
       (buflen, buf) \<leftarrow> fs_gets Config_File JSONBUFLEN old;
       assign (\<lambda>w. w\<lparr>jsonbuf := buf\<rparr>);
       perform (Fs (Fs_close Config_File));
       check Out_Of_Bounds (CHR 0x00 \<in> set buf);
       monitor \<leftarrow> call (Json (CJSON_Parse (c_string buf)));
       if monitor = 0 then State_Monad.return CONF_ERR
       else do {
         read_settings monitor;
         r \<leftarrow> read_webdav sockopt_tls monitor;
         if r \<noteq> CONF_SUCCESS then State_Monad.return CONF_ERR
         else do {
           perform (Json (CJSON_Delete monitor));
           State_Monad.return CONF_SUCCESS
         }
       }
     }
   }"

section \<open>Writing defaults\<close>

definition default_json :: "config \<Rightarrow> int \<Rightarrow> ('z world_scheme, unit) state" where
  "default_json conf monitor = do {
     perform (Json (CJSON_AddNumber monitor ''upload'' (of_int (upload conf))));
     perform (Json (CJSON_AddNumber monitor ''agps'' (of_int (upload conf))));
     perform (Json (CJSON_AddNumber monitor ''psm_mode'' (of_int (psm_mode conf))));
     perform (Json (CJSON_AddNumber monitor ''pvt_low'' (of_int (pvt_low conf))));
     perform (Json (CJSON_AddString monitor ''filebase'' (filebase conf)));
     perform (Json (CJSON_AddString monitor ''version'' CONFIG_GNSSR_VERSION));
     perform (Json (CJSON_AddString monitor ''contact'' CONFIG_GNSSR_CONTACT));
     wd \<leftarrow> call (Json CJSON_CreateObject);
     perform (Json (CJSON_AddItem monitor ''webdav'' wd));
     perform (Json (CJSON_AddString wd ''host'' (host (webdav conf))));
     perform (Json (CJSON_AddString wd ''url'' (url (webdav conf))));
     perform (Json (CJSON_AddString wd ''auth'' (auth (webdav conf))));
     perform (Json (CJSON_AddNumber wd ''usetls'' (of_int (usetls (webdav conf)))));
     perform (Json (CJSON_AddString wd ''tlscert'' (tlscert (webdav conf))))
   }"

text \<open>Printing leaves its text, with a terminator, in \<open>jsonbuf\<close>; the text has to fit.\<close>

definition write_default_config :: "('z config_world_scheme, int) state" where
  "write_default_config = do {
     set_conf set_defaults;
     conf \<leftarrow> ask confdata;
     monitor \<leftarrow> call (Json CJSON_CreateObject);
     default_json conf monitor;
     retcode \<leftarrow> call (Json (CJSON_Print monitor JSONBUFLEN));
     s \<leftarrow> said;
     assign (\<lambda>w. w\<lparr>jsonbuf := s @ [CHR 0x00]\<rparr>);
     perform (Json (CJSON_Delete monitor));
     if retcode \<noteq> 1 then State_Monad.return CONF_ERR
     else do {
       retcode \<leftarrow> call (Fs (Fs_open Config_File config_file [FS_O_WRITE, FS_O_CREATE]));
       if retcode \<noteq> 0 then State_Monad.return CONF_ERR
       else do {
         perform (Fs (Fs_write Config_File (bytes_of_string s)));
         perform (Fs (Fs_close Config_File));
         State_Monad.return CONF_SUCCESS
       }
     }
   }"

definition read_config :: "bool \<Rightarrow> ('z config_world_scheme, int) state" where
  "read_config sockopt_tls = do {
     e \<leftarrow> file_exists config_file;
     if e then read_config_file sockopt_tls else write_default_config
   }"

section \<open>Device status\<close>

fun add_battery :: "int \<Rightarrow> u16 list \<Rightarrow> ('z world_scheme, unit) state" where
  "add_battery a [] = State_Monad.return ()"
| "add_battery a (v # vs) = do {
     perform (Json (CJSON_AddArrayNumber a (of_int (uint v))));
     add_battery a vs
   }"

definition get_jsonstatus :: "nat \<Rightarrow> ('z config_world_scheme, int) state" where
  "get_jsonstatus buflen = do {
     d \<leftarrow> ask dev_status;
     monitor \<leftarrow> call (Json CJSON_CreateObject);
     perform (Json (CJSON_AddString monitor ''device_id'' (device_id d)));
     perform (Json (CJSON_AddNumber monitor ''uptime'' (uptime d)));
     perform (Json (CJSON_AddNumber monitor ''longitude'' (longitude d)));
     perform (Json (CJSON_AddNumber monitor ''latitude'' (latitude d)));
     perform (Json (CJSON_AddNumber monitor ''altitude'' (altitude d)));
     bat_array \<leftarrow> call (Json (CJSON_AddArray monitor ''battery_mvolt''));
     add_battery bat_array (battery_mvolt d);
     retcode \<leftarrow> call (Json (CJSON_Print monitor buflen));
     s \<leftarrow> said;
     assign (\<lambda>w. w\<lparr>jsonbuf := s @ [CHR 0x00]\<rparr>);
     perform (Json (CJSON_Delete monitor));
     if retcode \<noteq> 1 then State_Monad.return CONF_ERR
     else do {
       check Out_Of_Bounds (length s + 2 \<le> buflen);
       assign (\<lambda>w. w\<lparr>jsonbuf := s @ [CHR 0x0A, CHR 0x00]\<rparr>);
       State_Monad.return CONF_SUCCESS
     }
   }"

definition set_dev_status :: "(device_status \<Rightarrow> device_status) \<Rightarrow> ('z config_world_scheme, unit) state" where
  "set_dev_status f = assign (\<lambda>w. w\<lparr>dev_status := f (dev_status w)\<rparr>)"

definition init_device_status :: "('z config_world_scheme, int) state" where
  "init_device_status = do {
     c \<leftarrow> ask confdata;
     set_dev_status (\<lambda>d. d\<lparr>device_id := filebase c, longitude := 0, altitude := 0, latitude := 0,
       battery_mvolt := replicate 24 9999\<rparr>);
     State_Monad.return 0
   }"

text \<open>Once an hour the position and the battery entry of that hour are brought up to date.\<close>

definition update_device_status :: "nrf_modem_gnss_pvt_data_frame \<Rightarrow> ('z config_world_scheme, int) state" where
  "update_device_status pvt = do {
     let hr = hour (datetime pvt);
     hp \<leftarrow> ask hrprev;
     r \<leftarrow> ask (\<lambda>w. to_float (outside w));
     (if hp \<noteq> hr then do {
        set_dev_status (\<lambda>d. d\<lparr>longitude := r (pvt_longitude pvt), altitude := r (pvt_altitude pvt),
          latitude := r (pvt_latitude pvt)\<rparr>);
        check Out_Of_Bounds (unat hr < 24);
        (err, v) \<leftarrow> get_battery_voltage;
        set_dev_status (\<lambda>d. case v of None \<Rightarrow> d
          | Some mv \<Rightarrow> d\<lparr>battery_mvolt := (battery_mvolt d)[unat hr := mv]\<rparr>);
        assign (\<lambda>w. w\<lparr>hrprev := hr\<rparr>)
      } else State_Monad.return ());
     up \<leftarrow> call (Kernel K_uptime_get);
     set_dev_status (\<lambda>d. d\<lparr>uptime := r (of_int up / 3600000)\<rparr>);
     State_Monad.return 0
   }"

section \<open>A device at rest\<close>

text \<open>The defaults in force, no status yet; the base of the examples.\<close>

definition idle_config :: config_world where
  "idle_config = led_world.extend idle_led (config_world.fields
     (set_defaults \<lparr>filebase = [], agps = 0, upload = 0, psm_mode = 0, pvt_low = 0,
        webdav = \<lparr>host = [], url = [], auth = [], usetls = 0, tlscert = []\<rparr>\<rparr>)
     \<lparr>device_id = [], uptime = 0, longitude = 0, latitude = 0, altitude = 0, battery_mvolt = replicate 24 0\<rparr>
     24 (replicate 3000 (CHR 0x00)))"

lemma idle_config_simps [simp]:
  "stopped idle_config = None" "events idle_config = []" "outside idle_config = quiet\<lparr>sample_ans := (\<lambda>_. 512)\<rparr>"
  "upload (confdata idle_config) = 1" "led_status idle_config = LED_BOOTING" "adc_dev idle_config" "hrprev idle_config = 24"
  by (simp_all add: idle_config_def led_world.extend_def config_world.fields_def idle_led_def set_defaults_def)

section \<open>The configuration in memory\<close>

text \<open>Every string fits its array, with its terminator.\<close>

definition config_fits :: "config \<Rightarrow> bool" where
  "config_fits c \<longleftrightarrow> length (filebase c) < 20 \<and> length (host (webdav c)) < 100 \<and> length (url (webdav c)) < 100
     \<and> length (auth (webdav c)) < 120 \<and> length (tlscert (webdav c)) < 2200"

text \<open>What the upload client relies on: a complete header line, and a certificate with its line ends.\<close>

definition config_usable :: "bool \<Rightarrow> config \<Rightarrow> bool" where
  "config_usable sockopt_tls c \<longleftrightarrow>
     (\<exists>enc. auth (webdav c) = AUTH_PREFIX @ enc @ [CHR 0x0D, CHR 0x0A])
     \<and> (usetls (webdav c) = 1 \<longrightarrow> CHR ''$'' \<notin> set (tlscert (webdav c)))
     \<and> (\<not> sockopt_tls \<longrightarrow> usetls (webdav c) = 0)"

lemma keeps_get_item [keeps_rules]: "(\<And>w t. f (w\<lparr>events := t\<rparr>) = f w) \<Longrightarrow> keeps f (get_item p n)"
  unfolding get_item_def by (intro keeps_rules)

lemma keeps_valueint [keeps_rules]:
  "(\<And>w t. f (w\<lparr>events := t\<rparr>) = f w) \<Longrightarrow> (\<And>w e. f (w\<lparr>stopped := e\<rparr>) = f w) \<Longrightarrow> keeps f (valueint i)"
  unfolding valueint_def by (intro keeps_rules)

lemma keeps_valuestring [keeps_rules]:
  "(\<And>w t. f (w\<lparr>events := t\<rparr>) = f w) \<Longrightarrow> (\<And>w e. f (w\<lparr>stopped := e\<rparr>) = f w) \<Longrightarrow> keeps f (valuestring i)"
  unfolding valuestring_def by (intro keeps_rules)

lemma does_get_item [does_rules]: "(\<And>j. P (Json j)) \<Longrightarrow> does P (get_item p n)"
  unfolding get_item_def by (intro does_rules)

lemma does_valueint [does_rules]: "(\<And>j. P (Json j)) \<Longrightarrow> does P (valueint i)"
  unfolding valueint_def by (intro does_rules)

lemma does_valuestring [does_rules]: "(\<And>j. P (Json j)) \<Longrightarrow> does P (valuestring i)"
  unfolding valuestring_def by (intro does_rules)

lemma does_strcpy_fits [does_rules]: "does P (strcpy_fits n s)"
  unfolding strcpy_fits_def by (intro does_rules)

lemma does_set_conf [does_rules]: "does P (set_conf f)"
  unfolding set_conf_def by (intro does_rules) simp_all

lemma does_set_webdav [does_rules]: "does P (set_webdav f)"
  unfolding set_webdav_def by (intro does_rules)

lemma does_set_dev_status [does_rules]: "does P (set_dev_status f)"
  unfolding set_dev_status_def by (intro does_rules) simp_all

lemma does_read_settings [does_rules]: "(\<And>j. P (Json j)) \<Longrightarrow> does P (read_settings m)"
  unfolding read_settings_def by (intro does_rules)

lemma does_read_auth [does_rules]: "(\<And>j. P (Json j)) \<Longrightarrow> does P (read_auth m)"
  unfolding read_auth_def by (intro does_rules)

lemma does_read_tls [does_rules]: "(\<And>j. P (Json j)) \<Longrightarrow> does P (read_tls t m)"
  unfolding read_tls_def by (intro does_rules)

lemma does_read_webdav [does_rules]: "(\<And>j. P (Json j)) \<Longrightarrow> does P (read_webdav t m)"
  unfolding read_webdav_def by (intro does_rules)

lemma wp_set_conf [wp_rules]: "Q () (w\<lparr>confdata := f (confdata w)\<rparr>) \<Longrightarrow> wp (set_conf f) Q w"
  unfolding set_conf_def by (rule wp_assign)

lemma wp_set_webdav [wp_rules]:
  "Q () (w\<lparr>confdata := (confdata w)\<lparr>webdav := f (webdav (confdata w))\<rparr>\<rparr>) \<Longrightarrow> wp (set_webdav f) Q w"
  unfolding set_webdav_def by (rule wp_set_conf)

lemma wp_strcpy_fits [wp_rules]: "(length s < n \<Longrightarrow> Q () w) \<Longrightarrow> wp (strcpy_fits n s) Q w"
  unfolding strcpy_fits_def by (rule wp_check)

lemma wp_get_item [wp_rules]: "(\<And>x w'. confdata w' = confdata w \<Longrightarrow> Q x w') \<Longrightarrow> wp (get_item p n) Q w"
  by (rule wp_keeps [where f = confdata], intro keeps_rules) simp_all

lemma wp_valueint [wp_rules]: "(\<And>x w'. confdata w' = confdata w \<Longrightarrow> Q x w') \<Longrightarrow> wp (valueint i) Q w"
  by (rule wp_keeps [where f = confdata], intro keeps_rules) simp_all

lemma wp_valuestring [wp_rules]: "(\<And>x w'. confdata w' = confdata w \<Longrightarrow> Q x w') \<Longrightarrow> wp (valuestring i) Q w"
  by (rule wp_keeps [where f = confdata], intro keeps_rules) simp_all

lemma replace_lineend_free: "CHR ''$'' \<notin> set (replace_lineend s)" "length (replace_lineend s) = length s"
  by (auto simp: replace_lineend_def)

lemma read_settings_fits: "config_fits (confdata w) \<Longrightarrow> wp (read_settings m) (\<lambda>_ w'. config_fits (confdata w')) w"
  unfolding read_settings_def by (intro wp_rules does_rules) (simp_all add: config_fits_def)

lemma read_auth_fits:
  "config_fits (confdata w) \<Longrightarrow> wp (read_auth m)
     (\<lambda>r w'. config_fits (confdata w') \<and> (r = CONF_SUCCESS \<longrightarrow> (\<exists>enc. auth (webdav (confdata w')) = AUTH_PREFIX @ enc @ [CHR 0x0D, CHR 0x0A]))) w"
  unfolding read_auth_def Let_def
  by (intro wp_rules does_rules) (simp_all add: config_fits_def AUTH_PREFIX_def CONF_SUCCESS_def CONF_ERR_def)

lemma read_tls_usable:
  "config_fits (confdata w) \<Longrightarrow> auth (webdav (confdata w)) = AUTH_PREFIX @ enc @ [CHR 0x0D, CHR 0x0A] \<Longrightarrow>
   wp (read_tls t m) (\<lambda>r w'. config_fits (confdata w') \<and> (r = CONF_SUCCESS \<longrightarrow> config_usable t (confdata w'))) w"
  unfolding read_tls_def
  by (intro wp_rules does_rules)
    (auto simp: config_fits_def config_usable_def CONF_SUCCESS_def CONF_ERR_def replace_lineend_free split: if_splits)

text \<open>What holds after reading, whether or not it succeeds.\<close>

definition config_read :: "bool \<Rightarrow> int \<Rightarrow> 'z config_world_scheme \<Rightarrow> bool" where
  "config_read t r w \<longleftrightarrow> config_fits (confdata w) \<and> (r = CONF_SUCCESS \<longrightarrow> config_usable t (confdata w))"

lemma read_webdav_usable: "config_fits (confdata w) \<Longrightarrow> wp (read_webdav t m) (config_read t) w"
  unfolding read_webdav_def
  apply (intro wp_rules does_rules)
  apply simp_all
  apply (rule wp_mono [OF read_auth_fits])
   apply (simp add: config_fits_def)
  apply (intro wp_rules)
   apply (simp add: config_read_def CONF_SUCCESS_def CONF_ERR_def)
  apply (elim conjE exE impE)
   apply simp
  apply (erule wp_mono [OF read_tls_usable], assumption)
  apply (simp add: config_read_def)
  done

lemma keeps_file_exists [keeps_rules]: "(\<And>w t. f (w\<lparr>events := t\<rparr>) = f w) \<Longrightarrow> keeps f (file_exists p)"
  unfolding file_exists_def by (intro keeps_rules)

lemma keeps_fs_gets [keeps_rules]:
  "(\<And>w t. f (w\<lparr>events := t\<rparr>) = f w) \<Longrightarrow> (\<And>w e. f (w\<lparr>stopped := e\<rparr>) = f w) \<Longrightarrow> keeps f (fs_gets h n old)"
  unfolding fs_gets_def by (intro keeps_rules)

text \<open>Only the configuration counts here.\<close>

lemma read_config_file_usable: "config_fits (confdata w) \<Longrightarrow> wp (read_config_file t) (config_read t) w"
  unfolding read_config_file_def Let_def
  apply (intro wp_rules does_rules)
  apply simp_all
   apply (simp add: config_read_def CONF_SUCCESS_def CONF_ERR_def)
  apply (rule wp_keeps [where f = confdata])
   apply (intro keeps_rules; simp)
  apply (intro wp_rules does_rules)
  apply simp_all
   apply (simp add: config_read_def CONF_SUCCESS_def CONF_ERR_def)
  apply (rule wp_mono [OF read_settings_fits])
   apply simp
  apply (intro wp_rules does_rules)
   apply simp_all
  apply (rule wp_mono [OF read_webdav_usable])
   apply simp
  apply (intro wp_rules does_rules)
   apply (auto simp: config_read_def CONF_SUCCESS_def CONF_ERR_def)
  done


lemma default_tlscert_length: "length default_tlscert < 2200"
  unfolding default_tlscert_def by simp

lemma set_defaults_fits: "config_fits (set_defaults c)"
  using default_tlscert_length by (simp add: config_fits_def set_defaults_def)

lemma set_defaults_unusable: "\<not> config_usable t (set_defaults c)"
  by (simp add: config_usable_def set_defaults_def AUTH_PREFIX_def)

lemma default_json_keeps: "(\<And>w t. f (w\<lparr>events := t\<rparr>) = f w) \<Longrightarrow> keeps f (default_json c m)"
  unfolding default_json_def by (intro keeps_rules)

lemma default_json_does [does_rules]: "(\<And>j. P (Json j)) \<Longrightarrow> does P (default_json c m)"
  unfolding default_json_def by (intro does_rules)

lemma write_default_config_defaults:
  "wp write_default_config (\<lambda>r w'. confdata w' = set_defaults (confdata w)) w"
  unfolding write_default_config_def
  apply (intro wp_rules does_rules)
  apply simp_all
  apply (rule wp_keeps [where f = confdata])
   apply (rule default_json_keeps, simp)
  apply (intro wp_rules does_rules)
   apply simp_all
  done


section \<open>The device status\<close>

lemma keeps_get_battery_voltage [keeps_rules]:
  "(\<And>w t. f (w\<lparr>events := t\<rparr>) = f w) \<Longrightarrow> (\<And>w e. f (w\<lparr>stopped := e\<rparr>) = f w) \<Longrightarrow> keeps f get_battery_voltage"
  unfolding get_battery_voltage_def by (intro keeps_rules)

lemma does_get_battery_voltage [does_rules]: "P (Device Adc_read) \<Longrightarrow> does P get_battery_voltage"
  unfolding get_battery_voltage_def by (intro does_rules)

lemma wp_set_dev_status [wp_rules]: "Q () (w\<lparr>dev_status := f (dev_status w)\<rparr>) \<Longrightarrow> wp (set_dev_status f) Q w"
  unfolding set_dev_status_def by (rule wp_assign)

text \<open>What one update may change: the entry of the hour, and the position and the time stamp.\<close>

definition status_step :: "nrf_modem_gnss_pvt_data_frame \<Rightarrow> u8 \<Rightarrow> device_status \<Rightarrow> device_status \<Rightarrow> bool" where
  "status_step pvt hp d d' \<longleftrightarrow>
     device_id d' = device_id d \<and> length (battery_mvolt d') = length (battery_mvolt d)
     \<and> (\<forall>i. i \<noteq> unat (hour (datetime pvt)) \<longrightarrow> battery_mvolt d' ! i = battery_mvolt d ! i)
     \<and> (hp = hour (datetime pvt) \<longrightarrow> d' = d\<lparr>uptime := uptime d'\<rparr>)"

lemma update_device_status_step:
  "wp (update_device_status pvt) (\<lambda>r w'. status_step pvt (hrprev w) (dev_status w) (dev_status w')
     \<and> hrprev w' = hour (datetime pvt)) w"
  unfolding update_device_status_def Let_def
  apply (intro wp_rules does_rules)
   apply simp_all
   apply (rule wp_keeps [where f = "\<lambda>w. (dev_status w, hrprev w)"])
    apply (intro keeps_rules; simp)
   apply (intro wp_rules does_rules)
   apply simp_all
   apply (auto simp: status_step_def split: option.split)
  done


text \<open>A card with a configuration file whose fields all hold the same text.\<close>

definition card_ans :: "trace \<Rightarrow> int" where
  "card_ans t = (case last t of
     Json (CJSON_Parse _) \<Rightarrow> 1 | Json (CJSON_GetObjectItem _ _) \<Rightarrow> 1 | Json (CJSON_valuestring _) \<Rightarrow> 1
   | Fs (Fs_read _ _) \<Rightarrow> 2 | _ \<Rightarrow> 0)"

definition card_text :: "trace \<Rightarrow> string" where
  "card_text t = (case last t of
     Json (CJSON_valuestring _) \<Rightarrow> ''abc'' | Json (Base64_encode _ _) \<Rightarrow> ''YWJj'' | Fs (Fs_read _ _) \<Rightarrow> ''{}'' | _ \<Rightarrow> [])"

definition card_config :: config_world where
  "card_config = idle_config\<lparr>outside := quiet\<lparr>ans := card_ans, text_ans := card_text\<rparr>\<rparr>"

lemma card_config_simps [simp]:
  "stopped card_config = None" "events card_config = []" "ans (outside card_config) = card_ans"
  "text_ans (outside card_config) = card_text" "config_fits (confdata card_config)"
  using set_defaults_fits by (simp_all add: card_config_def, simp add: idle_config_def led_world.extend_def config_world.fields_def)

lemma card_config_reads:
  "\<exists>w'. run_state (read_config False) card_config = (CONF_SUCCESS, w') \<and> stopped w' = None"
  by (simp add: read_config_def file_exists_def read_config_file_def read_settings_def read_webdav_def read_auth_def read_tls_def
      get_item_def valueint_def valuestring_def strcpy_fits_def set_conf_def set_webdav_def fs_gets_def Let_def
      card_ans_def card_text_def JSONBUFLEN_def AUTH_PREFIX_def c_string_def CONF_SUCCESS_def)


definition blank_ans :: "trace \<Rightarrow> int" where
  "blank_ans t = (case last t of Fs (Fs_stat _) \<Rightarrow> -2 | Json (CJSON_Print _ _) \<Rightarrow> 1 | _ \<Rightarrow> 0)"

definition blank_config :: config_world where
  "blank_config = idle_config\<lparr>outside := quiet\<lparr>ans := blank_ans\<rparr>\<rparr>"

lemma blank_config_simps [simp]:
  "stopped blank_config = None" "events blank_config = []" "ans (outside blank_config) = blank_ans"
  by (simp_all add: blank_config_def)

lemma default_json_runs:
  assumes "stopped w = None"
  shows "\<exists>cs. run_state (default_json c m) w = ((), w\<lparr>events := events w @ cs\<rparr>)"
proof -
  have "only_calls (default_json c m)"
    unfolding default_json_def by (intro only_calls_rules)
  from only_callsD [OF this assms] show ?thesis by auto
qed

lemma blank_config_writes:
  "\<exists>w'. run_state (read_config False) blank_config = (CONF_SUCCESS, w') \<and> stopped w' = None"
proof -
  obtain f where "run_state (default_json (set_defaults (confdata blank_config)) 0) w = ((), w\<lparr>events := events w @ f w\<rparr>)"
    if "stopped w = None" for w :: config_world
    using default_json_runs by metis
  then show ?thesis
    by (simp add: read_config_def file_exists_def write_default_config_def set_conf_def blank_ans_def CONF_SUCCESS_def CONF_ERR_def)
qed



end
