(* ===== verification/Modem.thy ===== *)
theory Modem
  imports Zephyr
begin

text \<open>
  \<open>modem.c\<close>: the link controller of the modem. Connecting is asynchronous: the handler gives
  the semaphore \<open>lte_ready\<close> when the modem reports a registration, and \<open>lte_connect\<close> waits for it.
\<close>

datatype nw_reg_status = REGISTERED_HOME | REGISTERED_ROAMING | Other_reg_status

datatype lte_lc_evt = EVT_NW_REG_STATUS nw_reg_status | EVT_OTHER

section \<open>Operations\<close>

definition lte_lc_event_handler :: "lte_lc_evt \<Rightarrow> ('z world_scheme, unit) state" where
  "lte_lc_event_handler evt =
     (case evt of
        EVT_NW_REG_STATUS s \<Rightarrow>
          (if s = REGISTERED_HOME \<or> s = REGISTERED_ROAMING
           then perform (Kernel (K_sem_give lte_ready)) else State_Monad.return ())
      | EVT_OTHER \<Rightarrow> State_Monad.return ())"

definition lte_connect :: "('z world_scheme, int) state" where
  "lte_connect = do {
     err \<leftarrow> call (Modem Lte_lc_connect_async);
     if err \<noteq> 0 then State_Monad.return (-1)
     else do {
       err \<leftarrow> call (Kernel (K_sem_take lte_ready (K_SECONDS 30)));
       if err = - EAGAIN then State_Monad.return (-1)
       else do {
         perform (Kernel (K_sleep (K_SECONDS 1)));
         State_Monad.return 0
       }
     }
   }"

text \<open>An error of this call is only logged.\<close>

definition lte_disconnect :: "('z world_scheme, unit) state" where
  "lte_disconnect = perform (Modem (Lte_lc_func_mode_set DEACTIVATE_LTE))"

definition enable_gnss_mode :: "('z world_scheme, int) state" where
  "enable_gnss_mode = do {
     r \<leftarrow> call (Modem (Lte_lc_func_mode_set ACTIVATE_GNSS));
     State_Monad.return (if r \<noteq> 0 then -1 else 0)
   }"

definition setup_modem :: "('z world_scheme, int) state" where
  "setup_modem = do {
     r \<leftarrow> call (Modem Lte_lc_system_mode_set_ltem_gps);
     State_Monad.return (if r \<noteq> 0 then -1 else 0)
   }"

text \<open>
  What is asked of the modem for the log; the strings and the system mode are only printed. The
  (e)SIM identity is asked for between switching the card on and going offline again.
\<close>

definition print_boardinfo :: "('z world_scheme, unit) state" where
  "print_boardinfo = do {
     r \<leftarrow> call (Modem Modem_info_init);
     if r \<noteq> 0 then State_Monad.return ()
     else do {
       perform (Modem (Modem_info_string_get MODEM_INFO_FW_VERSION));
       u \<leftarrow> call (Modem (Lte_lc_func_mode_set ACTIVATE_UICC));
       (if u = 0 then do {
          perform (Modem (Modem_info_string_get MODEM_INFO_ICCID));
          perform (Modem (Lte_lc_func_mode_set OFFLINE_UICC_ON))
        } else State_Monad.return ());
       perform (Modem (Modem_info_string_get MODEM_INFO_IMEI));
       perform (Modem Lte_lc_system_mode_get)
     }
   }"

section \<open>What they do\<close>

definition modem_only :: "call \<Rightarrow> bool" where
  "modem_only c \<longleftrightarrow> (case c of Modem _ \<Rightarrow> True | Kernel (K_sem_take s t) \<Rightarrow> s = lte_ready | Kernel (K_sleep t) \<Rightarrow> True | _ \<Rightarrow> False)"

lemma modem_only_simps [simp]:
  "modem_only (Modem m)" "modem_only (Kernel (K_sem_take lte_ready t))" "modem_only (Kernel (K_sleep t))"
  by (simp_all add: modem_only_def)

lemma lte_connect_does: "does modem_only lte_connect"
  unfolding lte_connect_def by (intro does_rules) simp_all

lemma lte_disconnect_does: "does modem_only lte_disconnect"
  unfolding lte_disconnect_def by (intro does_rules) simp_all

lemma setup_modem_does: "does modem_only setup_modem"
  unfolding setup_modem_def by (intro does_rules) simp_all

lemma enable_gnss_mode_does: "does modem_only enable_gnss_mode"
  unfolding enable_gnss_mode_def by (intro does_rules) simp_all

lemma print_boardinfo_does: "does modem_only print_boardinfo"
  unfolding print_boardinfo_def by (intro does_rules) simp_all

lemmas modem_does = lte_connect_does lte_disconnect_does setup_modem_does enable_gnss_mode_does print_boardinfo_does

lemma lte_connect_keeps [keeps_rules]: "(\<And>w t. f (w\<lparr>events := t\<rparr>) = f w) \<Longrightarrow> keeps f lte_connect"
  unfolding lte_connect_def by (intro keeps_rules) simp_all

lemma lte_disconnect_keeps [keeps_rules]: "(\<And>w t. f (w\<lparr>events := t\<rparr>) = f w) \<Longrightarrow> keeps f lte_disconnect"
  unfolding lte_disconnect_def by (intro keeps_rules) simp_all



end
