(* ===== verification/Sockets.thy ===== *)
theory Sockets
  imports Zephyr
begin

text \<open>
  The contract of a connection that a static variable holds: opening it leaves one more socket
  open, the one in the variable, or none when it fails; closing it closes that one. The
  assistance client and the upload client each provide one.
\<close>

locale connection =
  fixes fd :: "'z world_scheme \<Rightarrow> int"
    and ready :: "'z world_scheme \<Rightarrow> bool"
    and open_conn :: "('z world_scheme, int) state"
    and close_conn :: "('z world_scheme, 'a) state"
  assumes open_conn: "stopped w = None \<Longrightarrow> ready w \<Longrightarrow> run_state open_conn w = (r, w') \<Longrightarrow>
      outside w' = outside w \<and> (stopped w' = None \<longrightarrow>
       (if r = 0 then 0 \<le> fd w' \<and> open_sockets w' = add_mset (fd w') (open_sockets w)
        else open_sockets w' = open_sockets w))"
    and close_conn: "stopped w = None \<Longrightarrow> 0 \<le> fd w \<Longrightarrow> run_state close_conn w = (y, w') \<Longrightarrow>
      outside w' = outside w \<and> stopped w' = None \<and> open_sockets w' = open_sockets w - {#fd w#}"
begin

text \<open>Opening, using and closing a connection leaves the sockets as they were.\<close>

lemma bracket:
  assumes "stopped w = None" and "ready w" and "run_state open_conn w = (0, w1)" and "stopped w1 = None"
    and "does no_socket use" and "keeps fd use" and "run_state use w1 = (x, w2)" and "stopped w2 = None"
    and "run_state close_conn w2 = (y, w3)"
  shows "open_sockets w3 = open_sockets w \<and> stopped w3 = None \<and> outside w3 = outside w"
proof -
  have 1: "outside w1 = outside w" "0 \<le> fd w1" "open_sockets w1 = add_mset (fd w1) (open_sockets w)"
    using open_conn [OF assms(1-3)] assms(4) by auto
  have "fd w2 = fd w1" using keepsD [OF assms(6), of w1] assms(7) by simp
  moreover have "outside w2 = outside w1" "open_sockets w2 = open_sockets w1"
    using does_outside [OF assms(5), of w1] does_sockets [OF assms(5), of w1] assms(7) by simp_all
  ultimately show ?thesis
    using close_conn [OF assms(8) _ assms(9)] 1 by auto
qed

lemma unused:
  "stopped w = None \<Longrightarrow> ready w \<Longrightarrow> run_state open_conn w = (r, w1) \<Longrightarrow> stopped w1 = None \<Longrightarrow> r \<noteq> 0
   \<Longrightarrow> open_sockets w1 = open_sockets w"
  using open_conn by metis

end

end
