(* ===== verification/Supl.thy ===== *)
theory Supl
  imports Config Modem Sockets
begin

text \<open>
  \<open>supl_support.c\<close>: assistance data for the GNSS, fetched over a socket that the external SUPL
  library reads and writes through the callbacks here. \<open>supl_logger\<close> only formats log output.
\<close>

definition SUPL_SERVER :: string where "SUPL_SERVER = ''supl.google.com''"
definition SUPL_SERVER_PORT :: nat where "SUPL_SERVER_PORT = 7276"

record supl_world = config_world +
  supl_fd :: int
  assistance_active :: bool

section \<open>The callbacks of the library\<close>

text \<open>A timeout is reported as 0 bytes, the end of the connection as an error.\<close>

definition supl_read :: "nat \<Rightarrow> ('z supl_world_scheme, int) state" where
  "supl_read nbytes = do {
     s \<leftarrow> ask supl_fd;
     rc \<leftarrow> call (Net (Recv s nbytes));
     e \<leftarrow> (if rc < 0 then call (Net Errno) else State_Monad.return 0);
     if rc < 0 \<and> e = EAGAIN then State_Monad.return 0
     else if rc = 0 then State_Monad.return (-1)
     else State_Monad.return rc
   }"

definition supl_write :: "bytes \<Rightarrow> ('z supl_world_scheme, int) state" where
  "supl_write data = do {
     s \<leftarrow> ask supl_fd;
     call (Net (Send s data))
   }"

definition inject_agps_type :: "nat \<Rightarrow> ('z world_scheme, int) state" where
  "inject_agps_type type = do {
     retval \<leftarrow> call (Gnss (Gnss_agps_write type));
     if retval \<noteq> 0 then State_Monad.return (-1) else State_Monad.return 0
   }"

section \<open>The connection\<close>

text \<open>
  The loop over the resolved addresses; \<open>i\<close> is the position of the next one and \<open>err\<close> the
  variable of that name, which is the result when the list is empty or no socket can be had.
\<close>

fun supl_try :: "int \<Rightarrow> nat \<Rightarrow> address_family list \<Rightarrow> ('z supl_world_scheme, int) state" where
  "supl_try err i [] = State_Monad.return err"
| "supl_try err i (a # as) = do {
     s \<leftarrow> call (Net (Socket a IPPROTO_TCP));
     assign (\<lambda>w. w\<lparr>supl_fd := s\<rparr>);
     if s < 0 then State_Monad.return err
     else do {
       err \<leftarrow> call (Net (Setsockopt s (SO_RCVTIMEO 1)));
       if err \<noteq> 0 then State_Monad.return err
       else do {
         err \<leftarrow> call (Net (Connect s i SUPL_SERVER_PORT));
         if err \<noteq> 0 then do {
           perform (Net (Close s));
           assign (\<lambda>w. w\<lparr>supl_fd := -1\<rparr>);
           supl_try err (Suc i) as
         } else State_Monad.return 0
       }
     }
   }"

definition open_supl_socket :: "('z supl_world_scheme, int) state" where
  "open_supl_socket = do {
     err \<leftarrow> call (Net (Getaddrinfo SUPL_SERVER));
     if err \<noteq> 0 then State_Monad.return (-1)
     else do {
       info \<leftarrow> ask (\<lambda>w. addr_ans (outside w) (events w));
       err \<leftarrow> supl_try (-1) 0 info;
       perform (Net Freeaddrinfo);
       if err \<noteq> 0 then do {
         s \<leftarrow> ask supl_fd;
         (if s > -1 then do {
            perform (Net (Close s));
            assign (\<lambda>w. w\<lparr>supl_fd := -1\<rparr>)
          } else State_Monad.return ());
         State_Monad.return (-1)
       } else State_Monad.return 0
     }
   }"

text \<open>The descriptor keeps its value.\<close>

definition close_supl_socket :: "('z supl_world_scheme, unit) state" where
  "close_supl_socket = do {
     s \<leftarrow> ask supl_fd;
     perform (Net (Close s))
   }"

definition assistance_init :: "('z world_scheme, int) state" where
  "assistance_init = do {
     r \<leftarrow> call (Supl Supl_init);
     if r \<noteq> 0 then State_Monad.return (-1) else State_Monad.return 0
   }"

definition assistance_request :: "('z supl_world_scheme, int) state" where
  "assistance_request = do {
     assign (\<lambda>w. w\<lparr>assistance_active := True\<rparr>);
     err \<leftarrow> open_supl_socket;
     err \<leftarrow> (if err \<noteq> 0 then State_Monad.return err
              else do {
                err \<leftarrow> call (Supl Supl_session);
                close_supl_socket;
                State_Monad.return err
              });
     assign (\<lambda>w. w\<lparr>assistance_active := False\<rparr>);
     State_Monad.return err
   }"

definition assistance_is_active :: "('z supl_world_scheme, bool) state" where
  "assistance_is_active = ask assistance_active"

section \<open>What is left open\<close>

lemma supl_try_outcome:
  assumes "stopped w = None" and "err \<noteq> 0" and "as \<noteq> [] \<or> supl_fd w = -1"
  shows "\<exists>r w'. run_state (supl_try err i as) w = (r, w') \<and> stopped w' = None \<and> outside w' = outside w
    \<and> assistance_active w' = assistance_active w
    \<and> open_sockets w' = (if 0 \<le> supl_fd w' then add_mset (supl_fd w') (open_sockets w) else open_sockets w)
    \<and> (r = 0 \<longrightarrow> 0 \<le> supl_fd w')"
  using assms
proof (induction err i as arbitrary: w rule: supl_try.induct)
  case (2 err i a as)
  let ?t1 = "events w @ [Net (Socket a IPPROTO_TCP)]"
  define s where "s = ans (outside w) ?t1"
  let ?t2 = "?t1 @ [Net (Setsockopt s (SO_RCVTIMEO 1))]"
  let ?t3 = "?t2 @ [Net (Connect s i SUPL_SERVER_PORT)]"
  let ?w4 = "w\<lparr>events := ?t3 @ [Net (Close s)], supl_fd := -1\<rparr>"
  have o: "sockets (outside w) ?t2 = sockets (outside w) ?t1" "sockets (outside w) ?t3 = sockets (outside w) ?t1"
    using sockets_append [of "[Net (Setsockopt s (SO_RCVTIMEO 1))]" "outside w" ?t1]
      sockets_append [of "[Net (Setsockopt s (SO_RCVTIMEO 1)), Net (Connect s i SUPL_SERVER_PORT)]" "outside w" ?t1] by simp_all
  show ?case
  proof (cases "s < 0 \<or> ans (outside w) ?t2 \<noteq> 0 \<or> ans (outside w) ?t3 = 0")
    case True
    then show ?thesis using 2(2,3) o by (auto simp: s_def [symmetric] simp del: append_assoc)
  next
    case False
    then have e: "\<not> s < 0" "ans (outside w) ?t2 = 0" "ans (outside w) ?t3 \<noteq> 0" by auto
    have "sockets (outside w) (events ?w4) = open_sockets w"
      using e o by (simp add: s_def [symmetric] del: append_assoc)
    moreover obtain r w' where "run_state (supl_try (ans (outside w) ?t3) (Suc i) as) ?w4 = (r, w')" "stopped w' = None"
      "outside w' = outside w" "assistance_active w' = assistance_active w"
      "open_sockets w' = (if 0 \<le> supl_fd w' then add_mset (supl_fd w') (open_sockets ?w4) else open_sockets ?w4)"
      "r = 0 \<longrightarrow> 0 \<le> supl_fd w'"
      using "2.IH" [of s "ans (outside w) ?t2" "ans (outside w) ?t3" ?w4] 2(2) e by auto
    ultimately show ?thesis using e 2(2) by (auto simp: s_def [symmetric] simp del: append_assoc)
  qed
qed simp

text \<open>A resolver that succeeds gives at least one address.\<close>

definition resolves :: "'z world_scheme \<Rightarrow> bool" where
  "resolves w \<longleftrightarrow> addr_ans (outside w) (events w @ [Net (Getaddrinfo SUPL_SERVER)]) \<noteq> []"

lemma open_supl_socket_outcome:
  assumes "stopped w = None" and "resolves w \<or> supl_fd w = -1"
  shows "\<exists>r w'. run_state open_supl_socket w = (r, w') \<and> stopped w' = None \<and> outside w' = outside w
    \<and> assistance_active w' = assistance_active w
    \<and> (if r = 0 then 0 \<le> supl_fd w' \<and> open_sockets w' = add_mset (supl_fd w') (open_sockets w)
       else r = -1 \<and> open_sockets w' = open_sockets w)"
proof (cases "ans (outside w) (events w @ [Net (Getaddrinfo SUPL_SERVER)]) = 0")
  case False
  then show ?thesis
    using assms(1) by (simp add: open_supl_socket_def sockets_other)
next
  case True
  let ?w1 = "w\<lparr>events := events w @ [Net (Getaddrinfo SUPL_SERVER)]\<rparr>"
  let ?as = "addr_ans (outside w) (events w @ [Net (Getaddrinfo SUPL_SERVER)])"
  have o: "open_sockets ?w1 = open_sockets w" by (simp add: sockets_other)
  obtain r w2 where 2: "run_state (supl_try (-1) 0 ?as) ?w1 = (r, w2)" "stopped w2 = None" "outside w2 = outside w"
    "assistance_active w2 = assistance_active w"
    "open_sockets w2 = (if 0 \<le> supl_fd w2 then add_mset (supl_fd w2) (open_sockets ?w1) else open_sockets ?w1)"
    "r = 0 \<longrightarrow> 0 \<le> supl_fd w2"
    using supl_try_outcome [of ?w1 "-1" ?as 0] assms by (auto simp: resolves_def)
  have f: "sockets (outside w) (events w2 @ [Net Freeaddrinfo]) = open_sockets w2"
    using 2(3) by (simp add: sockets_other)
  have g: "sockets (outside w) (events w2 @ [Net Freeaddrinfo, Net (Close s)]) = open_sockets w2 - {#s#}" for s
    using sockets_close [of "outside w" "events w2 @ [Net Freeaddrinfo]" s] f by simp
  show ?thesis
    using assms(1) True 2 o f g by (auto simp: open_supl_socket_def)
qed

lemma close_supl_socket_outcome:
  "stopped w = None \<Longrightarrow> run_state close_supl_socket w = ((), w\<lparr>events := events w @ [Net (Close (supl_fd w))]\<rparr>)"
  by (simp add: close_supl_socket_def)

interpretation supl: connection supl_fd "\<lambda>w. resolves w \<or> supl_fd w = -1" open_supl_socket close_supl_socket
proof
  fix w :: "'z supl_world_scheme" and r w'
  assume "stopped w = None" "resolves w \<or> supl_fd w = -1" "run_state open_supl_socket w = (r, w')"
  with open_supl_socket_outcome [of w]
  show "outside w' = outside w \<and> (stopped w' = None \<longrightarrow>
       (if r = 0 then 0 \<le> supl_fd w' \<and> open_sockets w' = add_mset (supl_fd w') (open_sockets w)
        else open_sockets w' = open_sockets w))" by (auto split: if_splits)
next
  fix w :: "'z supl_world_scheme" and y w'
  assume "stopped w = None" "0 \<le> supl_fd w" "run_state close_supl_socket w = (y, w')"
  then show "outside w' = outside w \<and> stopped w' = None \<and> open_sockets w' = open_sockets w - {#supl_fd w#}"
    by (auto simp: close_supl_socket_outcome)
qed

text \<open>
  C33: A request for assistance data never faults and leaves no socket open that was not open
  before, whatever fails on the way; the module is idle again at the end. The result is 0 only
  after a session of the library that succeeded.
\<close>

theorem assistance_request_outcome:
  assumes "stopped w = None" and "resolves w \<or> supl_fd w = -1"
  shows "\<exists>r w'. run_state assistance_request w = (r, w') \<and> stopped w' = None
    \<and> open_sockets w' = open_sockets w \<and> \<not> assistance_active w'
    \<and> (r = 0 \<longrightarrow> (\<exists>t u. events w' = t @ Supl Supl_session # u \<and> ans (outside w) (t @ [Supl Supl_session]) = 0))"
proof -
  let ?w0 = "w\<lparr>assistance_active := True\<rparr>"
  have r0: "stopped ?w0 = None" "resolves ?w0 \<or> supl_fd ?w0 = -1"
    using assms by (simp_all add: resolves_def)
  obtain r w1 where 1: "run_state open_supl_socket ?w0 = (r, w1)" "stopped w1 = None" "outside w1 = outside w"
    "assistance_active w1 = True" "r = 0 \<longrightarrow> 0 \<le> supl_fd w1" "r \<noteq> 0 \<longrightarrow> r = -1 \<and> open_sockets w1 = open_sockets ?w0"
    using open_supl_socket_outcome [OF r0] by (auto split: if_splits)
  show ?thesis
  proof (cases "r = 0")
    case False
    then show ?thesis
      using assms(1) 1 by (simp add: assistance_request_def)
  next
    case True
    let ?w2 = "w1\<lparr>events := events w1 @ [Supl Supl_session]\<rparr>"
    let ?w3 = "w1\<lparr>events := events w1 @ [Supl Supl_session, Net (Close (supl_fd w1))]\<rparr>"
    have use: "does no_socket (call (Supl Supl_session))" "keeps supl_fd (call (Supl Supl_session))"
      by (intro does_rules keeps_rules, simp)+
    have run: "run_state (call (Supl Supl_session)) w1 = (ans (outside w) (events w1 @ [Supl Supl_session]), ?w2)"
      "run_state close_supl_socket ?w2 = ((), ?w3)"
      using 1(2,3) by (simp_all add: close_supl_socket_def)
    have "open_sockets ?w3 = open_sockets ?w0"
      using supl.bracket [OF r0 _ 1(2) use run(1) _ run(2)] 1(1,2) True by auto
    moreover have "events ?w3 = events w1 @ Supl Supl_session # [Net (Close (supl_fd w1))]" by simp
    ultimately show ?thesis
      using assms(1) 1 True run
      by (fastforce simp: assistance_request_def)
  qed
qed

definition idle_supl :: supl_world where
  "idle_supl = config_world.extend idle_config (supl_world.fields (-1) False)"

lemma idle_supl_simps [simp]:
  "stopped idle_supl = None" "events idle_supl = []" "supl_fd idle_supl = -1" "\<not> assistance_active idle_supl"
  using idle_config_simps
  by (simp_all add: idle_supl_def config_world.extend_def supl_world.fields_def)

theorem assistance_request_outcome_witness:
  "\<exists>r w'. run_state assistance_request idle_supl = (r, w') \<and> stopped w' = None
    \<and> open_sockets w' = {#} \<and> \<not> assistance_active w'"
  using assistance_request_outcome [of idle_supl] by auto

end
