(* ===== verification/Datetime.thy ===== *)
theory Datetime
  imports Zephyr "HOL-Library.List_Lexorder" "HOL-Library.Char_ord"
begin

text \<open>
  The time of a fix as the text that names a log file (\<open>gnss_get_current_datetimestr\<close>), the
  decimal conversions of \<open>sprintf\<close> that the firmware uses, and the order of times.
\<close>

section \<open>Decimal conversion\<close>

text \<open>\<open>%0nu\<close>: the decimal digits, with zeros in front up to \<open>n\<close> characters.\<close>

definition digit :: "nat \<Rightarrow> char" where
  "digit n = char_of (48 + n mod 10)"

fun decimal :: "nat \<Rightarrow> string" where
  "decimal n = (if n < 10 then [digit n] else decimal (n div 10) @ [digit n])"

declare decimal.simps [simp del]

definition padded :: "nat \<Rightarrow> nat \<Rightarrow> string" where
  "padded k n = replicate (k - length (decimal n)) (CHR ''0'') @ decimal n"

definition datetimestr :: "nrf_modem_gnss_datetime \<Rightarrow> string" where
  "datetimestr d = padded 4 (unat (year d)) @ ''-'' @ padded 2 (unat (month d)) @ ''-'' @ padded 2 (unat (day d))
     @ ''T'' @ padded 2 (unat (hour d)) @ padded 2 (unat (minute d)) @ padded 2 (unat (seconds d))"

section \<open>Digits\<close>

lemma digit_less: "a < 10 \<Longrightarrow> b < 10 \<Longrightarrow> digit a < digit b \<longleftrightarrow> a < b"
  by (simp add: digit_def less_char_def)

lemma digit_inject: "digit a = digit b \<longleftrightarrow> a mod 10 = b mod 10"
  by (simp add: digit_def)

lemma decimal_small: "n < 10 \<Longrightarrow> decimal n = [digit n]"
  by (simp add: decimal.simps)

lemma decimal_step: "10 \<le> n \<Longrightarrow> decimal n = decimal (n div 10) @ [digit n]"
  by (subst decimal.simps) simp

lemma decimal_length: "n < 10 ^ Suc k \<Longrightarrow> length (decimal n) \<le> Suc k"
proof (induction k arbitrary: n)
  case (Suc k)
  show ?case
  proof (cases "n < 10")
    case False
    have "n div 10 < 10 ^ Suc k" using Suc.prems by (simp add: div_less_iff_less_mult)
    with Suc.IH False show ?thesis by (simp add: decimal_step)
  qed (simp add: decimal_small)
qed (simp add: decimal_small)

lemma digit_mod: "digit (n mod 10) = digit n"
  by (simp add: digit_def)

lemma padded_step: "padded (Suc (Suc k)) n = padded (Suc k) (n div 10) @ [digit n]"
proof (cases "n < 10")
  case True
  have "char_of (48::nat) = CHR ''0''" by code_simp
  then have "decimal 0 = [CHR ''0'']" by (simp add: decimal_small digit_def)
  with True show ?thesis by (simp add: padded_def decimal_small replicate_append_same)
next
  case False
  then show ?thesis by (simp add: padded_def decimal_step)
qed

lemma padded_length: "n < 10 ^ Suc k \<Longrightarrow> length (padded (Suc k) n) = Suc k"
  using decimal_length [of n k] by (simp add: padded_def)

lemma padded_base: "n < 10 \<Longrightarrow> padded (Suc 0) n = [digit n]"
  by (simp add: padded_def decimal_small)

section \<open>Order\<close>

lemma append_less:
  fixes a b c d :: "'a::linorder list"
  shows "length a = length c \<Longrightarrow> a @ b < c @ d \<longleftrightarrow> a < c \<or> a = c \<and> b < d"
  by (induction a c rule: list_induct2) auto

lemma nat_less_10: "(m::nat) < n \<longleftrightarrow> m div 10 < n div 10 \<or> m div 10 = n div 10 \<and> m mod 10 < n mod 10"
proof -
  define p q r s where "p = m div 10" and "q = n div 10" and "r = m mod 10" and "s = n mod 10"
  then have "m = 10 * p + r" "n = 10 * q + s" "r < 10" "s < 10" by simp_all
  then show ?thesis unfolding p_def [symmetric] q_def [symmetric] r_def [symmetric] s_def [symmetric]
    by (cases p q rule: linorder_cases) auto
qed

lemma nat_eq_10: "(m::nat) = n \<longleftrightarrow> m div 10 = n div 10 \<and> m mod 10 = n mod 10"
  by (metis div_mult_mod_eq)

lemma padded_order:
  "m < 10 ^ Suc k \<Longrightarrow> n < 10 ^ Suc k \<Longrightarrow>
   (padded (Suc k) m < padded (Suc k) n \<longleftrightarrow> m < n) \<and> (padded (Suc k) m = padded (Suc k) n \<longleftrightarrow> m = n)"
proof (induction k arbitrary: m n)
  case 0
  then show ?case by (simp add: padded_base digit_less digit_inject)
next
  case (Suc k)
  have d: "m div 10 < 10 ^ Suc k" "n div 10 < 10 ^ Suc k" using Suc.prems by (simp_all add: div_less_iff_less_mult)
  have "digit m < digit n \<longleftrightarrow> m mod 10 < n mod 10"
    using digit_less [of "m mod 10" "n mod 10"] by (simp add: digit_mod)
  with Suc.IH [OF d] show ?case
    using nat_less_10 [of m n] nat_eq_10 [of m n] append_less [of "padded (Suc k) (m div 10)" "padded (Suc k) (n div 10)" "[digit m]" "[digit n]"]
      padded_length [OF d(1)] padded_length [OF d(2)]
    by (simp add: padded_step digit_inject)
qed

text \<open>Times are ordered by their fields, from the year down.\<close>

definition time_key :: "'a nrf_modem_gnss_datetime_scheme \<Rightarrow> nat list" where
  "time_key d = [unat (year d), unat (month d), unat (day d), unat (hour d), unat (minute d), unat (seconds d)]"

lemma time_key_inject:
  "time_key d = time_key e \<Longrightarrow> nrf_modem_gnss_datetime.more d = nrf_modem_gnss_datetime.more e \<Longrightarrow> d = e"
  by (cases d, cases e) (simp add: time_key_def word_unat_eq_iff)

instantiation nrf_modem_gnss_datetime_ext :: (linorder) linorder
begin

definition less_nrf_modem_gnss_datetime_ext ::
  "'a nrf_modem_gnss_datetime_scheme \<Rightarrow> 'a nrf_modem_gnss_datetime_scheme \<Rightarrow> bool" where
  "less_nrf_modem_gnss_datetime_ext d e \<longleftrightarrow> time_key d < time_key e
     \<or> time_key d = time_key e \<and> nrf_modem_gnss_datetime.more d < nrf_modem_gnss_datetime.more e"

definition less_eq_nrf_modem_gnss_datetime_ext ::
  "'a nrf_modem_gnss_datetime_scheme \<Rightarrow> 'a nrf_modem_gnss_datetime_scheme \<Rightarrow> bool" where
  "less_eq_nrf_modem_gnss_datetime_ext d e \<longleftrightarrow> time_key d < time_key e
     \<or> time_key d = time_key e \<and> nrf_modem_gnss_datetime.more d \<le> nrf_modem_gnss_datetime.more e"

instance
  by standard (auto simp: less_nrf_modem_gnss_datetime_ext_def less_eq_nrf_modem_gnss_datetime_ext_def dest: time_key_inject)

end

lemma datetime_less:
  fixes d e :: nrf_modem_gnss_datetime
  shows "d < e \<longleftrightarrow> time_key d < time_key e"
  by (simp add: less_nrf_modem_gnss_datetime_ext_def)

text \<open>What the receiver can report: no field has more digits than its place in the text.\<close>

definition printable :: "nrf_modem_gnss_datetime \<Rightarrow> bool" where
  "printable d \<longleftrightarrow> year d \<le> 9999 \<and> month d \<le> 99 \<and> day d \<le> 99 \<and> hour d \<le> 99 \<and> minute d \<le> 99 \<and> seconds d \<le> 99"

lemma printable_bounds:
  "printable d \<Longrightarrow> unat (year d) < 10 ^ Suc 3 \<and> unat (month d) < 10 ^ Suc 1 \<and> unat (day d) < 10 ^ Suc 1
     \<and> unat (hour d) < 10 ^ Suc 1 \<and> unat (minute d) < 10 ^ Suc 1 \<and> unat (seconds d) < 10 ^ Suc 1"
  by (auto simp: printable_def word_le_nat_alt)

lemma padded_4: "n \<le> 9999 \<Longrightarrow> length (padded 4 n) = 4"
  using padded_length [of n 3] by simp

lemma padded_2: "n \<le> 99 \<Longrightarrow> length (padded 2 n) = 2"
  using padded_length [of n 1] by (simp add: numeral_2_eq_2)

lemma padded_4_order:
  "m \<le> 9999 \<Longrightarrow> n \<le> 9999 \<Longrightarrow> (padded 4 m < padded 4 n \<longleftrightarrow> m < n) \<and> (padded 4 m = padded 4 n \<longleftrightarrow> m = n)"
  using padded_order [of m 3 n] by simp

lemma padded_2_order:
  "m \<le> 99 \<Longrightarrow> n \<le> 99 \<Longrightarrow> (padded 2 m < padded 2 n \<longleftrightarrow> m < n) \<and> (padded 2 m = padded 2 n \<longleftrightarrow> m = n)"
  using padded_order [of m 1 n] by (simp add: numeral_2_eq_2)

lemma printable_fields:
  "printable d \<Longrightarrow> unat (year d) \<le> 9999 \<and> unat (month d) \<le> 99 \<and> unat (day d) \<le> 99
     \<and> unat (hour d) \<le> 99 \<and> unat (minute d) \<le> 99 \<and> unat (seconds d) \<le> 99"
  by (simp add: printable_def word_le_nat_alt)

lemma datetimestr_length: "printable d \<Longrightarrow> length (datetimestr d) = 17"
  by (drule printable_fields) (simp add: datetimestr_def padded_4 padded_2)

text \<open>
  C34: The names of the log files sort by time: for times whose fields fit their places, the
  text has exactly 17 characters, as many as the array \<open>datestr\<close> holds beside its terminator, and
  it comes before the text of another time, character by character, exactly when the time does.
\<close>

theorem datetimestr_order:
  assumes "printable d" and "printable e"
  shows "length (datetimestr d) = 17 \<and> (datetimestr d < datetimestr e \<longleftrightarrow> d < e)
    \<and> (datetimestr d = datetimestr e \<longleftrightarrow> d = e)"
proof -
  note b = printable_fields [OF assms(1)] printable_fields [OF assms(2)]
  have l: "length (padded 4 (unat (year d))) = length (padded 4 (unat (year e)))"
    "length (padded 2 (unat (month d))) = length (padded 2 (unat (month e)))"
    "length (padded 2 (unat (day d))) = length (padded 2 (unat (day e)))"
    "length (padded 2 (unat (hour d))) = length (padded 2 (unat (hour e)))"
    "length (padded 2 (unat (minute d))) = length (padded 2 (unat (minute e)))"
    "length (padded 2 (unat (seconds d))) = length (padded 2 (unat (seconds e)))"
    using b by (simp_all add: padded_4 padded_2)
  have "datetimestr d < datetimestr e \<longleftrightarrow> d < e"
    using b unfolding datetimestr_def datetime_less time_key_def
    by (simp add: append_less l padded_4_order padded_2_order)
  moreover have "datetimestr d = datetimestr e \<longleftrightarrow> time_key d = time_key e"
    using b unfolding datetimestr_def time_key_def
    by (simp add: l padded_4_order padded_2_order)
  then have "datetimestr d = datetimestr e \<longleftrightarrow> d = e"
    using time_key_inject [of d e] by auto
  ultimately show ?thesis using datetimestr_length [OF assms(1)] by simp
qed

definition sample_time :: nrf_modem_gnss_datetime where
  "sample_time = \<lparr>year = 2023, month = 3, day = 29, hour = 9, minute = 5, seconds = 59\<rparr>"

theorem datetimestr_order_witness:
  "datetimestr sample_time < datetimestr (sample_time\<lparr>hour := 10, minute := 0\<rparr>)"
  using datetimestr_order [of sample_time "sample_time\<lparr>hour := 10, minute := 0\<rparr>"]
  by (simp add: printable_def sample_time_def datetime_less time_key_def)

end
