(* ===== verification/Gnss.thy ===== *)
theory Gnss
  imports Supl Datetime
begin

text \<open>
  \<open>gnss.c\<close>: the receiver. The modem calls \<open>gnss_event_handler\<close> for every event; the handler
  keeps the last fix, queues NMEA sentences for the logger, and asks for a new log file when the
  day changes.
\<close>

text \<open>Constants of the modem library's interface.\<close>

definition NRF_MODEM_GNSS_PVT_FLAG_FIX_VALID :: u8 where "NRF_MODEM_GNSS_PVT_FLAG_FIX_VALID = 1"
definition NRF_MODEM_GNSS_SV_FLAG_USED_IN_FIX :: u8 where "NRF_MODEM_GNSS_SV_FLAG_USED_IN_FIX = 2"
definition NRF_MODEM_GNSS_SV_FLAG_UNHEALTHY :: u8 where "NRF_MODEM_GNSS_SV_FLAG_UNHEALTHY = 8"
definition NRF_MODEM_GNSS_AGPS_INTEGRITY_REQUEST :: u32 where "NRF_MODEM_GNSS_AGPS_INTEGRITY_REQUEST = 32"
definition NRF_MODEM_GNSS_NMEA_GSV_MASK :: nat where "NRF_MODEM_GNSS_NMEA_GSV_MASK = 8"
definition NRF_MODEM_GNSS_NMEA_RMC_MASK :: nat where "NRF_MODEM_GNSS_NMEA_RMC_MASK = 16"
definition NRF_MODEM_GNSS_USE_CASE_MULTIPLE_HOT_START :: nat where "NRF_MODEM_GNSS_USE_CASE_MULTIPLE_HOT_START = 1"
definition NRF_MODEM_GNSS_USE_CASE_LOW_ACCURACY :: nat where "NRF_MODEM_GNSS_USE_CASE_LOW_ACCURACY = 2"
definition NRF_MODEM_GNSS_PSM_DISABLED :: nat where "NRF_MODEM_GNSS_PSM_DISABLED = 0"
definition NRF_MODEM_GNSS_PSM_DUTY_CYCLING_PERFORMANCE :: nat where "NRF_MODEM_GNSS_PSM_DUTY_CYCLING_PERFORMANCE = 1"
definition NRF_MODEM_GNSS_PSM_DUTY_CYCLING_POWER :: nat where "NRF_MODEM_GNSS_PSM_DUTY_CYCLING_POWER = 2"

definition CONFIG_GNSS_MIN_ELEV :: nat where "CONFIG_GNSS_MIN_ELEV = 2"

datatype gnss_event = EVT_PVT | EVT_NMEA | EVT_AGPS_REQ | EVT_OTHER_GNSS

text \<open>\<open>last_agps\<close> holds the fields \<open>sv_mask_ephe\<close>, \<open>sv_mask_alm\<close> and \<open>data_flags\<close>.\<close>

record gnss_world = supl_world +
  cnt :: u8
  gnss_fixed :: u32
  pvt_data :: nrf_modem_gnss_pvt_data_frame
  last_day :: u8
  fix_timestamp :: int
  use_agps :: int
  last_agps :: "u32 \<times> u32 \<times> u32"

definition got_fix :: "('z gnss_world_scheme, u32) state" where
  "got_fix = ask gnss_fixed"

section \<open>Console output\<close>

text \<open>The three counters that \<open>print_searching\<close> shows, as the 8-bit integers they are.\<close>

definition satellite_counts :: "(u16 \<times> u8) list \<Rightarrow> u8 \<times> u8 \<times> u8" where
  "satellite_counts svs = foldl (\<lambda>(tracked, in_fix, unhealthy) (sv, flags).
     if 0 < sv then
       (tracked + 1,
        if and flags NRF_MODEM_GNSS_SV_FLAG_USED_IN_FIX \<noteq> 0 then in_fix + 1 else in_fix,
        if and flags NRF_MODEM_GNSS_SV_FLAG_UNHEALTHY \<noteq> 0 then unhealthy + 1 else unhealthy)
     else (tracked, in_fix, unhealthy)) (0, 0, 0) svs"

definition print_searching :: "('z gnss_world_scheme, (u8 \<times> u8 \<times> u8) \<times> char) state" where
  "print_searching = do {
     p \<leftarrow> ask pvt_data;
     perform (Kernel K_uptime_get);
     assign (\<lambda>w. w\<lparr>cnt := cnt w + 1\<rparr>);
     c \<leftarrow> ask cnt;
     State_Monad.return (satellite_counts (pvt_sv p), [CHR 0x5C, CHR ''|'', CHR ''/'', CHR ''-''] ! (unat c mod 4))
   }"

section \<open>Events\<close>

definition pvt_event :: "('z gnss_world_scheme, unit) state" where
  "pvt_event = do {
     perform (Gnss (Gnss_read DATA_PVT));
     assign (\<lambda>w. w\<lparr>pvt_data := frame_ans (outside w) (events w)\<rparr>);
     p \<leftarrow> ask pvt_data;
     (if and (pvt_flags p) NRF_MODEM_GNSS_PVT_FLAG_FIX_VALID \<noteq> 0 then do {
        assign (\<lambda>w. w\<lparr>gnss_fixed := gnss_fixed w + 1\<rparr>);
        _ \<leftarrow> update_device_status p;
        set_led_status LED_LOGGING
      } else do {
        assign (\<lambda>w. w\<lparr>gnss_fixed := 0\<rparr>);
        set_led_status LED_SEARCHING
      });
     n \<leftarrow> ask gnss_fixed;
     (if n = 1 then do {
        t \<leftarrow> call (Kernel K_uptime_get);
        assign (\<lambda>w. w\<lparr>fix_timestamp := t\<rparr>)
      } else if n = 0 then do {
        _ \<leftarrow> print_searching;
        State_Monad.return ()
      } else State_Monad.return ());
     d \<leftarrow> ask last_day;
     (if day (datetime p) \<noteq> d then do {
        perform (Kernel (K_sem_give rollover_event_sem));
        assign (\<lambda>w. w\<lparr>last_day := day (datetime p)\<rparr>)
      } else State_Monad.return ())
   }"

text \<open>A sentence is queued or its memory is given back.\<close>

definition nmea_event :: "('z world_scheme, unit) state" where
  "nmea_event = do {
     p \<leftarrow> call (Kernel (K_malloc Nmea_data_frame));
     if p = 0 then State_Monad.return ()
     else do {
       retval \<leftarrow> call (Gnss (Gnss_read DATA_NMEA));
       retval \<leftarrow> (if retval = 0 then call (Kernel (K_msgq_put p K_NO_WAIT)) else State_Monad.return retval);
       if retval \<noteq> 0 then perform (Kernel (K_free p)) else State_Monad.return ()
     }
   }"

definition agps_event :: "('z gnss_world_scheme, unit) state" where
  "agps_event = do {
     a \<leftarrow> ask use_agps;
     if a = 0 then State_Monad.return ()
     else do {
       r \<leftarrow> call (Gnss (Gnss_read DATA_AGPS_REQ));
       assign (\<lambda>w. w\<lparr>last_agps := agps_ans (outside w) (events w)\<rparr>);
       if r \<noteq> 0 then State_Monad.return ()
       else do {
         req \<leftarrow> ask last_agps;
         if req = (0, 0, NRF_MODEM_GNSS_AGPS_INTEGRITY_REQUEST) then State_Monad.return ()
         else do {
           c \<leftarrow> lte_connect;
           if c = 0 then do {
             _ \<leftarrow> assistance_request;
             lte_disconnect
           } else State_Monad.return ()
         }
       }
     }
   }"

text \<open>\<open>supl_client\<close> is the build option \<open>CONFIG_SUPL_CLIENT_LIB\<close>.\<close>

definition gnss_event_handler :: "bool \<Rightarrow> gnss_event \<Rightarrow> ('z gnss_world_scheme, unit) state" where
  "gnss_event_handler supl_client event =
     (case event of
        EVT_PVT \<Rightarrow> pvt_event
      | EVT_NMEA \<Rightarrow> nmea_event
      | EVT_AGPS_REQ \<Rightarrow> (if supl_client then agps_event else State_Monad.return ())
      | EVT_OTHER_GNSS \<Rightarrow> State_Monad.return ())"

section \<open>The time as text\<close>

text \<open>The array it is printed into has \<open>room\<close> characters.\<close>

definition gnss_get_current_datetimestr :: "nat \<Rightarrow> ('z gnss_world_scheme, string) state" where
  "gnss_get_current_datetimestr room = do {
     p \<leftarrow> ask pvt_data;
     let s = datetimestr (datetime p);
     check Out_Of_Bounds (length s < room);
     State_Monad.return s
   }"

section \<open>Starting and stopping\<close>

definition gnss_use_case :: "config \<Rightarrow> nat" where
  "gnss_use_case c =
     (if pvt_low c = 1 then or NRF_MODEM_GNSS_USE_CASE_MULTIPLE_HOT_START NRF_MODEM_GNSS_USE_CASE_LOW_ACCURACY
      else NRF_MODEM_GNSS_USE_CASE_MULTIPLE_HOT_START)"

definition gnss_psm :: "config \<Rightarrow> nat" where
  "gnss_psm c =
     (if psm_mode c = 1 then NRF_MODEM_GNSS_PSM_DUTY_CYCLING_PERFORMANCE
      else if psm_mode c = 2 then NRF_MODEM_GNSS_PSM_DUTY_CYCLING_POWER
      else NRF_MODEM_GNSS_PSM_DISABLED)"

text \<open>Settings made one after the other until one is refused.\<close>

fun settings :: "call list \<Rightarrow> ('z world_scheme, int) state" where
  "settings [] = State_Monad.return 0"
| "settings (c # cs) = do {
     retval \<leftarrow> call c;
     if retval \<noteq> 0 then State_Monad.return retval else settings cs
   }"

definition init_gnss :: "bool \<Rightarrow> int \<Rightarrow> ('z gnss_world_scheme, int) state" where
  "init_gnss supl_client useagps = do {
     assign (\<lambda>w. w\<lparr>use_agps := useagps\<rparr>);
     r \<leftarrow> enable_gnss_mode;
     if r \<noteq> 0 then State_Monad.return (-1)
     else do {
       r \<leftarrow> call (Gnss Gnss_event_handler_set);
       if r \<noteq> 0 then State_Monad.return (-1)
       else do {
         c \<leftarrow> ask confdata;
         retval \<leftarrow> settings
           [Gnss (Gnss_fix_interval_set 1),
            Gnss (Gnss_fix_retry_set 0),
            Gnss (Gnss_nmea_mask_set (or NRF_MODEM_GNSS_NMEA_GSV_MASK NRF_MODEM_GNSS_NMEA_RMC_MASK)),
            Gnss (Gnss_elevation_threshold_set CONFIG_GNSS_MIN_ELEV),
            Gnss (Gnss_use_case_set (gnss_use_case c)),
            Gnss (Gnss_power_mode_set (gnss_psm c))];
         if retval \<noteq> 0 then State_Monad.return retval
         else if supl_client \<and> useagps \<noteq> 0 then do {
           r \<leftarrow> assistance_init;
           State_Monad.return (if r \<noteq> 0 then -1 else 0)
         }
         else State_Monad.return 0
       }
     }
   }"

definition stop_gnss :: "('z world_scheme, int) state" where
  "stop_gnss = call (Gnss Gnss_stop)"

definition start_gnss :: "('z world_scheme, int) state" where
  "start_gnss = call (Gnss Gnss_start)"

section \<open>Settings\<close>

text \<open>How many of the calls are accepted before the first that is refused.\<close>

fun accepted :: "environment \<Rightarrow> trace \<Rightarrow> call list \<Rightarrow> nat" where
  "accepted E t [] = 0"
| "accepted E t (c # cs) = (if ans E (t @ [c]) = 0 then Suc (accepted E (t @ [c]) cs) else 0)"

lemma accepted_le: "accepted E t cs \<le> length cs"
  by (induction E t cs rule: accepted.induct) simp_all

lemma settings_run:
  "stopped w = None \<Longrightarrow> \<exists>r. run_state (settings cs) w =
     (r, w\<lparr>events := events w @ take (Suc (accepted (outside w) (events w) cs)) cs\<rparr>)
     \<and> (r = 0 \<longleftrightarrow> accepted (outside w) (events w) cs = length cs)"
proof (induction cs arbitrary: w)
  case (Cons c cs)
  show ?case
  proof (cases "ans (outside w) (events w @ [c]) = 0")
    case True
    with Cons.IH [of "w\<lparr>events := events w @ [c]\<rparr>"] Cons.prems show ?thesis by auto
  qed (use Cons.prems in simp)
qed simp

definition gnss_settings :: "config \<Rightarrow> call list" where
  "gnss_settings c =
     [Modem (Lte_lc_func_mode_set ACTIVATE_GNSS), Gnss Gnss_event_handler_set,
      Gnss (Gnss_fix_interval_set 1), Gnss (Gnss_fix_retry_set 0), Gnss (Gnss_nmea_mask_set 24),
      Gnss (Gnss_elevation_threshold_set 2), Gnss (Gnss_use_case_set (if pvt_low c = 1 then 3 else 1)),
      Gnss (Gnss_power_mode_set (if psm_mode c = 1 then 1 else if psm_mode c = 2 then 2 else 0))]"

lemma length_gnss_settings [simp]: "length (gnss_settings c) = 8"
  by (simp add: gnss_settings_def)

lemmas gnss_constants =
  NRF_MODEM_GNSS_NMEA_GSV_MASK_def NRF_MODEM_GNSS_NMEA_RMC_MASK_def CONFIG_GNSS_MIN_ELEV_def
  NRF_MODEM_GNSS_USE_CASE_MULTIPLE_HOT_START_def NRF_MODEM_GNSS_USE_CASE_LOW_ACCURACY_def
  NRF_MODEM_GNSS_PSM_DISABLED_def NRF_MODEM_GNSS_PSM_DUTY_CYCLING_PERFORMANCE_def NRF_MODEM_GNSS_PSM_DUTY_CYCLING_POWER_def

text \<open>
  Without assistance, \<open>init_gnss\<close> makes its eight settings in order, with the mask for GSV
  and RMC sentences and the accuracy and power modes of the configuration, stops at the first
  one that is refused, and returns 0 exactly when none is.
\<close>

theorem init_gnss_settings:
  assumes "stopped w = None"
  shows "\<exists>r. run_state (init_gnss False a) w =
      (r, w\<lparr>use_agps := a, events := events w
         @ take (Suc (accepted (outside w) (events w) (gnss_settings (confdata w)))) (gnss_settings (confdata w))\<rparr>)
    \<and> (r = 0 \<longleftrightarrow> accepted (outside w) (events w) (gnss_settings (confdata w)) = 8)"
proof -
  let ?c1 = "Modem (Lte_lc_func_mode_set ACTIVATE_GNSS)" and ?c2 = "Gnss Gnss_event_handler_set"
  let ?cs = "drop 2 (gnss_settings (confdata w))"
  have masks: "or NRF_MODEM_GNSS_NMEA_GSV_MASK NRF_MODEM_GNSS_NMEA_RMC_MASK = 24"
    "gnss_use_case (confdata w) = (if pvt_low (confdata w) = 1 then 3 else 1)"
    "gnss_psm (confdata w) = (if psm_mode (confdata w) = 1 then 1 else if psm_mode (confdata w) = 2 then 2 else 0)"
    by (simp_all add: gnss_use_case_def gnss_psm_def gnss_constants)
  have split: "gnss_settings (confdata w) = ?c1 # ?c2 # ?cs" by (simp add: gnss_settings_def)
  show ?thesis
  proof (cases "ans (outside w) (events w @ [?c1]) = 0 \<and> ans (outside w) (events w @ [?c1, ?c2]) = 0")
    case False
    then show ?thesis
      using assms by (subst (1 2 3) split) (auto simp: init_gnss_def enable_gnss_mode_def)
  next
    case True
    let ?w2 = "w\<lparr>use_agps := a, events := events w @ [?c1, ?c2]\<rparr>"
    obtain r where r: "run_state (settings ?cs) ?w2 =
        (r, ?w2\<lparr>events := events ?w2 @ take (Suc (accepted (outside ?w2) (events ?w2) ?cs)) ?cs\<rparr>)"
      "r = 0 \<longleftrightarrow> accepted (outside ?w2) (events ?w2) ?cs = length ?cs"
      using settings_run [of ?w2 ?cs] assms by auto
    have cs: "?cs = [Gnss (Gnss_fix_interval_set 1), Gnss (Gnss_fix_retry_set 0), Gnss (Gnss_nmea_mask_set 24),
        Gnss (Gnss_elevation_threshold_set CONFIG_GNSS_MIN_ELEV), Gnss (Gnss_use_case_set (gnss_use_case (confdata w))),
        Gnss (Gnss_power_mode_set (gnss_psm (confdata w)))]" and len: "length ?cs = 6"
      by (simp_all add: gnss_settings_def masks CONFIG_GNSS_MIN_ELEV_def)
    have "run_state (init_gnss False a) w = (r, ?w2\<lparr>events := events ?w2 @ take (Suc (accepted (outside ?w2) (events ?w2) ?cs)) ?cs\<rparr>)"
      using assms True r(1) unfolding cs by (simp add: init_gnss_def enable_gnss_mode_def masks(1) del: settings.simps)
    with r(2) True show ?thesis
      by (subst (1 2 3) split) (simp add: len)
  qed
qed

definition idle_gnss :: gnss_world where
  "idle_gnss = supl_world.extend idle_supl (gnss_world.fields 0 0 quiet_frame 0 0 0 (0, 0, 0))"

lemma idle_gnss_simps [simp]:
  "stopped idle_gnss = None" "events idle_gnss = []" "outside idle_gnss = quiet\<lparr>sample_ans := (\<lambda>_. 512)\<rparr>"
  "last_day idle_gnss = 0" "gnss_fixed idle_gnss = 0" "pvt_data idle_gnss = quiet_frame" "hrprev idle_gnss = 24"
  "adc_dev idle_gnss" "led_status idle_gnss = LED_BOOTING"
  "psm_mode (confdata idle_gnss) = 0" "pvt_low (confdata idle_gnss) = 1"
  by (simp_all add: idle_gnss_def supl_world.extend_def gnss_world.fields_def idle_supl_def config_world.extend_def
      supl_world.fields_def idle_config_def led_world.extend_def config_world.fields_def idle_led_def set_defaults_def)

theorem init_gnss_settings_witness:
  "\<exists>w'. run_state (init_gnss False 0) idle_gnss = (0, w') \<and> length (events w') = 8"
  using init_gnss_settings [of idle_gnss 0] by (auto simp: gnss_settings_def quiet_def)

section \<open>Days and fixes\<close>

definition rollovers :: "'z world_scheme \<Rightarrow> nat" where
  "rollovers w = count_list (events w) (Kernel (K_sem_give rollover_event_sem))"

lemma rollovers_upd [simp]:
  "rollovers (w\<lparr>events := events w @ [c]\<rparr>) = rollovers w + (if c = Kernel (K_sem_give rollover_event_sem) then 1 else 0)"
  by (simp add: rollovers_def)

lemma keeps_rollovers:
  assumes "does (\<lambda>c. c \<noteq> Kernel (K_sem_give rollover_event_sem)) m"
  shows "keeps rollovers m"
proof (rule keepsI)
  fix w
  show "rollovers (snd (run_state m w)) = rollovers w"
    using does_events [OF assms, of w] by (auto simp: rollovers_def count_list_all)
qed

lemma keeps_set_dev_status [keeps_rules]:
  "(\<And>w d. f (w\<lparr>dev_status := d\<rparr>) = f w) \<Longrightarrow> keeps f (set_dev_status g)"
  unfolding set_dev_status_def by (intro keeps_rules)

lemma keeps_set_led_status [keeps_rules]:
  "(\<And>w d. f (w\<lparr>led_status := d\<rparr>) = f w) \<Longrightarrow> keeps f (set_led_status s)"
  by (intro keepsI) simp

lemma does_set_led_status [does_rules]: "does P (set_led_status s)"
  unfolding set_led_status_def by (intro does_rules) simp_all

lemma does_update_device_status [does_rules]:
  "P (Device Adc_read) \<Longrightarrow> P (Kernel K_uptime_get) \<Longrightarrow> does P (update_device_status p)"
  unfolding update_device_status_def by (intro does_rules) simp_all

lemma keeps_update_device_status:
  "keeps (\<lambda>w. (outside w, gnss_fixed w, last_day w, pvt_data w, led_status w)) (update_device_status p)"
  unfolding update_device_status_def Let_def
  by (intro keeps_rules) (simp_all split: option.split)

lemma wp_update_device_status [wp_rules]:
  "(\<And>r w'. outside w' = outside w \<Longrightarrow> gnss_fixed w' = gnss_fixed w \<Longrightarrow> last_day w' = last_day w \<Longrightarrow> pvt_data w' = pvt_data w
     \<Longrightarrow> rollovers w' = rollovers w \<Longrightarrow> Q r w') \<Longrightarrow> wp (update_device_status p) Q w"
  by (rule wp_keeps [OF keeps_pair [OF keeps_update_device_status keeps_rollovers]]) (intro does_rules, simp_all)

lemma wp_set_led_status [wp_rules]: "Q () (w\<lparr>led_status := s\<rparr>) \<Longrightarrow> wp (set_led_status s) Q w"
  by (simp add: wp_def)

lemma does_print_searching [does_rules]: "P (Kernel K_uptime_get) \<Longrightarrow> does P print_searching"
  unfolding print_searching_def by (intro does_rules) simp_all

lemma wp_print_searching [wp_rules]:
  "(\<And>r. Q r (w\<lparr>events := events w @ [Kernel K_uptime_get], cnt := cnt w + 1\<rparr>)) \<Longrightarrow> wp print_searching Q w"
  by (simp add: wp_def print_searching_def)

text \<open>
  A position frame is kept; a valid fix counts one up and shows logging, any other frame
  starts the count anew and shows searching; and the handler asks for a new log file exactly
  once when the day of the frame differs from the last one, and not at all otherwise.
\<close>

theorem pvt_event_step:
  assumes "stopped w = None" and "run_state pvt_event w = (u, w')" and "stopped w' = None"
    and "p = frame_ans (outside w) (events w @ [Gnss (Gnss_read DATA_PVT)])"
    and "fix = (and (pvt_flags p) NRF_MODEM_GNSS_PVT_FLAG_FIX_VALID \<noteq> 0)"
  shows "pvt_data w' = p \<and> last_day w' = day (datetime p)
    \<and> gnss_fixed w' = (if fix then gnss_fixed w + 1 else 0)
    \<and> led_status w' = (if fix then LED_LOGGING else LED_SEARCHING)
    \<and> rollovers w' = rollovers w + (if day (datetime p) \<noteq> last_day w then 1 else 0)"
proof -
  have "wp pvt_event (\<lambda>_ w'. pvt_data w' = p \<and> last_day w' = day (datetime p)
    \<and> gnss_fixed w' = (if fix then gnss_fixed w + 1 else 0)
    \<and> led_status w' = (if fix then LED_LOGGING else LED_SEARCHING)
    \<and> rollovers w' = rollovers w + (if day (datetime p) \<noteq> last_day w then 1 else 0)) w"
    unfolding pvt_event_def
    using assms(4,5) by (intro wp_rules does_rules) (simp_all add: rollovers_def)
  from wpD [OF this assms(1-3)] show ?thesis .
qed

theorem pvt_event_step_witness:
  "\<exists>w'. run_state pvt_event idle_gnss = ((), w') \<and> stopped w' = None \<and> last_day w' = 29
    \<and> led_status w' = LED_SEARCHING \<and> rollovers w' = 1"
proof -
  obtain w' where r: "run_state pvt_event idle_gnss = ((), w')" "stopped w' = None"
    by (simp add: pvt_event_def quiet_def quiet_frame_def print_searching_def)
  from pvt_event_step [OF _ r, of quiet_frame False] show ?thesis
    using r by (simp add: quiet_def quiet_frame_def rollovers_def)
qed

section \<open>Sentences\<close>

text \<open>
  The sentences whose memory a caller still owns: allocated or taken from the queue, and neither
  given back nor handed to the queue. The answer of \<open>k_msgq_get\<close> beside its result is the pointer
  that was queued.
\<close>

fun held_rev :: "environment \<Rightarrow> trace \<Rightarrow> int multiset" where
  "held_rev E [] = {#}"
| "held_rev E (c # cs) =
     (let H = held_rev E cs; t = rev (c # cs) in
      case c of
        Kernel (K_malloc ob) \<Rightarrow> (if ob = Nmea_data_frame \<and> ans E t \<noteq> 0 then add_mset (ans E t) H else H)
      | Kernel (K_free p) \<Rightarrow> H - {#p#}
      | Kernel (K_msgq_put p u) \<Rightarrow> (if ans E t = 0 then H - {#p#} else H)
      | Kernel (K_msgq_get u) \<Rightarrow> (if ans E t = 0 then add_mset (int (size_ans E t)) H else H)
      | _ \<Rightarrow> H)"

definition held :: "environment \<Rightarrow> trace \<Rightarrow> int multiset" where
  "held E t = held_rev E (rev t)"

lemma held_snoc:
  "held E (t @ [c]) =
     (case c of
        Kernel (K_malloc ob) \<Rightarrow> (if ob = Nmea_data_frame \<and> ans E (t @ [c]) \<noteq> 0 then add_mset (ans E (t @ [c])) (held E t) else held E t)
      | Kernel (K_free p) \<Rightarrow> held E t - {#p#}
      | Kernel (K_msgq_put p u) \<Rightarrow> (if ans E (t @ [c]) = 0 then held E t - {#p#} else held E t)
      | Kernel (K_msgq_get u) \<Rightarrow> (if ans E (t @ [c]) = 0 then add_mset (int (size_ans E (t @ [c]))) (held E t) else held E t)
      | _ \<Rightarrow> held E t)"
  by (simp add: held_def Let_def split: call.splits kernel_call.splits)

lemma held_Nil [simp]: "held E [] = {#}"
  by (simp add: held_def)

text \<open>
  C35: Handling a sentence loses no memory: whatever the receiver, the queue and the heap answer,
  the frame that was allocated is in the queue or given back when the handler returns, and the
  handler changes nothing else.
\<close>

theorem nmea_event_keeps_memory:
  assumes "stopped w = None"
  shows "\<exists>t. run_state nmea_event w = ((), w\<lparr>events := t\<rparr>) \<and> held (outside w) t = held (outside w) (events w)"
  using assms
  by (auto simp: nmea_event_def held_snoc simp del: append_assoc append.simps)

theorem nmea_event_keeps_memory_witness:
  "\<exists>t. run_state nmea_event idle_gnss = ((), idle_gnss\<lparr>events := t\<rparr>) \<and> held (outside idle_gnss) t = {#}"
  using nmea_event_keeps_memory [of idle_gnss] by simp

end
