(* ===== verification/Upload.thy ===== *)
theory Upload
  imports Gnss
begin

text \<open>
  \<open>uploadclient.c\<close>: putting a log file on a WebDAV server over the modem's sockets. The HTTP
  client is external: it calls \<open>upload_cb\<close> for the body and \<open>response_cb\<close> for the answer, in the
  order and as often as the environment says.
\<close>

definition UPLOADCLNT_SUCCESS :: int where "UPLOADCLNT_SUCCESS = 0"
definition UPLOADCLNT_ERROR :: int where "UPLOADCLNT_ERROR = 1"
definition TLS_SEC_TAG :: nat where "TLS_SEC_TAG = 42"
definition HTTP_PORT :: nat where "HTTP_PORT = 80"
definition HTTPS_PORT :: nat where "HTTPS_PORT = 443"
definition UPLOAD_BUF_LEN :: nat where "UPLOAD_BUF_LEN = 512"
definition GAI_ATTEMPT_COUNT :: nat where "GAI_ATTEMPT_COUNT = 4"

datatype http_status = HTTP_100_CONTINUE | HTTP_101_SWITCHING_PROTOCOLS | HTTP_102_PROCESSING | HTTP_103_EARLY_HINTS
  | HTTP_200_OK | HTTP_201_CREATED | HTTP_404_NOT_FOUND

record upload_world = gnss_world +
  last_http_status :: http_status
  http_fd :: int

section \<open>The certificate\<close>

definition cert_provision :: "string \<Rightarrow> ('z world_scheme, int) state" where
  "cert_provision cacert = do {
     err \<leftarrow> call (Modem (Modem_key_exists TLS_SEC_TAG));
     exists \<leftarrow> ask (\<lambda>w. flag_ans (outside w) (events w));
     if err \<noteq> 0 then State_Monad.return err
     else do {
       mismatch \<leftarrow> (if exists then call (Modem (Modem_key_cmp TLS_SEC_TAG cacert)) else State_Monad.return 1);
       if exists \<and> mismatch = 0 then State_Monad.return 0
       else do {
         (if exists then perform (Modem (Modem_key_delete TLS_SEC_TAG)) else State_Monad.return ());
         err \<leftarrow> call (Modem (Modem_key_write TLS_SEC_TAG cacert));
         if err \<noteq> 0 then State_Monad.return err else State_Monad.return UPLOADCLNT_SUCCESS
       }
     }
   }"

section \<open>Sockets\<close>

text \<open>
  The loop ends when all bytes are sent; a \<open>send\<close> that keeps answering 0 would keep it going, so
  the number of rounds is bounded by fuel. No \<open>send\<close> reports more bytes than it was given.
\<close>

fun sendall :: "nat \<Rightarrow> int \<Rightarrow> bytes \<Rightarrow> ('z world_scheme, int) state" where
  "sendall 0 sock buf = stop Out_Of_Fuel 0"
| "sendall (Suc k) sock buf =
     (if buf = [] then State_Monad.return 0
      else do {
        out_len \<leftarrow> call (Net (Send sock buf));
        if out_len < 0 then do {
          e \<leftarrow> call (Net Errno);
          State_Monad.return (- e)
        } else do {
          check Out_Of_Bounds (nat out_len \<le> length buf);
          sendall k sock (drop (nat out_len) buf)
        }
      })"

definition tls_setup :: "int \<Rightarrow> string \<Rightarrow> ('z world_scheme, int) state" where
  "tls_setup fd hostname = do {
     err \<leftarrow> call (Net (Setsockopt fd TLS_PEER_VERIFY_REQUIRED));
     if err \<noteq> 0 then State_Monad.return err
     else do {
       err \<leftarrow> call (Net (Setsockopt fd (TLS_SEC_TAG_LIST TLS_SEC_TAG)));
       if err \<noteq> 0 then State_Monad.return err
       else do {
         err \<leftarrow> call (Net (Setsockopt fd (TLS_HOSTNAME hostname)));
         if err \<noteq> 0 then State_Monad.return err else State_Monad.return 0
       }
     }
   }"

definition set_http_fd :: "int \<Rightarrow> ('z upload_world_scheme, unit) state" where
  "set_http_fd s = assign (\<lambda>w. w\<lparr>http_fd := s\<rparr>)"

definition close_http_socket :: "('z upload_world_scheme, int) state" where
  "close_http_socket = do {
     s \<leftarrow> ask http_fd;
     if s = -1 then State_Monad.return UPLOADCLNT_SUCCESS
     else do {
       r \<leftarrow> call (Net (Close s));
       if r < 0 then State_Monad.return UPLOADCLNT_ERROR
       else do {
         set_http_fd (-1);
         State_Monad.return UPLOADCLNT_SUCCESS
       }
     }
   }"

text \<open>
  Resolving the name, with a pause after every failure but the last; the argument is the number
  of attempts made before.
\<close>

function http_resolve :: "string \<Rightarrow> nat \<Rightarrow> ('z world_scheme, bool) state" where
  "http_resolve hostname gai_cnt = do {
     err \<leftarrow> call (Net (Getaddrinfo hostname));
     if err = 0 then State_Monad.return True
     else if gai_cnt + 1 < GAI_ATTEMPT_COUNT then do {
       perform (Kernel (K_sleep (K_MSEC (1000 * (gai_cnt + 1)))));
       http_resolve hostname (gai_cnt + 1)
     } else State_Monad.return False
   }"
  by pat_completeness auto
termination
  by (relation "measure (\<lambda>(h, n). GAI_ATTEMPT_COUNT - n)") simp_all

declare http_resolve.simps [simp del]

text \<open>
  The loop over the resolved addresses, the first at position \<open>i\<close>; \<open>err\<close> is the variable of that
  name. An address of an unknown family, or one whose socket cannot be made, leaves it as it is.
\<close>

fun http_try :: "string \<Rightarrow> int \<Rightarrow> int \<Rightarrow> nat \<Rightarrow> address_family list \<Rightarrow> ('z upload_world_scheme, int) state" where
  "http_try hostname tls err i [] = State_Monad.return err"
| "http_try hostname tls err i (a # as) =
     (if a = AF_OTHER then http_try hostname tls err (Suc i) as
      else do {
        s \<leftarrow> call (Net (Socket a (if tls \<noteq> 0 then IPPROTO_TLS_1_2 else IPPROTO_TCP)));
        set_http_fd s;
        if s < 0 then do {
          set_http_fd (-1);
          perform (Net (Close (-1)));
          http_try hostname tls err (Suc i) as
        } else do {
          err \<leftarrow> call (Net (Setsockopt s (SO_RCVTIMEO 1)));
          if err \<noteq> 0 then do {
            _ \<leftarrow> close_http_socket;
            http_try hostname tls (- err) (Suc i) as
          } else do {
            err \<leftarrow> (if tls \<noteq> 0 then tls_setup s hostname else State_Monad.return 0);
            if err \<noteq> 0 then do {
              _ \<leftarrow> close_http_socket;
              http_try hostname tls err (Suc i) as
            } else do {
              err \<leftarrow> call (Net (Connect s i (if tls \<noteq> 0 then HTTPS_PORT else HTTP_PORT)));
              if err \<noteq> 0 then do {
                _ \<leftarrow> close_http_socket;
                e \<leftarrow> call (Net Errno);
                http_try hostname tls (- e) (Suc i) as
              } else State_Monad.return UPLOADCLNT_SUCCESS
            }
          }
        }
      })"

text \<open>
  When the name cannot be resolved the result list is freed only if it is set, which a failed
  call leaves to the library; that call is not recorded.
\<close>

definition open_http_socket :: "string \<Rightarrow> int \<Rightarrow> ('z upload_world_scheme, int) state" where
  "open_http_socket hostname tls = do {
     set_http_fd (-1);
     resolved \<leftarrow> http_resolve hostname 0;
     if \<not> resolved then State_Monad.return UPLOADCLNT_ERROR
     else do {
       info \<leftarrow> ask (\<lambda>w. addr_ans (outside w) (events w));
       err \<leftarrow> http_try hostname tls UPLOADCLNT_ERROR 0 info;
       (if err \<noteq> UPLOADCLNT_SUCCESS then do { _ \<leftarrow> close_http_socket; State_Monad.return () } else State_Monad.return ());
       perform (Net Freeaddrinfo);
       State_Monad.return err
     }
   }"

section \<open>The request\<close>

text \<open>The body: the file, a buffer at a time, until a read is short. \<open>n\<close> bounds the reads.\<close>

fun upload_body :: "nat \<Rightarrow> int \<Rightarrow> nat \<Rightarrow> ('z world_scheme, int) state" where
  "upload_body 0 sock nsend = stop Out_Of_Fuel UPLOADCLNT_ERROR"
| "upload_body (Suc n) sock nsend = do {
     retc \<leftarrow> call (Fs (Fs_read Upload_File UPLOAD_BUF_LEN));
     data \<leftarrow> said;
     if retc < 0 then State_Monad.return UPLOADCLNT_ERROR
     else do {
       r \<leftarrow> (if 0 < retc then sendall (Suc UPLOAD_BUF_LEN) sock (bytes_of_string (take (nat retc) data)) else State_Monad.return 0);
       if r \<noteq> 0 then State_Monad.return UPLOADCLNT_ERROR
       else if retc = int UPLOAD_BUF_LEN then upload_body n sock (nsend + nat retc)
       else do {
         perform (Fs (Fs_close Upload_File));
         State_Monad.return (int (nsend + nat retc))
       }
     }
   }"

definition upload_cb :: "nat \<Rightarrow> int \<Rightarrow> string \<Rightarrow> ('z world_scheme, int) state" where
  "upload_cb n sock name = do {
     r \<leftarrow> call (Fs (Fs_open Upload_File name [FS_O_READ]));
     if r \<noteq> 0 then State_Monad.return UPLOADCLNT_ERROR
     else upload_body n sock 0
   }"

definition response_cb :: "string \<Rightarrow> ('z upload_world_scheme, unit) state" where
  "response_cb status =
     (if status = ''Created'' then assign (\<lambda>w. w\<lparr>last_http_status := HTTP_201_CREATED\<rparr>) else State_Monad.return ())"

text \<open>What the HTTP client makes of the callbacks before it returns.\<close>

fun http_callbacks :: "nat \<Rightarrow> int \<Rightarrow> string \<Rightarrow> http_event list \<Rightarrow> ('z upload_world_scheme, unit) state" where
  "http_callbacks n sock name [] = State_Monad.return ()"
| "http_callbacks n sock name (Payload # es) = do {
     _ \<leftarrow> upload_cb n sock name;
     http_callbacks n sock name es
   }"
| "http_callbacks n sock name (Response s # es) = do {
     response_cb s;
     http_callbacks n sock name es
   }"

definition http_client_req :: "nat \<Rightarrow> int \<Rightarrow> http_request \<Rightarrow> ('z upload_world_scheme, int) state" where
  "http_client_req n sock req = do {
     perform (Http (Http_request sock req));
     es \<leftarrow> ask (\<lambda>w. http_ans (outside w) (events w));
     http_callbacks n sock (req_file req) es;
     call (Http Http_done)
   }"

definition strrchr :: "string \<Rightarrow> char \<Rightarrow> string option" where
  "strrchr s c = (if c \<in> set s then Some (c # rev (takeWhile (\<lambda>x. x \<noteq> c) (rev s))) else None)"

definition content_length :: "nat \<Rightarrow> string" where
  "content_length sz = ''Content-Length: '' @ decimal sz @ '' '' @ [CHR 0x0D, CHR 0x0A]"

definition upload_request :: "webdav_config \<Rightarrow> string \<Rightarrow> string \<Rightarrow> nat \<Rightarrow> http_request" where
  "upload_request d base name sz =
     \<lparr>req_url = url d @ base, req_host = host d,
      req_headers = [''User-Agent: gnss-ir/1.0 (Actinius-icarus)'' @ [CHR 0x0D, CHR 0x0A], auth d, take 39 (content_length sz)],
      req_file = name\<rparr>"

definition webdavUploadFile :: "nat \<Rightarrow> string \<Rightarrow> ('z upload_world_scheme, int) state" where
  "webdavUploadFile n name = do {
     conf \<leftarrow> ask confdata;
     filesize \<leftarrow> file_size name;
     if filesize = 0 then State_Monad.return UPLOADCLNT_ERROR
     else do {
       r \<leftarrow> open_http_socket (host (webdav conf)) (usetls (webdav conf));
       if r \<noteq> UPLOADCLNT_SUCCESS then State_Monad.return UPLOADCLNT_ERROR
       else case strrchr name (CHR ''/'') of
         None \<Rightarrow> stop Null_Deref UPLOADCLNT_ERROR
       | Some base \<Rightarrow> do {
           check Out_Of_Bounds (length (url (webdav conf)) + length base < 100);
           s \<leftarrow> ask http_fd;
           ret \<leftarrow> http_client_req n s (upload_request (webdav conf) base name filesize);
           if ret < 0 then State_Monad.return UPLOADCLNT_ERROR
           else do {
             c \<leftarrow> close_http_socket;
             if c \<noteq> UPLOADCLNT_SUCCESS then State_Monad.return UPLOADCLNT_ERROR
             else do {
               st \<leftarrow> ask last_http_status;
               if st \<noteq> HTTP_201_CREATED then State_Monad.return UPLOADCLNT_ERROR
               else State_Monad.return UPLOADCLNT_SUCCESS
             }
           }
         }
     }
   }"

section \<open>Sending\<close>

text \<open>The bytes the sockets have taken, in order.\<close>

fun sent_rev :: "environment \<Rightarrow> trace \<Rightarrow> bytes" where
  "sent_rev E [] = []"
| "sent_rev E (c # cs) =
     sent_rev E cs @ (case c of Net (Send s bs) \<Rightarrow> take (nat (ans E (rev (c # cs)))) bs | _ \<Rightarrow> [])"

definition sent :: "environment \<Rightarrow> trace \<Rightarrow> bytes" where
  "sent E t = sent_rev E (rev t)"

lemma sent_snoc:
  "sent E (t @ [c]) = sent E t @ (case c of Net (Send s bs) \<Rightarrow> take (nat (ans E (t @ [c]))) bs | _ \<Rightarrow> [])"
  by (simp add: sent_def split: call.splits net_call.splits)

lemma sent_Nil [simp]: "sent E [] = []"
  by (simp add: sent_def)

text \<open>A connection that takes something of every buffer it is given.\<close>

definition sends :: "environment \<Rightarrow> bool" where
  "sends E \<longleftrightarrow> (\<forall>t s bs. bs \<noteq> [] \<longrightarrow> 1 \<le> ans E (t @ [Net (Send s bs)]) \<and> ans E (t @ [Net (Send s bs)]) \<le> int (length bs))"

declare sendall.simps(2) [simp del]

definition is_send :: "int \<Rightarrow> call \<Rightarrow> bool" where
  "is_send s c \<longleftrightarrow> (\<exists>bs. c = Net (Send s bs))"

lemma sendall_runs:
  assumes "stopped w = None" and "sends (outside w)" and "length buf < k"
  shows "\<exists>cs. run_state (sendall k s buf) w = (0, w\<lparr>events := events w @ cs\<rparr>)
    \<and> sent (outside w) (events w @ cs) = sent (outside w) (events w) @ buf \<and> list_all (is_send s) cs \<and> length cs \<le> length buf"
  using assms
proof (induction k s buf arbitrary: w rule: sendall.induct)
  case (2 k s buf)
  show ?case
  proof (cases "buf = []")
    case True
    then show ?thesis using 2(2) by (intro exI [of _ "[]"]) (simp add: sendall.simps)
  next
    case False
    let ?t = "events w @ [Net (Send s buf)]"
    define n where "n = nat (ans (outside w) ?t)"
    have "1 \<le> ans (outside w) ?t" "ans (outside w) ?t \<le> int (length buf)"
      using "2.prems"(2) False unfolding sends_def by simp_all
    then have n: "ans (outside w) ?t = int n" "1 \<le> n" "n \<le> length buf"
      by (simp_all add: n_def)
    have "length (drop n buf) < k" using n "2.prems"(3) by simp
    with "2.IH" [OF False, of "int n" "w\<lparr>events := ?t\<rparr>"] obtain cs where
      cs: "run_state (sendall k s (drop n buf)) (w\<lparr>events := ?t\<rparr>) = (0, w\<lparr>events := ?t @ cs\<rparr>)"
        "sent (outside w) (?t @ cs) = sent (outside w) ?t @ drop n buf" "list_all (is_send s) cs" "length cs \<le> length (drop n buf)"
      using n "2.prems" by auto
    moreover have "sent (outside w) ?t = sent (outside w) (events w) @ take n buf"
      by (simp add: sent_snoc n)
    ultimately show ?thesis
      using False n "2.prems"(1) by (intro exI [of _ "Net (Send s buf) # cs"]) (auto simp: sendall.simps is_send_def elim!: list.pred_mono_strong)
  qed
qed simp

text \<open>
  C36: On a connection that takes at least one byte at a time, sending a buffer ends and sends
  every byte of it once, in order, with at most one call for each byte, and returns 0.
\<close>

theorem sendall_sends:
  assumes "stopped w = None" and "sends (outside w)" and "length buf < k"
  shows "\<exists>cs. run_state (sendall k s buf) w = (0, w\<lparr>events := events w @ cs\<rparr>)
    \<and> sent (outside w) (events w @ cs) = sent (outside w) (events w) @ buf \<and> list_all (is_send s) cs \<and> length cs \<le> length buf"
  using sendall_runs [OF assms] .

definition taking :: environment where
  "taking = quiet\<lparr>ans := (\<lambda>t. case last t of Net (Send s bs) \<Rightarrow> min 3 (int (length bs)) | _ \<Rightarrow> 0)\<rparr>"

lemma taking_sends: "sends (outside (w\<lparr>outside := taking\<rparr>))"
  by (auto simp: sends_def taking_def min_def Suc_le_eq)

theorem sendall_sends_witness:
  "\<exists>cs. run_state (sendall 8 5 [1, 2, 3, 4, 5, 6, 7]) (idle_world\<lparr>outside := taking\<rparr>)
      = (0, idle_world\<lparr>outside := taking, events := cs\<rparr>) \<and> sent taking cs = [1, 2, 3, 4, 5, 6, 7]"
  using sendall_sends [of "idle_world\<lparr>outside := taking\<rparr>" "[1, 2, 3, 4, 5, 6, 7]" 8 5] taking_sends
  by (auto simp: idle_world_def)

section \<open>The body of a request\<close>

text \<open>
  A file whose reads give its content, a buffer at a time, whatever other calls come between.
\<close>

definition file_reads :: "trace \<Rightarrow> nat" where
  "file_reads cs = count_list cs (Fs (Fs_read Upload_File UPLOAD_BUF_LEN))"

definition holds :: "environment \<Rightarrow> trace \<Rightarrow> string \<Rightarrow> bool" where
  "holds E t data \<longleftrightarrow> (\<forall>cs. let u = t @ cs @ [Fs (Fs_read Upload_File UPLOAD_BUF_LEN)];
       chunk = take UPLOAD_BUF_LEN (drop (UPLOAD_BUF_LEN * file_reads cs) data)
     in ans E u = int (length chunk) \<and> text_ans E u = chunk)"

lemma holds_next:
  assumes "holds E t data"
  shows "ans E (t @ [Fs (Fs_read Upload_File UPLOAD_BUF_LEN)]) = int (length (take UPLOAD_BUF_LEN data))"
    and "text_ans E (t @ [Fs (Fs_read Upload_File UPLOAD_BUF_LEN)]) = take UPLOAD_BUF_LEN data"
  using assms unfolding holds_def Let_def file_reads_def by (auto dest: spec [of _ "[]"])

lemma holds_drop:
  assumes "holds E t data"
  shows "holds E (t @ cs) (drop (UPLOAD_BUF_LEN * file_reads cs) data)"
  unfolding holds_def Let_def
proof (intro allI)
  fix ds
  let ?r = "Fs (Fs_read Upload_File UPLOAD_BUF_LEN)"
  have "ans E (t @ (cs @ ds) @ [?r]) = int (length (take UPLOAD_BUF_LEN (drop (UPLOAD_BUF_LEN * file_reads (cs @ ds)) data)))
    \<and> text_ans E (t @ (cs @ ds) @ [?r]) = take UPLOAD_BUF_LEN (drop (UPLOAD_BUF_LEN * file_reads (cs @ ds)) data)"
    using assms unfolding holds_def Let_def by blast
  then show "ans E ((t @ cs) @ ds @ [?r]) = int (length (take UPLOAD_BUF_LEN (drop (UPLOAD_BUF_LEN * file_reads ds) (drop (UPLOAD_BUF_LEN * file_reads cs) data))))
    \<and> text_ans E ((t @ cs) @ ds @ [?r]) = take UPLOAD_BUF_LEN (drop (UPLOAD_BUF_LEN * file_reads ds) (drop (UPLOAD_BUF_LEN * file_reads cs) data))"
    by (simp add: file_reads_def add_mult_distrib2 add.commute)
qed

lemma file_reads_sends: "list_all (is_send s) cs \<Longrightarrow> file_reads cs = 0"
  by (induction cs) (auto simp: file_reads_def is_send_def)

lemma upload_body_runs:
  assumes "stopped w = None" and "sends (outside w)" and "holds (outside w) (events w) data"
    and "length data < UPLOAD_BUF_LEN * n"
  shows "\<exists>cs. run_state (upload_body n s k) w = (int (k + length data), w\<lparr>events := events w @ cs @ [Fs (Fs_close Upload_File)]\<rparr>)
    \<and> sent (outside w) (events w @ cs) = sent (outside w) (events w) @ bytes_of_string data"
  using assms
proof (induction n arbitrary: w data k)
  case (Suc n)
  let ?read = "Fs (Fs_read Upload_File UPLOAD_BUF_LEN)"
  let ?chunk = "take UPLOAD_BUF_LEN data"
  let ?w1 = "w\<lparr>events := events w @ [?read]\<rparr>"
  note r = holds_next [OF Suc.prems(3)]
  have s1: "sent (outside w) (events w @ [?read]) = sent (outside w) (events w)" by (simp add: sent_snoc)
  obtain cs1 where cs1: "run_state (sendall (Suc UPLOAD_BUF_LEN) s (bytes_of_string ?chunk)) ?w1 = (0, ?w1\<lparr>events := events ?w1 @ cs1\<rparr>)"
      "sent (outside w) (events ?w1 @ cs1) = sent (outside w) (events w) @ bytes_of_string ?chunk" "list_all (is_send s) cs1" "length cs1 \<le> length data"
    using sendall_runs [of ?w1 "bytes_of_string ?chunk" "Suc UPLOAD_BUF_LEN" s] Suc.prems(1,2) s1
    by (auto simp: min_less_iff_disj)
  show ?case
  proof (cases "length data < UPLOAD_BUF_LEN")
    case True
    then show ?thesis
      using cs1 r Suc.prems(1) by (intro exI [of _ "?read # cs1"]) (cases "data = []"; simp add: Let_def)
  next
    case False
    let ?w2 = "?w1\<lparr>events := events ?w1 @ cs1\<rparr>"
    let ?rest = "drop UPLOAD_BUF_LEN data"
    have "holds (outside ?w2) (events ?w2) ?rest"
      using holds_drop [OF Suc.prems(3), of "?read # cs1"] file_reads_sends [OF cs1(3)] by (simp add: file_reads_def)
    moreover have "length ?rest < UPLOAD_BUF_LEN * n" using Suc.prems(4) False by simp
    ultimately obtain cs2 where cs2:
      "run_state (upload_body n s (k + UPLOAD_BUF_LEN)) ?w2 = (int (k + UPLOAD_BUF_LEN + length ?rest), ?w2\<lparr>events := events ?w2 @ cs2 @ [Fs (Fs_close Upload_File)]\<rparr>)"
      "sent (outside ?w2) (events ?w2 @ cs2) = sent (outside ?w2) (events ?w2) @ bytes_of_string ?rest"
      using Suc.IH [of ?w2 ?rest "k + UPLOAD_BUF_LEN"] Suc.prems(1,2) by auto
    have "bytes_of_string ?chunk @ bytes_of_string ?rest = bytes_of_string data"
      unfolding bytes_of_string_def by (metis append_take_drop_id map_append)
    then show ?thesis
      using cs1 cs2 r False Suc.prems(1)
      by (intro exI [of _ "?read # cs1 @ cs2"]) (simp add: UPLOAD_BUF_LEN_def)
  qed
qed simp

text \<open>
  C37: The body of a request is the file: reading it a buffer at a time, over a connection that
  takes something of every buffer, \<open>upload_cb\<close> ends after one read more than the file has full
  buffers, has sent exactly the bytes of the file in order, closes it, and returns their number.
\<close>

theorem upload_cb_sends_file:
  assumes "stopped w = None" and "sends (outside w)"
    and "ans (outside w) (events w @ [Fs (Fs_open Upload_File name [FS_O_READ])]) = 0"
    and "holds (outside w) (events w @ [Fs (Fs_open Upload_File name [FS_O_READ])]) data"
    and "length data < UPLOAD_BUF_LEN * n"
  shows "\<exists>cs. run_state (upload_cb n s name) w = (int (length data), w\<lparr>events := events w @ cs @ [Fs (Fs_close Upload_File)]\<rparr>)
    \<and> sent (outside w) (events w @ cs) = sent (outside w) (events w) @ bytes_of_string data"
proof -
  let ?w1 = "w\<lparr>events := events w @ [Fs (Fs_open Upload_File name [FS_O_READ])]\<rparr>"
  have "sent (outside w) (events ?w1) = sent (outside w) (events w)" by (simp add: sent_snoc)
  with upload_body_runs [of ?w1 data n s 0] assms obtain cs where
    "run_state (upload_body n s 0) ?w1 = (int (length data), w\<lparr>events := events ?w1 @ cs @ [Fs (Fs_close Upload_File)]\<rparr>)"
    "sent (outside w) (events ?w1 @ cs) = sent (outside w) (events w) @ bytes_of_string data" by auto
  then show ?thesis
    using assms(1,3) by (intro exI [of _ "Fs (Fs_open Upload_File name [FS_O_READ]) # cs"]) (simp add: upload_cb_def)
qed

text \<open>A card that holds a file of 700 equal characters, behind a connection that takes three bytes at a time.\<close>

definition a_file :: string where
  "a_file = replicate 700 CHR ''a''"

definition holding :: environment where
  "holding = taking
     \<lparr>ans := (\<lambda>t. case last t of
        Fs (Fs_read Upload_File k) \<Rightarrow> int (length (take UPLOAD_BUF_LEN (drop (UPLOAD_BUF_LEN * file_reads (butlast t)) a_file)))
      | Net (Send s bs) \<Rightarrow> min 3 (int (length bs)) | _ \<Rightarrow> 0),
      text_ans := (\<lambda>t. take UPLOAD_BUF_LEN (drop (UPLOAD_BUF_LEN * file_reads (butlast t)) a_file))\<rparr>"

lemma holding_holds: "file_reads t = 0 \<Longrightarrow> holds holding t a_file"
  by (simp add: holds_def holding_def Let_def butlast_append file_reads_def)

lemma holding_sends: "sends holding"
  by (auto simp: sends_def holding_def min_def Suc_le_eq)

theorem upload_cb_sends_file_witness:
  "\<exists>cs. run_state (upload_cb 2 5 ''/SD:/data/a.lz4'') (idle_world\<lparr>outside := holding\<rparr>)
      = (700, idle_world\<lparr>outside := holding, events := cs @ [Fs (Fs_close Upload_File)]\<rparr>)
    \<and> sent holding cs = bytes_of_string a_file"
  using upload_cb_sends_file [of "idle_world\<lparr>outside := holding\<rparr>" "''/SD:/data/a.lz4''" a_file 2 5]
    holding_sends holding_holds [of "[Fs (Fs_open Upload_File ''/SD:/data/a.lz4'' [FS_O_READ])]"]
  by (auto simp: idle_world_def holding_def file_reads_def UPLOAD_BUF_LEN_def a_file_def)

section \<open>Resolving and connecting\<close>

definition attempts :: "string \<Rightarrow> trace" where
  "attempts h =
     [Net (Getaddrinfo h), Kernel (K_sleep (K_MSEC 1000)), Net (Getaddrinfo h), Kernel (K_sleep (K_MSEC 2000)),
      Net (Getaddrinfo h), Kernel (K_sleep (K_MSEC 3000)), Net (Getaddrinfo h)]"

lemma http_resolve_step:
  "stopped w = None \<Longrightarrow> run_state (http_resolve h n) w =
     (if ans (outside w) (events w @ [Net (Getaddrinfo h)]) = 0 then (True, w\<lparr>events := events w @ [Net (Getaddrinfo h)]\<rparr>)
      else if n + 1 < 4 then run_state (http_resolve h (n + 1))
        (w\<lparr>events := events w @ [Net (Getaddrinfo h), Kernel (K_sleep (K_MSEC (1000 * (n + 1))))]\<rparr>)
      else (False, w\<lparr>events := events w @ [Net (Getaddrinfo h)]\<rparr>))"
  by (subst http_resolve.simps) (simp add: GAI_ATTEMPT_COUNT_def)

lemmas http_resolve_steps = http_resolve_step [where n = 0, simplified] http_resolve_step [where n = "Suc 0", simplified]
  http_resolve_step [where n = "Suc (Suc 0)", simplified] http_resolve_step [where n = "Suc (Suc (Suc 0))", simplified]

text \<open>
  A host name is resolved in at most four attempts with pauses of one, two and three seconds
  between them; the first success ends it, and it fails only when all four have failed.
\<close>

theorem http_resolve_attempts:
  assumes "stopped w = None"
  shows "\<exists>k \<le> 3. let cs = take (2 * k + 1) (attempts h); ok = (ans (outside w) (events w @ cs) = 0)
    in run_state (http_resolve h 0) w = (ok, w\<lparr>events := events w @ cs\<rparr>)
    \<and> (\<forall>j < k. ans (outside w) (events w @ take (2 * j + 1) (attempts h)) \<noteq> 0) \<and> (ok \<or> k = 3)"
proof -
  let ?ok = "\<lambda>k. ans (outside w) (events w @ take (2 * k + 1) (attempts h)) = 0"
  define k where "k = (if ?ok 0 then 0 else if ?ok 1 then 1 else if ?ok 2 then 2 else (3::nat))"
  have "run_state (http_resolve h 0) w = (?ok k, w\<lparr>events := events w @ take (2 * k + 1) (attempts h)\<rparr>)"
    using assms by (simp add: k_def attempts_def http_resolve_steps)
  moreover have "\<forall>j < k. \<not> ?ok j"
    by (auto simp: k_def less_Suc_eq eval_nat_numeral)
  moreover have "k \<le> 3" "?ok k \<or> k = 3"
    by (simp_all add: k_def)
  ultimately show ?thesis by (intro exI [of _ k]) (simp add: Let_def)
qed

theorem http_resolve_attempts_witness:
  "run_state (http_resolve ''a'' 0) idle_world = (True, idle_world\<lparr>events := [Net (Getaddrinfo ''a'')]\<rparr>)"
  using http_resolve_attempts [of idle_world "''a''"]
proof -
  have E: "stopped idle_world = None" "events idle_world = []" "ans (outside idle_world) t = 0" for t
    by (simp_all add: idle_world_def quiet_def)
  obtain k where k: "\<forall>j < k. ans (outside idle_world) (events idle_world @ take (2 * j + 1) (attempts ''a'')) \<noteq> 0"
    "run_state (http_resolve ''a'' 0) idle_world
      = (ans (outside idle_world) (events idle_world @ take (2 * k + 1) (attempts ''a'')) = 0,
         idle_world\<lparr>events := events idle_world @ take (2 * k + 1) (attempts ''a'')\<rparr>)"
    using http_resolve_attempts [OF E(1), of "''a''"] unfolding Let_def by blast
  then have "k = 0" using E(3) by blast
  with k(2) show ?thesis by (simp add: attempts_def E)
qed

text \<open>What the sockets promise: a descriptor that is open can be closed, and a failure has a number.\<close>

definition honest :: "environment \<Rightarrow> bool" where
  "honest E \<longleftrightarrow> (\<forall>t s. 0 \<le> s \<longrightarrow> 0 \<le> ans E (t @ [Net (Close s)])) \<and> (\<forall>t. ans E (t @ [Net Errno]) \<noteq> 0)"

lemma negative_not_open: "x < 0 \<Longrightarrow> x \<notin># sockets E t"
  by (induction t rule: rev_induct) (auto simp: sockets_snoc split: call.splits net_call.splits dest: in_diffD)

lemma only_calls_tls_setup [only_calls_rules]: "only_calls (tls_setup s h)"
  unfolding tls_setup_def by (intro only_calls_rules)

lemma does_tls_setup [does_rules]: "(\<And>x. P (Net (Setsockopt s x))) \<Longrightarrow> does P (tls_setup s h)"
  unfolding tls_setup_def by (intro does_rules)

lemma only_calls_http_resolve: "only_calls (http_resolve h n)"
  by (induction h n rule: http_resolve.induct) (subst http_resolve.simps, intro only_calls_rules)

lemma does_http_resolve [does_rules]:
  "P (Net (Getaddrinfo h)) \<Longrightarrow> (\<And>t. P (Kernel (K_sleep t))) \<Longrightarrow> does P (http_resolve h n)"
proof (induction h n rule: http_resolve.induct)
  case (1 h n)
  show ?case by (subst http_resolve.simps) (intro does_rules 1; assumption)
qed

lemma close_http_socket_closes:
  assumes "stopped w = None" and "0 \<le> http_fd w"
  shows "\<exists>r. run_state close_http_socket w =
    (r, w\<lparr>events := events w @ [Net (Close (http_fd w))],
          http_fd := (if 0 \<le> ans (outside w) (events w @ [Net (Close (http_fd w))]) then -1 else http_fd w)\<rparr>)
    \<and> (r = UPLOADCLNT_SUCCESS \<longleftrightarrow> 0 \<le> ans (outside w) (events w @ [Net (Close (http_fd w))]))"
  using assms by (simp add: close_http_socket_def set_http_fd_def UPLOADCLNT_SUCCESS_def UPLOADCLNT_ERROR_def)

lemma close_http_socket_none:
  "http_fd w = -1 \<Longrightarrow> run_state close_http_socket w = (UPLOADCLNT_SUCCESS, w)"
  by (simp add: close_http_socket_def)

text \<open>A socket that was made for an address is closed again on every way to the next address.\<close>

lemma honest_close:
  assumes "stopped w = None" and "honest (outside w)" and "0 \<le> http_fd w"
    and "open_sockets w = add_mset (http_fd w) S"
  shows "\<exists>w'. run_state close_http_socket w = (UPLOADCLNT_SUCCESS, w') \<and> stopped w' = None
    \<and> outside w' = outside w \<and> http_fd w' = -1 \<and> open_sockets w' = S"
  using close_http_socket_closes [OF assms(1,3)] assms unfolding honest_def by auto

definition http_opened :: "int multiset \<Rightarrow> int \<times> 'z upload_world_scheme \<Rightarrow> environment \<Rightarrow> bool" where
  "http_opened S rw E \<longleftrightarrow> (case rw of (r, w') \<Rightarrow> stopped w' = None \<and> outside w' = E
    \<and> (if r = UPLOADCLNT_SUCCESS then 0 \<le> http_fd w' \<and> open_sockets w' = add_mset (http_fd w') S
       else http_fd w' = -1 \<and> open_sockets w' = S))"

lemma only_calls_keeps_sockets:
  assumes "only_calls m" and "does no_socket m" and "stopped w = None"
  shows "\<exists>x cs. run_state m w = (x, w\<lparr>events := events w @ cs\<rparr>) \<and> sockets (outside w) (events w @ cs) = open_sockets w"
proof -
  obtain x cs where r: "run_state m w = (x, w\<lparr>events := events w @ cs\<rparr>)"
    using only_callsD [OF assms(1,3)] by blast
  with does_sockets [OF assms(2), of w] show ?thesis by auto
qed

text \<open>What happens between making a socket and connecting it: the timeout and the TLS options.\<close>

definition http_setup :: "int \<Rightarrow> string \<Rightarrow> int \<Rightarrow> nat \<Rightarrow> ('z world_scheme, int \<times> nat) state" where
  "http_setup s hostname tls i = do {
     err \<leftarrow> call (Net (Setsockopt s (SO_RCVTIMEO 1)));
     if err \<noteq> 0 then State_Monad.return (- err, 0)
     else do {
       err \<leftarrow> (if tls \<noteq> 0 then tls_setup s hostname else State_Monad.return 0);
       if err \<noteq> 0 then State_Monad.return (err, 0)
       else do {
         err \<leftarrow> call (Net (Connect s i (if tls \<noteq> 0 then HTTPS_PORT else HTTP_PORT)));
         State_Monad.return (err, 1)
       }
     }
   }"

lemma http_try_Cons:
  "http_try hostname tls err i (a # as) =
     (if a = AF_OTHER then http_try hostname tls err (Suc i) as
      else do {
        s \<leftarrow> call (Net (Socket a (if tls \<noteq> 0 then IPPROTO_TLS_1_2 else IPPROTO_TCP)));
        set_http_fd s;
        if s < 0 then do {
          set_http_fd (-1);
          perform (Net (Close (-1)));
          http_try hostname tls err (Suc i) as
        } else do {
          (err, c) \<leftarrow> http_setup s hostname tls i;
          if err \<noteq> 0 then do {
            _ \<leftarrow> close_http_socket;
            err \<leftarrow> (if c = 1 then do { e \<leftarrow> call (Net Errno); State_Monad.return (- e) } else State_Monad.return err);
            http_try hostname tls err (Suc i) as
          } else State_Monad.return UPLOADCLNT_SUCCESS
        }
      })"
  by (simp add: http_setup_def if_distrib [of "\<lambda>m. State_Monad.bind m f" for f] cong: if_cong)

lemma http_setup_runs:
  assumes "stopped w = None"
  shows "\<exists>err c cs. run_state (http_setup s hostname tls i) w = ((err, c), w\<lparr>events := events w @ cs\<rparr>)
    \<and> sockets (outside w) (events w @ cs) = open_sockets w"
proof -
  have "only_calls (http_setup s hostname tls i)" and "does no_socket (http_setup s hostname tls i)"
    unfolding http_setup_def by (intro only_calls_rules, intro does_rules, simp_all)
  from only_calls_keeps_sockets [OF this assms] show ?thesis by auto
qed

lemma http_try_opened:
  assumes "stopped w = None" and "honest (outside w)" and "err \<noteq> UPLOADCLNT_SUCCESS" and "http_fd w = -1"
  shows "http_opened (open_sockets w) (run_state (http_try hostname tls err i as) w) (outside w)"
  using assms
proof (induction as arbitrary: w err i)
  case Nil
  then show ?case by (simp add: http_opened_def)
next
  case (Cons a as)
  note ne = honest_def UPLOADCLNT_SUCCESS_def
  define p where "p = (if tls \<noteq> 0 then IPPROTO_TLS_1_2 else IPPROTO_TCP)"
  let ?t1 = "events w @ [Net (Socket a p)]"
  define s where "s = ans (outside w) ?t1"
  let ?w1 = "w\<lparr>events := ?t1, http_fd := s\<rparr>"
  show ?case
  proof (cases "a = AF_OTHER")
    case True
    then show ?thesis using Cons by (simp add: http_try_Cons del: http_try.simps(2))
  next
    case a: False
    show ?thesis
    proof (cases "s < 0")
      case True
      let ?w2 = "w\<lparr>http_fd := -1, events := ?t1 @ [Net (Close (-1))]\<rparr>"
      have "open_sockets ?w2 = open_sockets w"
        using True negative_not_open [of "-1" "outside w" "events w"]
        by (simp add: s_def [symmetric] diff_single_trivial del: append_assoc)
      with Cons.IH [of ?w2 err "Suc i"] Cons.prems
      have "http_opened (open_sockets w) (run_state (http_try hostname tls err (Suc i) as) ?w2) (outside w)" by simp
      then show ?thesis
        using a True Cons.prems(1)
        by (simp add: http_try_Cons set_http_fd_def s_def [symmetric] p_def [symmetric] del: http_try.simps(2))
    next
      case False
      have o1: "open_sockets ?w1 = add_mset s (open_sockets w)" using False by (simp add: s_def)
      obtain err' c cs where r: "run_state (http_setup s hostname tls i) ?w1 = ((err', c), ?w1\<lparr>events := ?t1 @ cs\<rparr>)"
          "sockets (outside w) (?t1 @ cs) = add_mset s (open_sockets w)"
        using http_setup_runs [of ?w1 s hostname tls i] Cons.prems(1) o1 by auto
      let ?w2 = "?w1\<lparr>events := ?t1 @ cs\<rparr>"
      show ?thesis
      proof (cases "err' = 0")
        case True
        then show ?thesis
          using a False r Cons.prems(1)
          by (simp add: http_try_Cons set_http_fd_def s_def [symmetric] p_def [symmetric] http_opened_def del: http_try.simps(2))
      next
        case err: False
        obtain w3 where w3: "run_state close_http_socket ?w2 = (UPLOADCLNT_SUCCESS, w3)" "stopped w3 = None"
          "outside w3 = outside w" "http_fd w3 = -1" "open_sockets w3 = open_sockets w"
          using honest_close [of ?w2 "open_sockets w"] Cons.prems(1,2) False r(2) by auto
        let ?w4 = "w3\<lparr>events := events w3 @ [Net Errno]\<rparr>"
        let ?e = "if c = 1 then - ans (outside w) (events w3 @ [Net Errno]) else err'"
        let ?v = "if c = 1 then ?w4 else w3"
        have "?e \<noteq> UPLOADCLNT_SUCCESS" using Cons.prems(2) err by (simp add: ne)
        moreover have "open_sockets ?v = open_sockets w" "stopped ?v = None" "outside ?v = outside w" "http_fd ?v = -1"
          using w3 by (auto simp: sockets_other)
        ultimately have "http_opened (open_sockets w) (run_state (http_try hostname tls ?e (Suc i) as) ?v) (outside w)"
          using Cons.IH [of ?v ?e "Suc i"] Cons.prems(2) by simp
        then show ?thesis
          using a False r w3 err Cons.prems(1)
          by (cases "c = 1") (simp_all add: http_try_Cons set_http_fd_def s_def [symmetric] p_def [symmetric] del: http_try.simps(2))
      qed
    qed
  qed
qed

lemma open_http_socket_opened:
  assumes "stopped w = None" and "honest (outside w)"
  shows "http_opened (open_sockets w) (run_state (open_http_socket hostname tls) w) (outside w)"
proof -
  let ?w1 = "w\<lparr>http_fd := -1\<rparr>"
  have "only_calls (http_resolve hostname 0)" "does no_socket (http_resolve hostname 0)"
    by (rule only_calls_http_resolve, rule does_http_resolve, simp_all)
  then obtain ok cs where r: "run_state (http_resolve hostname 0) ?w1 = (ok, ?w1\<lparr>events := events w @ cs\<rparr>)"
    "sockets (outside w) (events w @ cs) = open_sockets w"
    using only_calls_keeps_sockets [of "http_resolve hostname 0" ?w1] assms(1) by auto
  let ?w2 = "?w1\<lparr>events := events w @ cs\<rparr>"
  let ?as = "addr_ans (outside w) (events w @ cs)"
  obtain e w3 where t: "run_state (http_try hostname tls UPLOADCLNT_ERROR 0 ?as) ?w2 = (e, w3)"
    by (cases "run_state (http_try hostname tls UPLOADCLNT_ERROR 0 ?as) ?w2")
  have o: "http_opened (open_sockets w) (e, w3) (outside w)"
    using http_try_opened [of ?w2 UPLOADCLNT_ERROR hostname tls 0 ?as] assms r(2) t
    by (simp add: UPLOADCLNT_SUCCESS_def UPLOADCLNT_ERROR_def)
  show ?thesis
  proof (cases ok)
    case False
    then show ?thesis
      using assms(1) r by (simp add: open_http_socket_def set_http_fd_def http_opened_def UPLOADCLNT_SUCCESS_def UPLOADCLNT_ERROR_def)
  next
    case True
    have "http_fd w3 = -1" if "e \<noteq> UPLOADCLNT_SUCCESS" using o that by (simp add: http_opened_def)
    then show ?thesis
      using assms(1) r t o True
      by (auto simp: open_http_socket_def set_http_fd_def http_opened_def close_http_socket_none sockets_other)
  qed
qed

interpretation http: connection http_fd "\<lambda>w. honest (outside w)" "open_http_socket hostname tls" close_http_socket
  for hostname :: string and tls :: int
proof
  fix w :: "'z upload_world_scheme" and r w'
  assume "stopped w = None" "honest (outside w)" "run_state (open_http_socket hostname tls) w = (r, w')"
  with open_http_socket_opened [of w hostname tls]
  show "outside w' = outside w \<and> (stopped w' = None \<longrightarrow>
      (if r = 0 then 0 \<le> http_fd w' \<and> open_sockets w' = add_mset (http_fd w') (open_sockets w)
       else open_sockets w' = open_sockets w))"
    by (auto simp: http_opened_def UPLOADCLNT_SUCCESS_def)
next
  fix w :: "'z upload_world_scheme" and r w'
  assume "stopped w = None" "0 \<le> http_fd w" "run_state close_http_socket w = (r, w')"
  then show "outside w' = outside w \<and> stopped w' = None \<and> open_sockets w' = open_sockets w - {#http_fd w#}"
    using close_http_socket_closes [of w] by auto
qed

text \<open>
  C38: Opening a connection succeeds with exactly one more socket open, the one in \<open>http_fd\<close>, or
  fails with none: whatever happens to the sockets of the addresses that were tried before, each
  of them is closed again.
\<close>

theorem open_http_socket_outcome:
  assumes "stopped w = None" and "honest (outside w)" and "run_state (open_http_socket hostname tls) w = (r, w')"
  shows "stopped w' = None \<and> (if r = UPLOADCLNT_SUCCESS then 0 \<le> http_fd w' \<and> open_sockets w' = add_mset (http_fd w') (open_sockets w)
       else http_fd w' = -1 \<and> open_sockets w' = open_sockets w)"
  using open_http_socket_opened [OF assms(1,2), of hostname tls] assms(3) by (auto simp: http_opened_def split: if_splits)

section \<open>One upload\<close>

lemma does_sendall [does_rules]:
  "(\<And>bs. P (Net (Send s bs))) \<Longrightarrow> P (Net Errno) \<Longrightarrow> does P (sendall k s buf)"
proof (induction k s buf rule: sendall.induct)
  case (2 k s buf)
  show ?case unfolding sendall.simps by (intro does_rules 2; assumption)
qed (simp add: does_stop)

lemma does_upload_body [does_rules]:
  assumes "\<And>f k. P (Fs (Fs_read f k))" and "\<And>f. P (Fs (Fs_close f))" and "\<And>bs. P (Net (Send s bs))" and "P (Net Errno)"
  shows "does P (upload_body n s k)"
proof (induction n arbitrary: k)
  case (Suc n)
  show ?case unfolding upload_body.simps by (intro does_rules assms Suc)
qed (simp add: does_stop)

lemma does_response_cb [does_rules]: "does P (response_cb s)"
  unfolding response_cb_def by (intro does_rules) simp_all

lemma does_http_callbacks [does_rules]:
  assumes "\<And>f p fl. P (Fs (Fs_open f p fl))" and "\<And>f k. P (Fs (Fs_read f k))" and "\<And>f. P (Fs (Fs_close f))"
    and "\<And>s bs. P (Net (Send s bs))" and "P (Net Errno)"
  shows "does P (http_callbacks n s name es)"
proof (induction es)
  case (Cons e es)
  show ?case by (cases e) (simp_all add: upload_cb_def, (intro does_rules assms Cons)+)
qed (simp add: does_return)

lemma does_http_client_req [does_rules]:
  assumes "\<And>f p fl. P (Fs (Fs_open f p fl))" and "\<And>f k. P (Fs (Fs_read f k))" and "\<And>f. P (Fs (Fs_close f))"
    and "\<And>s bs. P (Net (Send s bs))" and "P (Net Errno)" and "\<And>h. P (Http h)"
  shows "does P (http_client_req n s req)"
  unfolding http_client_req_def by (intro does_rules assms)

lemma keeps_sendall [keeps_rules]:
  assumes "\<And>w t. f (w\<lparr>events := t\<rparr>) = f w" and "\<And>w e. f (w\<lparr>stopped := e\<rparr>) = f w"
  shows "keeps f (sendall k s buf)"
proof (induction k s buf rule: sendall.induct)
  case (2 k s buf)
  show ?case unfolding sendall.simps by (intro keeps_rules assms 2; assumption)
qed (simp add: keeps_stop assms)

lemma keeps_upload_body [keeps_rules]:
  assumes "\<And>w t. f (w\<lparr>events := t\<rparr>) = f w" and "\<And>w e. f (w\<lparr>stopped := e\<rparr>) = f w"
  shows "keeps f (upload_body n s k)"
proof (induction n arbitrary: k)
  case (Suc n)
  show ?case unfolding upload_body.simps by (intro keeps_rules assms Suc)
qed (simp add: keeps_stop assms)

lemma keeps_upload_cb [keeps_rules]:
  "(\<And>w t. f (w\<lparr>events := t\<rparr>) = f w) \<Longrightarrow> (\<And>w e. f (w\<lparr>stopped := e\<rparr>) = f w) \<Longrightarrow> keeps f (upload_cb n s name)"
  unfolding upload_cb_def by (intro keeps_rules)

lemma keeps_http_client_req [keeps_rules]:
  assumes "\<And>w t. f (w\<lparr>events := t\<rparr>) = f w" and "\<And>w e. f (w\<lparr>stopped := e\<rparr>) = f w"
    and "\<And>w e. f (w\<lparr>last_http_status := e\<rparr>) = f w"
  shows "keeps f (http_client_req n s req)"
proof -
  have "keeps f (http_callbacks n s name es)" for name es
  proof (induction es)
    case (Cons e es)
    have "keeps f (response_cb s)" for s unfolding response_cb_def by (intro keeps_rules assms)
    with Cons show ?case by (cases e) (simp_all, (intro keeps_rules assms; simp)+)
  qed (simp add: keeps_return)
  then show ?thesis unfolding http_client_req_def by (intro keeps_rules assms)
qed

text \<open>The status never goes back once a file was created.\<close>

lemma stays_bind:
  assumes "\<And>w. P w \<Longrightarrow> P (snd (run_state m w))" and "\<And>x w. P w \<Longrightarrow> P (snd (run_state (g x) w))" and "P w"
  shows "P (snd (run_state (State_Monad.bind m g) w))"
  using assms(1) [OF assms(3)] assms(2) by (cases "run_state m w") simp

lemma created_stays:
  assumes "last_http_status w = HTTP_201_CREATED"
  shows "last_http_status (snd (run_state (http_client_req n s req) w)) = HTTP_201_CREATED"
proof -
  have "last_http_status (snd (run_state (http_callbacks n s name es) v)) = HTTP_201_CREATED"
    if "last_http_status v = HTTP_201_CREATED" for name es v
    using that
  proof (induction es arbitrary: v)
    case (Cons e es)
    show ?case
    proof (cases e)
      case Payload
      have "keeps last_http_status (upload_cb n s name)" by (intro keeps_rules) simp_all
      from keepsD [OF this, of v] Cons show ?thesis
        by (cases "run_state (upload_cb n s name) v") (simp add: Payload)
    qed (use Cons in \<open>simp add: response_cb_def\<close>)
  qed simp
  then show ?thesis
    unfolding http_client_req_def
    by (intro stays_bind [where P = "\<lambda>w. last_http_status w = HTTP_201_CREATED"] assms) (simp_all add: call_def)
qed

lemma does_tls_setup_any: "does (\<lambda>_. True) (tls_setup s h)"
  by (intro does_rules) simp

lemma wp_open_http_socket [wp_rules]:
  assumes "honest (outside w)" and "\<And>r w'. http_opened (open_sockets w) (r, w') (outside w) \<Longrightarrow> Q r w'"
  shows "wp (open_http_socket h tls) Q w"
  unfolding wp_def using open_http_socket_opened [of w h tls] assms
  by (metis prod.collapse)

lemma wp_http_client_req [wp_rules]:
  assumes "\<And>x v cs. outside v = outside w \<Longrightarrow> http_fd v = http_fd w \<Longrightarrow> open_sockets v = open_sockets w \<Longrightarrow>
      (last_http_status w = HTTP_201_CREATED \<longrightarrow> last_http_status v = HTTP_201_CREATED) \<Longrightarrow>
      stopped v = None \<Longrightarrow> Q x v"
  shows "wp (http_client_req n s req) Q w"
proof (rule wpI)
  fix x v
  assume r: "stopped w = None" "run_state (http_client_req n s req) w = (x, v)" "stopped v = None"
  have "http_fd (snd (run_state (http_client_req n s req) w)) = http_fd w"
    by (rule keepsD, intro keeps_rules) simp_all
  moreover have "outside (snd (run_state (http_client_req n s req) w)) = outside w"
    by (rule does_outside [of no_socket], intro does_rules) simp_all
  moreover have "open_sockets (snd (run_state (http_client_req n s req) w)) = open_sockets w"
    by (rule does_sockets, intro does_rules) simp_all
  ultimately show "Q x v"
    using assms [of v x] created_stays [of w n s req] r by auto
qed

lemma wp_close_http_socket [wp_rules]:
  assumes "0 \<le> http_fd w"
    and "\<And>r v. outside v = outside w \<Longrightarrow> open_sockets v = open_sockets w - {#http_fd w#} \<Longrightarrow> last_http_status v = last_http_status w \<Longrightarrow> Q r v"
  shows "wp close_http_socket Q w"
  unfolding wp_def using close_http_socket_closes [of w] assms by fastforce

lemma does_close_http_socket [does_rules]: "(\<And>s. P (Net (Close s))) \<Longrightarrow> does P close_http_socket"
  unfolding close_http_socket_def set_http_fd_def by (intro does_rules) simp_all

lemma does_http_try [does_rules]:
  assumes "\<And>c. P (Net c)"
  shows "does P (http_try h tls err i as)"
proof (induction h tls err i as rule: http_try.induct)
  case (2 h tls err i a as)
  show ?case unfolding http_try.simps set_http_fd_def by (intro does_rules assms 2; (assumption | simp))
qed (simp add: does_return)

lemma does_open_http_socket [does_rules]:
  "(\<And>c. P (Net c)) \<Longrightarrow> (\<And>t. P (Kernel (K_sleep t))) \<Longrightarrow> does P (open_http_socket h tls)"
  unfolding open_http_socket_def set_http_fd_def by (intro does_rules) simp_all

lemma does_webdavUploadFile:
  assumes "\<And>c. P (Net c)" and "\<And>h. P (Http h)" and "\<And>t. P (Kernel (K_sleep t))"
    and "\<And>p. P (Fs (Fs_stat p))" and "\<And>f p fl. P (Fs (Fs_open f p fl))" and "\<And>f k. P (Fs (Fs_read f k))" and "\<And>f. P (Fs (Fs_close f))"
  shows "does P (webdavUploadFile n name)"
  unfolding webdavUploadFile_def by (intro does_rules assms)

lemma keeps_http_try [keeps_rules]:
  assumes "\<And>w t. f (w\<lparr>events := t\<rparr>) = f w" and "\<And>w s. f (w\<lparr>http_fd := s\<rparr>) = f w"
  shows "keeps f (http_try h tls err i as)"
proof (induction h tls err i as rule: http_try.induct)
  case (2 h tls err i a as)
  show ?case unfolding http_try.simps set_http_fd_def close_http_socket_def tls_setup_def
    by (intro keeps_rules assms 2; (assumption | simp))
qed (simp add: keeps_return)

lemma keeps_http_resolve [keeps_rules]:
  "(\<And>w t. f (w\<lparr>events := t\<rparr>) = f w) \<Longrightarrow> keeps f (http_resolve h n)"
proof (induction h n rule: http_resolve.induct)
  case (1 h n)
  show ?case by (subst http_resolve.simps) (intro keeps_rules 1; assumption)
qed

lemma keeps_close_http_socket [keeps_rules]:
  "(\<And>w t. f (w\<lparr>events := t\<rparr>) = f w) \<Longrightarrow> (\<And>w s. f (w\<lparr>http_fd := s\<rparr>) = f w) \<Longrightarrow> keeps f close_http_socket"
  unfolding close_http_socket_def set_http_fd_def by (intro keeps_rules)

lemma keeps_open_http_socket [keeps_rules]:
  "(\<And>w t. f (w\<lparr>events := t\<rparr>) = f w) \<Longrightarrow> (\<And>w s. f (w\<lparr>http_fd := s\<rparr>) = f w) \<Longrightarrow> keeps f (open_http_socket h tls)"
  unfolding open_http_socket_def set_http_fd_def by (intro keeps_rules)

lemma keeps_webdavUploadFile [keeps_rules]:
  assumes "\<And>w t. f (w\<lparr>events := t\<rparr>) = f w" and "\<And>w e. f (w\<lparr>stopped := e\<rparr>) = f w"
    and "\<And>w s. f (w\<lparr>http_fd := s\<rparr>) = f w" and "\<And>w s. f (w\<lparr>last_http_status := s\<rparr>) = f w"
  shows "keeps f (webdavUploadFile n name)"
  unfolding webdavUploadFile_def file_size_def by (intro keeps_rules assms)


text \<open>A server that answers every request with the status \<open>status\<close>, and a file of two characters.\<close>

definition server_ans :: "trace \<Rightarrow> int" where
  "server_ans t = (case last t of
     Fs (Fs_read _ _) \<Rightarrow> 2 | Net (Send _ _) \<Rightarrow> 2 | Net Errno \<Rightarrow> 1 | Net (Socket _ _) \<Rightarrow> 5 | _ \<Rightarrow> 0)"

definition server :: "string \<Rightarrow> environment" where
  "server status = quiet
     \<lparr>ans := server_ans, text_ans := (\<lambda>_. ''hi''), size_ans := (\<lambda>_. 2), addr_ans := (\<lambda>_. [AF_INET]),
      http_ans := (\<lambda>_. [Payload, Response status])\<rparr>"

lemma server_simps [simp]:
  "ans (server st) = server_ans" "text_ans (server st) t = ''hi''" "size_ans (server st) t = 2"
  "addr_ans (server st) t = [AF_INET]" "http_ans (server st) t = [Payload, Response st]"
  by (simp_all add: server_def)

lemma server_honest: "honest (server st)"
  by (simp add: honest_def server_ans_def)

definition idle_upload :: upload_world where
  "idle_upload = gnss_world.extend idle_gnss (upload_world.fields HTTP_404_NOT_FOUND 0)"

lemma idle_upload_simps [simp]:
  "stopped idle_upload = None" "events idle_upload = []" "last_http_status idle_upload = HTTP_404_NOT_FOUND"
  "url (webdav (confdata idle_upload)) = ''/put''" "usetls (webdav (confdata idle_upload)) = 1"
  "upload (confdata idle_upload) = 1" "led_status idle_upload = LED_BOOTING"
  by (simp_all add: idle_upload_def gnss_world.extend_def upload_world.fields_def idle_gnss_def supl_world.extend_def
      gnss_world.fields_def idle_supl_def config_world.extend_def supl_world.fields_def idle_config_def
      led_world.extend_def config_world.fields_def idle_led_def set_defaults_def)

theorem open_http_socket_outcome_witness:
  "\<exists>w'. run_state (open_http_socket ''a'' 0) (idle_upload\<lparr>outside := server ''Created''\<rparr>) = (UPLOADCLNT_SUCCESS, w')
    \<and> http_fd w' = 5 \<and> open_sockets w' = {#5#}"
proof -
  let ?w = "idle_upload\<lparr>outside := server ''Created''\<rparr>"
  obtain w' where r: "run_state (open_http_socket ''a'' 0) ?w = (UPLOADCLNT_SUCCESS, w')" "http_fd w' = 5"
    by (simp add: open_http_socket_def set_http_fd_def http_resolve_steps server_ans_def UPLOADCLNT_SUCCESS_def)
  from open_http_socket_outcome [OF _ _ r(1)] show ?thesis using r server_honest by simp
qed

lemma sendall_two:
  "stopped w = None \<Longrightarrow> ans (outside w) = server_ans \<Longrightarrow> length bs = 2 \<Longrightarrow>
   run_state (sendall (Suc (Suc k)) s bs) w = (0, w\<lparr>events := events w @ [Net (Send s bs)]\<rparr>)"
  by (auto simp: sendall.simps server_ans_def)

lemma sendall_hi:
  "stopped w = None \<Longrightarrow> ans (outside w) = server_ans \<Longrightarrow>
   run_state (sendall (Suc UPLOAD_BUF_LEN) s (bytes_of_string ''hi'')) w = (0, w\<lparr>events := events w @ [Net (Send s (bytes_of_string ''hi''))]\<rparr>)"
  using sendall_two [of w "bytes_of_string ''hi''" 511 s] by (simp add: UPLOAD_BUF_LEN_def)

lemma upload_cb_hi:
  assumes "stopped w = None" and "outside w = server st"
  shows "run_state (upload_cb (Suc 0) s name) w = (2, w\<lparr>events := events w @
     [Fs (Fs_open Upload_File name [FS_O_READ]), Fs (Fs_read Upload_File UPLOAD_BUF_LEN),
      Net (Send s (bytes_of_string ''hi'')), Fs (Fs_close Upload_File)]\<rparr>)"
proof -
  have "UPLOAD_BUF_LEN \<noteq> Suc (Suc 0)" by (simp add: UPLOAD_BUF_LEN_def)
  with assms show ?thesis
    by (simp add: upload_cb_def server_ans_def numeral_2_eq_2 sendall_hi)
qed

lemma upload_runs:
  assumes "stopped w = None" and "outside w = server st" and "strrchr name (CHR ''/'') = Some base"
    and "length (url (webdav (confdata w))) + length base < 100"
  shows "\<exists>w'. run_state (webdavUploadFile 1 name) w =
      (if st = ''Created'' \<or> last_http_status w = HTTP_201_CREATED then UPLOADCLNT_SUCCESS else UPLOADCLNT_ERROR, w')
    \<and> stopped w' = None"
  using assms
  by (simp add: webdavUploadFile_def file_size_def open_http_socket_def set_http_fd_def http_resolve_steps server_ans_def
      UPLOADCLNT_SUCCESS_def UPLOADCLNT_ERROR_def tls_setup_def http_client_req_def
      close_http_socket_def response_cb_def upload_cb_hi)

lemma sample_name: "strrchr ''/SD:/data/a.lz4'' (CHR ''/'') = Some ''/a.lz4''"
  by (simp add: strrchr_def)




section \<open>Provisioning\<close>

text \<open>
  Provisioning reports success exactly when its last call says so, which is either the
  comparison with the certificate that is already there or the writing of this one; it deletes
  nothing but a certificate that differs, and then writes.
\<close>

theorem cert_provision_outcome:
  assumes "stopped w = None"
  shows "\<exists>r cs. run_state (cert_provision cert) w = (r, w\<lparr>events := events w @ cs\<rparr>)
    \<and> (r = UPLOADCLNT_SUCCESS \<longleftrightarrow> last cs \<in> {Modem (Modem_key_cmp TLS_SEC_TAG cert), Modem (Modem_key_write TLS_SEC_TAG cert)}
          \<and> ans (outside w) (events w @ cs) = 0)
    \<and> (Modem (Modem_key_delete TLS_SEC_TAG) \<in> set cs \<longrightarrow>
         cs = [Modem (Modem_key_exists TLS_SEC_TAG), Modem (Modem_key_cmp TLS_SEC_TAG cert),
               Modem (Modem_key_delete TLS_SEC_TAG), Modem (Modem_key_write TLS_SEC_TAG cert)]
         \<and> ans (outside w) (events w @ take 2 cs) \<noteq> 0)"
proof -
  let ?e = "Modem (Modem_key_exists TLS_SEC_TAG)" and ?c = "Modem (Modem_key_cmp TLS_SEC_TAG cert)"
    and ?d = "Modem (Modem_key_delete TLS_SEC_TAG)" and ?w = "Modem (Modem_key_write TLS_SEC_TAG cert)"
  let ?a = "\<lambda>cs. ans (outside w) (events w @ cs)" and ?x = "flag_ans (outside w) (events w @ [?e])"
  define cs where "cs = (if ?a [?e] \<noteq> 0 then [?e] else if \<not> ?x then [?e, ?w]
    else if ?a [?e, ?c] = 0 then [?e, ?c] else [?e, ?c, ?d, ?w])"
  have "run_state (cert_provision cert) w = (if ?a [?e] = 0 \<and> ?a cs = 0 then 0 else ?a cs, w\<lparr>events := events w @ cs\<rparr>)"
    using assms by (simp add: cert_provision_def cs_def UPLOADCLNT_SUCCESS_def)
  then show ?thesis
    by (intro exI [of _ "if ?a [?e] = 0 \<and> ?a cs = 0 then 0 else ?a cs"] exI [of _ cs])
      (auto simp: cs_def UPLOADCLNT_SUCCESS_def)
qed

theorem cert_provision_outcome_witness:
  "\<exists>cs. run_state (cert_provision ''cert'') idle_world = (UPLOADCLNT_SUCCESS, idle_world\<lparr>events := cs\<rparr>)"
proof -
  have E: "stopped idle_world = None" "events idle_world = []" "ans (outside idle_world) t = 0" "\<not> flag_ans (outside idle_world) t" for t
    by (simp_all add: idle_world_def quiet_def)
  have "run_state (cert_provision ''cert'') idle_world = (0, idle_world\<lparr>events := [Modem (Modem_key_exists TLS_SEC_TAG),
      Modem (Modem_key_write TLS_SEC_TAG ''cert'')]\<rparr>)"
    by (simp add: cert_provision_def E UPLOADCLNT_SUCCESS_def)
  with cert_provision_outcome [OF E(1), of "''cert''"] show ?thesis
    by (auto simp: UPLOADCLNT_SUCCESS_def)
qed

end
