(* ===== verification/Lz4_Bounds.thy ===== *)
theory Lz4_Bounds
  imports Lz4_Compress
begin

text \<open>
  The lengths and tokens the compressor writes are those of the block format, and nothing it
  writes lies beyond the capacity it was given: the limit checks leave room for the wild
  copies, the four-byte fills and the offset that follow them.
\<close>

section \<open>Lengths and tokens as the format has them\<close>

lemma LZ4_write_length_enc: "LZ4_write_length n = enc_vlen n"
proof (induction n rule: LZ4_write_length.induct)
  case (1 n)
  show ?case
  proof (cases "255 \<le> n")
    case True
    then show ?thesis using 1 enc_vlen_step [of "n - 255"]
      by (simp add: LZ4_write_length.simps [of n])
  next
    case False
    then show ?thesis by (simp add: LZ4_write_length.simps [of n] enc_vlen_small)
  qed
qed

lemma literal_head:
  "(if n \<ge> 15 then push_bit 4 15 # LZ4_write_length (n - 15) else [push_bit 4 (of_nat n)])
   = lz4_token n 0 # enc_len n"
  by (auto simp: lz4_token_def enc_len_def LZ4_write_length_enc push_bit_eq_mult mult.commute)

lemma token_add: "lz4_token n 0 + of_nat (min k 15) = lz4_token n k"
  by (simp add: lz4_token_def)

lemma LZ4_match_fill_eq: "LZ4_match_fill op n = (op + 4 * (n div 1020), n mod 1020)"
proof (induction op n rule: LZ4_match_fill.induct)
  case (1 op n)
  show ?case
  proof (cases "1020 \<le> n")
    case True
    with 1 show ?thesis
      by (simp add: LZ4_match_fill.simps [of op n] le_div_geq le_mod_geq)
  qed (simp add: LZ4_match_fill.simps [of op n])
qed

lemma fill_length: "4 * (n div 1020) + (n mod 1020) div 255 = (n :: nat) div 255"
proof -
  have "n div 255 div 4 = n div 1020" by (simp add: div_mult2_eq [symmetric])
  moreover have "(n mod 1020) div 255 = n div 255 mod 4"
    using mod_mult2_eq [of n 255 4] by simp
  ultimately show ?thesis by (metis mult_div_mod_eq)
qed

lemma fill_rest: "(n mod 1020) mod 255 = (n :: nat) mod 255"
  by (simp add: mod_mod_cancel)

lemma LZ4_encode_length_eq:
  "LZ4_encode_length n v =
     v\<lparr>v_out := (v_out v)[v_token v := v_out v ! v_token v + of_nat (min n 15)] @ enc_len n,
       v_top := (if n \<ge> 15 then max (v_top v) (max (length (v_out v) + 4 * ((n - 15) div 1020) + 4)
                                  (length (v_out v) + (n - 15) div 255 + 1)) else v_top v)\<rparr>"
  by (auto simp: LZ4_encode_length_def Let_def LZ4_match_fill_eq enc_len_def enc_vlen_def fill_rest
      fill_length [of "n - 15", symmetric] add.assoc)

lemma length_enc_len: "length (enc_len n) = (if n \<ge> 15 then Suc ((n - 15) div 255) else 0)"
  by (simp add: enc_len_def enc_vlen_def)

section \<open>Bounds of the output\<close>

text \<open>Everything the code writes, the excess of its wild copies included, stays below \<open>olimit\<close>.\<close>

definition out_inv :: "lz4_call \<Rightarrow> lz4_label \<Rightarrow> lz4_vars \<Rightarrow> bool" where
  "out_inv c l v \<longleftrightarrow> v_top v \<le> c_maxOutputSize c
     \<and> length (v_out v) + (if l = Next_Match then 2 else 0) \<le> c_maxOutputSize c
     \<and> length (v_out v) \<le> v_top v"

lemma wildCopy8_end_le:
  "LZ4_wildCopy8_end d n \<le> d + max 8 (n + 7)" "d + n \<le> LZ4_wildCopy8_end d n"
proof -
  have "8 * ((n + 7) div 8) \<le> n + 7" "n + 7 < 8 * ((n + 7) div 8) + 8"
    by (simp_all add: algebra_simps dividend_less_times_div)
  then show "LZ4_wildCopy8_end d n \<le> d + max 8 (n + 7)" "d + n \<le> LZ4_wildCopy8_end d n"
    unfolding LZ4_wildCopy8_end_def max_def by (auto split: if_splits)
qed

lemma literals_end:
  "Suc op + length (enc_len n) + max 8 (n + 7) \<le> Suc op + n + 8 + n div 255"
proof (cases "15 \<le> n")
  case True
  have "(n - 15) div 255 \<le> n div 255" by (simp add: div_le_mono)
  with True show ?thesis by (simp add: length_enc_len)
qed (simp add: length_enc_len)

fun goto_ok :: "(lz4_label \<Rightarrow> lz4_vars \<Rightarrow> bool) \<Rightarrow> (lz4_vars \<Rightarrow> bool) \<Rightarrow> (lz4_vars \<Rightarrow> bool) \<Rightarrow> lz4_goto \<Rightarrow> bool" where
  "goto_ok P Q R (Goto l v) = P l v"
| "goto_ok P Q R (Last_Literals v) = Q v"
| "goto_ok P Q R (Return_0 v) = R v"

lemma LZ4_main_rule:
  assumes "I l v"
    and "\<And>l v. I l v \<Longrightarrow> goto_ok I Q R (LZ4_step m c l v)"
    and "\<And>v. Q v \<Longrightarrow> P (LZ4_last_literals m c v)"
    and "\<And>v. R v \<Longrightarrow> P (0, v)"
  shows "P (LZ4_main m c l v)"
  using assms
proof (induction m c l v rule: LZ4_main.induct)
  case (1 m c l v)
  have "goto_ok I Q R (LZ4_step m c l v)" by (rule "1.prems"(2) [OF "1.prems"(1)])
  then show ?case
    using "1.IH" [OF _ _ "1.prems"(2-4)] "1.prems"(3,4)
    by (cases "LZ4_step m c l v") (simp_all add: LZ4_main.simps [of m c l v])
qed

lemma LZ4_encode_literals_eq:
  assumes "LZ4_catch_up m (v_anchor v) (v_lowLimit v) (v_ip v) (v_match v) = (ip, match)"
    and "n = nat (ip - v_anchor v)"
  shows "LZ4_encode_literals m c v =
    (if Suc (length (v_out v)) + n + 8 + n div 255 > c_maxOutputSize c then Return_0 (v\<lparr>v_ip := ip, v_match := match\<rparr>)
     else Goto Next_Match
       (v\<lparr>v_ip := ip, v_match := match, v_token := length (v_out v),
          v_out := v_out v @ lz4_token n 0 # enc_len n @ mem_bytes m (v_anchor v) n,
          v_top := max (v_top v) (LZ4_wildCopy8_end (Suc (length (v_out v)) + length (enc_len n)) n)\<rparr>))"
  unfolding LZ4_encode_literals_def Let_def assms(1) prod.case literal_head assms(2) [symmetric]
  by simp

lemma LZ4_encode_literals_out:
  assumes "out_inv c (Main_Loop h) v"
  shows "goto_ok (out_inv c) Q (\<lambda>v. v_top v \<le> c_maxOutputSize c) (LZ4_encode_literals m c v)"
proof -
  obtain ip match where k: "LZ4_catch_up m (v_anchor v) (v_lowLimit v) (v_ip v) (v_match v) = (ip, match)"
    by fastforce
  define n where "n = nat (ip - v_anchor v)"
  note w = wildCopy8_end_le [where d = "Suc (length (v_out v)) + length (enc_len n)" and n = n]
    literals_end [of "length (v_out v)" n]
  show ?thesis
  proof (cases "Suc (length (v_out v)) + n + 8 + n div 255 > c_maxOutputSize c")
    case True
    then show ?thesis using assms by (simp add: LZ4_encode_literals_eq [OF k n_def] out_inv_def)
  next
    case False
    with w have "LZ4_wildCopy8_end (Suc (length (v_out v)) + length (enc_len n)) n \<le> c_maxOutputSize c"
      "Suc (length (v_out v)) + length (enc_len n) + n + 2 \<le> c_maxOutputSize c"
      by linarith+
    with False w(2) assms show ?thesis
      by (simp add: LZ4_encode_literals_eq [OF k n_def] out_inv_def)
  qed
qed

lemma LZ4_search_out:
  assumes "out_inv c (Main_Loop h) v"
  shows "goto_ok (out_inv c) (out_inv c (Main_Loop 0)) (\<lambda>v. v_top v \<le> c_maxOutputSize c)
    (LZ4_search m c h' v)"
  using assms
  by (auto simp: LZ4_search_def out_inv_def [of c "Main_Loop _"]
      intro!: LZ4_encode_literals_out [where h = 0] split: prod.splits option.splits)

lemma length_enc_len_240: "length (enc_len n) \<le> (n + 240) div 255"
proof (cases "15 \<le> n")
  case True
  define k where "k = n - 15"
  have n: "n = k + 15" using True by (simp add: k_def)
  have "(k + 255) div 255 = Suc (k div 255)" using div_add_self2 [of 255 k] by simp
  then show ?thesis by (simp add: n length_enc_len)
qed (simp add: length_enc_len)

lemma match_end:
  assumes "15 \<le> (n :: nat)"
  shows "max (op + 4 * ((n - 15) div 1020) + 4) (op + (n - 15) div 255 + 1) \<le> op + 6 + (n + 240) div 255"
proof -
  define k where "k = n - 15"
  have n: "n = k + 15" using assms by (simp add: k_def)
  have "(k + 255) div 255 = Suc (k div 255)" using div_add_self2 [of 255 k] by simp
  then have "(n + 240) div 255 = Suc (k div 255)" by (simp add: n)
  then show ?thesis using fill_length [of k] unfolding k_def [symmetric] by linarith
qed

lemma LZ4_next_match_out:
  assumes "out_inv c Next_Match v"
  shows "goto_ok (out_inv c) (out_inv c (Main_Loop 0)) (\<lambda>v. v_top v \<le> c_maxOutputSize c)
    (LZ4_next_match m c v)"
proof -
  obtain n e where me: "LZ4_match_length m c (LZ4_encode_offset c v) = (n, e)" by fastforce
  define v1 where "v1 = (LZ4_encode_offset c v)\<lparr>v_ip := e\<rparr>"
  have v1: "v_top v1 \<le> c_maxOutputSize c" "length (v_out v1) = length (v_out v) + 2" "length (v_out v1) \<le> v_top v1"
    using assms by (simp_all add: v1_def out_inv_def LZ4_encode_offset_def Let_def le16.enc_length)
  have eq: "LZ4_next_match m c v =
    (if length (v_out v1) + 6 + (n + 240) div 255 > c_maxOutputSize c then Return_0 v1
     else if c_mflimitPlusOne c \<le> e then Last_Literals ((LZ4_encode_length n v1)\<lparr>v_anchor := e\<rparr>)
     else LZ4_test_next m c ((LZ4_encode_length n v1)\<lparr>v_anchor := e\<rparr>))"
    unfolding v1_def by (simp add: LZ4_next_match_def Let_def me)
  show ?thesis
  proof (cases "length (v_out v1) + 6 + (n + 240) div 255 > c_maxOutputSize c")
    case True
    with v1 show ?thesis by (simp add: eq)
  next
    case False
    define v2 where "v2 = (LZ4_encode_length n v1)\<lparr>v_anchor := e\<rparr>"
    have v2: "v_top v2 \<le> c_maxOutputSize c" "length (v_out v2) + 5 \<le> c_maxOutputSize c"
      "length (v_out v2) \<le> v_top v2"
      using False v1 match_end [of n "length (v_out v1)"] length_enc_len_240 [of n]
        fill_length [of "n - 15"] less_mult_imp_div_less [of "(n - 15) mod 1020" 4 255]
      by (auto simp: v2_def LZ4_encode_length_eq length_enc_len le_max_iff_disj split: if_splits)
    then have "goto_ok (out_inv c) (out_inv c (Main_Loop 0)) (\<lambda>v. v_top v \<le> c_maxOutputSize c) (LZ4_test_next m c v2)"
      by (auto simp: LZ4_test_next_def Let_def out_inv_def split: prod.splits)
    with False v2 show ?thesis by (auto simp: eq out_inv_def simp flip: v2_def)
  qed
qed

lemma LZ4_step_out:
  assumes "out_inv c l v"
  shows "goto_ok (out_inv c) (out_inv c (Main_Loop 0)) (\<lambda>v. v_top v \<le> c_maxOutputSize c) (LZ4_step m c l v)"
  using assms by (cases l) (simp_all add: LZ4_search_out LZ4_next_match_out)

lemma LZ4_last_literals_eq:
  assumes "n = nat (c_iend c - v_anchor v)"
  shows "LZ4_last_literals m c v =
    (if length (v_out v) + n + 1 + (n + 240) div 255 > c_maxOutputSize c then (0, v)
     else (length (v_out v @ enc_last (mem_bytes m (v_anchor v) n)),
           v\<lparr>v_out := v_out v @ enc_last (mem_bytes m (v_anchor v) n),
             v_top := max (v_top v) (length (v_out v @ enc_last (mem_bytes m (v_anchor v) n)))\<rparr>))"
  unfolding LZ4_last_literals_def Let_def literal_head assms [symmetric] enc_last_def
  by (simp add: add.commute)

lemma LZ4_last_literals_out:
  assumes "out_inv c l v"
  shows "(case LZ4_last_literals m c v of (r, v) \<Rightarrow>
    r \<le> v_top v \<and> v_top v \<le> c_maxOutputSize c \<and> (r \<noteq> 0 \<longrightarrow> r = length (v_out v)))"
proof -
  define n where "n = nat (c_iend c - v_anchor v)"
  note length_enc_len_240 [of n]
  with assms show ?thesis
    by (auto simp: LZ4_last_literals_eq [OF n_def] out_inv_def enc_last_def)
qed

lemma LZ4_main_out:
  assumes "out_inv c l v"
  shows "case LZ4_main m c l v of (r, v) \<Rightarrow>
    r \<le> v_top v \<and> v_top v \<le> c_maxOutputSize c \<and> (r \<noteq> 0 \<longrightarrow> r = length (v_out v))"
  by (rule LZ4_main_rule [where P = "\<lambda>(r, v). r \<le> v_top v \<and> v_top v \<le> c_maxOutputSize c \<and> (r \<noteq> 0 \<longrightarrow> r = length (v_out v))",
        OF assms LZ4_step_out LZ4_last_literals_out]) simp_all

lemma LZ4_run_out:
  assumes "LZ4_run m c tbl = (r, v)"
  shows "r \<le> v_top v" "v_top v \<le> c_maxOutputSize c" "r \<noteq> 0 \<Longrightarrow> r = length (v_out v)"
proof -
  have "out_inv c (Main_Loop h) (LZ4_init_vars c tbl)"
    "out_inv c (Main_Loop h) ((LZ4_init_vars c tbl)\<lparr>v_table := t, v_ip := i\<rparr>)" for h t i
    by (simp_all add: out_inv_def LZ4_init_vars_def)
  note small = this(1) [of 0, THEN LZ4_last_literals_out, of m]
    and main = this(2) [THEN LZ4_main_out, of m]
  have "case LZ4_run m c tbl of (r, v) \<Rightarrow>
    r \<le> v_top v \<and> v_top v \<le> c_maxOutputSize c \<and> (r \<noteq> 0 \<longrightarrow> r = length (v_out v))"
    using small main by (simp add: LZ4_run_def Let_def)
  with assms show "r \<le> v_top v" "v_top v \<le> c_maxOutputSize c" "r \<noteq> 0 \<Longrightarrow> r = length (v_out v)"
    by simp_all
qed

lemma LZ4_compress_generic_out:
  assumes "r = LZ4_compress_generic m s src n cap dd di a"
  shows "r_result r \<le> r_top r" "r_top r \<le> cap" "r_result r \<noteq> 0 \<Longrightarrow> r_result r = length (r_out r)"
proof -
  obtain k v where run: "LZ4_run m (LZ4_call_of s src n cap dd di a) (hashTable s) = (k, v)" by fastforce
  note LZ4_run_out [OF run]
  then show "r_result r \<le> r_top r" "r_top r \<le> cap" "r_result r \<noteq> 0 \<Longrightarrow> r_result r = length (r_out r)"
    using assms run
    by (simp_all add: LZ4_compress_generic_def LZ4_compress_generic_validated_def Let_def LZ4_call_of_def split: if_splits)
qed

end
