(* ===== verification/Lz4_Window.thy ===== *)
theory Lz4_Window
  imports Lz4_Bounds
begin

text \<open>
  What the search of the compressor finds. Positions are indexes into the window made of the
  dictionary and the source; the hash table holds such indexes, and a candidate the code
  accepts is a true match inside the window, within 64 KB, wherever the dictionary lies in
  memory. The length the code counts for a match is exact.
\<close>

section \<open>The window of a block\<close>

text \<open>When a call is sound: sizes in range, and the dictionary where the directive says.\<close>

definition call_ok :: "lz4_call \<Rightarrow> bool" where
  "call_ok c \<longleftrightarrow>
     0 < c_inputSize c \<and> unat (c_startIndex c) + c_inputSize c \<le> 2147483648
     \<and> c_dictSize c \<le> c_startIndex c \<and> 1 \<le> c_acceleration c
     \<and> (c_dictDirective c = withPrefix64k \<and> c_dictionary c + uint (c_dictSize c) = c_source c
        \<or> c_dictDirective c = usingExtDict \<and> c_dictionary c \<noteq> c_source c
          \<and> (c_dictSize c = 0 \<or> 4 \<le> c_dictSize c \<and> c_dictionary c \<noteq> 0))
     \<and> (c_dictIssue c = dictSmall \<or> c_dictSize c = c_startIndex c \<or> 65536 \<le> c_dictSize c)"

abbreviation start_of :: "lz4_call \<Rightarrow> int" where
  "start_of c \<equiv> uint (c_startIndex c)"

abbreviation dict_of :: "lz4_call \<Rightarrow> int" where
  "dict_of c \<equiv> uint (c_dictSize c)"

text \<open>The byte an index stands for: indexes below \<open>startIndex\<close> lie in the dictionary.\<close>

definition byte_at :: "memory \<Rightarrow> lz4_call \<Rightarrow> int \<Rightarrow> u8" where
  "byte_at m c i = (if i < start_of c then m (c_dictionary c + dict_of c - start_of c + i) else m (c_base c + i))"

definition idx_end :: "lz4_call \<Rightarrow> int" where
  "idx_end c = start_of c + int (c_inputSize c)"

lemma call_ok_bounds:
  assumes "call_ok c"
  shows "0 \<le> dict_of c" "dict_of c \<le> start_of c" "idx_end c \<le> 2147483648" "start_of c < idx_end c" "0 \<le> start_of c"
proof -
  show "0 \<le> dict_of c" "0 \<le> start_of c" by simp_all
  show "dict_of c \<le> start_of c" using assms by (simp add: call_ok_def word_le_def)
  show "idx_end c \<le> 2147483648" "start_of c < idx_end c"
    using assms by (simp_all add: call_ok_def idx_end_def flip: unat_eq_nat_uint) (metis of_nat_add of_nat_le_iff of_nat_numeral uint_nat)
qed

lemma byte_at_source: "start_of c \<le> i \<Longrightarrow> byte_at m c i = m (c_base c + i)"
  by (simp add: byte_at_def)

lemma byte_at_prefix:
  "call_ok c \<Longrightarrow> c_dictDirective c \<noteq> usingExtDict \<Longrightarrow> byte_at m c i = m (c_base c + i)"
  by (auto simp: byte_at_def call_ok_def c_base_def algebra_simps)

lemma byte_at_dict:
  assumes "call_ok c" and "c_dictDirective c = usingExtDict" and "i < start_of c" and "0 < dict_of c"
  shows "byte_at m c i = m (c_dictBase c + i)"
  using assms by (auto simp: byte_at_def call_ok_def c_dictBase_def)

section \<open>Indexes as words\<close>

lemma uint_index: "0 \<le> i \<Longrightarrow> i < 2147483648 \<Longrightarrow> uint (word_of_int i :: u32) = i"
  by (simp add: unsigned_of_int take_bit_eq_mod)

lemma too_far:
  assumes "uint (e :: u32) \<le> 2147483648" and "uint i \<le> 2147483648"
  shows "e + 65535 < i \<longleftrightarrow> uint e + 65535 < uint i"
  using assms by (simp add: word_less_def uint_word_ariths)

lemma index_diff:
  assumes "e \<le> (i :: u32)"
  shows "uint (i - e) = uint i - uint e"
  using assms by (simp add: uint_minus_simple_alt [symmetric] word_le_def)

section \<open>Matches\<close>

definition same :: "memory \<Rightarrow> lz4_call \<Rightarrow> int \<Rightarrow> int \<Rightarrow> int \<Rightarrow> bool" where
  "same m c i j d \<longleftrightarrow> (\<forall>k. i \<le> k \<and> k < j \<longrightarrow> byte_at m c k = byte_at m c (k - d))"

text \<open>
  A match at index \<open>i\<close> and distance \<open>d\<close>, compared up to \<open>j\<close>: the pointers of the code and
  the side of the window they are on.
\<close>

definition match_ptr :: "lz4_call \<Rightarrow> int \<Rightarrow> int \<Rightarrow> int \<Rightarrow> int \<Rightarrow> bool" where
  "match_ptr c i d match low \<longleftrightarrow>
     (if c_dictDirective c = usingExtDict
      then (if i - d < start_of c then match = c_dictBase c + (i - d) \<and> low = c_dictionary c
            else match = c_base c + (i - d) \<and> low = c_source c)
      else match = c_base c + (i - d) \<and> low = c_lowLimit c)"

definition match_at :: "memory \<Rightarrow> lz4_call \<Rightarrow> int \<Rightarrow> int \<Rightarrow> int \<Rightarrow> int \<Rightarrow> int \<Rightarrow> bool" where
  "match_at m c i j d match low \<longleftrightarrow>
     1 \<le> d \<and> d \<le> 65535 \<and> start_of c - dict_of c \<le> i - d \<and> start_of c \<le> i \<and> i + 4 \<le> j \<and> j + 8 \<le> idx_end c
     \<and> same m c i j d \<and> match_ptr c i d match low
     \<and> (c_dictDirective c = usingExtDict \<and> i - d < start_of c \<longrightarrow> j - d \<le> start_of c)"

section \<open>The hash table\<close>

text \<open>
  Every entry is unset, or at least four bytes before the block, or a position of this
  block that has been passed.
\<close>

definition table_ok :: "int \<Rightarrow> int \<Rightarrow> hash_table \<Rightarrow> bool" where
  "table_ok start cur tbl \<longleftrightarrow>
     (\<forall>h. tbl h = 0 \<or> uint (tbl h) + 4 \<le> start \<or> start \<le> uint (tbl h) \<and> uint (tbl h) < cur)"

lemma table_ok_put:
  assumes "table_ok s cur tbl" and "cur \<le> cur'" and "s \<le> uint e" and "uint e < cur'"
  shows "table_ok s cur' (LZ4_putIndexOnHash e h tbl)"
  using assms by (auto simp: table_ok_def LZ4_putIndexOnHash_def)

lemma table_ok_mono: "table_ok s cur tbl \<Longrightarrow> cur \<le> cur' \<Longrightarrow> table_ok s cur' tbl"
  by (auto simp: table_ok_def)

text \<open>An accepted candidate is a match inside the window.\<close>

lemma candidate_match:
  assumes ok: "call_ok c" and tbl: "table_ok (start_of c) i tbl"
    and i: "start_of c + 1 \<le> i" "i + 12 \<le> idx_end c"
    and cand: "LZ4_candidate c (tbl h) = (match, low)"
    and acc: "\<not> LZ4_rejected m c (tbl h) (word_of_int i) match (c_base c + i)"
  shows "match_at m c i (i + 4) (i - uint (tbl h)) match low"
    and "uint (word_of_int i - tbl h) = i - uint (tbl h)"
proof -
  note b = call_ok_bounds [OF ok]
  define e where "e = tbl h"
  have ui: "uint (word_of_int i :: u32) = i" by (rule uint_index) (use b i in linarith)+
  have cases: "e = 0 \<or> uint e + 4 \<le> start_of c \<or> start_of c \<le> uint e \<and> uint e < i"
    using tbl by (simp add: table_ok_def e_def)
  moreover have "0 < i" using i b by linarith
  ultimately have lt: "uint e < i" using i(1) by auto
  then show diff: "uint (word_of_int i - tbl h) = i - uint (tbl h)"
    by (simp add: index_diff word_le_def ui flip: e_def)
  have near: "i - uint e \<le> 65535"
    using acc too_far [of e "word_of_int i"] ui lt b i by (simp add: LZ4_rejected_def flip: e_def)
  have low: "start_of c - dict_of c \<le> uint e"
  proof -
    have small: "start_of c - dict_of c \<le> uint e" if "\<not> e < c_startIndex c - c_dictSize c"
      using that b by (simp add: word_less_def index_diff word_le_def)
    consider "c_dictIssue c = dictSmall" | "c_dictSize c = c_startIndex c" | "65536 \<le> c_dictSize c"
      using ok by (auto simp: call_ok_def)
    then show ?thesis
      using acc small near i
      by cases (auto simp: LZ4_rejected_def c_prefixIdxLimit_def word_le_def simp flip: e_def)
  qed
  have ext: "uint e + 4 \<le> start_of c \<and> 0 < dict_of c" if "c_dictDirective c = usingExtDict" "uint e < start_of c"
  proof -
    have "dict_of c = 0 \<or> 4 \<le> dict_of c" using ok that(1) by (auto simp: call_ok_def word_le_def)
    then show ?thesis using cases that(2) low b by auto
  qed
  have ptr: "match_ptr c i (i - uint e) match low"
    using cand by (auto simp: match_ptr_def LZ4_candidate_def word_less_def split: if_splits simp flip: e_def)
  have eq: "m (match + int k) = m (c_base c + i + int k)" if "k < 4" for k
    using acc that by (simp add: LZ4_rejected_def LZ4_read32_eq)
  have "byte_at m c k = byte_at m c (k - (i - uint e))" if "i \<le> k" "k < i + 4" for k
  proof -
    have k: "byte_at m c k = m (c_base c + k)" using that i by (simp add: byte_at_source)
    have "m (match + (k - i)) = m (c_base c + k)" using eq [of "nat (k - i)"] that by simp
    moreover have "byte_at m c (uint e + (k - i)) = m (match + (k - i))"
    proof (cases "c_dictDirective c = usingExtDict")
      case True
      show ?thesis
      proof (cases "uint e < start_of c")
        case True
        with \<open>c_dictDirective c = usingExtDict\<close> ext ptr that show ?thesis
          by (simp add: byte_at_dict [OF ok] match_ptr_def algebra_simps)
      next
        case False
        with \<open>c_dictDirective c = usingExtDict\<close> ptr that show ?thesis
          by (simp add: byte_at_source match_ptr_def algebra_simps)
      qed
    next
      case False
      with ptr show ?thesis by (simp add: byte_at_prefix [OF ok] match_ptr_def algebra_simps)
    qed
    ultimately show ?thesis using k by (simp add: algebra_simps)
  qed
  then have "same m c i (i + 4) (i - uint e)" by (simp add: same_def)
  then show "match_at m c i (i + 4) (i - uint (tbl h)) match low"
    using near low lt i ptr ext by (auto simp: match_at_def simp flip: e_def)
qed


section \<open>Catching up and measuring a match\<close>

lemma match_at_back:
  assumes "match_at m c i j d match low" and ok: "call_ok c"
    and k: "start_of c \<le> i - int k" "low \<le> match - int k"
    and eq: "\<forall>q<k. m (c_base c + i - int k + int q) = m (match - int k + int q)"
  shows "match_at m c (i - int k) j d (match - int k) low"
proof -
  note ma = assms(1) [unfolded match_at_def]
  have lim: "start_of c - dict_of c \<le> i - int k - d" and
    side: "c_dictDirective c = usingExtDict \<Longrightarrow> (i - d < start_of c) = (i - int k - d < start_of c)"
    using ma k(2) ok
    by (auto simp: match_ptr_def c_dictBase_def c_base_def c_lowLimit_def call_ok_def split: if_splits)
      (use call_ok_bounds [OF ok] in linarith)+
  have "same m c (i - int k) j d"
    unfolding same_def
  proof (intro allI impI)
    fix q assume q: "i - int k \<le> q \<and> q < j"
    show "byte_at m c q = byte_at m c (q - d)"
    proof (cases "i \<le> q")
      case True
      then show ?thesis using ma q by (simp add: same_def)
    next
      case False
      have "m (c_base c + q) = m (match + (q - i))"
      proof -
        have "nat (q - i + int k) < k" "int (nat (q - i + int k)) = q - i + int k" using q False by linarith+
        with eq show ?thesis by (metis (no_types, opaque_lifting) add.assoc add.commute diff_add_cancel uminus_add_conv_diff)
      qed
      moreover have "byte_at m c q = m (c_base c + q)" using k(1) q by (simp add: byte_at_source)
      moreover have "byte_at m c (q - d) = m (match + (q - i))"
      proof (cases "c_dictDirective c = usingExtDict")
        case True
        show ?thesis
        proof (cases "i - d < start_of c")
          case True
          then have lt: "q - d < start_of c" "0 < dict_of c" using \<open>\<not> i \<le> q\<close> lim ma by auto
          have *: "match + (q - i) = c_dictBase c + (q - d)"
            using True \<open>c_dictDirective c = usingExtDict\<close> ma by (simp add: match_ptr_def)
          show ?thesis
            unfolding * by (rule byte_at_dict [OF ok \<open>c_dictDirective c = usingExtDict\<close> lt])
        next
          case False
          with side \<open>c_dictDirective c = usingExtDict\<close> q have ge: "start_of c \<le> q - d" by simp
          have *: "match + (q - i) = c_base c + (q - d)"
            using False \<open>c_dictDirective c = usingExtDict\<close> ma by (simp add: match_ptr_def)
          show ?thesis unfolding * by (rule byte_at_source [OF ge])
        qed
      next
        case False
        then have *: "match + (q - i) = c_base c + (q - d)" using ma by (simp add: match_ptr_def)
        show ?thesis unfolding * by (rule byte_at_prefix [OF ok False])
      qed
      ultimately show ?thesis by simp
    qed
  qed
  with ma lim side k(1) show ?thesis
    by (auto simp: match_at_def match_ptr_def)
qed

lemma low_le_match: "call_ok c \<Longrightarrow> match_at m c i j d match low \<Longrightarrow> low \<le> match"
  by (auto simp: match_at_def match_ptr_def c_dictBase_def c_base_def c_lowLimit_def call_ok_def split: if_splits)

lemma catch_up_match:
  assumes "call_ok c" and "match_at m c i j d match low" and "start_of c \<le> a" and "a \<le> i"
    and "LZ4_catch_up m (c_base c + a) low (c_base c + i) match = (ip, match')"
  shows "\<exists>i'. ip = c_base c + i' \<and> a \<le> i' \<and> i' \<le> i \<and> match_at m c i' j d match' low"
proof -
  obtain k where k: "ip = c_base c + i - int k" "match' = match - int k" "a \<le> i - int k" "low \<le> match - int k"
    "\<forall>q<k. m (c_base c + i - int k + int q) = m (match - int k + int q)"
    using LZ4_catch_up_steps [of "c_base c + a" "c_base c + i" low match m] assms low_le_match [OF assms(1,2)]
    by auto
  with match_at_back [OF assms(2,1), of k] assms(3) show ?thesis
    by (intro exI [of _ "i - int k"]) auto
qed

lemma common_bytes_ge:
  assumes "\<And>k. k < n \<Longrightarrow> m (p + int k) = m (q + int k)" and "n \<le> N"
  shows "n \<le> common_bytes m p q N"
  using common_bytes_equal [of n N m p q] assms by simp

text \<open>\<open>LZ4_count\<close> from two indexes that lie on the same side of the window.\<close>

lemma count_same:
  assumes "same m c i j d" and "start_of c \<le> i"
    and p: "\<And>k. j \<le> k \<Longrightarrow> k < lim \<Longrightarrow> byte_at m c (k - d) = m (match + (k - i))"
    and n: "n = LZ4_count m (c_base c + j) (match + (j - i)) (c_base c + lim)" and "i \<le> j"
  shows "same m c i (j + int n) d \<and> j + int n \<le> max j lim
    \<and> (\<forall>J. same m c i J d \<longrightarrow> J \<le> lim \<longrightarrow> J \<le> j + int n)"
proof (intro conjI allI impI)
  have cnt: "n = common_bytes m (c_base c + j) (match + (j - i)) (nat (lim - j))"
    by (simp add: n LZ4_count_eq)
  have le: "n \<le> nat (lim - j)" unfolding cnt by (rule common_bytes_le)
  then show "j + int n \<le> max j lim" by simp
  show "same m c i (j + int n) d"
    unfolding same_def
  proof (intro allI impI)
    fix k assume k: "i \<le> k \<and> k < j + int n"
    show "byte_at m c k = byte_at m c (k - d)"
    proof (cases "k < j")
      case True
      then show ?thesis using assms(1) k by (simp add: same_def)
    next
      case False
      have "m (c_base c + j + int (nat (k - j))) = m (match + (j - i) + int (nat (k - j)))"
        by (rule common_bytes_eq [of _ _ _ _ "nat (lim - j)"]) (use k False in \<open>unfold cnt [symmetric], linarith\<close>)
      then have "m (c_base c + k) = m (match + (k - i))" using False by (simp add: algebra_simps)
      moreover have "k < lim" using k False le by linarith
      ultimately show ?thesis using False k p [of k] assms(2) by (simp add: byte_at_source)
    qed
  qed
next
  fix J assume J: "same m c i J d" "J \<le> lim"
  have cnt: "n = common_bytes m (c_base c + j) (match + (j - i)) (nat (lim - j))"
    by (simp add: n LZ4_count_eq)
  show "J \<le> j + int n"
  proof (cases "j \<le> J")
    case True
    have "nat (J - j) \<le> n"
      unfolding cnt
    proof (rule common_bytes_ge)
      fix k assume "k < nat (J - j)"
      then have k: "j \<le> j + int k" "j + int k < J" by auto
      then have "byte_at m c (j + int k) = byte_at m c (j + int k - d)"
        using J(1) \<open>i \<le> j\<close> by (simp add: same_def)
      moreover have "byte_at m c (j + int k) = m (c_base c + (j + int k))"
        using assms(2,5) by (simp add: byte_at_source)
      ultimately show "m (c_base c + j + int k) = m (match + (j - i) + int k)"
        using p [of "j + int k"] k J(2) by (simp add: algebra_simps)
    qed (use J(2) in simp)
    then show ?thesis by simp
  qed simp
qed


lemma matchlimit_index: "c_matchlimit c = c_base c + (idx_end c - 5)"
  and mflimit_index: "c_mflimitPlusOne c = c_base c + (idx_end c - 11)"
  by (simp_all add: c_matchlimit_def c_mflimitPlusOne_def c_iend_def c_base_def idx_end_def)

lemma match_length_dict:
  assumes ok: "call_ok c" and ma: "match_at m c i j d match low" and v: "v_ip v = c_base c + i" "v_match v = match" "v_lowLimit v = low"
    and ml: "LZ4_match_length m c v = (n, e)" and dict: "c_dictDirective c = usingExtDict" "i - d < start_of c"
  shows "e = c_base c + (i + 4 + int n)" "same m c i (i + 4 + int n) d" "j \<le> i + 4 + int n" "i + 4 + int n + 5 \<le> idx_end c"
proof -
  note b = call_ok_bounds [OF ok]
  note ma' = ma [unfolded match_at_def]
  have ptr: "match = c_dictBase c + (i - d)" "low = c_dictionary c" "j - d \<le> start_of c"
    using ma' dict by (auto simp: match_ptr_def)
  have D: "0 < dict_of c" using ma' dict by linarith
  then have "c_dictionary c \<noteq> 0" using ok dict by (auto simp: call_ok_def)
  then have lim0: "c_base c + i + (c_dictEnd c - match) = c_base c + (start_of c + d)"
    by (simp add: ptr c_dictEnd_def c_dictBase_def)
  define lim where "lim = min (start_of c + d) (idx_end c - 5)"
  have limit: "(if c_base c + (start_of c + d) > c_matchlimit c then c_matchlimit c else c_base c + (start_of c + d)) = c_base c + lim"
    by (simp add: lim_def matchlimit_index min_def)
  define n1 where "n1 = LZ4_count m (c_base c + i + 4) (match + 4) (c_base c + lim)"
  define n2 where "n2 = LZ4_count m (c_base c + lim) (c_source c) (c_matchlimit c)"
  have cond: "c_dictDirective c = usingExtDict \<and> v_lowLimit v = c_dictionary c" using dict ptr v by simp
  have mleq: "(n, e) = (if c_base c + i + int n1 + 4 = c_base c + lim then (n1 + n2, c_base c + i + int n1 + 4 + int n2)
      else (n1, c_base c + i + int n1 + 4))"
    unfolding ml [symmetric] LZ4_match_length_def Let_def if_P [OF cond] unfolding v lim0 limit n1_def [symmetric]
    by (simp add: n2_def)
  have j: "i + 4 \<le> j" "j \<le> lim" using ma' ptr by (auto simp: lim_def)
  have same4: "same m c i (i + 4) d" using ma' by (auto simp: same_def)
  have p: "byte_at m c (k - d) = m (match + (k - i))" if "k < lim" for k
  proof -
    have *: "match + (k - i) = c_dictBase c + (k - d)" by (simp add: ptr)
    show ?thesis unfolding * using that by (intro byte_at_dict [OF ok dict(1) _ D]) (simp add: lim_def)
  qed
  have "same m c i (i + 4 + int n1) d \<and> i + 4 + int n1 \<le> max (i + 4) lim
    \<and> (\<forall>J. same m c i J d \<longrightarrow> J \<le> lim \<longrightarrow> J \<le> i + 4 + int n1)"
    by (rule count_same [OF same4 _ p]) (use ma' in \<open>simp_all add: n1_def add.assoc\<close>)
  then have n1: "same m c i (i + 4 + int n1) d" "i + 4 + int n1 \<le> lim" "j \<le> i + 4 + int n1"
    using j ma' by auto
  have "e = c_base c + (i + 4 + int n) \<and> same m c i (i + 4 + int n) d \<and> j \<le> i + 4 + int n
    \<and> i + 4 + int n + 5 \<le> idx_end c"
  proof (cases "i + 4 + int n1 = lim")
    case False
    then have "n = n1" "e = c_base c + (i + 4 + int n1)"
      using mleq by (auto split: if_splits)
    with n1 show ?thesis by (simp add: lim_def)
  next
    case True
    then have ne: "n = n1 + n2" "e = c_base c + (lim + int n2)"
      using mleq by auto
    have "same m c i (lim + int n2) d \<and> lim + int n2 \<le> idx_end c - 5"
    proof (cases "lim = start_of c + d")
      case True
      have "byte_at m c (k - d) = m (c_source c - (lim - i) + (k - i))" if "lim \<le> k" for k
        using that by (simp add: byte_at_source True c_base_def algebra_simps)
      note p2 = this
      have "same m c i (lim + int n2) d \<and> lim + int n2 \<le> max lim (idx_end c - 5)
        \<and> (\<forall>J. same m c i J d \<longrightarrow> J \<le> idx_end c - 5 \<longrightarrow> J \<le> lim + int n2)"
        by (rule count_same [OF _ _ p2]) (use n1 ma' \<open>i + 4 + int n1 = lim\<close> in \<open>simp_all add: n2_def matchlimit_index\<close>)
      then show ?thesis by (auto simp: lim_def)
    next
      case False
      then have "lim = idx_end c - 5" by (simp add: lim_def min_def split: if_splits)
      then have "n2 = 0" by (simp add: n2_def LZ4_count_eq matchlimit_index)
      with n1 \<open>lim = idx_end c - 5\<close> \<open>i + 4 + int n1 = lim\<close> show ?thesis by simp
    qed
    moreover have "i + 4 + int n = lim + int n2" using ne True by simp
    ultimately show ?thesis using n1 ne(2) True
      by (simp only: \<open>i + 4 + int n = lim + int n2\<close>) (use ne(2) n1 in auto)
  qed
  then show "e = c_base c + (i + 4 + int n)" "same m c i (i + 4 + int n) d" "j \<le> i + 4 + int n"
    "i + 4 + int n + 5 \<le> idx_end c" by simp_all
qed

lemma match_length_near:
  assumes ok: "call_ok c" and ma: "match_at m c i j d match low" and v: "v_ip v = c_base c + i" "v_match v = match" "v_lowLimit v = low"
    and ml: "LZ4_match_length m c v = (n, e)" and near: "\<not> (c_dictDirective c = usingExtDict \<and> i - d < start_of c)"
  shows "e = c_base c + (i + 4 + int n)" "same m c i (i + 4 + int n) d" "j \<le> i + 4 + int n" "i + 4 + int n + 5 \<le> idx_end c"
proof -
  note ma' = ma [unfolded match_at_def]
  have ptr: "match = c_base c + (i - d)" and ext: "\<not> (c_dictDirective c = usingExtDict \<and> low = c_dictionary c)"
    using ma' near ok by (auto simp: match_ptr_def call_ok_def)
  have n: "n = LZ4_count m (c_base c + (i + 4)) (match + 4) (c_base c + (idx_end c - 5))"
    and e: "e = c_base c + (i + 4 + int n)"
    using ml ext by (auto simp: LZ4_match_length_def Let_def v matchlimit_index algebra_simps)
  have same4: "same m c i (i + 4) d" using ma' by (auto simp: same_def)
  have p: "byte_at m c (k - d) = m (match + (k - i))" if "i \<le> k" for k
  proof (cases "c_dictDirective c = usingExtDict")
    case True
    then show ?thesis using that near ptr by (simp add: byte_at_source)
  next
    case False
    then show ?thesis using ptr by (simp add: byte_at_prefix [OF ok])
  qed
  have "same m c i (i + 4 + int n) d \<and> i + 4 + int n \<le> max (i + 4) (idx_end c - 5)
    \<and> (\<forall>J. same m c i J d \<longrightarrow> J \<le> idx_end c - 5 \<longrightarrow> J \<le> i + 4 + int n)"
    by (rule count_same [OF same4 _ p]) (use ma' n in simp_all)
  then show "e = c_base c + (i + 4 + int n)" "same m c i (i + 4 + int n) d" "j \<le> i + 4 + int n" "i + 4 + int n + 5 \<le> idx_end c"
    using ma' e by auto
qed

lemma match_length_at:
  assumes "call_ok c" and "match_at m c i j d match low"
    and "v_ip v = c_base c + i" and "v_match v = match" and "v_lowLimit v = low"
    and "LZ4_match_length m c v = (n, e)"
  shows "e = c_base c + (i + 4 + int n) \<and> same m c i (i + 4 + int n) d \<and> j \<le> i + 4 + int n
    \<and> i + 4 + int n + 5 \<le> idx_end c"
proof (cases "c_dictDirective c = usingExtDict \<and> i - d < start_of c")
  case True
  then show ?thesis using match_length_dict [OF assms] by blast
next
  case False
  then show ?thesis using match_length_near [OF assms] by blast
qed

section \<open>The search\<close>

lemma LZ4_find_match_eq:
  assumes "LZ4_candidate c (tbl h) = (match, low)"
  shows "LZ4_find_match m c tbl h p step nb =
    (if p + int step > c_mflimitPlusOne c then (tbl, None)
     else if LZ4_rejected m c (tbl h) (word_of_int (p - c_base c)) match p
     then LZ4_find_match m c (LZ4_putIndexOnHash (word_of_int (p - c_base c)) h tbl)
       (LZ4_hashPosition m (p + int step)) (p + int step) (nb div 64) (Suc nb)
     else (LZ4_putIndexOnHash (word_of_int (p - c_base c)) h tbl,
       Some (p, match, low, word_of_int (p - c_base c) - tbl h)))"
  unfolding LZ4_find_match.simps [of m c tbl h p step nb] Let_def LZ4_getIndexOnHash_def assms prod.case
  by (rule refl)

lemma find_match_at:
  assumes "call_ok c" and "table_ok (start_of c) (p - c_base c) tbl" and "start_of c + 1 \<le> p - c_base c"
    and "p - c_base c + 11 \<le> idx_end c" and "1 \<le> step" and "64 \<le> nb"
    and "LZ4_find_match m c tbl forwardH p step nb = (tbl', r)"
  shows "case r of None \<Rightarrow> table_ok (start_of c) (idx_end c - 11) tbl'
    | Some (ip, match, low, dist) \<Rightarrow> \<exists>f. ip = c_base c + f \<and> p - c_base c \<le> f \<and> table_ok (start_of c) (f + 1) tbl'
        \<and> match_at m c f (f + 4) (uint dist) match low"
  using assms
proof (induction m c tbl forwardH p step nb rule: LZ4_find_match.induct)
  case (1 m c tbl h p step nb)
  note b = call_ok_bounds [OF "1.prems"(1)]
  define i where "i = p - c_base c"
  have pi: "p = c_base c + i" by (simp add: i_def)
  have ui: "uint (word_of_int i :: u32) = i"
    by (rule uint_index) (use "1.prems"(3,4) [folded i_def] b in linarith)+
  obtain match low where cand: "LZ4_candidate c (tbl h) = (match, low)" by fastforce
  note eq = LZ4_find_match_eq [where tbl = tbl and h = h, OF cand, of m p step nb, folded i_def]
  show ?case
  proof (cases "p + int step > c_mflimitPlusOne c")
    case True
    with "1.prems" show ?thesis by (auto simp: eq intro: table_ok_mono)
  next
    case False
    have put: "table_ok (start_of c) j (LZ4_putIndexOnHash (word_of_int i) h tbl)" if "i < j" for j
      by (rule table_ok_put [OF "1.prems"(2)]) (use "1.prems"(3) that in \<open>simp_all add: ui i_def [symmetric]\<close>)
    show ?thesis
    proof (cases "LZ4_rejected m c (tbl h) (word_of_int i) match p")
      case True
      have "case r of None \<Rightarrow> table_ok (start_of c) (idx_end c - 11) tbl'
        | Some (ip, match, low, dist) \<Rightarrow> \<exists>f. ip = c_base c + f \<and> p + int step - c_base c \<le> f
            \<and> table_ok (start_of c) (f + 1) tbl' \<and> match_at m c f (f + 4) (uint dist) match low"
        using False True "1.prems" put [of "i + int step"]
        by (intro "1.IH" [OF refl refl refl refl refl refl _ _ _ refl refl])
          (auto simp: cand LZ4_getIndexOnHash_def eq i_def mflimit_index algebra_simps)
      then show ?thesis by (fastforce split: option.splits)
    next
      case rej: False
      have "match_at m c i (i + 4) (i - uint (tbl h)) match low" "uint (word_of_int i - tbl h) = i - uint (tbl h)"
        using candidate_match [where tbl = tbl and h = h, OF "1.prems"(1) "1.prems"(2) _ _ cand] "1.prems"(3,4,5) False rej
        by (simp_all add: pi mflimit_index)
      moreover have "LZ4_find_match m c tbl h p step nb = (LZ4_putIndexOnHash (word_of_int i) h tbl,
          Some (p, match, low, word_of_int i - tbl h))"
        using False rej by (simp add: eq)
      ultimately show ?thesis using "1.prems"(7) put [of "i + 1"] by (auto simp: pi)
    qed
  qed
qed

end
