(* ===== verification/Lz4_Correct.thy ===== *)
theory Lz4_Correct
  imports Lz4_Window
begin

text \<open>
  The block compressor is correct: whatever the parameters of a call, if it returns a length,
  the output decodes behind the history to the history and the source, and the hash table it
  leaves is fit for the next block. The proof is an invariant of the main loop over its two
  labels.
\<close>

section \<open>The window as a list\<close>

definition block_window :: "memory \<Rightarrow> lz4_call \<Rightarrow> bytes \<Rightarrow> bytes" where
  "block_window m c hist = hist @ mem_bytes m (c_source c) (c_inputSize c)"

text \<open>The dictionary in memory is the end of the history a decoder has.\<close>

definition hist_ok :: "memory \<Rightarrow> lz4_call \<Rightarrow> bytes \<Rightarrow> bool" where
  "hist_ok m c hist \<longleftrightarrow> unat (c_dictSize c) \<le> length hist
     \<and> drop (length hist - unat (c_dictSize c)) hist = mem_bytes m (c_dictionary c) (unat (c_dictSize c))"

definition place :: "lz4_call \<Rightarrow> bytes \<Rightarrow> int \<Rightarrow> nat" where
  "place c hist i = nat (int (length hist) + i - start_of c)"

lemma window_length: "length (block_window m c hist) = place c hist (idx_end c)"
  by (simp add: block_window_def place_def idx_end_def)

lemma int_place: "start_of c - int (length hist) \<le> i \<Longrightarrow> int (place c hist i) = int (length hist) + i - start_of c"
  by (simp add: place_def)

lemma hist_ok_length: "hist_ok m c hist \<Longrightarrow> dict_of c \<le> int (length hist)"
  unfolding hist_ok_def by (metis of_nat_le_iff uint_nat)

lemma window_at:
  assumes "hist_ok m c hist" and "start_of c - dict_of c \<le> i" and "i < idx_end c"
  shows "block_window m c hist ! place c hist i = byte_at m c i"
proof (cases "i < start_of c")
  case True
  define n where "n = unat (c_dictSize c)"
  define k where "k = nat (i - (start_of c - dict_of c))"
  have n: "int n = dict_of c" by (simp add: n_def)
  have k: "int k = i - (start_of c - dict_of c)" using assms(2) by (simp add: k_def)
  have len: "n \<le> length hist" and dr: "drop (length hist - n) hist = mem_bytes m (c_dictionary c) n"
    using assms(1) by (simp_all add: hist_ok_def n_def)
  have kn: "k < n" using k n True by linarith
  have pl: "place c hist i = length hist - n + k"
    using k n len by (simp add: place_def)
  have "block_window m c hist ! place c hist i = drop (length hist - n) hist ! k"
    using kn len by (auto simp: pl block_window_def nth_append)
  also have "\<dots> = m (c_dictionary c + int k)"
    using kn by (simp add: dr)
  also have "c_dictionary c + int k = c_dictionary c + dict_of c - start_of c + i" using k by simp
  also have "m \<dots> = byte_at m c i" using True by (simp add: byte_at_def)
  finally show ?thesis .
next
  case False
  then have "place c hist i = length hist + nat (i - start_of c)" by (simp add: place_def)
  then show ?thesis using False assms(3)
    by (simp add: block_window_def nth_append byte_at_def idx_end_def c_base_def algebra_simps)
qed

lemma place_add: "start_of c - int (length hist) \<le> i \<Longrightarrow> place c hist (i + int n) = place c hist i + n"
  by (simp add: place_def)

lemma take_window:
  assumes "start_of c \<le> a" and "a \<le> idx_end c"
  shows "take (place c hist a) (block_window m c hist) = hist @ mem_bytes m (c_source c) (nat (a - start_of c))"
proof -
  define k where "k = nat (a - start_of c)"
  have pl: "place c hist a = length hist + k" and kn: "k \<le> c_inputSize c"
    using assms by (simp_all add: place_def k_def idx_end_def)
  have "take k (mem_bytes m (c_source c) (c_inputSize c)) = mem_bytes m (c_source c) k"
    using mem_bytes_add [of m "c_source c" k "c_inputSize c - k"] kn by simp
  then show ?thesis by (simp add: pl block_window_def k_def)
qed

lemma source_bytes:
  assumes "start_of c \<le> a" and "a + int n \<le> idx_end c"
  shows "take (place c hist (a + int n)) (block_window m c hist)
    = take (place c hist a) (block_window m c hist) @ mem_bytes m (c_base c + a) n"
proof -
  have "nat (a + int n - start_of c) = nat (a - start_of c) + n" using assms by simp
  moreover have *: "c_base c + a = c_source c + int (nat (a - start_of c))" using assms by (simp add: c_base_def)
  ultimately show ?thesis
    unfolding * using assms by (simp add: take_window mem_bytes_add)
qed

lemma match_repeats:
  assumes "hist_ok m c hist" and "call_ok c" and "same m c i (i + int n) d" and "1 \<le> d"
    and "start_of c - dict_of c \<le> i - d" and "start_of c \<le> i" and "i + int n \<le> idx_end c"
  shows "repeats (block_window m c hist) (place c hist i) (nat d) n"
proof -
  note H = hist_ok_length [OF assms(1)]
  have "block_window m c hist ! (place c hist i + k) = block_window m c hist ! (place c hist i + k - nat d)"
    if "k < n" for k
  proof -
    have "place c hist i + k = place c hist (i + int k)" "place c hist i + k - nat d = place c hist (i + int k - d)"
      using assms(4-6) H by (simp_all add: place_def)
    then show ?thesis
      using that assms(3-7) by (simp add: window_at [OF assms(1)] same_def)
  qed
  moreover have "nat d \<le> place c hist i" "place c hist i + n \<le> length (block_window m c hist)"
    using assms(4-7) H by (simp_all add: place_def window_length)
  ultimately show ?thesis using assms(4) by (simp add: repeats_def)
qed

section \<open>What the output decodes to\<close>

definition decodes :: "memory \<Rightarrow> lz4_call \<Rightarrow> bytes \<Rightarrow> bytes \<Rightarrow> int \<Rightarrow> bool" where
  "decodes m c hist out a \<longleftrightarrow>
     (\<forall>r. lz4_decode (out @ r) hist = lz4_decode r (take (place c hist a) (block_window m c hist))
        \<and> (6 \<le> length r \<longrightarrow> lz4_strict (place c hist (idx_end c)) (out @ r) hist
             = lz4_strict (place c hist (idx_end c)) r (take (place c hist a) (block_window m c hist))))"

lemma decodes_Nil: "decodes m c hist [] (start_of c)"
  by (simp add: decodes_def place_def block_window_def)

lemma decodes_seq:
  assumes "decodes m c hist pre a" and "hist_ok m c hist" and "call_ok c" and "start_of c \<le> a" and "a \<le> i"
    and "same m c i (i + 4 + int n) d" and "1 \<le> d" and "d \<le> 65535" and "start_of c - dict_of c \<le> i - d"
    and "i + 4 + int n + 5 \<le> idx_end c" and "i + 12 \<le> idx_end c"
  shows "decodes m c hist (pre @ enc_seq (mem_bytes m (c_base c + a) (nat (i - a))) (nat d) n) (i + 4 + int n)"
  unfolding decodes_def
proof
  fix r
  let ?W = "block_window m c hist" and ?lits = "mem_bytes m (c_base c + a) (nat (i - a))"
  have rep: "repeats ?W (place c hist i) (nat d) (n + 4)"
    by (rule match_repeats [OF assms(2,3)]) (use assms in \<open>simp_all add: algebra_simps\<close>)
  have W: "take (place c hist a) ?W @ ?lits = take (place c hist i) ?W"
    using source_bytes [of c a "nat (i - a)" hist m] assms by simp
  have len: "length (take (place c hist a) ?W) + length ?lits = place c hist i"
  proof -
    have "length (take (place c hist a) ?W) + length ?lits = length (take (place c hist i) ?W)"
      by (metis W length_append)
    then show ?thesis using rep by (simp add: repeats_def)
  qed
  have d: "0 < nat d" "nat d \<le> length (take (place c hist a) ?W) + length ?lits" "nat d < 65536"
    using rep assms(7,8) len by (simp_all add: repeats_def)
  have copy: "lz4_copy (take (place c hist a) ?W @ ?lits) (nat d) (n + 4) = take (place c hist (i + 4 + int n)) ?W"
  proof -
    have "place c hist i + (n + 4) = place c hist (i + 4 + int n)" using assms by (simp add: place_def)
    then show ?thesis using lz4_copy_window [OF rep] by (simp add: W)
  qed
  have N: "length (take (place c hist a) ?W) + length ?lits + 12 \<le> place c hist (idx_end c)"
    "length (take (place c hist a) ?W) + length ?lits + n + 9 \<le> place c hist (idx_end c)"
    unfolding len using assms by (simp_all add: place_def)
  note seq = decode_enc_seq [OF d, of n r] strict_enc_seq [OF d N, of r]
  show "lz4_decode ((pre @ enc_seq ?lits (nat d) n) @ r) hist = lz4_decode r (take (place c hist (i + 4 + int n)) ?W)
    \<and> (6 \<le> length r \<longrightarrow> lz4_strict (place c hist (idx_end c)) ((pre @ enc_seq ?lits (nat d) n) @ r) hist
         = lz4_strict (place c hist (idx_end c)) r (take (place c hist (i + 4 + int n)) ?W))"
    using assms(1) seq unfolding decodes_def copy by simp
qed

lemma decodes_last:
  assumes "decodes m c hist pre a" and "start_of c \<le> a" and "a \<le> idx_end c"
    and "a + 5 \<le> idx_end c \<or> pre = [] \<and> a = start_of c"
  shows "encodes (pre @ enc_last (mem_bytes m (c_base c + a) (nat (idx_end c - a)))) hist (block_window m c hist)"
proof -
  let ?lits = "mem_bytes m (c_base c + a) (nat (idx_end c - a))" and ?W = "block_window m c hist"
  let ?pre = "take (place c hist a) ?W"
  have "?pre @ ?lits = take (place c hist (a + int (nat (idx_end c - a)))) ?W"
    by (rule source_bytes [symmetric]) (use assms in simp_all)
  also have "\<dots> = ?W" using assms by (simp flip: window_length [of m c hist])
  finally have W: "?pre @ ?lits = ?W" .
  then have "length ?pre + length ?lits \<le> place c hist (idx_end c)"
    by (metis length_append order.refl window_length)
  from strict_enc_last [OF this] have last: "lz4_strict (length ?W) (enc_last ?lits) ?pre"
    by (simp add: window_length)
  have "lz4_strict (length ?W) (pre @ enc_last ?lits) hist"
  proof (cases "a + 5 \<le> idx_end c")
    case True
    then have "6 \<le> length (enc_last ?lits)" using length_enc_last [of ?lits] by simp
    with assms(1) last show ?thesis by (simp add: decodes_def window_length)
  next
    case False
    with assms(4) have "pre = []" "?pre = hist" by (simp_all add: place_def block_window_def)
    with last show ?thesis by simp
  qed
  with W assms(1) show ?thesis by (simp add: encodes_def decodes_def decode_enc_last)
qed

section \<open>The invariant of the main loop\<close>

fun block_inv :: "memory \<Rightarrow> lz4_call \<Rightarrow> bytes \<Rightarrow> lz4_label \<Rightarrow> lz4_vars \<Rightarrow> bool" where
  "block_inv m c hist (Main_Loop h) v \<longleftrightarrow>
     (\<exists>a. v_anchor v = c_base c + a \<and> v_ip v = c_base c + a + 1 \<and> start_of c \<le> a \<and> a + 12 \<le> idx_end c
        \<and> table_ok (start_of c) (a + 1) (v_table v) \<and> decodes m c hist (v_out v) a)"
| "block_inv m c hist Next_Match v \<longleftrightarrow>
     (\<exists>a i f d pre. v_anchor v = c_base c + a \<and> v_ip v = c_base c + i \<and> start_of c \<le> a \<and> a \<le> i \<and> i \<le> f
        \<and> table_ok (start_of c) (f + 1) (v_table v) \<and> match_at m c i (f + 4) d (v_match v) (v_lowLimit v)
        \<and> (c_dictDirective c = usingExtDict \<longrightarrow> uint (v_offset v) = d) \<and> v_token v = length pre
        \<and> v_out v = pre @ lz4_token (nat (i - a)) 0 # enc_len (nat (i - a)) @ mem_bytes m (c_base c + a) (nat (i - a))
        \<and> decodes m c hist pre a)"

text \<open>Between blocks every entry is unset or at least four bytes before the current offset.\<close>

definition table_rest :: "int \<Rightarrow> hash_table \<Rightarrow> bool" where
  "table_rest e tbl \<longleftrightarrow> (\<forall>h. tbl h = 0 \<or> uint (tbl h) + 4 \<le> e)"

definition last_inv :: "memory \<Rightarrow> lz4_call \<Rightarrow> bytes \<Rightarrow> lz4_vars \<Rightarrow> bool" where
  "last_inv m c hist v \<longleftrightarrow>
     (\<exists>a. v_anchor v = c_base c + a \<and> start_of c \<le> a \<and> a \<le> idx_end c
        \<and> (a + 5 \<le> idx_end c \<or> v_out v = [] \<and> a = start_of c)
        \<and> table_rest (idx_end c) (v_table v) \<and> decodes m c hist (v_out v) a)"

lemma table_rest_ok: "table_ok s cur tbl \<Longrightarrow> s \<le> e \<Longrightarrow> cur + 3 \<le> e \<Longrightarrow> table_rest e tbl"
  by (force simp: table_ok_def table_rest_def)

lemma table_ok_rest: "table_rest s tbl \<Longrightarrow> table_ok s cur tbl"
  by (auto simp: table_ok_def table_rest_def)

definition fail_inv :: "lz4_call \<Rightarrow> lz4_vars \<Rightarrow> bool" where
  "fail_inv c v \<longleftrightarrow> table_rest (idx_end c) (v_table v)"

lemma encode_literals_inv:
  assumes "call_ok c" and "v_anchor v = c_base c + a" and "start_of c \<le> a" and "a \<le> f"
    and "v_ip v = c_base c + f" and "table_ok (start_of c) (f + 1) (v_table v)"
    and "match_at m c f (f + 4) d (v_match v) (v_lowLimit v)"
    and "c_dictDirective c = usingExtDict \<longrightarrow> uint (v_offset v) = d"
    and "decodes m c hist (v_out v) a"
  shows "goto_ok (block_inv m c hist) (last_inv m c hist) (fail_inv c) (LZ4_encode_literals m c v)"
proof -
  obtain ip match where k: "LZ4_catch_up m (c_base c + a) (v_lowLimit v) (c_base c + f) (v_match v) = (ip, match)"
    by fastforce
  obtain i where i: "ip = c_base c + i" "a \<le> i" "i \<le> f" "match_at m c i (f + 4) d match (v_lowLimit v)"
    using catch_up_match [OF assms(1,7,3,4) k] by blast
  have n: "nat (ip - v_anchor v) = nat (i - a)" by (simp add: i assms)
  note eq = LZ4_encode_literals_eq [OF k [folded assms(2,5)] n [symmetric]]
  have "f + 12 \<le> idx_end c" using assms(7) by (simp add: match_at_def)
  then have "table_rest (idx_end c) (v_table v)"
    using table_rest_ok [OF assms(6)] call_ok_bounds [OF assms(1)] by simp
  moreover have "block_inv m c hist Next_Match (v\<lparr>v_ip := ip, v_match := match, v_token := length (v_out v),
      v_out := v_out v @ lz4_token (nat (i - a)) 0 # enc_len (nat (i - a)) @ mem_bytes m (v_anchor v) (nat (i - a)),
      v_top := t\<rparr>)" for t
    unfolding block_inv.simps
    by (intro exI [of _ a] exI [of _ i] exI [of _ f] exI [of _ d] exI [of _ "v_out v"]) (use assms i in simp)
  ultimately show ?thesis by (simp add: eq fail_inv_def)
qed

lemma search_inv:
  assumes ok: "call_ok c" and inv: "block_inv m c hist (Main_Loop h) v"
  shows "goto_ok (block_inv m c hist) (last_inv m c hist) (fail_inv c) (LZ4_search m c h v)"
proof -
  obtain a where a: "v_anchor v = c_base c + a" "v_ip v = c_base c + a + 1" "start_of c \<le> a" "a + 12 \<le> idx_end c"
    "table_ok (start_of c) (a + 1) (v_table v)" "decodes m c hist (v_out v) a"
    using inv by auto
  obtain tbl r where f: "LZ4_find_match m c (v_table v) h (v_ip v) 1 (64 * c_acceleration c) = (tbl, r)"
    by fastforce
  have acc: "1 \<le> c_acceleration c" using ok by (simp add: call_ok_def)
  have found: "case r of None \<Rightarrow> table_ok (start_of c) (idx_end c - 11) tbl
    | Some (ip, match, low, dist) \<Rightarrow> \<exists>f. ip = c_base c + f \<and> v_ip v - c_base c \<le> f \<and> table_ok (start_of c) (f + 1) tbl
        \<and> match_at m c f (f + 4) (uint dist) match low"
    by (rule find_match_at [OF ok _ _ _ _ _ f]) (use a acc in \<open>simp_all add: add.commute\<close>)
  show ?thesis
  proof (cases r)
    case None
    with found have "table_rest (idx_end c) tbl"
      using table_rest_ok [of "start_of c" "idx_end c - 11" tbl "idx_end c"] call_ok_bounds [OF ok] by simp
    with a None f show ?thesis by (auto simp: LZ4_search_def last_inv_def)
  next
    case (Some q)
    obtain ip match low dist where q: "q = (ip, match, low, dist)" by (cases q)
    with found Some obtain i where i: "ip = c_base c + i" "a + 1 \<le> i" "table_ok (start_of c) (i + 1) tbl"
      "match_at m c i (i + 4) (uint dist) match low"
      using a(2) by auto
    have "goto_ok (block_inv m c hist) (last_inv m c hist) (fail_inv c)
      (LZ4_encode_literals m c (v\<lparr>v_table := tbl, v_ip := ip, v_match := match, v_lowLimit := low,
         v_offset := (if c_dictDirective c = usingExtDict then dist else v_offset v)\<rparr>))"
      by (rule encode_literals_inv [OF ok, where a = a and f = i and d = "uint dist"]) (use a i in simp_all)
    then show ?thesis
      unfolding LZ4_search_def f Some q by (simp only: prod.case option.case)
  qed
qed

lemma encode_offset_eq:
  assumes "match_at m c i j d (v_match v) (v_lowLimit v)" and "v_ip v = c_base c + i"
    and "c_dictDirective c = usingExtDict \<longrightarrow> uint (v_offset v) = d"
  shows "v_out (LZ4_encode_offset c v) = v_out v @ LZ4_writeLE16 (of_nat (nat d))"
proof -
  have d: "(word_of_int d :: u16) = of_nat (nat d)" using assms(1) by (simp add: match_at_def)
  have "(if c_dictDirective c = usingExtDict then ucast (v_offset v) else word_of_int (v_ip v - v_match v))
    = (of_nat (nat d) :: u16)"
  proof (cases "c_dictDirective c = usingExtDict")
    case True
    with assms(3) have "uint (v_offset v) = d" by blast
    then have "ucast (v_offset v) = (word_of_int d :: u16)" unfolding ucast_eq by (rule arg_cong)
    then show ?thesis unfolding if_P [OF True] d .
  next
    case False
    then have "v_ip v - v_match v = d"
      using assms(1,2) by (simp add: match_at_def match_ptr_def)
    then show ?thesis unfolding if_not_P [OF False] by (simp only: d)
  qed
  then show ?thesis unfolding LZ4_encode_offset_def Let_def by simp
qed

lemma test_next_inv:
  assumes ok: "call_ok c" and v: "v_anchor v = c_base c + i" "v_ip v = c_base c + i" "start_of c + 2 \<le> i" "i + 12 \<le> idx_end c"
    and tbl: "table_ok (start_of c) i (v_table v)" and dec: "decodes m c hist (v_out v) i"
  shows "goto_ok (block_inv m c hist) (last_inv m c hist) (fail_inv c) (LZ4_test_next m c v)"
proof -
  note b = call_ok_bounds [OF ok]
  have ui: "uint (word_of_int (i - 2) :: u32) = i - 2" "uint (word_of_int i :: u32) = i"
    by (rule uint_index; use v b in linarith)+
  define tbl1 where "tbl1 = LZ4_putPosition m (v_ip v - 2) (v_table v) (c_base c)"
  have "tbl1 = LZ4_putIndexOnHash (word_of_int (i - 2)) (LZ4_hashPosition m (v_ip v - 2)) (v_table v)"
    using v(2) by (simp add: tbl1_def LZ4_putPosition_def LZ4_putPositionOnHash_def LZ4_putIndexOnHash_def)
  then have tbl1: "table_ok (start_of c) i tbl1"
    using table_ok_put [OF tbl, of i "word_of_int (i - 2)"] v(3) ui(1) by simp
  define h where "h = LZ4_hashPosition m (v_ip v)"
  obtain match low where cand: "LZ4_candidate c (tbl1 h) = (match, low)" by fastforce
  define tbl2 where "tbl2 = LZ4_putIndexOnHash (word_of_int i) h tbl1"
  have tbl2: "table_ok (start_of c) (i + 1) tbl2"
    unfolding tbl2_def by (rule table_ok_put [OF tbl1]) (use v(3) ui(2) in simp_all)
  have rej: "((c_dictIssue c = dictSmall \<longrightarrow> c_prefixIdxLimit c \<le> tbl1 h) \<and> word_of_int i \<le> tbl1 h + 65535
      \<and> LZ4_read32 m match = LZ4_read32 m (c_base c + i)) \<longleftrightarrow> \<not> LZ4_rejected m c (tbl1 h) (word_of_int i) match (c_base c + i)"
    by (auto simp: LZ4_rejected_def not_less)
  define v1 where "v1 = v\<lparr>v_table := tbl2, v_match := match, v_lowLimit := low\<rparr>"
  have eq: "LZ4_test_next m c v =
    (if LZ4_rejected m c (tbl1 h) (word_of_int i) match (c_base c + i)
     then Goto (Main_Loop (LZ4_hashPosition m (v_ip v + 1))) (v1\<lparr>v_ip := v_ip v + 1\<rparr>)
     else Goto Next_Match (v1\<lparr>v_token := length (v_out v), v_out := v_out v @ [0], v_top := max (v_top v) (length (v_out v) + 1),
       v_offset := (if c_dictDirective c = usingExtDict then word_of_int i - tbl1 h else v_offset v)\<rparr>))"
    using rej
    by (simp add: LZ4_test_next_def Let_def LZ4_getIndexOnHash_def v cand tbl2_def v1_def
        flip: tbl1_def [unfolded v(2)] h_def [unfolded v(2)])
  show ?thesis
  proof (cases "LZ4_rejected m c (tbl1 h) (word_of_int i) match (c_base c + i)")
    case True
    with v tbl2 dec show ?thesis by (auto simp: eq v1_def)
  next
    case False
    have ma: "match_at m c i (i + 4) (i - uint (tbl1 h)) match low" "uint (word_of_int i - tbl1 h) = i - uint (tbl1 h)"
      using candidate_match [where tbl = tbl1 and h = h, OF ok tbl1 _ _ cand False] v by simp_all
    have "lz4_token 0 0 = 0" by (simp add: lz4_token_def)
    then show ?thesis
      using v tbl2 dec ma False
      by (simp add: eq v1_def) (intro exI [of _ i] exI [of _ "v_out v"] exI [of _ "i - uint (tbl1 h)"] conjI; simp add: enc_len_def)
  qed
qed

lemma encode_length_out:
  assumes "v_token v = length pre"
    and "v_out v = pre @ lz4_token (length lits) 0 # enc_len (length lits) @ lits @ LZ4_writeLE16 (of_nat off)"
  shows "v_out (LZ4_encode_length n v) = pre @ enc_seq lits off n"
  using assms token_add [of "length lits" n]
  by (simp add: LZ4_encode_length_eq enc_seq_def list_update_append nth_append)

lemma next_match_inv:
  assumes ok: "call_ok c" and h: "hist_ok m c hist" and inv: "block_inv m c hist Next_Match v"
  shows "goto_ok (block_inv m c hist) (last_inv m c hist) (fail_inv c) (LZ4_next_match m c v)"
proof -
  note b = call_ok_bounds [OF ok]
  obtain a i f d pre where v: "v_anchor v = c_base c + a" "v_ip v = c_base c + i" "start_of c \<le> a" "a \<le> i" "i \<le> f"
    and tbl: "table_ok (start_of c) (f + 1) (v_table v)" and ma: "match_at m c i (f + 4) d (v_match v) (v_lowLimit v)"
    and off: "c_dictDirective c = usingExtDict \<longrightarrow> uint (v_offset v) = d" and tok: "v_token v = length pre"
    and out: "v_out v = pre @ lz4_token (nat (i - a)) 0 # enc_len (nat (i - a)) @ mem_bytes m (c_base c + a) (nat (i - a))"
    and dec: "decodes m c hist pre a"
    using inv by auto
  obtain n e where ml: "LZ4_match_length m c (LZ4_encode_offset c v) = (n, e)" by fastforce
  have keep: "v_ip (LZ4_encode_offset c v) = v_ip v" "v_match (LZ4_encode_offset c v) = v_match v"
    "v_lowLimit (LZ4_encode_offset c v) = v_lowLimit v" "v_token (LZ4_encode_offset c v) = v_token v"
    "v_table (LZ4_encode_offset c v) = v_table v"
    by (simp_all add: LZ4_encode_offset_def Let_def)
  have e: "e = c_base c + (i + 4 + int n)" "same m c i (i + 4 + int n) d" "f + 4 \<le> i + 4 + int n" "i + 4 + int n + 5 \<le> idx_end c"
    using match_length_at [OF ok ma _ _ _ ml] keep v by simp_all
  note ma' = ma [unfolded match_at_def]
  define lits where "lits = mem_bytes m (c_base c + a) (nat (i - a))"
  define v1 where "v1 = (LZ4_encode_offset c v)\<lparr>v_ip := e\<rparr>"
  define v2 where "v2 = (LZ4_encode_length n v1)\<lparr>v_anchor := e\<rparr>"
  have v2: "v_out v2 = pre @ enc_seq lits (nat d) n" "v_table v2 = v_table v" "v_ip v2 = e" "v_anchor v2 = e"
    using encode_length_out [of v1 pre lits "nat d" n] tok out encode_offset_eq [OF ma v(2) off]
    by (simp_all add: v1_def v2_def keep lits_def) (simp add: LZ4_encode_length_eq keep)
  have dec2: "decodes m c hist (pre @ enc_seq lits (nat d) n) (i + 4 + int n)"
    unfolding lits_def by (rule decodes_seq [OF dec h ok v(3,4) e(2)]) (use ma' e(4) in simp_all)
  have rest: "table_rest (idx_end c) (v_table v)"
    by (rule table_rest_ok [OF tbl]) (use e v b in simp_all)
  show ?thesis
  proof (cases "length (v_out v1) + 6 + (n + 240) div 255 > c_maxOutputSize c")
    case True
    then have "LZ4_next_match m c v = Return_0 v1"
      unfolding LZ4_next_match_def Let_def ml prod.case v1_def [symmetric] by simp
    with rest show ?thesis by (simp add: fail_inv_def v1_def keep)
  next
    case False
    then have eq: "LZ4_next_match m c v = (if c_mflimitPlusOne c \<le> e then Last_Literals v2 else LZ4_test_next m c v2)"
      unfolding LZ4_next_match_def Let_def ml prod.case v1_def [symmetric] v2_def [symmetric] by simp
    show ?thesis
    proof (cases "c_mflimitPlusOne c \<le> e")
      case True
      with v2 dec2 rest e v show ?thesis
        by (auto simp: eq last_inv_def intro!: exI [of _ "i + 4 + int n"])
    next
      case False
      have "goto_ok (block_inv m c hist) (last_inv m c hist) (fail_inv c) (LZ4_test_next m c v2)"
      proof (rule test_next_inv [OF ok])
        show "table_ok (start_of c) (i + 4 + int n) (v_table v2)"
          using table_ok_mono [OF tbl, of "i + 4 + int n"] e v v2 by simp
      qed (use v2 dec2 e v False in \<open>simp_all add: mflimit_index\<close>)
      with False show ?thesis by (simp add: eq)
    qed
  qed
qed

lemma step_inv:
  assumes "call_ok c" and "hist_ok m c hist" and "block_inv m c hist l v"
  shows "goto_ok (block_inv m c hist) (last_inv m c hist) (fail_inv c) (LZ4_step m c l v)"
  using assms by (cases l) (simp_all only: LZ4_step.simps search_inv next_match_inv)

lemma last_literals_inv:
  assumes "last_inv m c hist v"
  shows "case LZ4_last_literals m c v of (r, v) \<Rightarrow>
    table_rest (idx_end c) (v_table v) \<and> (r \<noteq> 0 \<longrightarrow> encodes (v_out v) hist (block_window m c hist))"
proof -
  obtain a where a: "v_anchor v = c_base c + a" "start_of c \<le> a" "a \<le> idx_end c" "table_rest (idx_end c) (v_table v)"
    "decodes m c hist (v_out v) a" "a + 5 \<le> idx_end c \<or> v_out v = [] \<and> a = start_of c"
    using assms by (auto simp: last_inv_def)
  have "nat (idx_end c - a) = nat (c_iend c - v_anchor v)"
    using a by (simp add: c_iend_def c_base_def idx_end_def)
  then show ?thesis
    using a decodes_last [OF a(5,2,3,6)] by (auto simp: LZ4_last_literals_eq)
qed

lemma main_decodes:
  assumes "call_ok c" and "hist_ok m c hist" and "block_inv m c hist l v"
  shows "case LZ4_main m c l v of (r, v) \<Rightarrow>
    table_rest (idx_end c) (v_table v) \<and> (r \<noteq> 0 \<longrightarrow> encodes (v_out v) hist (block_window m c hist))"
  by (rule LZ4_main_rule [where P = "\<lambda>(r, v). table_rest (idx_end c) (v_table v)
        \<and> (r \<noteq> 0 \<longrightarrow> encodes (v_out v) hist (block_window m c hist))",
        OF assms(3) step_inv [OF assms(1,2)] last_literals_inv])
    (simp_all add: fail_inv_def)

lemma LZ4_run_decodes:
  assumes ok: "call_ok c" and h: "hist_ok m c hist" and tbl: "table_rest (start_of c) tbl"
  shows "case LZ4_run m c tbl of (r, v) \<Rightarrow>
    table_rest (idx_end c) (v_table v) \<and> (r \<noteq> 0 \<longrightarrow> encodes (v_out v) hist (block_window m c hist))"
proof (cases "c_inputSize c < 13")
  case True
  have "last_inv m c hist (LZ4_init_vars c tbl)"
    unfolding last_inv_def
    using tbl call_ok_bounds [OF ok]
    by (intro exI [of _ "start_of c"]) (force simp: LZ4_init_vars_def c_base_def decodes_Nil table_rest_def)
  from last_literals_inv [OF this] True show ?thesis by (simp add: LZ4_run_def)
next
  case False
  define tbl1 where "tbl1 = LZ4_putPosition m (c_source c) tbl (c_base c)"
  have "tbl1 = LZ4_putIndexOnHash (c_startIndex c) (LZ4_hashPosition m (c_source c)) tbl"
    by (simp add: tbl1_def LZ4_putPosition_def LZ4_putPositionOnHash_def LZ4_putIndexOnHash_def c_base_def)
  then have "table_ok (start_of c) (start_of c + 1) tbl1"
    using table_ok_put [OF table_ok_rest [OF tbl], of "start_of c" "start_of c + 1" "c_startIndex c"] by simp
  then have "block_inv m c hist (Main_Loop h) ((LZ4_init_vars c tbl)\<lparr>v_table := tbl1, v_ip := c_source c + 1\<rparr>)" for h
    unfolding block_inv.simps using False
    by (intro exI [of _ "start_of c"]) (simp add: LZ4_init_vars_def c_base_def decodes_Nil idx_end_def)
  from main_decodes [OF ok h this] False show ?thesis
    by (simp add: LZ4_run_def Let_def flip: tbl1_def)
qed

end
