(* ===== verification/Lz4_Stream_Correct.thy ===== *)
theory Lz4_Stream_Correct
  imports Lz4_Correct Lz4_Stream
begin

text \<open>
  A stream of blocks is correct: its invariant survives resets, rescaling of the table, blocks
  compressed behind or apart from their dictionary, and the saving of the dictionary, and every
  block it compresses decodes behind the whole history.
\<close>

section \<open>The invariant of a stream\<close>

definition stream_ok :: "LZ4_stream \<Rightarrow> bool" where
  "stream_ok s \<longleftrightarrow>
     table_rest (uint (currentOffset s)) (hashTable s) \<and> dictSize s \<le> currentOffset s
     \<and> currentOffset s \<le> 2147483648 \<and> dictCtx s = 0 \<and> (dictSize s \<noteq> 0 \<longrightarrow> 0 < dictionary s)
     \<and> (tableType s = byU32 \<or> tableType s = clearedTable \<and> currentOffset s = 0)"

text \<open>The dictionary of the stream, as memory has it, is the end of the history.\<close>

definition dict_ok :: "memory \<Rightarrow> LZ4_stream \<Rightarrow> bytes \<Rightarrow> bool" where
  "dict_ok m s hist \<longleftrightarrow> unat (dictSize s) \<le> length hist
     \<and> drop (length hist - unat (dictSize s)) hist = mem_bytes m (dictionary s) (unat (dictSize s))"

lemma dict_ok_shrink:
  assumes "dict_ok m s hist" and "k \<le> unat (dictSize s)"
  shows "drop (length hist - k) hist = mem_bytes m (dictionary s + uint (dictSize s) - int k) k"
proof -
  define n where "n = unat (dictSize s)"
  have n: "n \<le> length hist" "drop (length hist - n) hist = mem_bytes m (dictionary s) n" "int n = uint (dictSize s)"
    using assms(1) by (simp_all add: dict_ok_def n_def)
  have "drop (length hist - k) hist = drop (n - k) (drop (length hist - n) hist)"
    using n(1) assms(2) by (simp add: n_def)
  also have "\<dots> = drop (n - k) (mem_bytes m (dictionary s) ((n - k) + k))"
    using assms(2) n(2) by (simp add: n_def)
  also have "\<dots> = mem_bytes m (dictionary s + int (n - k)) k" unfolding mem_bytes_add by simp
  also have "dictionary s + int (n - k) = dictionary s + uint (dictSize s) - int k"
    using assms(2) n(3) by (simp add: n_def of_nat_diff)
  finally show ?thesis .
qed

lemma stream_ok_init: "stream_ok LZ4_initStream"
  by (simp add: stream_ok_def LZ4_initStream_def table_rest_def)

lemma table_rest_mono: "table_rest a tbl \<Longrightarrow> a \<le> b \<Longrightarrow> table_rest b tbl"
  by (force simp: table_rest_def)

lemma stream_ok_reset: "stream_ok s \<Longrightarrow> stream_ok (LZ4_resetStream_fast s)"
proof -
  assume ok: "stream_ok s"
  show ?thesis
  proof (cases "tableType s = byU32 \<and> currentOffset s > 1073741824")
    case True
    then show ?thesis
      by (simp add: stream_ok_def LZ4_resetStream_fast_def LZ4_prepareTable_def Let_def table_rest_def)
  next
    case False
    have le: "uint (currentOffset s) \<le> 1073741824"
      using False ok by (auto simp: stream_ok_def not_less word_le_def)
    then have add: "uint (currentOffset s + 65536) = uint (currentOffset s) + 65536"
      by (simp add: uint_word_ariths)
    then have "table_rest (uint (currentOffset s + 65536)) (hashTable s)"
      using ok table_rest_mono [of "uint (currentOffset s)" "hashTable s"] by (simp add: stream_ok_def)
    moreover have "currentOffset s + 65536 \<le> 2147483648" using le add by (simp add: word_le_def)
    ultimately show ?thesis
      using False ok
      by (auto simp: stream_ok_def LZ4_resetStream_fast_def LZ4_prepareTable_def Let_def KB64_def)
  qed
qed

lemma dict_ok_reset: "dict_ok m (LZ4_resetStream_fast s) hist"
  by (simp add: dict_ok_def LZ4_resetStream_fast_def LZ4_prepareTable_def Let_def)

section \<open>Rescaling\<close>

lemma renorm_ok:
  assumes ok: "stream_ok s" and d: "dict_ok m s hist" and n: "n \<le> LZ4_MAX_INPUT_SIZE"
  shows "stream_ok (LZ4_renormDictT s n)" and "dict_ok m (LZ4_renormDictT s n) hist"
    and "unat (currentOffset (LZ4_renormDictT s n)) + n \<le> 2147483648"
    and "dictionary (LZ4_renormDictT s n) + uint (dictSize (LZ4_renormDictT s n)) = dictionary s + uint (dictSize s)"
    and "dictSize (LZ4_renormDictT s n) \<le> dictSize s"
proof -
  have C: "unat (currentOffset s) \<le> 2147483648" using ok by (simp add: stream_ok_def word_le_nat_alt)
  have sum: "unat (currentOffset s + of_nat n) = unat (currentOffset s) + n"
    using C n by (simp add: unat_word_ariths unsigned_of_nat take_bit_eq_mod LZ4_MAX_INPUT_SIZE_def)
  let ?t = "LZ4_renormDictT s n"
  have "stream_ok ?t \<and> dict_ok m ?t hist \<and> unat (currentOffset ?t) + n \<le> 2147483648
    \<and> dictionary ?t + uint (dictSize ?t) = dictionary s + uint (dictSize s) \<and> dictSize ?t \<le> dictSize s"
  proof (cases "currentOffset s + of_nat n > 0x80000000")
    case False
    then have "?t = s" by (simp add: LZ4_renormDictT_def)
    moreover have "unat (currentOffset s) + n \<le> 2147483648" using False sum by (simp add: not_less word_le_nat_alt)
    ultimately show ?thesis using ok d by simp
  next
    case True
    then have big: "2147483648 < unat (currentOffset s) + n" using sum by (simp add: word_less_nat_alt)
    define k where "k = (if dictSize s > 65536 then 65536 else dictSize s)"
    have t: "?t = s\<lparr>hashTable := (\<lambda>i. if hashTable s i < currentOffset s - 65536 then 0 else hashTable s i - (currentOffset s - 65536)),
        currentOffset := 65536, dictSize := k, dictionary := dictionary s + uint (dictSize s) - uint k\<rparr>"
      using True by (simp add: LZ4_renormDictT_def Let_def KB64_def k_def)
    have k: "k \<le> dictSize s" "k \<le> 65536" by (auto simp: k_def)
    have big': "65536 \<le> currentOffset s" using big n by (simp add: word_le_nat_alt LZ4_MAX_INPUT_SIZE_def)
    have delta: "uint (currentOffset s - 65536) = uint (currentOffset s) - 65536"
      using index_diff [OF big'] by simp
    have "table_rest 65536 (hashTable ?t)"
      unfolding table_rest_def
    proof
      fix h
      have "hashTable s h = 0 \<or> uint (hashTable s h) + 4 \<le> uint (currentOffset s)"
        using ok by (simp add: stream_ok_def table_rest_def)
      then show "hashTable ?t h = 0 \<or> uint (hashTable ?t h) + 4 \<le> 65536"
        using index_diff [of "currentOffset s - 65536" "hashTable s h"] delta
        by (auto simp: t not_less)
    qed
    moreover have "unat k \<le> unat (dictSize s)" using k(1) by (simp add: word_le_nat_alt)
    moreover note dict_ok_shrink [OF d this]
    moreover have "tableType s = byU32"
      using ok big n by (auto simp: stream_ok_def LZ4_MAX_INPUT_SIZE_def)
    moreover have "0 < dictionary s + uint (dictSize s) - uint k" if "k \<noteq> 0"
    proof -
      have "dictSize s \<noteq> 0" using that k(1) by auto
      then have "0 < dictionary s" using ok by (simp add: stream_ok_def)
      with k(1) show ?thesis by (simp add: word_le_def)
    qed
    ultimately show ?thesis
      using ok d k n by (simp add: t stream_ok_def dict_ok_def LZ4_MAX_INPUT_SIZE_def)
  qed
  then show "stream_ok ?t" "dict_ok m ?t hist" "unat (currentOffset ?t) + n \<le> 2147483648"
    "dictionary ?t + uint (dictSize ?t) = dictionary s + uint (dictSize s)" "dictSize ?t \<le> dictSize s" by simp_all
qed

section \<open>One block of a stream\<close>

text \<open>The source lies apart from the dictionary, or directly behind it.\<close>

definition apart :: "LZ4_stream \<Rightarrow> int \<Rightarrow> nat \<Rightarrow> bool" where
  "apart s source n \<longleftrightarrow> 0 < source
     \<and> (dictSize s = 0 \<or> dictionary s + uint (dictSize s) \<le> source \<or> source + int n \<le> dictionary s)"

lemma overlap_apart: "apart s source n \<Longrightarrow> 0 < n \<Longrightarrow> LZ4_overlap s source n = s"
  by (auto simp: apart_def LZ4_overlap_def Let_def)

lemma append_dict:
  assumes "dict_ok m s hist" and "dictionary s + uint (dictSize s) = source"
  shows "drop (length (hist @ mem_bytes m source n) - (unat (dictSize s) + n)) (hist @ mem_bytes m source n)
    = mem_bytes m (dictionary s) (unat (dictSize s) + n)"
  using assms by (auto simp: dict_ok_def mem_bytes_add)

definition block_result :: "memory \<Rightarrow> bytes \<Rightarrow> int \<Rightarrow> nat \<Rightarrow> nat \<Rightarrow> lz4_result \<Rightarrow> bool" where
  "block_result m hist source n cap r \<longleftrightarrow>
     stream_ok (r_stream r) \<and> dict_ok m (r_stream r) (hist @ mem_bytes m source n)
     \<and> dictSize (r_stream r) \<noteq> 0 \<and> tableType (r_stream r) = byU32
     \<and> dictionary (r_stream r) + uint (dictSize (r_stream r)) = source + int n
     \<and> r_result r \<le> r_top r \<and> r_top r \<le> cap
     \<and> (r_result r \<noteq> 0 \<longrightarrow> r_result r = length (r_out r)
          \<and> encodes (r_out r) hist (hist @ mem_bytes m source n))"

lemma generic_block:
  assumes ok: "stream_ok s" and d: "dict_ok m s hist" and n: "0 < n" "n \<le> LZ4_MAX_INPUT_SIZE"
    and fit: "unat (currentOffset s) + n \<le> 2147483648"
    and c: "call_ok (LZ4_call_of s source n cap dd (LZ4_dict_issue s) a)"
    and r: "r = LZ4_compress_generic m s source n cap dd (LZ4_dict_issue s) a"
  shows "table_rest (uint (currentOffset (r_stream r))) (hashTable (r_stream r))"
    and "currentOffset (r_stream r) = currentOffset s + of_nat n" and "dictSize (r_stream r) = dictSize s + of_nat n"
    and "dictionary (r_stream r) = dictionary s" and "dictCtx (r_stream r) = 0" and "tableType (r_stream r) = byU32"
    and "r_result r \<noteq> 0 \<longrightarrow> encodes (r_out r) hist (hist @ mem_bytes m source n)"
proof -
  let ?c = "LZ4_call_of s source n cap dd (LZ4_dict_issue s) a"
  obtain k v where run: "LZ4_run m ?c (hashTable s) = (k, v)" by fastforce
  have h: "hist_ok m ?c hist" using d by (simp add: hist_ok_def dict_ok_def LZ4_call_of_def)
  have "table_rest (start_of ?c) (hashTable s)" using ok by (simp add: stream_ok_def LZ4_call_of_def)
  note LZ4_run_decodes [OF c h this]
  then have kv: "table_rest (idx_end ?c) (v_table v)"
    "k \<noteq> 0 \<longrightarrow> encodes (v_out v) hist (block_window m ?c hist)"
    by (simp_all add: run)
  have r': "r = \<lparr>r_result = k, r_out = v_out v, r_top = v_top v,
      r_stream = s\<lparr>dictSize := dictSize s + of_nat n, currentOffset := currentOffset s + of_nat n,
        tableType := byU32, hashTable := v_table v\<rparr>\<rparr>"
    using n run by (simp add: r LZ4_compress_generic_def LZ4_compress_generic_validated_def Let_def)
  have "uint (currentOffset s) + int n \<le> 2147483648"
    using fit by (metis of_nat_add of_nat_le_iff of_nat_numeral uint_nat)
  then have "idx_end ?c = uint (currentOffset s + of_nat n)"
    using fit n by (simp add: idx_end_def LZ4_call_of_def LZ4_MAX_INPUT_SIZE_def uint_word_ariths unsigned_of_nat take_bit_eq_mod)
  with kv ok show "table_rest (uint (currentOffset (r_stream r))) (hashTable (r_stream r))"
    "currentOffset (r_stream r) = currentOffset s + of_nat n" "dictSize (r_stream r) = dictSize s + of_nat n"
    "dictionary (r_stream r) = dictionary s" "dictCtx (r_stream r) = 0" "tableType (r_stream r) = byU32"
    "r_result r \<noteq> 0 \<longrightarrow> encodes (r_out r) hist (hist @ mem_bytes m source n)"
    by (simp_all add: r' stream_ok_def block_window_def LZ4_call_of_def)
qed

lemma tiny_iff: "(x :: u32) - 1 < 3 \<longleftrightarrow> x \<noteq> 0 \<and> x < 4"
proof (cases "x = 0")
  case False
  then have "unat (x - 1) = unat x - 1" by (simp add: unat_minus_one)
  moreover have "unat x \<noteq> 0" using False by (simp add: unat_eq_0)
  ultimately show ?thesis using False by (auto simp: word_less_nat_alt)
qed simp

lemma unat_add_small:
  assumes "unat (x :: u32) + n \<le> 2147483648"
  shows "unat (x + of_nat n) = unat x + n" "uint (x + of_nat n) = uint x + int n"
proof -
  show 1: "unat (x + of_nat n) = unat x + n"
    using assms by (simp add: unat_word_ariths unsigned_of_nat take_bit_eq_mod)
  show "uint (x + of_nat n) = uint x + int n" by (metis 1 of_nat_add uint_nat)
qed

lemma fast_continue_block:
  assumes ok: "stream_ok s" and d: "dict_ok m s hist" and n: "0 < n" "n \<le> LZ4_MAX_INPUT_SIZE"
    and ap: "apart s source n"
  shows "\<exists>r. LZ4_compress_fast_continue m s source n cap accel = Inr r \<and> block_result m hist source n cap r"
proof -
  define s1 where "s1 = LZ4_renormDictT s n"
  note s1 = renorm_ok [OF ok d n(2), folded s1_def]
  define s2 where "s2 = LZ4_invalidate_tiny s1 source"
  have ap1: "apart s1 source n"
  proof -
    have "uint (dictSize s1) \<le> uint (dictSize s)" using s1(5) by (simp add: word_le_def)
    then show ?thesis using ap s1(4,5) by (auto simp: apart_def)
  qed
  have s2: "stream_ok s2" "dict_ok m s2 hist" "unat (currentOffset s2) + n \<le> 2147483648" "apart s2 source n"
    "dictSize s2 = 0 \<or> 4 \<le> dictSize s2 \<or> dictionary s2 + uint (dictSize s2) = source"
    using s1(1-3) ap1
    by (auto simp: s2_def LZ4_invalidate_tiny_def stream_ok_def dict_ok_def apart_def tiny_iff not_less)
  have s3: "LZ4_overlap s2 source n = s2" using s2(4) n(1) by (rule overlap_apart)
  define a where "a = LZ4_clamp_acceleration accel"
  have a: "1 \<le> a" by (auto simp: a_def LZ4_clamp_acceleration_def Suc_le_eq)
  have issue: "LZ4_dict_issue s2 = dictSmall \<or> dictSize s2 = currentOffset s2 \<or> 65536 \<le> dictSize s2"
    using s2(1) by (auto simp: LZ4_dict_issue_def stream_ok_def KB64_def not_less intro: antisym)
  have le: "unat (dictSize s2) \<le> unat (currentOffset s2)"
    using s2(1) by (simp add: stream_ok_def word_le_nat_alt)
  note C = unat_add_small [OF s2(3)]
  have D: "unat (dictSize s2 + of_nat n) = unat (dictSize s2) + n" "uint (dictSize s2 + of_nat n) = uint (dictSize s2) + int n"
    using unat_add_small [of "dictSize s2" n] le s2(3) by simp_all
  have small: "unat (of_nat n :: u32) = n" "uint (of_nat n :: u32) = int n"
    using unat_add_small [of 0 n] n by (simp_all add: LZ4_MAX_INPUT_SIZE_def)
  have W: "currentOffset s2 + of_nat n \<le> 2147483648" "dictSize s2 + of_nat n \<le> currentOffset s2 + of_nat n"
    "of_nat n \<le> currentOffset s2 + of_nat n" "(of_nat n :: u32) \<noteq> 0"
    unfolding word_le_nat_alt C D small using s2(3) le n small(1) by auto
  show ?thesis
  proof (cases "dictionary s2 + uint (dictSize s2) = source")
    case True
    define r where "r = LZ4_compress_generic m s2 source n cap withPrefix64k (LZ4_dict_issue s2) a"
    have c: "call_ok (LZ4_call_of s2 source n cap withPrefix64k (LZ4_dict_issue s2) a)"
      using s2 n a issue True by (simp add: call_ok_def LZ4_call_of_def stream_ok_def)
    note g = generic_block [OF s2(1,2) n s2(3) c r_def] LZ4_compress_generic_out [OF r_def]
    have "LZ4_compress_fast_continue m s source n cap accel = Inr r"
      using True by (simp add: LZ4_compress_fast_continue_def Let_def s3 r_def a_def flip: s1_def s2_def)
    moreover have pos: "0 < dictionary s2"
      using s2(1,4) True by (cases "dictSize s2 = 0") (auto simp: stream_ok_def apart_def)
    have nz: "dictSize s2 + of_nat n \<noteq> 0" using D(1) n(1) by (metis add_is_0 gr_implies_not0 unat_0)
    have "block_result m hist source n cap r"
      using pos nz g D W append_dict [OF s2(2) True, of n] True s2(2)
      by (simp add: block_result_def stream_ok_def dict_ok_def algebra_simps)
    ultimately show ?thesis by blast
  next
    case False
    define r where "r = LZ4_compress_generic m s2 source n cap usingExtDict (LZ4_dict_issue s2) a"
    have c: "call_ok (LZ4_call_of s2 source n cap usingExtDict (LZ4_dict_issue s2) a)"
      using s2 n a issue False by (auto simp: call_ok_def LZ4_call_of_def stream_ok_def apart_def)
    note g = generic_block [OF s2(1,2) n s2(3) c r_def] LZ4_compress_generic_out [OF r_def]
    define r' where "r' = r\<lparr>r_stream := (r_stream r)\<lparr>dictionary := source, dictSize := of_nat n\<rparr>\<rparr>"
    have "LZ4_compress_fast_continue m s source n cap accel = Inr r'"
      using False s2(1) by (simp add: LZ4_compress_fast_continue_def Let_def s3 r'_def r_def a_def stream_ok_def flip: s1_def s2_def)
    moreover have "block_result m hist source n cap r'"
      using g small W s2(4)
      by (simp add: block_result_def stream_ok_def dict_ok_def r'_def apart_def)
    ultimately show ?thesis by blast
  qed
qed

section \<open>Saving the dictionary\<close>

lemma saveDict_ok:
  assumes ok: "stream_ok s" and d: "dict_ok m s hist" and buf: "0 < buf"
    and sv: "LZ4_saveDict m s buf lim = (m1, s1, k)"
  shows "k = min (min lim 65536) (unat (dictSize s))" and "stream_ok s1" and "dict_ok m1 s1 hist"
    and "dictionary s1 = buf" and "unat (dictSize s1) = k" and "tableType s1 = tableType s"
    and "\<And>p. p < buf \<or> buf + int k \<le> p \<Longrightarrow> m1 p = m p"
proof -
  have k: "k = min (min lim 65536) (unat (dictSize s))" and s1: "s1 = s\<lparr>dictionary := buf, dictSize := of_nat k\<rparr>"
    and m1: "m1 = (if k > 0 then memmove m buf (dictionary s + uint (dictSize s) - int k) k else m)"
    using sv by (auto simp: LZ4_saveDict_def Let_def)
  then have le: "k \<le> unat (dictSize s)" by simp
  have uk: "unat (of_nat k :: u32) = k"
    by (simp add: unsigned_of_nat take_bit_eq_mod le_less_trans [OF le unat_less_2p32])
  have "mem_bytes m1 buf k = mem_bytes m (dictionary s + uint (dictSize s) - int k) k"
    by (rule nth_equalityI) (auto simp: m1 memmove_def)
  then have "dict_ok m1 s1 hist"
    using dict_ok_shrink [OF d le] d le uk by (simp add: dict_ok_def s1)
  moreover have "stream_ok s1"
    using ok le uk buf by (auto simp: stream_ok_def s1 word_le_nat_alt)
  ultimately show "k = min (min lim 65536) (unat (dictSize s))" "stream_ok s1" "dict_ok m1 s1 hist"
    "dictionary s1 = buf" "unat (dictSize s1) = k" "tableType s1 = tableType s"
    "\<And>p. p < buf \<or> buf + int k \<le> p \<Longrightarrow> m1 p = m p"
    using k uk by (auto simp: s1 m1 memmove_def)
qed

end
