(* ===== verification/Lz4_Frame_Spec.thy ===== *)
theory Lz4_Frame_Spec
  imports Lz4_Frame Lz4_Stream_Correct
begin

text \<open>
  The meaning of an LZ4 frame, against which the frame layer is proved: its header as the
  code reads it, its blocks, its end mark and checksums. Then the contract between the frame
  layer and the block compressor it calls through a pointer, kept by the streaming compressor,
  and the round trip of a header.
\<close>

section \<open>What a frame means\<close>

text \<open>
  The blocks of a frame behind the output \<open>out\<close> produced so far: a size word of zero ends the
  frame, its top bit marks a stored block; checksums are verified where the frame has them. No
  block is larger than the frame's maximum, packed or not; a packed one keeps the restrictions
  at the end of a block, and linked ones refer to the output before them. Nothing may follow the
  frame.
\<close>

definition block_max :: "LZ4F_preferences \<Rightarrow> nat" where
  "block_max p = unat (LZ4F_getBlockSize (blockSizeID p))"

definition lz4f_finish :: "LZ4F_preferences \<Rightarrow> bytes \<Rightarrow> bytes \<Rightarrow> bytes option" where
  "lz4f_finish p bs out =
     (if contentSize p \<noteq> 0 \<and> contentSize p \<noteq> of_nat (length out) then None
      else if contentChecksumFlag p
      then (if length bs = 4 \<and> LZ4F_readLE32 bs = XXH32 out 0 then Some out else None)
      else if bs = [] then Some out else None)"

definition lz4f_body :: "LZ4F_preferences \<Rightarrow> bool \<Rightarrow> bytes \<Rightarrow> bytes \<Rightarrow> bytes option" where
  "lz4f_body p stored body out =
     (let hist = (if blockMode p = LZ4F_blockLinked then out else []) in
      if length body > block_max p then None
      else if stored then Some (out @ body)
      else case lz4_decode body hist of
          None \<Rightarrow> None
        | Some W \<Rightarrow>
            (if length W \<le> length hist + block_max p \<and> lz4_strict (length W) body hist
             then Some (out @ drop (length hist) W) else None))"

function lz4f_blocks :: "LZ4F_preferences \<Rightarrow> bytes \<Rightarrow> bytes \<Rightarrow> bytes option" where
  "lz4f_blocks p bs out =
     (if length bs < 4 then None
      else
        let h = LZ4F_readLE32 bs;
            n = unat (h AND 0x7FFFFFFF);
            crc = (if blockChecksumFlag p then 4 else 0);
            body = take n (drop 4 bs)
        in if h = 0 then lz4f_finish p (drop 4 bs) out
           else if length bs < 4 + n + crc then None
           else if blockChecksumFlag p \<and> LZ4F_readLE32 (drop (4 + n) bs) \<noteq> XXH32 body 0 then None
           else (case lz4f_body p (LZ4F_BLOCKUNCOMPRESSED_FLAG \<le> h) body out of
                   None \<Rightarrow> None
                 | Some out1 \<Rightarrow> lz4f_blocks p (drop (4 + n + crc) bs) out1))"
  by pat_completeness auto
termination by (relation "measure (\<lambda>(p, bs, out). length bs)") auto

declare lz4f_blocks.simps [simp del]

definition lz4f_decode :: "bytes \<Rightarrow> bytes option" where
  "lz4f_decode bs =
     (case LZ4F_decodeHeader bs of
        Frame_Header p n \<Rightarrow> lz4f_blocks p (drop n bs) []
      | _ \<Rightarrow> None)"

section \<open>One block\<close>

lemma length_writeLE32 [simp]: "length (LZ4F_writeLE32 x) = 4"
  by (rule le32.enc_length)

lemma length_writeLE64 [simp]: "length (LZ4F_writeLE64 x) = 8"
  by (rule le64.enc_length)

lemma lz4f_blocks_block:
  assumes "h \<noteq> 0" and "unat (h AND 0x7FFFFFFF) = length body"
    and "lz4f_body p (LZ4F_BLOCKUNCOMPRESSED_FLAG \<le> h) body out = Some out1"
  shows "lz4f_blocks p (LZ4F_writeLE32 h @ body @ (if blockChecksumFlag p then LZ4F_writeLE32 (XXH32 body 0) else []) @ rest) out
    = lz4f_blocks p rest out1"
proof -
  have "drop (4 + n) (LZ4F_writeLE32 h @ xs) = drop n xs" for n xs
    using le32.drop_enc [of h xs] by (metis add.commute drop_drop)
  then show ?thesis
    using assms by (subst lz4f_blocks.simps) (simp add: Let_def le32.dec_enc le32.drop_enc add.assoc)
qed

lemma lz4f_blocks_end: "lz4f_blocks p (LZ4F_writeLE32 0 @ rest) out = lz4f_finish p rest out"
  by (subst lz4f_blocks.simps) (simp add: Let_def le32.dec_enc le32.drop_enc)

lemma unat_or_flag:
  assumes "n < 2147483648"
  shows "unat (of_nat n OR LZ4F_BLOCKUNCOMPRESSED_FLAG :: u32) = n + 2147483648"
proof -
  have small: "unat (of_nat n :: u32) = n" using assms by (simp add: unsigned_of_nat take_bit_eq_mod)
  have flag: "LZ4F_BLOCKUNCOMPRESSED_FLAG = push_bit 31 1" by (simp add: LZ4F_BLOCKUNCOMPRESSED_FLAG_def)
  have low: "take_bit 31 (of_nat n :: u32) = of_nat n"
    using assms small by (simp add: word_unat_eq_iff take_bit_eq_mod unat_mod_distrib)
  have "\<not> bit (of_nat n :: u32) 31" by (subst low [symmetric]) (simp add: bit_take_bit_iff)
  moreover have "bit LZ4F_BLOCKUNCOMPRESSED_FLAG k \<longleftrightarrow> k = 31" for k
    unfolding flag by (auto simp only: bit_push_bit_iff bit_1_iff possible_bit_word) simp
  ultimately have "\<not> bit (of_nat n :: u32) k \<or> \<not> bit LZ4F_BLOCKUNCOMPRESSED_FLAG k" for k by metis
  from disjunctive_add [OF this]
  have "of_nat n OR LZ4F_BLOCKUNCOMPRESSED_FLAG = of_nat n + (LZ4F_BLOCKUNCOMPRESSED_FLAG :: u32)" by simp
  then show ?thesis
    using assms small by (simp add: LZ4F_BLOCKUNCOMPRESSED_FLAG_def unat_word_ariths)
qed

lemma and_7F: "unat (x AND 0x7FFFFFFF :: u32) = unat x mod 2147483648"
proof -
  have "x AND 0x7FFFFFFF = take_bit 31 x" by (simp add: take_bit_eq_mask mask_eq_exp_minus_1)
  then show ?thesis by (simp add: take_bit_eq_mod unat_mod_distrib)
qed

lemma raw_size:
  assumes "n < 2147483648"
  shows "unat ((of_nat n OR LZ4F_BLOCKUNCOMPRESSED_FLAG) AND 0x7FFFFFFF) = n"
    and "LZ4F_BLOCKUNCOMPRESSED_FLAG \<le> of_nat n OR LZ4F_BLOCKUNCOMPRESSED_FLAG"
    and "of_nat n OR LZ4F_BLOCKUNCOMPRESSED_FLAG \<noteq> (0 :: u32)"
proof -
  note f = unat_or_flag [OF assms]
  show "unat ((of_nat n OR LZ4F_BLOCKUNCOMPRESSED_FLAG) AND 0x7FFFFFFF) = n"
    using assms by (simp add: and_7F f)
  have "unat LZ4F_BLOCKUNCOMPRESSED_FLAG = 2147483648" by (simp add: LZ4F_BLOCKUNCOMPRESSED_FLAG_def)
  with f show "LZ4F_BLOCKUNCOMPRESSED_FLAG \<le> of_nat n OR LZ4F_BLOCKUNCOMPRESSED_FLAG"
    by (simp add: word_le_nat_alt)
  show "of_nat n OR LZ4F_BLOCKUNCOMPRESSED_FLAG \<noteq> (0 :: u32)"
    using f by (metis add_is_0 unat_0 zero_neq_numeral)
qed

lemma packed_size:
  assumes "n < 2147483648"
  shows "unat ((of_nat n :: u32) AND 0x7FFFFFFF) = n" and "\<not> LZ4F_BLOCKUNCOMPRESSED_FLAG \<le> of_nat n"
proof -
  have small: "unat (of_nat n :: u32) = n" using assms by (simp add: unsigned_of_nat take_bit_eq_mod)
  then show "unat ((of_nat n :: u32) AND 0x7FFFFFFF) = n" using assms by (simp add: and_7F)
  show "\<not> LZ4F_BLOCKUNCOMPRESSED_FLAG \<le> of_nat n"
    using assms small by (simp add: LZ4F_BLOCKUNCOMPRESSED_FLAG_def word_le_nat_alt)
qed

section \<open>The contract of a block compressor\<close>

text \<open>
  \<open>LZ4F_makeBlock\<close> calls the compressor through a pointer. What it relies on: a block the
  compressor reports decodes behind the history, and the state it leaves holds the longer
  history. \<open>ends\<close> is the address just behind the last source, from which the next block may
  go on.
\<close>

locale block_compressor =
  fixes compress :: compressFunc
    and inv :: "memory \<Rightarrow> LZ4_stream \<Rightarrow> bytes \<Rightarrow> bool"
    and fits :: "LZ4_stream \<Rightarrow> int \<Rightarrow> nat \<Rightarrow> bool"
    and ends :: "LZ4_stream \<Rightarrow> int"
  assumes compress_block:
    "inv m s hist \<Longrightarrow> fits s src n \<Longrightarrow> 0 < n \<Longrightarrow> n \<le> LZ4_MAX_INPUT_SIZE \<Longrightarrow>
     \<exists>r. compress m s src n cap level = Inr r \<and> inv m (r_stream r) (hist @ mem_bytes m src n)
       \<and> ends (r_stream r) = src + int n
       \<and> (r_result r \<noteq> 0 \<longrightarrow> r_result r = length (r_out r) \<and> r_result r \<le> cap
            \<and> encodes (r_out r) hist (hist @ mem_bytes m src n))"
    and fits_next: "0 < src \<Longrightarrow> ends s = src \<Longrightarrow> fits s src n"
begin

lemma makeBlock:
  assumes "inv m s hist" and "fits s src n" and "0 < n" and "n \<le> LZ4_MAX_INPUT_SIZE"
    and "n \<le> block_max p" and "blockMode p = LZ4F_blockLinked"
  shows "\<exists>out s1. LZ4F_makeBlock m src n compress s level (blockChecksumFlag p) = Inr (out, s1)
    \<and> inv m s1 (hist @ mem_bytes m src n) \<and> ends s1 = src + int n
    \<and> length out \<le> n + 4 + (if blockChecksumFlag p then 4 else 0)
    \<and> (\<forall>rest. lz4f_blocks p (out @ rest) hist = lz4f_blocks p rest (hist @ mem_bytes m src n))"
proof -
  obtain r where r: "compress m s src n (n - 1) level = Inr r" "inv m (r_stream r) (hist @ mem_bytes m src n)"
    "ends (r_stream r) = src + int n"
    "r_result r \<noteq> 0 \<longrightarrow> r_result r = length (r_out r) \<and> r_result r \<le> n - 1
       \<and> encodes (r_out r) hist (hist @ mem_bytes m src n)"
    using compress_block [OF assms(1-4)] by blast
  have n: "n < 2147483648" using assms(4) by (simp add: LZ4_MAX_INPUT_SIZE_def)
  define h where "h = (if r_result r = 0 then of_nat n OR LZ4F_BLOCKUNCOMPRESSED_FLAG else of_nat (r_result r) :: u32)"
  define body where "body = (if r_result r = 0 then mem_bytes m src n else r_out r)"
  have out: "LZ4F_makeBlock m src n compress s level (blockChecksumFlag p)
    = Inr (LZ4F_writeLE32 h @ body @ (if blockChecksumFlag p then LZ4F_writeLE32 (XXH32 body 0) else []), r_stream r)"
    using r(1) by (simp add: LZ4F_makeBlock_def h_def body_def)
  have "lz4f_blocks p (LZ4F_writeLE32 h @ body @ (if blockChecksumFlag p then LZ4F_writeLE32 (XXH32 body 0) else []) @ rest) hist
    = lz4f_blocks p rest (hist @ mem_bytes m src n)" for rest
  proof (rule lz4f_blocks_block)
    have k: "length (r_out r) < 2147483648" "(of_nat (length (r_out r)) :: u32) \<noteq> 0" if "r_result r \<noteq> 0"
    proof -
      show small: "length (r_out r) < 2147483648" using r(4) that n by linarith
      have "unat (of_nat (length (r_out r)) :: u32) = length (r_out r)"
        using small by (simp add: unsigned_of_nat take_bit_eq_mod)
      then show "(of_nat (length (r_out r)) :: u32) \<noteq> 0" using r(4) that by (metis unat_0)
    qed
    show "h \<noteq> 0" using k(2) raw_size(3) [OF n] r(4) by (auto simp: h_def)
    show "unat (h AND 0x7FFFFFFF) = length body"
      using k(1) raw_size(1) [OF n] packed_size(1) [of "r_result r"] r(4)
      by (cases "r_result r = 0") (simp_all add: h_def body_def)
    show "lz4f_body p (LZ4F_BLOCKUNCOMPRESSED_FLAG \<le> h) body hist = Some (hist @ mem_bytes m src n)"
      using k(1) raw_size(2) [OF n] packed_size(2) [of "length (r_out r)"] r(4) assms(5,6)
      by (auto simp: h_def body_def lz4f_body_def encodes_def)
  qed
  moreover have "length body \<le> n" using r(4) by (auto simp: body_def)
  ultimately show ?thesis using out r(2,3) by simp
qed

text \<open>Blocks compressed straight from the source, one behind the other.\<close>

lemma block_step:
  assumes "inv m s (hist @ mem_bytes m src pos)" and "fits s (src + int pos) n" and "0 < n" and "n \<le> LZ4_MAX_INPUT_SIZE"
    and "lz4CtxPtr cctx = Some s" and "n \<le> block_max (prefs cctx)" and "blockMode (prefs cctx) = LZ4F_blockLinked"
  shows "\<exists>out s1. LZ4F_block m cctx (src + int pos) n compress = Inr (out, cctx\<lparr>lz4CtxPtr := Some s1\<rparr>)
    \<and> inv m s1 (hist @ mem_bytes m src (pos + n)) \<and> ends s1 = src + int (pos + n)
    \<and> length out \<le> n + 4 + (if blockChecksumFlag (prefs cctx) then 4 else 0)
    \<and> (\<forall>rest. lz4f_blocks (prefs cctx) (out @ rest) (hist @ mem_bytes m src pos)
         = lz4f_blocks (prefs cctx) rest (hist @ mem_bytes m src (pos + n)))"
proof -
  obtain out s1 where "LZ4F_makeBlock m (src + int pos) n compress s (compressionLevel (prefs cctx)) (blockChecksumFlag (prefs cctx)) = Inr (out, s1)"
    "inv m s1 (hist @ mem_bytes m src (pos + n))" "ends s1 = src + int (pos + n)"
    "length out \<le> n + 4 + (if blockChecksumFlag (prefs cctx) then 4 else 0)"
    "\<forall>rest. lz4f_blocks (prefs cctx) (out @ rest) (hist @ mem_bytes m src pos)
         = lz4f_blocks (prefs cctx) rest (hist @ mem_bytes m src (pos + n))"
    using makeBlock [OF assms(1-4,6,7), of "compressionLevel (prefs cctx)"]
    by (auto simp: mem_bytes_add add.assoc)
  with assms(5) show ?thesis
    by (intro exI [of _ out] exI [of _ s1]) (simp add: LZ4F_block_def)
qed

definition fed :: "memory \<Rightarrow> LZ4F_cctx \<Rightarrow> bytes \<Rightarrow> int \<Rightarrow> nat \<Rightarrow> nat \<Rightarrow> update_vars \<Rightarrow> bool" where
  "fed m cctx hist src N blocks u \<longleftrightarrow>
     u_mem u = m
     \<and> (\<exists>s. u_ctx u = cctx\<lparr>lz4CtxPtr := Some s\<rparr> \<and> inv m s (hist @ mem_bytes m src (u_pos u))
          \<and> (\<forall>n. u_pos u + n \<le> N \<longrightarrow> fits s (src + int (u_pos u)) n))
     \<and> length (u_out u) \<le> u_pos u + blocks * (4 + (if blockChecksumFlag (prefs cctx) then 4 else 0))
     \<and> (\<forall>rest. lz4f_blocks (prefs cctx) (u_out u @ rest) hist
          = lz4f_blocks (prefs cctx) rest (hist @ mem_bytes m src (u_pos u)))"

lemma fed_block:
  assumes "fed m cctx hist src N b u" and "0 < src" and "0 < n" and "n \<le> LZ4_MAX_INPUT_SIZE"
    and "u_pos u + n \<le> N" and "n \<le> block_max (prefs cctx)" and "blockMode (prefs cctx) = LZ4F_blockLinked"
  shows "\<exists>out cctx1. LZ4F_block (u_mem u) (u_ctx u) (src + int (u_pos u)) n compress = Inr (out, cctx1)
    \<and> fed m cctx hist src N (Suc b)
      (u\<lparr>u_ctx := cctx1, u_out := u_out u @ out, u_pos := u_pos u + n, u_last := fromSrcBuffer\<rparr>)"
proof -
  obtain s where s: "u_mem u = m" "u_ctx u = cctx\<lparr>lz4CtxPtr := Some s\<rparr>" "inv m s (hist @ mem_bytes m src (u_pos u))"
    "fits s (src + int (u_pos u)) n" using assms(1,5) by (auto simp: fed_def)
  obtain out s1 where b: "LZ4F_block m (u_ctx u) (src + int (u_pos u)) n compress = Inr (out, (u_ctx u)\<lparr>lz4CtxPtr := Some s1\<rparr>)"
    "inv m s1 (hist @ mem_bytes m src (u_pos u + n))" "ends s1 = src + int (u_pos u + n)"
    "length out \<le> n + 4 + (if blockChecksumFlag (prefs cctx) then 4 else 0)"
    "\<forall>rest. lz4f_blocks (prefs cctx) (out @ rest) (hist @ mem_bytes m src (u_pos u))
         = lz4f_blocks (prefs cctx) rest (hist @ mem_bytes m src (u_pos u + n))"
    using block_step [OF s(3,4) assms(3,4), of "u_ctx u"] s(2) assms(6,7) by auto
  have "fits s1 (src + int (u_pos u + n)) k" for k
    using fits_next [OF _ b(3)] assms(2) by simp
  with assms(1) b s show ?thesis by (auto simp: fed_def add.assoc)
qed

lemma fed_full_blocks:
  assumes "fed m cctx hist src N b u" and "0 < src" and "0 < maxBlockSize cctx" and "maxBlockSize cctx \<le> LZ4_MAX_INPUT_SIZE"
    and "u_pos u + k * maxBlockSize cctx \<le> N" and "maxBlockSize cctx = block_max (prefs cctx)"
    and "blockMode (prefs cctx) = LZ4F_blockLinked"
  shows "\<exists>u1. LZ4F_full_blocks k compress src u = Inr u1 \<and> fed m cctx hist src N (b + k) u1
    \<and> u_pos u1 = u_pos u + k * maxBlockSize cctx \<and> u_last u1 = (if k = 0 then u_last u else fromSrcBuffer)"
  using assms(1,5)
proof (induction k arbitrary: b u)
  case (Suc k)
  have bs: "maxBlockSize (u_ctx u) = maxBlockSize cctx" using Suc.prems(1) by (auto simp: fed_def)
  obtain out cctx1 where s: "LZ4F_block (u_mem u) (u_ctx u) (src + int (u_pos u)) (maxBlockSize cctx) compress = Inr (out, cctx1)"
    "fed m cctx hist src N (Suc b)
      (u\<lparr>u_ctx := cctx1, u_out := u_out u @ out, u_pos := u_pos u + maxBlockSize cctx, u_last := fromSrcBuffer\<rparr>)"
    using fed_block [OF Suc.prems(1) assms(2-4)] Suc.prems(2) assms(6,7) by auto
  with Suc.IH [OF s(2)] bs Suc.prems(2) show ?case by (auto simp: algebra_simps)
qed simp

lemma fed_last_block:
  assumes "fed m cctx hist src N b u" and "0 < src" and "autoFlush (prefs cctx)" and "u_pos u \<le> N" and "N - u_pos u \<le> LZ4_MAX_INPUT_SIZE"
    and "N - u_pos u \<le> block_max (prefs cctx)" and "blockMode (prefs cctx) = LZ4F_blockLinked"
  shows "\<exists>u1. LZ4F_last_block compress src N u = Inr u1
    \<and> fed m cctx hist src N (if u_pos u < N then Suc b else b) u1
    \<and> u_pos u1 = N \<and> u_last u1 = (if u_pos u < N then fromSrcBuffer else u_last u)"
proof (cases "u_pos u < N")
  case True
  have "autoFlush (prefs (u_ctx u))" using assms(1,3) by (auto simp: fed_def)
  with True fed_block [OF assms(1,2), of "N - u_pos u"] assms(5-7) show ?thesis
    by (auto simp: LZ4F_last_block_def)
next
  case False
  with assms show ?thesis by (auto simp: LZ4F_last_block_def)
qed

end

definition stream_inv :: "memory \<Rightarrow> LZ4_stream \<Rightarrow> bytes \<Rightarrow> bool" where
  "stream_inv m s hist \<longleftrightarrow> stream_ok s \<and> dict_ok m s hist \<and> (hist \<noteq> [] \<longrightarrow> dictSize s \<noteq> 0)"

definition stream_end :: "LZ4_stream \<Rightarrow> int" where
  "stream_end s = dictionary s + uint (dictSize s)"

interpretation fast: block_compressor LZ4F_compressBlock_continue stream_inv apart stream_end
proof unfold_locales
  fix m s hist src n cap level
  assume "stream_inv m s hist" "apart s src n" "0 < n" "n \<le> LZ4_MAX_INPUT_SIZE"
  then show "\<exists>r. LZ4F_compressBlock_continue m s src n cap level = Inr r
    \<and> stream_inv m (r_stream r) (hist @ mem_bytes m src n) \<and> stream_end (r_stream r) = src + int n
    \<and> (r_result r \<noteq> 0 \<longrightarrow> r_result r = length (r_out r) \<and> r_result r \<le> cap
         \<and> encodes (r_out r) hist (hist @ mem_bytes m src n))"
    using fast_continue_block [of s m hist n src cap "if level < 0 then - level + 1 else 1"]
    by (auto simp: LZ4F_compressBlock_continue_def block_result_def stream_inv_def stream_end_def)
qed (simp add: apart_def stream_end_def)

section \<open>Headers\<close>

definition header_ok :: "LZ4F_preferences \<Rightarrow> bool" where
  "header_ok p \<longleftrightarrow> blockSizeID p \<in> {4, 5, 6, 7}"

lemma FLG_fields:
  "drop_bit (Suc 0) (LZ4F_FLG p) AND 1 = 0"
  "drop_bit 6 (LZ4F_FLG p) AND 3 = 1"
  "drop_bit 4 (LZ4F_FLG p) AND 1 = (if blockChecksumFlag p then 1 else 0)"
  "drop_bit 5 (LZ4F_FLG p) AND 1 = (if blockMode p = LZ4F_blockLinked then 0 else 1)"
  "drop_bit 3 (LZ4F_FLG p) AND 1 = (if contentSize p > 0 then 1 else 0)"
  "drop_bit 2 (LZ4F_FLG p) AND 1 = (if contentChecksumFlag p then 1 else 0)"
  "LZ4F_FLG p AND 1 = (if dictID p > 0 then 1 else 0)"
  unfolding LZ4F_FLG_def
  by (cases "blockMode p"; cases "blockChecksumFlag p"; cases "contentSize p > 0";
      cases "contentChecksumFlag p"; cases "dictID p > 0"; simp)+

lemma BD_fields:
  assumes "header_ok p"
  shows "drop_bit 7 (LZ4F_BD p) AND 1 = 0" and "drop_bit 4 (LZ4F_BD p) AND 7 = ucast (blockSizeID p)"
    and "\<not> (ucast (blockSizeID p) :: u8) < 4" and "LZ4F_BD p AND 15 = 0"
    and "ucast (ucast (blockSizeID p) :: u8) = blockSizeID p"
  using assms unfolding header_ok_def LZ4F_BD_def by auto

lemma length_descriptor:
  "length (LZ4F_descriptor p) = 2 + (if contentSize p \<noteq> 0 then 8 else 0) + (if dictID p \<noteq> 0 then 4 else 0)"
  by (simp add: LZ4F_descriptor_def)

lemma length_header:
  "length (LZ4F_header p) = 7 + (if contentSize p \<noteq> 0 then 8 else 0) + (if dictID p \<noteq> 0 then 4 else 0)"
  by (simp add: LZ4F_header_def length_descriptor)

lemma decodeHeader_header:
  assumes "header_ok p"
  shows "LZ4F_decodeHeader (LZ4F_header p @ rest)
    = Frame_Header (p\<lparr>compressionLevel := 0, autoFlush := False\<rparr>) (length (LZ4F_header p))"
proof -
  let ?d = "LZ4F_descriptor p"
  define s where "s = LZ4F_header p @ rest"
  define n where "n = minFHSize + (if contentSize p \<noteq> 0 then 8 else 0) + (if dictID p \<noteq> 0 then 4 else 0)"
  have src: "s = LZ4F_writeLE32 LZ4F_MAGICNUMBER @ ?d @ LZ4F_headerChecksum ?d # rest"
    by (simp add: s_def LZ4F_header_def)
  have len: "length ?d = n - 5" "5 \<le> n" "length (LZ4F_header p) = n"
    by (simp_all add: n_def minFHSize_def length_descriptor length_header)
  have d4: "drop 4 s = ?d @ LZ4F_headerChecksum ?d # rest" by (simp add: src)
  have fields: "s ! 4 = LZ4F_FLG p" "s ! 5 = LZ4F_BD p"
    by (simp_all add: src nth_append LZ4F_descriptor_def)
  have crc: "take (n - 5) (drop 4 s) = ?d" "s ! (n - 1) = LZ4F_headerChecksum ?d"
    using len(1,2) by (simp_all add: d4) (auto simp: src nth_append)
  have size: "LZ4F_readLE64 (drop 6 s) = contentSize p" if "contentSize p \<noteq> 0"
  proof -
    have "drop 6 s = LZ4F_writeLE64 (contentSize p)
      @ (if dictID p \<noteq> 0 then LZ4F_writeLE32 (dictID p) else []) @ LZ4F_headerChecksum ?d # rest"
      using that by (simp add: src LZ4F_descriptor_def)
    then show ?thesis by (simp add: le64.dec_enc)
  qed
  have dict: "LZ4F_readLE32 (drop (n - 5) s) = dictID p" if "dictID p \<noteq> 0"
  proof -
    have "drop (n - 5) s = LZ4F_writeLE32 (dictID p) @ LZ4F_headerChecksum ?d # rest"
      using that by (simp add: src n_def minFHSize_def LZ4F_descriptor_def)
    then show ?thesis by (simp add: le32.dec_enc)
  qed
  have magic: "LZ4F_readLE32 s = LZ4F_MAGICNUMBER" by (simp add: src le32.dec_enc)
  have notskip: "LZ4F_MAGICNUMBER AND 0xFFFFFFF0 \<noteq> LZ4F_MAGIC_SKIPPABLE_START"
    by (simp add: LZ4F_MAGICNUMBER_def LZ4F_MAGIC_SKIPPABLE_START_def)
  have lens: "\<not> length s < n" "\<not> length s < minFHSize"
    using len(3) by (simp_all add: s_def) (simp add: n_def)
  have fh: "minFHSize + (if drop_bit 3 (LZ4F_FLG p) AND 1 \<noteq> 0 then 8 else 0) + (if LZ4F_FLG p AND 1 \<noteq> 0 then 4 else 0) = n"
    by (simp add: FLG_fields n_def word_gt_0)
  have "LZ4F_decodeHeader s = Frame_Header
    (zero_prefs\<lparr>blockMode := (if drop_bit 5 (LZ4F_FLG p) AND 1 = 0 then LZ4F_blockLinked else LZ4F_blockIndependent),
       blockChecksumFlag := (drop_bit 4 (LZ4F_FLG p) AND 1 \<noteq> 0),
       contentChecksumFlag := (drop_bit 2 (LZ4F_FLG p) AND 1 \<noteq> 0),
       blockSizeID := ucast (ucast (blockSizeID p) :: u8),
       contentSize := (if drop_bit 3 (LZ4F_FLG p) AND 1 \<noteq> 0 then LZ4F_readLE64 (drop 6 s) else 0),
       dictID := (if LZ4F_FLG p AND 1 \<noteq> 0 then LZ4F_readLE32 (drop (n - 5) s) else 0)\<rparr>) n"
    using lens notskip FLG_fields(1,2) [of p] BD_fields(1-4) [OF assms]
    unfolding LZ4F_decodeHeader_def Let_def magic fields fh crc
    by (simp only: if_False if_True simp_thms One_nat_def)
  also have "\<dots> = Frame_Header (p\<lparr>compressionLevel := 0, autoFlush := False\<rparr>) n"
    unfolding FLG_fields BD_fields(5) [OF assms] word_gt_0 using size dict
    by (cases "blockMode p"; cases "contentSize p = 0"; cases "dictID p = 0") (simp_all add: zero_prefs_def)
  finally show ?thesis by (simp only: s_def len(3))
qed

end
