(* ===== verification/Lz4_Frame_Correct.thy ===== *)
theory Lz4_Frame_Correct
  imports Lz4_Frame_Spec
begin

text \<open>
  A frame is correct: opened, fed any number of times and closed, the bytes it hands out are
  one frame that decodes to what was fed, and each call stays within the capacity its bound
  asks for. Proved for frames of linked blocks that are flushed at once (\<open>autoFlush\<close>), as the
  firmware opens them, with any block size and any of the checksums.
\<close>

section \<open>The invariant of an open frame\<close>

definition frame_prefs :: "LZ4F_preferences \<Rightarrow> bool" where
  "frame_prefs p \<longleftrightarrow> header_ok p \<and> blockMode p = LZ4F_blockLinked \<and> autoFlush p
     \<and> compressionLevel p < LZ4HC_CLEVEL_MIN \<and> contentSize p = 0"

definition frame_ok :: "memory \<Rightarrow> LZ4F_cctx \<Rightarrow> bytes \<Rightarrow> bool" where
  "frame_ok m cctx hist \<longleftrightarrow>
     cStage cctx = 1 \<and> tmpInSize cctx = 0 \<and> frame_prefs (prefs cctx)
     \<and> maxBlockSize cctx = unat (LZ4F_getBlockSize (blockSizeID (prefs cctx)))
     \<and> 0 < tmpBuff cctx \<and> 65536 \<le> maxBufferSize cctx \<and> lz4CtxAlloc cctx = 1 \<and> lz4CtxState cctx = 1
     \<and> (\<exists>s. lz4CtxPtr cctx = Some s \<and> stream_inv m s hist
          \<and> (dictSize s = 0 \<or> dictionary s = tmpBuff cctx \<and> unat (dictSize s) \<le> 65536))
     \<and> (contentChecksumFlag (prefs cctx) \<longrightarrow> xxh_rep 0 (xxh cctx) hist)"

text \<open>A source apart from the temporary buffer.\<close>

definition clear_of :: "LZ4F_cctx \<Rightarrow> int \<Rightarrow> nat \<Rightarrow> bool" where
  "clear_of cctx src n \<longleftrightarrow> 0 < src \<and> (src + int n \<le> tmpBuff cctx \<or> tmpBuff cctx + 65536 \<le> src)"

lemma block_size_values:
  assumes "header_ok p"
  shows "LZ4F_getBlockSize (blockSizeID p) \<in> {65536, 262144, 1048576, 4194304}"
  using assms by (auto simp: header_ok_def LZ4F_getBlockSize_def Let_def)

section \<open>Bounds\<close>

definition frame_blocks :: "LZ4F_preferences \<Rightarrow> nat \<Rightarrow> nat" where
  "frame_blocks p n =
     (let bs = unat (LZ4F_getBlockSize (blockSizeID p)) in n div bs + (if n mod bs > 0 then 1 else 0))"

lemma and_block_mask:
  assumes "b \<in> {65536, 262144, 1048576, 4194304}"
  shows "unat ((x :: u32) AND (b - 1)) = unat x mod unat b"
proof -
  have "x AND 65535 = take_bit 16 x" "x AND 262143 = take_bit 18 x" "x AND 1048575 = take_bit 20 x"
    "x AND 4194303 = take_bit 22 x"
    by (simp_all add: take_bit_eq_mask mask_eq_exp_minus_1)
  then show ?thesis using assms by (auto simp: take_bit_eq_mod unat_mod_distrib)
qed

lemma compressBound_value:
  assumes "header_ok p" and "autoFlush p" and "n < 1073741824"
  shows "unat (LZ4F_compressBound_internal (of_nat n) p 0)
    = (4 + (if blockChecksumFlag p then 4 else 0)) * frame_blocks p n + n + 4 + (if contentChecksumFlag p then 4 else 0)"
proof -
  define b where "b = LZ4F_getBlockSize (blockSizeID p)"
  have b: "b \<in> {65536, 262144, 1048576, 4194304}" unfolding b_def by (rule block_size_values [OF assms(1)])
  have n: "unat (of_nat n :: u32) = n" using assms(3) by (simp add: unsigned_of_nat take_bit_eq_mod)
  define q where "q = n div unat b"
  define r where "r = n mod unat b"
  have nqr: "n = unat b * q + r" by (simp add: q_def r_def)
  have q: "q < 16384"
    unfolding q_def using b assms(3) by (auto intro!: less_mult_imp_div_less)
  have r: "r < 4194304" unfolding r_def using b by auto
  have u: "unat (of_nat q :: u32) = q" "unat (of_nat r :: u32) = r"
    using q r by (simp_all add: unsigned_of_nat take_bit_eq_mod)
  have div: "of_nat n div b = of_nat q"
    by (simp only: word_unat_eq_iff unat_div_distrib n u q_def [symmetric])
  have mod: "of_nat n AND (b - 1) = of_nat r"
    by (simp only: word_unat_eq_iff and_block_mask [OF b] n u r_def [symmetric])
  have pos: "(0 < (of_nat r :: u32)) = (0 < r)"
    by (simp only: word_less_nat_alt u unat_0)
  define N where "N = (4 + (if blockChecksumFlag p then 4 else 0)) * (q + (if r > 0 then 1 else 0)) + (unat b * q + r) + 4
        + (if contentChecksumFlag p then 4 else (0 :: nat))"
  have "LZ4F_compressBound_internal (of_nat n) p 0 = of_nat N"
    using assms(2) div mod pos
    by (simp add: LZ4F_compressBound_internal_def Let_def BHSize_def BFSize_def N_def flip: b_def)
  moreover have "(4 + (if blockChecksumFlag p then 4 else 0)) * (q + (if r > 0 then 1 else 0)) \<le> (8 :: nat) * 16384"
    using q by (intro mult_le_mono) auto
  then have "N < 4294967296" using nqr assms(3) unfolding N_def by auto
  then have "unat (of_nat N :: u32) = N" by (simp add: unsigned_of_nat take_bit_eq_mod)
  moreover have "N = (4 + (if blockChecksumFlag p then 4 else 0)) * frame_blocks p n + n + 4 + (if contentChecksumFlag p then 4 else 0)"
    unfolding N_def frame_blocks_def Let_def b_def [symmetric] q_def r_def by simp
  ultimately show ?thesis by simp
qed

section \<open>Feeding\<close>

lemma apart_clear:
  assumes "0 < src" and "src + int n \<le> tb \<or> tb + 65536 \<le> src"
    and "dictSize s = 0 \<or> dictionary s = tb \<and> unat (dictSize s) \<le> 65536" and "k \<le> n"
  shows "apart s src k"
proof -
  have "uint (dictSize s) \<le> 65536" if "dictSize s \<noteq> 0"
    using assms(3) that by (metis of_nat_le_iff of_nat_numeral uint_nat)
  with assms show ?thesis by (auto simp: apart_def)
qed

lemma mem_bytes_cong:
  "(\<And>q. p \<le> q \<Longrightarrow> q < p + int n \<Longrightarrow> m1 q = m q) \<Longrightarrow> mem_bytes m1 p n = mem_bytes m p n"
  by (rule nth_equalityI) auto

definition update_ok :: "memory \<Rightarrow> LZ4F_cctx \<Rightarrow> bytes \<Rightarrow> int \<Rightarrow> nat \<Rightarrow> frame_result \<Rightarrow> bool" where
  "update_ok m cctx hist src n = (\<lambda>(code, out, m1, cctx1).
     code = of_nat (length out) \<and> frame_ok m1 cctx1 (hist @ mem_bytes m src n)
     \<and> prefs cctx1 = prefs cctx \<and> tmpBuff cctx1 = tmpBuff cctx
     \<and> (\<forall>q. q < tmpBuff cctx \<or> tmpBuff cctx + 65536 \<le> q \<longrightarrow> m1 q = m q)
     \<and> length out \<le> n + frame_blocks (prefs cctx) n * (4 + (if blockChecksumFlag (prefs cctx) then 4 else 0))
     \<and> (\<forall>rest. lz4f_blocks (prefs cctx) (out @ rest) hist = lz4f_blocks (prefs cctx) rest (hist @ mem_bytes m src n)))"

text \<open>The blocks of one call: whole ones, then the rest.\<close>

lemma update_blocks:
  assumes ok: "frame_ok m cctx hist" and cl: "clear_of cctx src n" and n: "n < 1073741824"
  shows "\<exists>u2 u3. LZ4F_full_blocks (n div maxBlockSize cctx) LZ4F_compressBlock_continue src
      \<lparr>u_mem = m, u_ctx = cctx, u_out = [], u_pos = 0, u_last = notDone\<rparr> = Inr u2
    \<and> LZ4F_last_block LZ4F_compressBlock_continue src n u2 = Inr u3
    \<and> fast.fed m cctx hist src n (frame_blocks (prefs cctx) n) u3 \<and> u_pos u3 = n
    \<and> u_last u3 = (if n = 0 then notDone else fromSrcBuffer)"
proof -
  let ?u = "\<lparr>u_mem = m, u_ctx = cctx, u_out = [], u_pos = 0, u_last = notDone\<rparr>"
  define bs where "bs = maxBlockSize cctx"
  have p: "frame_prefs (prefs cctx)" and bs_eq: "bs = unat (LZ4F_getBlockSize (blockSizeID (prefs cctx)))"
    using ok by (simp_all add: frame_ok_def bs_def)
  then have "bs \<in> {65536, 262144, 1048576, 4194304}"
    using block_size_values [of "prefs cctx"] by (auto simp: frame_prefs_def)
  then have bs: "0 < bs" "bs \<le> LZ4_MAX_INPUT_SIZE" by (auto simp: LZ4_MAX_INPUT_SIZE_def)
  obtain s where s: "lz4CtxPtr cctx = Some s" "stream_inv m s hist"
    "dictSize s = 0 \<or> dictionary s = tmpBuff cctx \<and> unat (dictSize s) \<le> 65536"
    using ok by (auto simp: frame_ok_def)
  have src: "0 < src" using cl by (simp add: clear_of_def)
  have "apart s src k" if "k \<le> n" for k
    using apart_clear [OF src _ s(3) that] cl by (simp add: clear_of_def)
  moreover have "cctx = cctx\<lparr>lz4CtxPtr := Some s\<rparr>" using s(1) by (cases cctx) simp
  ultimately have fed0: "fast.fed m cctx hist src n 0 ?u"
    using s(2) unfolding fast.fed_def by (auto intro!: exI [of _ s])
  obtain u2 where u2: "LZ4F_full_blocks (n div bs) LZ4F_compressBlock_continue src ?u = Inr u2"
    "fast.fed m cctx hist src n (n div bs) u2" "u_pos u2 = n div bs * bs"
    "u_last u2 = (if n div bs = 0 then notDone else fromSrcBuffer)"
    using fast.fed_full_blocks [OF fed0 src, of "n div bs"] bs bs_eq p by (auto simp: bs_def block_max_def frame_prefs_def)
  have rest: "n - u_pos u2 = n mod bs" "u_pos u2 \<le> n" "(u_pos u2 < n) = (0 < n mod bs)"
    using u2(3) by (simp_all add: minus_div_mult_eq_mod [symmetric])
  have small: "n - u_pos u2 \<le> LZ4_MAX_INPUT_SIZE" "n - u_pos u2 \<le> block_max (prefs cctx)"
    using rest(1) mod_less_divisor [OF bs(1), of n] bs(2) bs_eq by (auto simp: block_max_def)
  obtain u3 where u3: "LZ4F_last_block LZ4F_compressBlock_continue src n u2 = Inr u3"
    "fast.fed m cctx hist src n (if u_pos u2 < n then Suc (n div bs) else n div bs) u3"
    "u_pos u3 = n" "u_last u3 = (if u_pos u2 < n then fromSrcBuffer else u_last u2)"
    using fast.fed_last_block [OF u2(2) src _ rest(2) small] p rest(3) by (auto simp: frame_prefs_def)
  have "(if u_pos u2 < n then Suc (n div bs) else n div bs) = frame_blocks (prefs cctx) n"
    by (simp add: frame_blocks_def Let_def rest(3) flip: bs_eq)
  moreover have "u_last u3 = (if n = 0 then notDone else fromSrcBuffer)"
    using u3(4) u2(4) rest(3) by (auto simp: div_eq_0_iff)
  ultimately show ?thesis using u2(1) u3(1-3) by (auto simp: bs_def)
qed

lemma xxh_rep_append:
  "xxh_rep 0 st hist \<Longrightarrow> xxh_rep 0 (XXH32_update st ys) (hist @ ys)"
  by (rule xxh_rep_upd)

lemma frame_ok_next:
  assumes "frame_ok m cctx hist" and "stream_inv m1 s (hist @ xs)"
    and "dictSize s = 0 \<or> dictionary s = tmpBuff cctx \<and> unat (dictSize s) \<le> 65536"
    and "c = cctx\<lparr>lz4CtxPtr := Some s, tmpIn := t\<rparr>"
  shows "frame_ok m1 (if contentChecksumFlag (prefs cctx) then c\<lparr>xxh := XXH32_update (xxh cctx) xs\<rparr> else c) (hist @ xs)"
  using assms by (auto simp: frame_ok_def intro: xxh_rep_append)

lemma update_preserve:
  assumes ok: "frame_ok m cctx hist"
    and u: "LZ4F_full_blocks (n div maxBlockSize cctx) LZ4F_compressBlock_continue src
      \<lparr>u_mem = m, u_ctx = cctx, u_out = [], u_pos = 0, u_last = notDone\<rparr> = Inr u2"
    "LZ4F_last_block LZ4F_compressBlock_continue src n u2 = Inr u3"
    "fast.fed m cctx hist src n b u3" "u_pos u3 = n" "u_last u3 = (if n = 0 then notDone else fromSrcBuffer)"
  shows "\<exists>u4. LZ4F_preserve_dict False u3 = Inr (None, u4) \<and> u_out u4 = u_out u3 \<and> u_pos u4 = n
    \<and> prefs (u_ctx u4) = prefs cctx \<and> tmpBuff (u_ctx u4) = tmpBuff cctx \<and> xxh (u_ctx u4) = xxh cctx
    \<and> (\<forall>q. q < tmpBuff cctx \<or> tmpBuff cctx + 65536 \<le> q \<longrightarrow> u_mem u4 q = m q)
    \<and> frame_ok (u_mem u4) (if contentChecksumFlag (prefs cctx)
        then (u_ctx u4)\<lparr>xxh := XXH32_update (xxh cctx) (mem_bytes m src n)\<rparr> else u_ctx u4) (hist @ mem_bytes m src n)"
proof (cases "n = 0")
  case True
  then have u3: "u3 = \<lparr>u_mem = m, u_ctx = cctx, u_out = [], u_pos = 0, u_last = notDone\<rparr>"
    using u(1,2) by (auto simp: LZ4F_last_block_def)
  obtain s where s: "lz4CtxPtr cctx = Some s" "stream_inv m s hist"
    "dictSize s = 0 \<or> dictionary s = tmpBuff cctx \<and> unat (dictSize s) \<le> 65536"
    using ok by (auto simp: frame_ok_def)
  have "cctx = cctx\<lparr>lz4CtxPtr := Some s, tmpIn := tmpIn cctx\<rparr>" using s(1) by (cases cctx) simp
  from frame_ok_next [OF ok _ s(3) this, of m "[]"] s(2) show ?thesis
    using True by (simp add: u3 LZ4F_preserve_dict_def Let_def split: if_splits)
next
  case False
  obtain s where s: "u_ctx u3 = cctx\<lparr>lz4CtxPtr := Some s\<rparr>" "u_mem u3 = m" "stream_inv m s (hist @ mem_bytes m src n)"
    using u(3,4) by (auto simp: fast.fed_def)
  obtain m1 s1 k where sv: "LZ4_saveDict m s (tmpBuff cctx) 65536 = (m1, s1, k)"
    by (cases "LZ4_saveDict m s (tmpBuff cctx) 65536") auto
  note f = ok [unfolded frame_ok_def]
  have si: "stream_ok s" "dict_ok m s (hist @ mem_bytes m src n)" "dictSize s \<noteq> 0"
    using s(3) False by (auto simp: stream_inv_def simp flip: length_0_conv)
  note sd = saveDict_ok [OF si(1,2) _ sv]
  have tb: "0 < tmpBuff cctx" using f by simp
  have "unat (dictSize s) \<noteq> 0" using si(3) by (simp add: unat_eq_zero)
  then have k: "k \<noteq> 0" "k \<le> 65536" using sd(1) [OF tb] by auto
  have "dictSize s1 \<noteq> 0" using sd(5) [OF tb] k(1) by auto
  then have inv1: "stream_inv m1 s1 (hist @ mem_bytes m src n)"
    using sd(2,3) [OF tb] by (simp add: stream_inv_def)
  have d1: "dictSize s1 = 0 \<or> dictionary s1 = tmpBuff cctx \<and> unat (dictSize s1) \<le> 65536"
    using sd(4,5) [OF tb] k(2) by simp
  define u4 where "u4 = u3\<lparr>u_mem := m1, u_ctx := cctx\<lparr>lz4CtxPtr := Some s1, tmpIn := tmpBuff cctx + int k\<rparr>\<rparr>"
  have run: "LZ4F_preserve_dict False u3 = Inr (None, u4)"
    using False u(5) s f k(1) sv
    by (simp add: LZ4F_preserve_dict_def Let_def LZ4F_localSaveDict_def frame_prefs_def u4_def)
  have out: "m1 q = m q" if "q < tmpBuff cctx \<or> tmpBuff cctx + 65536 \<le> q" for q
    using sd(7) [OF tb, of q] that k(2) by auto
  show ?thesis
    using run out u(4) frame_ok_next [OF ok inv1 d1 refl, of "tmpBuff cctx + int k"]
    by (intro exI [of _ u4]) (simp add: u4_def split: if_splits)
qed

lemma LZ4F_compressUpdate_ok:
  assumes ok: "frame_ok m cctx hist" and cl: "clear_of cctx src n" and n: "n < 1073741824"
    and cap: "unat (LZ4F_compressBound_internal (of_nat n) (prefs cctx) 0) \<le> dstCapacity"
  shows "\<exists>r. LZ4F_compressUpdate m cctx dstCapacity src n False = Inr r \<and> update_ok m cctx hist src n r"
proof -
  obtain u2 u3 where u: "LZ4F_full_blocks (n div maxBlockSize cctx) LZ4F_compressBlock_continue src
      \<lparr>u_mem = m, u_ctx = cctx, u_out = [], u_pos = 0, u_last = notDone\<rparr> = Inr u2"
    "LZ4F_last_block LZ4F_compressBlock_continue src n u2 = Inr u3"
    "fast.fed m cctx hist src n (frame_blocks (prefs cctx) n) u3" "u_pos u3 = n"
    "u_last u3 = (if n = 0 then notDone else fromSrcBuffer)"
    using update_blocks [OF ok cl n] by blast
  obtain s where s: "u_ctx u3 = cctx\<lparr>lz4CtxPtr := Some s\<rparr>" "u_mem u3 = m" "stream_inv m s (hist @ mem_bytes m src n)"
    "length (u_out u3) \<le> n + frame_blocks (prefs cctx) n * (4 + (if blockChecksumFlag (prefs cctx) then 4 else 0))"
    "\<forall>rest. lz4f_blocks (prefs cctx) (u_out u3 @ rest) hist = lz4f_blocks (prefs cctx) rest (hist @ mem_bytes m src n)"
    using u(3,4) by (auto simp: fast.fed_def)
  note f = ok [unfolded frame_ok_def]
  have p: "blockMode (prefs cctx) = LZ4F_blockLinked" "autoFlush (prefs cctx)" "compressionLevel (prefs cctx) < LZ4HC_CLEVEL_MIN"
    using f by (simp_all add: frame_prefs_def)
  obtain u4 where u4: "LZ4F_preserve_dict False u3 = Inr (None, u4)" "u_out u4 = u_out u3" "u_pos u4 = n"
    "prefs (u_ctx u4) = prefs cctx" "tmpBuff (u_ctx u4) = tmpBuff cctx" "xxh (u_ctx u4) = xxh cctx"
    "\<And>q. q < tmpBuff cctx \<or> tmpBuff cctx + 65536 \<le> q \<Longrightarrow> u_mem u4 q = m q"
    "frame_ok (u_mem u4) (if contentChecksumFlag (prefs cctx)
        then (u_ctx u4)\<lparr>xxh := XXH32_update (xxh cctx) (mem_bytes m src n)\<rparr> else u_ctx u4) (hist @ mem_bytes m src n)"
    using update_preserve [OF ok u] by blast
  have same: "mem_bytes (u_mem u4) src n = mem_bytes m src n"
    using cl u4(7) by (intro mem_bytes_cong) (auto simp: clear_of_def)
  have run: "LZ4F_compressUpdate m cctx dstCapacity src n False = Inr (LZ4F_account src n u4)"
    using f cap p u(1,2) u4(1-5)
    by (simp add: LZ4F_compressUpdate_def LZ4F_selectCompression_def LZ4F_complete_tmp_def Let_def
        LZ4F_keep_tmp_def LZ4F_fill_tmp_def)
  have acc: "LZ4F_account src n u4 = (of_nat (length (u_out u3)), u_out u3, u_mem u4,
      (if contentChecksumFlag (prefs cctx) then (u_ctx u4)\<lparr>xxh := XXH32_update (xxh cctx) (mem_bytes m src n)\<rparr> else u_ctx u4)
        \<lparr>totalInSize := totalInSize (u_ctx u4) + of_nat n\<rparr>)"
    using u4(2,4,6) by (simp add: LZ4F_account_def Let_def same)
  have "frame_ok (u_mem u4) (c\<lparr>totalInSize := t\<rparr>) h = frame_ok (u_mem u4) c h" for c t h
    by (simp add: frame_ok_def)
  with u4 s(4,5) have "update_ok m cctx hist src n (LZ4F_account src n u4)"
    by (auto simp: update_ok_def acc)
  with run show ?thesis by blast
qed

section \<open>Closing and opening\<close>

text \<open>A context between frames.\<close>

definition cctx_ok :: "LZ4F_cctx \<Rightarrow> bool" where
  "cctx_ok cctx \<longleftrightarrow>
     (lz4CtxAlloc cctx = 0
      \<or> lz4CtxAlloc cctx = 1 \<and> lz4CtxState cctx = 1 \<and> (\<exists>s. lz4CtxPtr cctx = Some s \<and> stream_ok s))
     \<and> (maxBufferSize cctx = 0 \<or> 65536 \<le> maxBufferSize cctx \<and> 0 < tmpBuff cctx)"

lemma frame_ok_cctx_ok: "frame_ok m cctx hist \<Longrightarrow> cctx_ok cctx"
  by (auto simp: frame_ok_def cctx_ok_def stream_inv_def)

definition end_bytes :: "LZ4F_preferences \<Rightarrow> bytes \<Rightarrow> bytes" where
  "end_bytes p hist =
     LZ4F_writeLE32 0 @ (if contentChecksumFlag p then LZ4F_writeLE32 (XXH32 hist 0) else [])"

lemma length_end_bytes: "length (end_bytes p hist) = 4 + (if contentChecksumFlag p then 4 else 0)"
  by (simp add: end_bytes_def)

lemma lz4f_blocks_end_bytes: "contentSize p = 0 \<Longrightarrow> lz4f_blocks p (end_bytes p hist) hist = Some hist"
  using le32.dec_enc [of "XXH32 hist 0" "[]"]
  by (simp add: end_bytes_def lz4f_blocks_end lz4f_finish_def)

lemma LZ4F_compressEnd_ok:
  assumes ok: "frame_ok m cctx hist" and cap: "length (end_bytes (prefs cctx) hist) \<le> dstCapacity"
  shows "LZ4F_compressEnd m cctx dstCapacity =
    Inr (of_nat (length (end_bytes (prefs cctx) hist)), end_bytes (prefs cctx) hist, m,
      cctx\<lparr>cStage := 0, maxBufferSize := 0\<rparr>)"
    and "cctx_ok (cctx\<lparr>cStage := 0, maxBufferSize := 0\<rparr>)"
proof -
  note f = ok [unfolded frame_ok_def]
  have "XXH32_digest (xxh cctx) = XXH32 hist 0" if "contentChecksumFlag (prefs cctx)"
    using f that by (simp add: xxh_rep_digest)
  then show "LZ4F_compressEnd m cctx dstCapacity =
    Inr (of_nat (length (end_bytes (prefs cctx) hist)), end_bytes (prefs cctx) hist, m,
      cctx\<lparr>cStage := 0, maxBufferSize := 0\<rparr>)"
    using f cap
    by (auto simp: LZ4F_compressEnd_def LZ4F_flush_def Let_def LZ4F_isError_def frame_prefs_def end_bytes_def)
  show "cctx_ok (cctx\<lparr>cStage := 0, maxBufferSize := 0\<rparr>)"
    using f by (auto simp: cctx_ok_def stream_inv_def)
qed

lemma LZ4F_compressBegin_ok:
  assumes ok: "cctx_ok cctx" and p: "frame_prefs p" and al: "a_stream al" "0 < a_buffer al" and cap: "19 \<le> dstCapacity"
  shows "\<exists>m1 cctx1. LZ4F_compressBegin al m cctx dstCapacity p = Inr (of_nat (length (LZ4F_header p)), LZ4F_header p, m1, cctx1)
    \<and> frame_ok m1 cctx1 [] \<and> prefs cctx1 = p \<and> tmpBuff cctx1 \<in> {tmpBuff cctx, a_buffer al}
    \<and> (\<forall>q. q < a_buffer al \<or> a_buffer al + 65536 \<le> q \<longrightarrow> m1 q = m q)"
proof -
  have p': "blockSizeID p \<noteq> 0" "header_ok p" "blockMode p = LZ4F_blockLinked" "autoFlush p"
    "\<not> compressionLevel p \<ge> LZ4HC_CLEVEL_MIN" "contentSize p = 0"
    using p by (auto simp: frame_prefs_def header_ok_def)
  obtain cctx1 s where c1: "LZ4F_ctx_management al (cctx\<lparr>prefs := p\<rparr>) = Inr cctx1" "lz4CtxPtr cctx1 = Some s" "stream_ok s"
    "lz4CtxAlloc cctx1 = 1" "lz4CtxState cctx1 = 1" "prefs cctx1 = p" "tmpBuff cctx1 = tmpBuff cctx" "maxBufferSize cctx1 = maxBufferSize cctx"
    using ok al(1) stream_ok_init by (auto simp: LZ4F_ctx_management_def cctx_ok_def)
  define cctx2 where "cctx2 = cctx1\<lparr>prefs := p, maxBlockSize := unat (LZ4F_getBlockSize (blockSizeID p))\<rparr>"
  obtain m1 cctx3 where c3: "LZ4F_buffer_management al m cctx2 = Inr (m1, cctx3)" "0 < tmpBuff cctx3" "65536 \<le> maxBufferSize cctx3"
    "lz4CtxPtr cctx3 = Some s" "lz4CtxAlloc cctx3 = 1" "lz4CtxState cctx3 = 1" "prefs cctx3 = p"
    "maxBlockSize cctx3 = unat (LZ4F_getBlockSize (blockSizeID p))" "tmpBuff cctx3 \<in> {tmpBuff cctx, a_buffer al}"
    "\<forall>q. q < a_buffer al \<or> a_buffer al + 65536 \<le> q \<longrightarrow> m1 q = m q"
    using ok al(2) c1 p'(3,4) by (auto simp: LZ4F_buffer_management_def Let_def cctx2_def cctx_ok_def)
  define s1 where "s1 = LZ4F_initStream s LZ4F_blockLinked"
  have "s1 = LZ4_resetStream_fast s"
    by (simp add: s1_def LZ4F_initStream_def LZ4_resetStream_fast_def LZ4_prepareTable_def Let_def)
  then have s1: "stream_inv m1 s1 []" "dictSize s1 = 0"
    using stream_ok_reset [OF c1(3)] dict_ok_reset
    by (simp_all add: stream_inv_def) (simp add: LZ4_resetStream_fast_def LZ4_prepareTable_def Let_def)
  define cctx4 where "cctx4 = cctx3\<lparr>tmpIn := tmpBuff cctx3, tmpInSize := 0, xxh := XXH32_reset 0, lz4CtxPtr := Some s1, cStage := 1\<rparr>"
  have "LZ4F_compressBegin al m cctx dstCapacity p = Inr (of_nat (length (LZ4F_header p)), LZ4F_header p, m1, cctx4)"
    using cap p' c1(1) c3(1,4)
    by (simp add: LZ4F_compressBegin_def maxFHSize_def Let_def cctx2_def [symmetric] cctx4_def s1_def)
  moreover have "frame_ok m1 cctx4 []"
    using p c3 s1 xxh_rep_reset [of 0] by (simp add: frame_ok_def cctx4_def)
  moreover have "prefs cctx4 = p" "tmpBuff cctx4 = tmpBuff cctx3" using c3(7) by (simp_all add: cctx4_def)
  ultimately show ?thesis using c3(9,10) by auto
qed

end
