(* ===== verification/Lz4_File_Correct.thy ===== *)
theory Lz4_File_Correct
  imports Lz4_File Lz4_Frame_Correct
begin

text \<open>
  The log file is correct: what is written to it between a successful open and the close is
  one LZ4 frame that decodes to the text that was logged, no assertion of the code fails on
  the way, and the finished file is the temporary one under its final name.
\<close>

section \<open>The bytes of a file\<close>

fun written_by :: "int \<Rightarrow> call \<Rightarrow> bytes" where
  "written_by p (Fs (Fs_write (Allocated_File q) bs)) = (if q = p then bs else [])"
| "written_by p _ = []"

definition written :: "int \<Rightarrow> trace \<Rightarrow> bytes" where
  "written p cs = concat (map (written_by p) cs)"

lemma written_append [simp]: "written p (cs @ ds) = written p cs @ written p ds"
  by (simp add: written_def)

lemma written_Cons [simp]: "written p (c # ds) = written_by p c @ written p ds"
  by (simp add: written_def)

lemma written_Nil [simp]: "written p [] = []"
  by (simp add: written_def)

lemma lz4f_blocks_prefs:
  "lz4f_blocks (p\<lparr>compressionLevel := l, autoFlush := a\<rparr>) bs out = lz4f_blocks p bs out"
proof (induction "length bs" arbitrary: bs out rule: less_induct)
  case less
  have "lz4f_blocks (p\<lparr>compressionLevel := l, autoFlush := a\<rparr>) (drop k bs) out1 = lz4f_blocks p (drop k bs) out1"
    if "\<not> length bs < 4" and "0 < k" for k out1
    using that by (intro less) auto
  then show ?case
    by (subst (1 2) lz4f_blocks.simps)
      (simp add: Let_def lz4f_finish_def lz4f_body_def block_max_def split: option.split)
qed

lemma lz4f_decode_header:
  "header_ok p \<Longrightarrow> lz4f_decode (LZ4F_header p @ rest) = lz4f_blocks p rest []"
  using decodeHeader_header [of p rest] by (simp add: lz4f_decode_def lz4f_blocks_prefs)

section \<open>The invariant of the open log\<close>

lemma kPrefs_ok: "frame_prefs kPrefs"
  by (simp add: frame_prefs_def kPrefs_def header_ok_def LZ4HC_CLEVEL_MIN_def)

lemma kPrefs_header: "header_ok kPrefs"
  by (simp add: kPrefs_def header_ok_def)

lemma kPrefs_flags:
  "contentSize kPrefs = 0" "blockChecksumFlag kPrefs = False" "contentChecksumFlag kPrefs = False" "autoFlush kPrefs"
  by (simp_all add: kPrefs_def)

lemma frame_blocks_kPrefs: "n \<le> 4096 \<Longrightarrow> frame_blocks kPrefs n = (if n = 0 then 0 else 1)"
  by (simp add: frame_blocks_def kPrefs_def LZ4F_getBlockSize_def)

lemma kPrefs_bound:
  "n \<le> 4096 \<Longrightarrow> unat (LZ4F_compressBound_internal (of_nat n) kPrefs 0) = n + (if n = 0 then 4 else 8)"
  using compressBound_value [OF kPrefs_header kPrefs_flags(4), of n]
  by (simp add: frame_blocks_kPrefs kPrefs_flags)

lemma kPrefs_cap: "unat (LZ4F_compressBound (of_nat CHUNKSIZE) kPrefs) = 4104"
  using kPrefs_bound [of 4096] by (simp add: LZ4F_compressBound_def CHUNKSIZE_def kPrefs_flags)

definition pending :: "'z lz4_world_scheme \<Rightarrow> bytes" where
  "pending w = mem_bytes (memory_of w) (srcbuf w) (nsrcdata (lz4id w))"

definition clear_buffer :: "'z lz4_world_scheme \<Rightarrow> int \<Rightarrow> bool" where
  "clear_buffer w b \<longleftrightarrow> srcbuf w + int CHUNKSIZE \<le> b \<or> b + 65536 \<le> srcbuf w"

text \<open>
  \<open>cs\<close> is what happened since the file was opened, \<open>txt\<close> the text logged since: a part of
  it is in the frame, the rest waits in the source buffer. A block adds at most four bytes to
  the characters it holds.
\<close>

definition log_open :: "'z lz4_world_scheme \<Rightarrow> trace \<Rightarrow> string \<Rightarrow> bool" where
  "log_open w cs txt \<longleftrightarrow>
     stopped w = None \<and> isOpen (lz4id w) \<and> cap (lz4id w) = 4104 \<and> nsrcdata (lz4id w) \<le> CHUNKSIZE
     \<and> 0 < lz4id_addr w
     \<and> (\<exists>c hist. ctx (lz4id w) = Context c \<and> prefs c = kPrefs \<and> clear_buffer w (tmpBuff c)
          \<and> frame_ok (memory_of w) c hist
          \<and> bytes_of_string txt = hist @ pending w
          \<and> (\<forall>rest. lz4f_decode (written (fid (lz4id w)) cs @ rest) = lz4f_blocks kPrefs rest hist)
          \<and> length (written (fid (lz4id w)) cs) \<le> 7 + 5 * length hist)"

definition log_closed :: "'z lz4_world_scheme \<Rightarrow> bool" where
  "log_closed w \<longleftrightarrow>
     stopped w = None \<and> \<not> isOpen (lz4id w) \<and> nsrcdata (lz4id w) = 0 \<and> 0 < lz4id_addr w
     \<and> (ctx (lz4id w) = No_Context
        \<or> (\<exists>c. ctx (lz4id w) = Context c \<and> cctx_ok c \<and> maxBufferSize c = 0))"

section \<open>Writing\<close>

lemma mem_bytes_store:
  "mem_bytes (store m (a + int n) bs) a (n + length bs) = mem_bytes m a n @ bs"
  by (rule nth_equalityI) (auto simp: store_def nth_append nat_minus_as_int)

lemma frame_ok_outside:
  assumes "frame_ok m c hist" and same: "\<And>q. tmpBuff c \<le> q \<Longrightarrow> q < tmpBuff c + 65536 \<Longrightarrow> m1 q = m q"
  shows "frame_ok m1 c hist"
proof -
  have "dict_ok m1 s hist" if "dict_ok m s hist"
    and "dictSize s = 0 \<or> dictionary s = tmpBuff c \<and> unat (dictSize s) \<le> 65536" for s
  proof -
    have "mem_bytes m1 (dictionary s) (unat (dictSize s)) = mem_bytes m (dictionary s) (unat (dictSize s))"
    proof (rule mem_bytes_cong)
      fix q assume q: "dictionary s \<le> q" "q < dictionary s + int (unat (dictSize s))"
      then have "dictSize s \<noteq> 0" by auto
      then have "dictionary s = tmpBuff c" "int (unat (dictSize s)) \<le> 65536" using that(2) by (auto simp only: of_nat_le_iff of_nat_numeral simp_thms)
      with q same show "m1 q = m q" by auto
    qed
    with that(1) show ?thesis by (simp add: dict_ok_def)
  qed
  with assms(1) show ?thesis by (auto simp: frame_ok_def stream_inv_def)
qed

text \<open>What an operation on the open file leaves alone, and the calls it makes.\<close>

definition log_step :: "'z lz4_world_scheme \<Rightarrow> 'z lz4_world_scheme \<Rightarrow> trace \<Rightarrow> bool" where
  "log_step w w' new \<longleftrightarrow>
     outside w' = outside w \<and> events w' = events w @ new \<and> lz4id_addr w' = lz4id_addr w
     \<and> fid (lz4id w') = fid (lz4id w) \<and> filename (lz4id w') = filename (lz4id w)
     \<and> reuseContext (lz4id w') = reuseContext (lz4id w)"

definition put_calls :: "int \<Rightarrow> bytes \<Rightarrow> trace" where
  "put_calls p out = (if out = [] then []
     else [Fs (Fs_write (Allocated_File p) out), Fs (Fs_sync (Allocated_File p))])"

lemma written_put_calls [simp]: "written p (put_calls p out) = out"
  by (simp add: put_calls_def)

lemma small_word: "n < 4200 \<Longrightarrow> unat (of_nat n :: u32) = n"
  by (simp add: unsigned_of_nat take_bit_eq_mod)

lemma small_no_error: "n < 4200 \<Longrightarrow> handle_lz4error (of_nat n) = 0"
  by (simp add: handle_lz4error_def LZ4F_isError_def word_less_nat_alt small_word)

lemma lz4_put_ok:
  assumes "stopped w = None" and "length out < 4200"
  shows "run_state (lz4_put (of_nat (length out)) out) w
    = ((), w\<lparr>events := events w @ put_calls (fid (lz4id w)) out\<rparr>)"
  using assms by (simp add: lz4_put_def put_calls_def word_less_nat_alt small_word BUFFERSIZE_def)

lemma compress_srcbuf_ok:
  assumes "log_open w cs txt"
  shows "\<exists>n w' new. run_state lz4_compress_srcbuf w = (n, w') \<and> handle_lz4error n = 0
    \<and> log_open w' (cs @ new) txt \<and> nsrcdata (lz4id w') = 0 \<and> log_step w w' new"
proof -
  let ?n = "nsrcdata (lz4id w)"
  obtain c hist where w: "stopped w = None" "isOpen (lz4id w)" "cap (lz4id w) = 4104" "?n \<le> CHUNKSIZE"
    "0 < lz4id_addr w" "ctx (lz4id w) = Context c" "prefs c = kPrefs" "clear_buffer w (tmpBuff c)"
    "frame_ok (memory_of w) c hist" "bytes_of_string txt = hist @ pending w"
    "\<And>rest. lz4f_decode (written (fid (lz4id w)) cs @ rest) = lz4f_blocks kPrefs rest hist"
    "length (written (fid (lz4id w)) cs) \<le> 7 + 5 * length hist"
    using assms by (auto simp: log_open_def)
  have "clear_of c (srcbuf w) ?n" "?n < 1073741824"
    using w(4,5,8) by (auto simp: clear_of_def clear_buffer_def srcbuf_def CHUNKSIZE_def)
  moreover have "unat (LZ4F_compressBound_internal (of_nat ?n) (prefs c) 0) \<le> 4104"
    using w(4) by (simp add: kPrefs_bound w(7) CHUNKSIZE_def)
  ultimately obtain out m1 c1 where u:
    "LZ4F_compressUpdate (memory_of w) c 4104 (srcbuf w) ?n False = Inr (of_nat (length out), out, m1, c1)"
    "frame_ok m1 c1 (hist @ pending w)" "prefs c1 = kPrefs" "tmpBuff c1 = tmpBuff c"
    "length out \<le> ?n + frame_blocks kPrefs ?n * 4"
    "\<And>rest. lz4f_blocks kPrefs (out @ rest) hist = lz4f_blocks kPrefs rest (hist @ pending w)"
    using LZ4F_compressUpdate_ok [OF w(9), of "srcbuf w" ?n 4104] w(7)
    by (auto simp: update_ok_def pending_def kPrefs_flags split: prod.splits)
  have out: "length out < 4200"
    using u(5) w(4) by (auto simp: frame_blocks_kPrefs CHUNKSIZE_def split: if_splits)
  have more: "length out \<le> 5 * length (pending w)"
    using u(5) w(4) by (auto simp: frame_blocks_kPrefs CHUNKSIZE_def pending_def split: if_splits)
  define w1 where "w1 = w\<lparr>memory_of := m1, lz4id := (lz4id w)\<lparr>ctx := Context c1, nsrcdata := 0\<rparr>\<rparr>"
  define w' where "w' = w1\<lparr>events := events w @ put_calls (fid (lz4id w)) out\<rparr>"
  have "run_state lz4_compress_srcbuf w = (of_nat (length out), w')"
    using w(1) lz4_put_ok [of w1 out] out
    by (simp add: lz4_compress_srcbuf_def with_context_def w(3,6) u(1) set_lz4id_def w1_def w'_def)
  moreover have "log_open w' (cs @ put_calls (fid (lz4id w)) out) txt"
    using w(1-3,5,8,10-12) u(2-4,6) more
    by (auto simp: log_open_def w'_def w1_def pending_def clear_buffer_def srcbuf_def CHUNKSIZE_def)
  moreover have "log_step w w' (put_calls (fid (lz4id w)) out)" "nsrcdata (lz4id w') = 0"
    by (simp_all add: log_step_def w'_def w1_def)
  ultimately show ?thesis using small_no_error [OF out] by blast
qed

lemma append_ok:
  assumes "log_open w cs txt" and "length data + nsrcdata (lz4id w) \<le> CHUNKSIZE" and "length data < CHUNKSIZE"
  shows "\<exists>w'. run_state (lz4_append data) w = ((), w') \<and> log_open w' cs (txt @ data) \<and> log_step w w' []"
proof -
  let ?n = "nsrcdata (lz4id w)"
  obtain c hist where w: "stopped w = None" "isOpen (lz4id w)" "cap (lz4id w) = 4104" "?n \<le> CHUNKSIZE"
    "0 < lz4id_addr w" "ctx (lz4id w) = Context c" "prefs c = kPrefs" "clear_buffer w (tmpBuff c)"
    "frame_ok (memory_of w) c hist" "bytes_of_string txt = hist @ pending w"
    "\<And>rest. lz4f_decode (written (fid (lz4id w)) cs @ rest) = lz4f_blocks kPrefs rest hist"
    "length (written (fid (lz4id w)) cs) \<le> 7 + 5 * length hist"
    using assms by (auto simp: log_open_def)
  define m1 where "m1 = store (memory_of w) (srcbuf w + int ?n) (bytes_of_string data)"
  define w' where "w' = w\<lparr>memory_of := m1, lz4id := (lz4id w)\<lparr>nsrcdata := ?n + length data\<rparr>\<rparr>"
  have run: "run_state (lz4_append data) w = ((), w')"
    using assms(3) w(1) by (simp add: lz4_append_def set_lz4id_def w'_def m1_def)
  have "pending w' = pending w @ bytes_of_string data"
    using mem_bytes_store [of "memory_of w" "srcbuf w" ?n "bytes_of_string data"]
    by (simp add: pending_def w'_def m1_def srcbuf_def)
  moreover have "frame_ok m1 c hist"
    using w(4,8,9) assms(2)
    by (intro frame_ok_outside [OF w(9)]) (auto simp: m1_def store_def clear_buffer_def CHUNKSIZE_def)
  ultimately have "log_open w' cs (txt @ data)"
    using w assms(2) by (auto simp: log_open_def w'_def clear_buffer_def srcbuf_def)
  with run show ?thesis by (auto simp: log_step_def w'_def)
qed

lemma log_step_trans: "log_step u v a \<Longrightarrow> log_step v w b \<Longrightarrow> log_step u w (a @ b)"
  by (simp add: log_step_def)

lemma log_step_refl: "log_step w w []"
  by (simp add: log_step_def)

lemma lz4write_ok:
  assumes "log_open w cs txt" and "length data < CHUNKSIZE"
  shows "\<exists>w' new. run_state (lz4write (Some data)) w = (LZ4_SUCCESS, w')
    \<and> log_open w' (cs @ new) (txt @ data) \<and> log_step w w' new"
proof -
  define flush where "flush \<longleftrightarrow> CHUNKSIZE < length data + nsrcdata (lz4id w)"
  have zero: "handle_lz4error 0 = 0" using small_no_error [of 0] by simp
  have "\<exists>n w1 new. run_state (if flush then lz4_compress_srcbuf else State_Monad.return 0) w = (n, w1)
      \<and> handle_lz4error n = 0 \<and> log_open w1 (cs @ new) txt \<and> log_step w w1 new
      \<and> length data + nsrcdata (lz4id w1) \<le> CHUNKSIZE"
  proof (cases flush)
    case True
    with compress_srcbuf_ok [OF assms(1)] assms(2) show ?thesis by fastforce
  next
    case False
    then show ?thesis using assms zero log_step_refl by (force simp: flush_def)
  qed
  then obtain n w1 new where s1: "run_state (if flush then lz4_compress_srcbuf else State_Monad.return 0) w = (n, w1)"
      "handle_lz4error n = 0" "log_open w1 (cs @ new) txt" "log_step w w1 new"
      "length data + nsrcdata (lz4id w1) \<le> CHUNKSIZE"
    by blast
  have "\<exists>w'. run_state (if length data > 0 then lz4_append data else State_Monad.return ()) w1 = ((), w')
      \<and> log_open w' (cs @ new) (txt @ data) \<and> log_step w1 w' []"
    using append_ok [OF s1(3,5) assms(2)] s1(3) log_step_refl by (cases "data = []") auto
  then obtain w' where s2: "run_state (if length data > 0 then lz4_append data else State_Monad.return ()) w1 = ((), w')"
      "log_open w' (cs @ new) (txt @ data)" "log_step w1 w' []"
    by blast
  have "run_state (lz4write (Some data)) w = (LZ4_SUCCESS, w')"
    using s1(1,2) s2(1) by (simp add: lz4write_def flush_def [symmetric] cong: if_cong split del: if_split)
  then show ?thesis using s2(2) log_step_trans [OF s1(4) s2(3)] by auto
qed

section \<open>Closing\<close>

lemma finish_ok:
  assumes "log_open w cs txt" and "nsrcdata (lz4id w) = 0"
  shows "\<exists>n w' new. run_state lz4_finish w = (n, w') \<and> handle_lz4error n = 0 \<and> stopped w' = None
    \<and> lz4f_decode (written (fid (lz4id w)) (cs @ new)) = Some (bytes_of_string txt)
    \<and> length (written (fid (lz4id w)) (cs @ new)) \<le> 11 + 5 * length txt
    \<and> log_step w w' new \<and> isOpen (lz4id w') \<and> nsrcdata (lz4id w') = 0
    \<and> (\<exists>c. ctx (lz4id w') = Context c \<and> cctx_ok c \<and> maxBufferSize c = 0)"
proof -
  obtain c hist where w: "stopped w = None" "isOpen (lz4id w)" "cap (lz4id w) = 4104"
    "ctx (lz4id w) = Context c" "prefs c = kPrefs" "frame_ok (memory_of w) c hist" "bytes_of_string txt = hist @ pending w"
    "\<And>rest. lz4f_decode (written (fid (lz4id w)) cs @ rest) = lz4f_blocks kPrefs rest hist"
    "length (written (fid (lz4id w)) cs) \<le> 7 + 5 * length hist"
    using assms by (auto simp: log_open_def)
  define out where "out = end_bytes kPrefs hist"
  define c1 where "c1 = c\<lparr>cStage := 0, maxBufferSize := 0\<rparr>"
  have len: "length out = 4" by (simp add: out_def length_end_bytes kPrefs_flags)
  have hist: "hist = bytes_of_string txt" using w(7) assms(2) by (simp add: pending_def)
  have e: "LZ4F_compressEnd (memory_of w) c 4104 = Inr (of_nat (length out), out, memory_of w, c1)" "cctx_ok c1"
    using LZ4F_compressEnd_ok [OF w(6), of 4104] w(5) len by (simp_all add: out_def c1_def)
  define w1 where "w1 = w\<lparr>memory_of := memory_of w, lz4id := (lz4id w)\<lparr>ctx := Context c1\<rparr>\<rparr>"
  define w' where "w' = w1\<lparr>events := events w @ put_calls (fid (lz4id w)) out\<rparr>"
  have "run_state lz4_finish w = (of_nat (length out), w')"
    using w(1) lz4_put_ok [of w1 out] len
    by (simp add: lz4_finish_def with_context_def w(3,4) e(1) set_lz4id_def w1_def w'_def)
  moreover have "lz4f_decode (written (fid (lz4id w)) (cs @ put_calls (fid (lz4id w)) out)) = Some (bytes_of_string txt)"
    using w(8) lz4f_blocks_end_bytes [of kPrefs hist] kPrefs_flags(1) hist by (simp add: out_def)
  moreover have "length (written (fid (lz4id w)) (cs @ put_calls (fid (lz4id w)) out)) \<le> 11 + 5 * length txt"
    using w(9) len hist by simp
  moreover have "log_step w w' (put_calls (fid (lz4id w)) out)"
    by (simp add: log_step_def w'_def w1_def)
  moreover have "maxBufferSize c1 = 0" by (simp add: c1_def)
  ultimately show ?thesis
    using small_no_error [of "length out"] len w(1,2) assms(2) e(2)
    by (intro exI [of _ "of_nat (length out)"] exI [of _ w'] exI [of _ "put_calls (fid (lz4id w)) out"])
      (auto simp: w'_def w1_def)
qed

lemma lz4write_end:
  assumes "log_open w cs txt"
  shows "\<exists>w' new. run_state (lz4write None) w = (LZ4_SUCCESS, w') \<and> stopped w' = None
    \<and> lz4f_decode (written (fid (lz4id w)) (cs @ new)) = Some (bytes_of_string txt)
    \<and> length (written (fid (lz4id w)) (cs @ new)) \<le> 11 + 5 * length txt
    \<and> log_step w w' new \<and> nsrcdata (lz4id w') = 0
    \<and> (\<exists>c. ctx (lz4id w') = Context c \<and> cctx_ok c \<and> maxBufferSize c = 0)"
proof -
  define flush where "flush \<longleftrightarrow> 0 < nsrcdata (lz4id w)"
  have zero: "handle_lz4error 0 = 0" using small_no_error [of 0] by simp
  have small: "\<not> CHUNKSIZE < nsrcdata (lz4id w)" using assms by (simp add: log_open_def)
  have "\<exists>n w1 new. run_state (if flush then lz4_compress_srcbuf else State_Monad.return 0) w = (n, w1)
      \<and> handle_lz4error n = 0 \<and> log_open w1 (cs @ new) txt \<and> log_step w w1 new \<and> nsrcdata (lz4id w1) = 0"
  proof (cases flush)
    case True
    with compress_srcbuf_ok [OF assms(1)] show ?thesis by fastforce
  next
    case False
    then show ?thesis using assms zero log_step_refl by (force simp: flush_def)
  qed
  then obtain n w1 new where s1: "run_state (if flush then lz4_compress_srcbuf else State_Monad.return 0) w = (n, w1)"
      "handle_lz4error n = 0" "log_open w1 (cs @ new) txt" "log_step w w1 new" "nsrcdata (lz4id w1) = 0"
    by blast
  obtain n2 w' new2 where s2: "run_state lz4_finish w1 = (n2, w')" "handle_lz4error n2 = 0" "stopped w' = None"
    "lz4f_decode (written (fid (lz4id w1)) ((cs @ new) @ new2)) = Some (bytes_of_string txt)"
    "length (written (fid (lz4id w1)) ((cs @ new) @ new2)) \<le> 11 + 5 * length txt"
    "log_step w1 w' new2" "nsrcdata (lz4id w') = 0"
    "\<exists>c. ctx (lz4id w') = Context c \<and> cctx_ok c \<and> maxBufferSize c = 0"
    using finish_ok [OF s1(3,5)] by blast
  have "run_state (lz4write None) w = (LZ4_SUCCESS, w')"
    using s1(1,2) s2(1,2) small
    by (simp add: lz4write_def flush_def [symmetric] cong: if_cong split del: if_split)
  moreover have "fid (lz4id w1) = fid (lz4id w)" using s1(4) by (simp add: log_step_def)
  ultimately show ?thesis
    using s2(3-5,7,8) log_step_trans [OF s1(4) s2(6)]
    by (intro exI [of _ w'] exI [of _ "new @ new2"]) auto
qed

text \<open>The calls of a close behind the ones that write the rest of the frame.\<close>

definition close_calls :: "int \<Rightarrow> string \<Rightarrow> trace" where
  "close_calls p name = [Fs (Fs_close (Allocated_File p)), Kernel (K_free p), Fs (Fs_rename (tempname name) name)]"

lemma written_close_calls [simp]: "written p (close_calls q name) = []"
  by (simp add: close_calls_def)

lemma lz4close_ok:
  assumes "log_open w cs txt"
  shows "\<exists>w' new. run_state lz4close w = (LZ4_SUCCESS, w')
    \<and> outside w' = outside w \<and> lz4id_addr w' = lz4id_addr w
    \<and> events w' = events w @ new @ close_calls (fid (lz4id w)) (filename (lz4id w))
    \<and> lz4f_decode (written (fid (lz4id w)) (cs @ new)) = Some (bytes_of_string txt)
    \<and> length (written (fid (lz4id w)) (cs @ new)) \<le> 11 + 5 * length txt
    \<and> (reuseContext (lz4id w) \<longrightarrow> log_closed w')"
proof -
  obtain w1 new where s: "run_state (lz4write None) w = (LZ4_SUCCESS, w1)" "stopped w1 = None"
    "lz4f_decode (written (fid (lz4id w)) (cs @ new)) = Some (bytes_of_string txt)"
    "log_step w w1 new" "nsrcdata (lz4id w1) = 0"
    "length (written (fid (lz4id w)) (cs @ new)) \<le> 11 + 5 * length txt"
    "\<exists>c. ctx (lz4id w1) = Context c \<and> cctx_ok c \<and> maxBufferSize c = 0"
    using lz4write_end [OF assms] by blast
  have "isOpen (lz4id w)" "0 < lz4id_addr w" using assms by (simp_all add: log_open_def)
  note run = s(1,2,4) [unfolded log_step_def] this
  show ?thesis
  proof (cases "reuseContext (lz4id w)")
    case True
    have "run_state lz4close w = (LZ4_SUCCESS,
       w1\<lparr>events := events w1 @ close_calls (fid (lz4id w)) (filename (lz4id w)),
          lz4id := (lz4id w1)\<lparr>isOpen := False, filename := []\<rparr>\<rparr>)"
      using run True by (simp add: lz4close_def set_lz4id_def close_calls_def)
    then show ?thesis using run s(3,5-7) by (auto simp: log_closed_def)
  next
    case False
    have "run_state lz4close w = (LZ4_SUCCESS,
       w1\<lparr>events := events w1 @ close_calls (fid (lz4id w)) (filename (lz4id w)),
          lz4id := (lz4id w1)\<lparr>ctx := Freed_Context, isOpen := False, filename := []\<rparr>\<rparr>)"
      using run False by (simp add: lz4close_def set_lz4id_def close_calls_def)
    then show ?thesis using run s(3,6) False by auto
  qed
qed

section \<open>Opening\<close>

text \<open>
  An outside that lets a log be opened: memory can be had, apart from the source buffer, and
  the file can be created and takes its header.
\<close>

definition opens :: "'z lz4_world_scheme \<Rightarrow> string \<Rightarrow> bool" where
  "opens w path \<longleftrightarrow>
     (let E = outside w;
          t1 = events w @ [Kernel (K_malloc Fs_file_object)];
          p = ans E t1;
          t2 = t1 @ [Fs (Fs_open (Allocated_File p) (tempname path) [FS_O_WRITE, FS_O_CREATE])]
      in p \<noteq> 0 \<and> ans E t2 = 0 \<and> heap_cctx E t2 \<and> heap_stream E t2 \<and> 0 < heap_buffer E t2
         \<and> clear_buffer w (heap_buffer E t2)
         \<and> handle_lz4error (word_of_int (ans E (t2 @ [Fs (Fs_write (Allocated_File p) (LZ4F_header kPrefs))]))) = 0)"

definition open_calls :: "int \<Rightarrow> string \<Rightarrow> trace" where
  "open_calls p path =
     [Kernel (K_malloc Fs_file_object),
      Fs (Fs_open (Allocated_File p) (tempname path) [FS_O_WRITE, FS_O_CREATE]),
      Fs (Fs_write (Allocated_File p) (LZ4F_header kPrefs))]"

lemma cctx_ok_new: "cctx_ok (the (snd (LZ4F_createCompressionContext True v)))"
  by (simp add: LZ4F_createCompressionContext_def cctx_ok_def)

lemma LZ4F_compressBegin_buffer:
  assumes "LZ4F_compressBegin al m c n p = Inr (r, out, m1, c1)" and "maxBufferSize c = 0"
    and "frame_ok m1 c1 hist" and "p = kPrefs"
  shows "tmpBuff c1 = a_buffer al"
  using assms
  by (auto simp: LZ4F_compressBegin_def LZ4F_ctx_management_def LZ4F_buffer_management_def Let_def
      kPrefs_def LZ4HC_CLEVEL_MIN_def frame_ok_def split: if_splits)

lemma lz4open_ok:
  assumes closed: "log_closed w" and opens: "opens w path" and path: "length path < 200"
  shows "\<exists>w'. run_state (lz4open path) w = (LZ4_SUCCESS, w')
    \<and> log_open w' (open_calls (fid (lz4id w')) path) []
    \<and> events w' = events w @ open_calls (fid (lz4id w')) path
    \<and> outside w' = outside w \<and> lz4id_addr w' = lz4id_addr w
    \<and> filename (lz4id w') = path \<and> reuseContext (lz4id w') = reuseContext (lz4id w)"
proof -
  define p where "p = ans (outside w) (events w @ [Kernel (K_malloc Fs_file_object)])"
  define t2 where "t2 = events w @ [Kernel (K_malloc Fs_file_object),
    Fs (Fs_open (Allocated_File p) (tempname path) [FS_O_WRITE, FS_O_CREATE])]"
  have o: "p \<noteq> 0" "ans (outside w) t2 = 0" "heap_cctx (outside w) t2" "heap_stream (outside w) t2"
    "0 < heap_buffer (outside w) t2" "clear_buffer w (heap_buffer (outside w) t2)"
    "handle_lz4error (word_of_int (ans (outside w) (t2 @ [Fs (Fs_write (Allocated_File p) (LZ4F_header kPrefs))]))) = 0"
    using opens by (simp_all add: opens_def Let_def p_def t2_def)
  define c where "c = (case ctx (lz4id w) of Context c \<Rightarrow> c | _ \<Rightarrow> the (snd (LZ4F_createCompressionContext True LZ4F_VERSION)))"
  have c: "cctx_ok c" "maxBufferSize c = 0"
    "(if ctx (lz4id w) = No_Context then Context (the (snd (LZ4F_createCompressionContext True LZ4F_VERSION))) else ctx (lz4id w)) = Context c"
    using closed cctx_ok_new [of LZ4F_VERSION]
    by (auto simp: log_closed_def c_def LZ4F_createCompressionContext_def)
  define al where "al = \<lparr>a_stream = heap_stream (outside w) t2, a_buffer = heap_buffer (outside w) t2\<rparr>"
  obtain m1 c1 where b: "LZ4F_compressBegin al (memory_of w) c 4104 kPrefs
      = Inr (of_nat (length (LZ4F_header kPrefs)), LZ4F_header kPrefs, m1, c1)"
    "frame_ok m1 c1 []" "prefs c1 = kPrefs"
    using LZ4F_compressBegin_ok [OF c(1) kPrefs_ok, of al 4104 "memory_of w"] o(4,5) by (auto simp: al_def)
  have tb: "tmpBuff c1 = heap_buffer (outside w) t2"
    using LZ4F_compressBegin_buffer [OF b(1) c(2) b(2) refl] by (simp add: al_def)
  have len: "length (LZ4F_header kPrefs) = 7" by (simp add: length_header kPrefs_def)
  define w' where "w' = w\<lparr>events := events w @ open_calls p path, memory_of := m1,
    lz4id := (lz4id w)\<lparr>fid := p, filename := path, cap := 4104, ctx := Context c1, isOpen := True\<rparr>\<rparr>"
  have w: "stopped w = None" using closed by (simp add: log_closed_def)
  have ctx: "ctx (lz4id w) = No_Context \<or> ctx (lz4id w) = Context c" using c(3) by (auto split: if_splits)
  have new: "snd (LZ4F_createCompressionContext True LZ4F_VERSION) = Some c" if "ctx (lz4id w) = No_Context"
    using that by (simp add: c_def LZ4F_createCompressionContext_def)
  have "run_state (lz4open path) w = (LZ4_SUCCESS, w')"
    using ctx
  proof
    assume "ctx (lz4id w) = Context c"
    then show ?thesis
      using w o path b(1) small_no_error [of 7] len kPrefs_cap
      by (simp add: lz4open_def set_lz4id_def maxFHSize_def BUFFERSIZE_def p_def [symmetric] t2_def al_def w'_def open_calls_def)
  next
    assume "ctx (lz4id w) = No_Context"
    then show ?thesis
      using w o path b(1) small_no_error [of 7] len kPrefs_cap new
      by (simp add: lz4open_def set_lz4id_def maxFHSize_def BUFFERSIZE_def p_def [symmetric] t2_def al_def w'_def open_calls_def)
  qed
  moreover have "log_open w' (open_calls p path) []"
    using closed o(6) b(2,3) w lz4f_decode_header [OF kPrefs_header] tb len
    by (auto simp: log_open_def w'_def log_closed_def open_calls_def pending_def clear_buffer_def srcbuf_def)
  ultimately show ?thesis by (intro exI [of _ w']) (simp add: w'_def)
qed

section \<open>A whole log\<close>

text \<open>The lines of a log, written one after the other, as the main loop does.\<close>

fun log_lines :: "string list \<Rightarrow> ('z lz4_world_scheme, unit) state" where
  "log_lines [] = State_Monad.return ()"
| "log_lines (l # ls) = do { _ \<leftarrow> lz4write (Some l); log_lines ls }"

lemma log_lines_ok:
  assumes "log_open w cs txt" and "\<forall>l \<in> set ls. length l < CHUNKSIZE"
  shows "\<exists>w' new. run_state (log_lines ls) w = ((), w') \<and> log_open w' (cs @ new) (txt @ concat ls) \<and> log_step w w' new"
  using assms
proof (induction ls arbitrary: w cs "txt")
  case Nil
  then show ?case using log_step_refl by force
next
  case (Cons l ls)
  obtain w1 new1 where 1: "run_state (lz4write (Some l)) w = (LZ4_SUCCESS, w1)"
    "log_open w1 (cs @ new1) (txt @ l)" "log_step w w1 new1"
    using lz4write_ok [OF Cons.prems(1), of l] Cons.prems(2) by (auto simp only: list.set ball_simps)
  obtain w2 new2 where 2: "run_state (log_lines ls) w1 = ((), w2)"
    "log_open w2 ((cs @ new1) @ new2) ((txt @ l) @ concat ls)" "log_step w1 w2 new2"
    using Cons.IH [OF 1(2)] Cons.prems(2) by auto
  show ?case
    using 1(1) 2(1,2) log_step_trans [OF 1(3) 2(3)]
    by (intro exI [of _ w2] exI [of _ "new1 @ new2"]) simp
qed

definition log_session :: "string \<Rightarrow> string list \<Rightarrow> ('z lz4_world_scheme, int \<times> int) state" where
  "log_session path ls = do {
     r \<leftarrow> lz4open path;
     log_lines ls;
     s \<leftarrow> lz4close;
     State_Monad.return (r, s)
   }"

lemma log_session_ok:
  assumes "log_closed w" and "opens w path" and "length path < 200" and "\<forall>l \<in> set ls. length l < CHUNKSIZE"
  shows "\<exists>w' p new. run_state (log_session path ls) w = ((LZ4_SUCCESS, LZ4_SUCCESS), w')
    \<and> events w' = events w @ new @ close_calls p path
    \<and> lz4f_decode (written p new) = Some (bytes_of_string (concat ls)) \<and> length (written p new) \<le> 11 + 5 * length (concat ls)"
proof -
  obtain w1 where 1: "run_state (lz4open path) w = (LZ4_SUCCESS, w1)"
    "log_open w1 (open_calls (fid (lz4id w1)) path) []" "events w1 = events w @ open_calls (fid (lz4id w1)) path"
    "filename (lz4id w1) = path"
    using lz4open_ok [OF assms(1-3)] by blast
  obtain w2 new2 where 2: "run_state (log_lines ls) w1 = ((), w2)"
    "log_open w2 (open_calls (fid (lz4id w1)) path @ new2) (concat ls)" "log_step w1 w2 new2"
    using log_lines_ok [OF 1(2) assms(4)] by auto
  have same: "fid (lz4id w2) = fid (lz4id w1)" "filename (lz4id w2) = path" "events w2 = events w1 @ new2"
    using 2(3) 1(4) by (simp_all add: log_step_def)
  obtain w3 new3 where 3: "run_state lz4close w2 = (LZ4_SUCCESS, w3)"
    "events w3 = events w2 @ new3 @ close_calls (fid (lz4id w1)) path"
    "lz4f_decode (written (fid (lz4id w1)) ((open_calls (fid (lz4id w1)) path @ new2) @ new3)) = Some (bytes_of_string (concat ls))"
    "length (written (fid (lz4id w1)) ((open_calls (fid (lz4id w1)) path @ new2) @ new3)) \<le> 11 + 5 * length (concat ls)"
    using lz4close_ok [OF 2(2)] unfolding same(1,2) by blast
  show ?thesis
    using 1(1,3) 2(1) 3 same(3)
    by (intro exI [of _ w3] exI [of _ "fid (lz4id w1)"] exI [of _ "open_calls (fid (lz4id w1)) path @ new2 @ new3"])
      (simp add: log_session_def)
qed

lemma lz4write_oversized:
  assumes "log_open w cs txt" and "CHUNKSIZE \<le> length data"
  shows "stopped (snd (run_state (lz4write (Some data)) w)) = Some Assert_Failed"
proof -
  define flush where "flush \<longleftrightarrow> CHUNKSIZE < length data + nsrcdata (lz4id w)"
  have zero: "handle_lz4error 0 = 0" using small_no_error [of 0] by simp
  have "\<exists>n w1 new. run_state (if flush then lz4_compress_srcbuf else State_Monad.return 0) w = (n, w1)
      \<and> handle_lz4error n = 0 \<and> log_open w1 (cs @ new) txt"
  proof (cases flush)
    case True
    with compress_srcbuf_ok [OF assms(1)] show ?thesis by fastforce
  next
    case False
    then show ?thesis using assms(1) zero by (auto intro: exI [of _ "[]"])
  qed
  then obtain n w1 where s: "run_state (if flush then lz4_compress_srcbuf else State_Monad.return 0) w = (n, w1)"
      "handle_lz4error n = 0" "stopped w1 = None"
    by (auto simp: log_open_def)
  have "data \<noteq> []" using assms(2) by (auto simp: CHUNKSIZE_def)
  then show ?thesis
    using s assms(2)
    by (simp add: lz4write_def flush_def [symmetric] lz4_append_def cong: if_cong split del: if_split)
qed

lemma lz4open_freed:
  assumes "stopped w = None" and "ctx (lz4id w) = Freed_Context" and "length path < 200"
    and "ans (outside w) (events w @ [Kernel (K_malloc Fs_file_object)]) = p" and "p \<noteq> 0"
    and "ans (outside w) (events w @ [Kernel (K_malloc Fs_file_object),
           Fs (Fs_open (Allocated_File p) (tempname path) [FS_O_WRITE, FS_O_CREATE])]) = 0"
  shows "stopped (snd (run_state (lz4open path) w)) = Some Use_After_Free"
  using assms by (simp add: lz4open_def set_lz4id_def maxFHSize_def BUFFERSIZE_def kPrefs_cap)

lemma lz4open_fails:
  assumes "stopped w = None" and "length path < 200"
    and "ans (outside w) (events w @ [Kernel (K_malloc Fs_file_object)]) = p" and "p \<noteq> 0"
    and "ans (outside w) (events w @ [Kernel (K_malloc Fs_file_object),
           Fs (Fs_open (Allocated_File p) (tempname path) [FS_O_WRITE, FS_O_CREATE])]) \<noteq> 0"
  shows "\<exists>w'. run_state (lz4open path) w = (LZ4_ERR_IO, w') \<and> stopped w' = None
    \<and> isOpen (lz4id w') = isOpen (lz4id w)
    \<and> events w' = events w @ [Kernel (K_malloc Fs_file_object),
         Fs (Fs_open (Allocated_File p) (tempname path) [FS_O_WRITE, FS_O_CREATE]), Kernel (K_free (lz4id_addr w))]"
  using assms by (simp add: lz4open_def set_lz4id_def)

end
