(* ===== verification/Logger.thy ===== *)
theory Logger
  imports Upload Lz4_File_Correct
begin

text \<open>
  \<open>main.c\<close>: starting up, the loop that waits for sentences and for the day to change, opening a
  new log file, and uploading the finished ones.
\<close>

text \<open>\<open>sem_state\<close> and \<open>msgq_state\<close> are the states of the two poll events.\<close>

record logger_world = upload_world +
  log_timestamp :: int
  sem_state :: bool
  msgq_state :: bool

section \<open>Uploading finished files\<close>

text \<open>
  The loop over the directory: \<open>k\<close> bounds the entries one call of \<open>lsdir_next\<close> reads, \<open>n\<close> the
  buffers one upload reads, and the first argument the files. The result says whether the link
  was opened.
\<close>

fun sync_loop :: "nat \<Rightarrow> nat \<Rightarrow> nat \<Rightarrow> bool \<Rightarrow> ('z upload_world_scheme, bool) state" where
  "sync_loop 0 k n lte_active = stop Out_Of_Fuel lte_active"
| "sync_loop (Suc m) k n lte_active = do {
     f \<leftarrow> lsdir_next k (Some ''.lz4'') 50;
     case f of
       None \<Rightarrow> State_Monad.return lte_active
     | Some lz4file \<Rightarrow> do {
         (if \<not> lte_active then do { _ \<leftarrow> stop_gnss; _ \<leftarrow> lte_connect; State_Monad.return () } else State_Monad.return ());
         let lz4fullfile = get_sd_data_path (Some lz4file);
         check Out_Of_Bounds (length lz4fullfile < 100);
         r \<leftarrow> webdavUploadFile n lz4fullfile;
         (if r = UPLOADCLNT_SUCCESS then perform (Fs (Fs_rename lz4fullfile (lz4fullfile @ ''_ok'')))
          else State_Monad.return ());
         sync_loop m k n True
       }
   }"

definition sync_files :: "nat \<Rightarrow> nat \<Rightarrow> nat \<Rightarrow> ('z upload_world_scheme, unit) state" where
  "sync_files m k n = do {
     c \<leftarrow> ask confdata;
     if upload c = 1 then do {
       prev_ledstatus \<leftarrow> get_led_status;
       set_led_status LED_UPLOADING;
       _ \<leftarrow> lsdir_init (get_sd_data_path None);
       lte_active \<leftarrow> sync_loop m k n False;
       _ \<leftarrow> lsdir_close;
       (if lte_active then do {
          lte_disconnect;
          k_sleep 1000;
          _ \<leftarrow> start_gnss;
          k_sleep 1000
        } else State_Monad.return ());
       set_led_status prev_ledstatus
     } else State_Monad.return ()
   }"

section \<open>A new log file\<close>

definition log_name :: "string \<Rightarrow> string \<Rightarrow> string" where
  "log_name base datestr = base @ ''_'' @ datestr @ ''.lz4''"

text \<open>The path is built in the file name of the log itself; its copy onto itself changes nothing.\<close>

definition rollover_lz4log :: "('z logger_world_scheme, int) state" where
  "rollover_lz4log = do {
     f \<leftarrow> ask lz4id;
     (if isOpen f then do { _ \<leftarrow> lz4close; State_Monad.return () } else State_Monad.return ());
     datestr \<leftarrow> gnss_get_current_datetimestr 18;
     c \<leftarrow> ask confdata;
     let filenamebase = log_name (filebase c) datestr;
     check Out_Of_Bounds (length filenamebase < 55);
     let path = get_sd_data_path (Some filenamebase);
     check Out_Of_Bounds (length path < 200);
     set_lz4id (\<lambda>f. f\<lparr>filename := path\<rparr>);
     r \<leftarrow> lz4open path;
     if r \<noteq> LZ4_SUCCESS then State_Monad.return (-1)
     else do {
       _ \<leftarrow> get_jsonstatus JSONBUFLEN;
       buf \<leftarrow> ask jsonbuf;
       check Out_Of_Bounds (CHR 0x00 \<in> set buf);
       _ \<leftarrow> lz4write (Some (c_string buf));
       t \<leftarrow> call (Kernel K_uptime_get);
       assign (\<lambda>w. w\<lparr>log_timestamp := t\<rparr>);
       State_Monad.return 0
     }
   }"

section \<open>The main program\<close>

definition led_error :: "('z led_world_scheme, bool) state" where
  "led_error = do { set_led_status LED_ERROR; State_Monad.return False }"

text \<open>
  Everything before the loop; the result says whether the loop is entered. The build options are
  those of \<open>read_config\<close> and \<open>gnss_event_handler\<close>.
\<close>

definition main_init :: "bool \<Rightarrow> bool \<Rightarrow> ('z logger_world_scheme, bool) state" where
  "main_init sockopt_tls supl_client = do {
     _ \<leftarrow> init_adc;
     set_led_status LED_SEARCHING;
     r \<leftarrow> setup_modem;
     if r \<noteq> 0 then led_error
     else do {
       print_boardinfo;
       r \<leftarrow> mount_sdcard;
       if r \<noteq> FEA_SUCCESS then led_error
       else do {
         r \<leftarrow> initialize_sdcard_files;
         if r \<noteq> FEA_SUCCESS then led_error
         else do {
           r \<leftarrow> read_config sockopt_tls;
           if r \<noteq> CONF_SUCCESS then led_error
           else do {
             _ \<leftarrow> init_device_status;
             c \<leftarrow> ask confdata;
             r \<leftarrow> (if usetls (webdav c) = 1 then cert_provision (tlscert (webdav c)) else State_Monad.return UPLOADCLNT_SUCCESS);
             if r \<noteq> UPLOADCLNT_SUCCESS then led_error
             else do {
               init_lz4stream True;
               r \<leftarrow> init_gnss supl_client (agps c);
               if r \<noteq> 0 then led_error
               else do {
                 r \<leftarrow> start_gnss;
                 if r \<noteq> 0 then led_error
                 else do {
                   set_led_status LED_SEARCHING;
                   State_Monad.return True
                 }
               }
             }
           }
         }
       }
     }
   }"

text \<open>
  \<open>k_poll\<close> sets the state of the events that are ready, here the first two bits of its answer.
  The rollover resets its event only when it took the semaphore.
\<close>

definition main_poll :: "('z logger_world_scheme, unit) state" where
  "main_poll = do {
     r \<leftarrow> call (Kernel K_poll);
     assign (\<lambda>w. w\<lparr>sem_state := sem_state w \<or> bit r 0, msgq_state := msgq_state w \<or> bit r 1\<rparr>)
   }"

definition main_rollover :: "nat \<Rightarrow> nat \<Rightarrow> nat \<Rightarrow> ('z logger_world_scheme, bool) state" where
  "main_rollover m k n = do {
     s \<leftarrow> ask sem_state;
     t \<leftarrow> (if s then call (Kernel (K_sem_take rollover_event_sem K_NO_WAIT)) else State_Monad.return (-1));
     if s \<and> t = 0 then do {
       _ \<leftarrow> rollover_lz4log;
       sync_files m k n;
       assign (\<lambda>w. w\<lparr>sem_state := False\<rparr>);
       State_Monad.return True
     } else State_Monad.return False
   }"

text \<open>
  What \<open>k_msgq_get\<close> leaves is the pointer of a frame, whose sentence is \<open>nmea_str\<close>. The result is
  the text that went to the log.
\<close>

definition main_message :: "('z logger_world_scheme, string) state" where
  "main_message = do {
     s \<leftarrow> ask msgq_state;
     if s then do {
       r \<leftarrow> call (Kernel (K_msgq_get K_NO_WAIT));
       nmea_data \<leftarrow> ask (\<lambda>w. int (size_ans (outside w) (events w)));
       nmea_str \<leftarrow> said;
       txt \<leftarrow> (if r = 0 then do {
           f \<leftarrow> ask lz4id;
           fix \<leftarrow> (if isOpen f then got_fix else State_Monad.return 0);
           txt \<leftarrow> (if isOpen f \<and> fix \<noteq> 0 then do { _ \<leftarrow> lz4write (Some nmea_str); State_Monad.return nmea_str }
                   else State_Monad.return []);
           perform (Kernel (K_free nmea_data));
           State_Monad.return txt
         } else State_Monad.return []);
       assign (\<lambda>w. w\<lparr>msgq_state := False\<rparr>);
       State_Monad.return txt
     } else State_Monad.return []
   }"

definition main_loop_body :: "nat \<Rightarrow> nat \<Rightarrow> nat \<Rightarrow> ('z logger_world_scheme, bool \<times> string) state" where
  "main_loop_body m k n = do {
     main_poll;
     rolled \<leftarrow> main_rollover m k n;
     txt \<leftarrow> main_message;
     State_Monad.return (rolled, txt)
   }"

end
