(* ===== verification/Logger_Correct.thy ===== *)
theory Logger_Correct
  imports Logger
begin

text \<open>
  What the main program guarantees: what uploading does to the radio and to the files, that no
  sentence is lost from memory, and that a log file holds what was received.
\<close>

section \<open>The radio during an upload\<close>

abbreviation stops :: "'z world_scheme \<Rightarrow> nat" where
  "stops w \<equiv> count_list (events w) (Gnss Gnss_stop)"

abbreviation starts :: "'z world_scheme \<Rightarrow> nat" where
  "starts w \<equiv> count_list (events w) (Gnss Gnss_start)"

abbreviation connects :: "'z world_scheme \<Rightarrow> nat" where
  "connects w \<equiv> count_list (events w) (Modem Lte_lc_connect_async)"

abbreviation disconnects :: "'z world_scheme \<Rightarrow> nat" where
  "disconnects w \<equiv> count_list (events w) (Modem (Lte_lc_func_mode_set DEACTIVATE_LTE))"

text \<open>A file is renamed by appending \<open>_ok\<close>, and only if its name ends in \<open>.lz4\<close>.\<close>

definition rename_ok :: "call \<Rightarrow> bool" where
  "rename_ok c \<longleftrightarrow> (\<forall>a b. c = Fs (Fs_rename a b) \<longrightarrow>
     (\<exists>f. a = get_sd_data_path (Some f) \<and> b = a @ ''_ok'' \<and> has_suffix ''.lz4'' f))"

definition radio :: "'z led_world_scheme \<Rightarrow> nat \<times> nat \<times> nat \<times> nat \<times> int" where
  "radio w = (stops w, starts w, connects w, disconnects w, led_status w)"

definition quiet_call :: "call \<Rightarrow> bool" where
  "quiet_call c \<longleftrightarrow> c \<notin> {Gnss Gnss_stop, Gnss Gnss_start, Modem Lte_lc_connect_async, Modem (Lte_lc_func_mode_set DEACTIVATE_LTE)}
     \<and> rename_ok c"

lemma quiet_call_simps [simp]:
  "quiet_call (Kernel k)" "quiet_call (Net c)" "quiet_call (Http h)" "quiet_call (Json j)" "quiet_call (Supl u)"
  "quiet_call (Fs (Fs_stat p))" "quiet_call (Fs Fs_readdir)" "quiet_call (Fs Fs_closedir)" "quiet_call (Fs (Fs_opendir p))"
  "quiet_call (Fs (Fs_open f p fl))" "quiet_call (Fs (Fs_read f len))" "quiet_call (Fs (Fs_close f))"
  by (simp_all add: quiet_call_def rename_ok_def)

lemma count_list_quiet:
  "list_all quiet_call cs \<Longrightarrow> count_list cs (Gnss Gnss_stop) = 0" "list_all quiet_call cs \<Longrightarrow> count_list cs (Gnss Gnss_start) = 0"
  "list_all quiet_call cs \<Longrightarrow> count_list cs (Modem Lte_lc_connect_async) = 0"
  "list_all quiet_call cs \<Longrightarrow> count_list cs (Modem (Lte_lc_func_mode_set DEACTIVATE_LTE)) = 0"
  by (simp_all add: count_list_all [where P = quiet_call] quiet_call_def)

text \<open>What the trace of a run with only quiet calls satisfies, against the trace before.\<close>

definition quietly :: "'z led_world_scheme \<Rightarrow> 'z led_world_scheme \<Rightarrow> bool" where
  "quietly w w' \<longleftrightarrow> outside w' = outside w \<and> (\<exists>cs. events w' = events w @ cs \<and> list_all quiet_call cs) \<and> led_status w' = led_status w"

lemma wp_quietly:
  assumes "does quiet_call m" and "keeps led_status m" and "\<And>x w'. quietly w w' \<Longrightarrow> Q x w'"
  shows "wp m Q w"
  unfolding wp_def
  using does_events [OF assms(1), of w] does_outside [OF assms(1), of w] keepsD [OF assms(2), of w] assms(3)
  by (simp add: quietly_def)

lemma quietly_radio: "quietly w w' \<Longrightarrow> radio w' = radio w"
  by (auto simp: quietly_def radio_def count_list_quiet)

lemma keeps_lsdir_next:
  "(\<And>w t. f (w\<lparr>events := t\<rparr>) = f w) \<Longrightarrow> (\<And>w e. f (w\<lparr>stopped := e\<rparr>) = f w) \<Longrightarrow> keeps f (lsdir_next k e room)"
proof (induction k)
  case (Suc k)
  then show ?case unfolding lsdir_next.simps by (intro keeps_rules Suc)
qed (simp add: keeps_stop)

lemma lsdir_next_suffix:
  "wp (lsdir_next k (Some s) room) (\<lambda>r w'. \<forall>f. r = Some f \<longrightarrow> has_suffix s f \<and> length f < room) w"
proof (induction k arbitrary: w)
  case (Suc k)
  show ?case unfolding lsdir_next.simps
    by (intro wp_rules does_rules Suc) (auto simp: name_matches_def has_suffix_def split: if_splits)
qed (simp add: wp_stop)

lemma wp_lsdir_next [wp_rules]:
  assumes "\<And>r w'. quietly w w' \<Longrightarrow> (\<And>f. r = Some f \<Longrightarrow> has_suffix s f \<and> length f < room) \<Longrightarrow> Q r w'"
  shows "wp (lsdir_next k (Some s) room) Q w"
proof (rule wp_mono [OF wp_conj])
  show "wp (lsdir_next k (Some s) room) (\<lambda>r w'. quietly w w') w"
    by (rule wp_quietly) (intro does_rules keeps_lsdir_next; simp)+
  show "wp (lsdir_next k (Some s) room) (\<lambda>r w'. \<forall>f. r = Some f \<longrightarrow> has_suffix s f \<and> length f < room) w"
    by (rule lsdir_next_suffix)
qed (use assms in blast)

lemma wp_webdavUploadFile_quietly [wp_rules]:
  "(\<And>r w'. quietly w w' \<Longrightarrow> Q r w') \<Longrightarrow> wp (webdavUploadFile n name) Q w"
  by (rule wp_quietly) (intro does_webdavUploadFile keeps_rules; simp)+

text \<open>
  The effect of handling files on the radio: \<open>d\<close> counts the times the receiver was stopped and
  the link opened; nothing else of the radio changes, and the files are only renamed as they may.
\<close>

definition synced :: "nat \<Rightarrow> 'z led_world_scheme \<Rightarrow> 'z led_world_scheme \<Rightarrow> bool" where
  "synced d w w' \<longleftrightarrow> outside w' = outside w \<and> radio w' = (stops w + d, starts w, connects w + d, disconnects w, led_status w)
     \<and> (\<exists>cs. events w' = events w @ cs \<and> list_all rename_ok cs)"

lemma quietly_synced: "quietly w w' \<Longrightarrow> synced 0 w w'"
  using quietly_radio [of w w'] by (auto simp: quietly_def synced_def radio_def quiet_call_def elim!: list.pred_mono_strong)

lemma synced_trans: "synced d u v \<Longrightarrow> synced e v w \<Longrightarrow> synced (d + e) u w"
  by (auto simp: synced_def radio_def)

lemma synced_rename:
  "has_suffix ''.lz4'' f \<Longrightarrow> a = get_sd_data_path (Some f) \<Longrightarrow> synced 0 w (w\<lparr>events := events w @ [Fs (Fs_rename a (a @ ''_ok''))]\<rparr>)"
  by (auto simp: synced_def radio_def rename_ok_def)

lemma synced_refl: "synced 0 w w"
  by (simp add: synced_def radio_def)

lemma wp_connect_synced:
  assumes "\<And>w'. synced (if act then 0 else 1) w w' \<Longrightarrow> Q () w'"
  shows "wp (if \<not> act then do { _ \<leftarrow> stop_gnss; _ \<leftarrow> lte_connect; State_Monad.return () } else State_Monad.return ()) Q w"
proof (cases act)
  case True
  then show ?thesis using assms by (simp add: wp_return synced_refl)
next
  case False
  have "wp (do { _ \<leftarrow> stop_gnss; _ \<leftarrow> lte_connect; State_Monad.return () }) Q w"
    unfolding stop_gnss_def lte_connect_def
    by (intro wp_rules does_rules assms) (auto simp: synced_def radio_def rename_ok_def False)
  with False show ?thesis by simp
qed

lemma wp_rename_synced:
  assumes "has_suffix ''.lz4'' f" and "a = get_sd_data_path (Some f)" and "\<And>w'. synced 0 w w' \<Longrightarrow> Q () w'"
  shows "wp (if b then perform (Fs (Fs_rename a (a @ ''_ok''))) else State_Monad.return ()) Q w"
proof (cases b)
  case True
  have "wp (perform (Fs (Fs_rename a (a @ ''_ok'')))) Q w"
    by (intro wp_rules assms(3) synced_rename [OF assms(1,2)])
  with True show ?thesis by simp
qed (use assms in \<open>simp add: wp_return synced_refl\<close>)

lemma does_any_webdav: "does (\<lambda>_. True) (webdavUploadFile n name)"
  by (rule does_webdavUploadFile) simp_all

lemma does_any_lsdir: "does (\<lambda>_. True) (lsdir_next k e room)"
  by (rule does_lsdir_next) simp

lemma does_any_sync_loop: "does (\<lambda>_. True) (sync_loop m k n act)"
proof (induction m arbitrary: act)
  case (Suc m)
  show ?case unfolding sync_loop.simps stop_gnss_def lte_connect_def
    by (intro does_rules does_any_webdav does_any_lsdir Suc TrueI)
qed (simp add: does_stop)

lemma synced_chain:
  assumes "quietly a b" and "synced d b c" and "quietly c e" and "synced 0 e f" and "synced 0 f g"
  shows "synced d a g"
  using synced_trans [OF quietly_synced [OF assms(1)] assms(2)]
    synced_trans [OF quietly_synced [OF assms(3)] synced_trans [OF assms(4,5)]] synced_trans [of d a c 0 g] by simp

lemma does_any_connect:
  "does (\<lambda>_. True) (if \<not> act then do { _ \<leftarrow> stop_gnss; _ \<leftarrow> lte_connect; State_Monad.return () } else State_Monad.return ())"
  unfolding stop_gnss_def lte_connect_def by (intro does_rules TrueI)

lemmas does_any = does_any_webdav does_any_lsdir does_any_sync_loop does_any_connect does_rules TrueI

lemma sync_loop_synced:
  "wp (sync_loop m k n act) (\<lambda>act' w'. (act \<longrightarrow> act') \<and> synced (if act' \<and> \<not> act then 1 else 0) w w') w"
proof (induction m arbitrary: act w)
  case (Suc m)
  show ?case
    unfolding sync_loop.simps Let_def
    apply (rule wp_bind, intro does_any, rule wp_lsdir_next, rule wp_option)
     apply (simp add: wp_return quietly_synced)
    apply (rule wp_bind, intro does_any, rule wp_connect_synced)
    apply (rule wp_bind, intro does_any, rule wp_check)
    apply (rule wp_bind, intro does_any, rule wp_webdavUploadFile_quietly)
    apply (rule wp_bind, rule does_any_sync_loop, rule wp_rename_synced, blast, rule refl)
    apply (rule wp_mono [OF Suc])
    apply (auto intro: synced_chain split: if_splits)
    done
qed (simp add: wp_stop)

text \<open>
  C12: Uploading leaves the receiver as it found it: whatever files there are, the receiver is
  stopped at most once, and then started again as the last thing after the link is closed; the
  link is opened and closed equally often; the LED shows its former status; and a file is only
  ever renamed from \<open>.lz4\<close> to \<open>.lz4_ok\<close>. With uploads off in the configuration nothing happens.
\<close>

theorem sync_files_restores_radio:
  assumes "stopped w = None" and "run_state (sync_files m k n) w = (u, w')" and "stopped w' = None"
  shows "(\<exists>d \<le> 1. stops w' = stops w + d \<and> starts w' = starts w + d \<and> connects w' = connects w + d
        \<and> disconnects w' = disconnects w + d
        \<and> (d = 1 \<longrightarrow> (\<exists>t. events w' = t @ [Modem (Lte_lc_func_mode_set DEACTIVATE_LTE), Kernel (K_sleep (K_MSEC 1000)),
                                    Gnss Gnss_start, Kernel (K_sleep (K_MSEC 1000))])))
    \<and> led_status w' = led_status w
    \<and> (\<exists>cs. events w' = events w @ cs \<and> list_all rename_ok cs)
    \<and> (upload (confdata w) \<noteq> 1 \<longrightarrow> w' = w)"
proof (cases "upload (confdata w) = 1")
  case False
  then show ?thesis using assms by (auto simp: sync_files_def intro: exI [of _ "[]"])
next
  case True
  let ?w1 = "w\<lparr>led_status := LED_UPLOADING, events := events w @ [Fs (Fs_opendir (get_sd_data_path None))]\<rparr>"
  have "wp (sync_files m k n) (\<lambda>_ w'. \<exists>act w2. synced (if act then 1 else 0) ?w1 w2 \<and> led_status w' = led_status w
      \<and> events w' = events w2 @ Fs Fs_closedir # (if act then [Modem (Lte_lc_func_mode_set DEACTIVATE_LTE),
            Kernel (K_sleep (K_MSEC 1000)), Gnss Gnss_start, Kernel (K_sleep (K_MSEC 1000))] else [])) w"
    unfolding sync_files_def get_led_status_def lsdir_init_def lsdir_close_def lte_disconnect_def k_sleep_def start_gnss_def
    apply (rule wp_bind, intro does_any, rule wp_ask)
    apply (simp only: True if_True simp_thms)
    apply (intro wp_rules does_any)
    apply simp
    apply (rule wp_mono [OF sync_loop_synced])
    apply (intro wp_rules does_any)
     apply fastforce
    apply fastforce
    done
  from wpD [OF this assms] obtain act w2 where w2: "synced (if act then 1 else 0) ?w1 w2" "led_status w' = led_status w"
    "events w' = events w2 @ Fs Fs_closedir # (if act then [Modem (Lte_lc_func_mode_set DEACTIVATE_LTE),
            Kernel (K_sleep (K_MSEC 1000)), Gnss Gnss_start, Kernel (K_sleep (K_MSEC 1000))] else [])"
    by blast
  then show ?thesis
    using True by (auto simp: synced_def radio_def rename_ok_def intro!: exI [of _ "if act then 1 else 0"])
qed

definition one_file :: upload_world where
  "one_file = idle_upload\<lparr>outside := listing [(''old'', True), (''a.lz4'', False)]\<rparr>"

lemma one_file_simps [simp]:
  "stopped one_file = None" "events one_file = []" "outside one_file = listing [(''old'', True), (''a.lz4'', False)]"
  "upload (confdata one_file) = 1" "led_status one_file = LED_BOOTING"
  by (simp_all add: one_file_def)

lemma listing_simps [simp]:
  "ans (listing es) t = 0" "size_ans (listing es) t = 0"
  "text_ans (listing es) t = (if reads (butlast t) < length es then fst (es ! reads (butlast t)) else [])"
  "flag_ans (listing es) t = (if reads (butlast t) < length es then snd (es ! reads (butlast t)) else False)"
  by (simp_all add: listing_def quiet_def)

lemma webdav_empty:
  "stopped w = None \<Longrightarrow> size_ans (outside w) (events w @ [Fs (Fs_stat p)]) = 0
   \<Longrightarrow> run_state (webdavUploadFile n p) w = (UPLOADCLNT_ERROR, w\<lparr>events := events w @ [Fs (Fs_stat p)]\<rparr>)"
  by (simp add: webdavUploadFile_def file_size_def)

theorem sync_files_restores_radio_witness:
  "\<exists>w'. run_state (sync_files (Suc (Suc 0)) (Suc (Suc (Suc 0))) 1) one_file = ((), w') \<and> stopped w' = None \<and> stops w' = 1 \<and> starts w' = 1
    \<and> led_status w' = LED_BOOTING"
proof -
  obtain w' where r: "run_state (sync_files (Suc (Suc 0)) (Suc (Suc (Suc 0))) 1) one_file = ((), w')" "stopped w' = None" "stops w' = 1"
    by (simp add: sync_files_def get_led_status_def lsdir_init_def lsdir_close_def lte_disconnect_def k_sleep_def start_gnss_def
        name_matches_def stop_gnss_def lte_connect_def webdav_empty Let_def
        get_sd_data_path_def get_sd_path_def sddata_def EAGAIN_def UPLOADCLNT_ERROR_def UPLOADCLNT_SUCCESS_def)
  from sync_files_restores_radio [OF _ r(1,2)] r show ?thesis by auto
qed

section \<open>Every finished file\<close>

definition is_stat :: "call \<Rightarrow> bool" where
  "is_stat c \<longleftrightarrow> (\<exists>p. c = Fs (Fs_stat p))"

text \<open>Each upload begins with asking for the size of its file.\<close>

abbreviation stats :: "trace \<Rightarrow> trace" where
  "stats t \<equiv> filter is_stat t"

definition unlisted :: "call \<Rightarrow> bool" where
  "unlisted c \<longleftrightarrow> \<not> is_stat c \<and> c \<noteq> Fs Fs_readdir"

lemma unlisted_simps [simp]:
  "unlisted (Kernel k)" "unlisted (Net c)" "unlisted (Http h)" "unlisted (Modem q)" "unlisted (Gnss g)"
  "unlisted (Fs Fs_closedir)" "unlisted (Fs (Fs_opendir p))" "unlisted (Fs (Fs_rename a b))"
  "unlisted (Fs (Fs_open f p fl))" "unlisted (Fs (Fs_read f len))" "unlisted (Fs (Fs_close f))"
  by (simp_all add: unlisted_def is_stat_def)

lemma unlisted_none: "list_all unlisted cs \<Longrightarrow> stats cs = [] \<and> reads cs = 0"
  by (induction cs) (auto simp: unlisted_def reads_def)

lemma webdavUploadFile_stat:
  fixes w :: "'z upload_world_scheme"
  shows "wp (webdavUploadFile n name) (\<lambda>_ w'. outside w' = outside w \<and> confdata w' = confdata w
     \<and> (\<exists>cs. events w' = events w @ Fs (Fs_stat name) # cs \<and> list_all unlisted cs)) w"
proof -
  have rest: "wp m (\<lambda>_ v. outside v = outside w \<and> confdata v = confdata w
      \<and> (\<exists>cs. events v = events w @ Fs (Fs_stat name) # cs \<and> list_all unlisted cs)) (w\<lparr>events := events w @ [Fs (Fs_stat name)]\<rparr>)"
    if "does unlisted m" and "keeps confdata m" for m :: "('z upload_world_scheme, int) state"
    unfolding wp_def
    using does_events [OF that(1), of "w\<lparr>events := events w @ [Fs (Fs_stat name)]\<rparr>"]
      does_outside [OF that(1), of "w\<lparr>events := events w @ [Fs (Fs_stat name)]\<rparr>"]
      keepsD [OF that(2), of "w\<lparr>events := events w @ [Fs (Fs_stat name)]\<rparr>"] by auto
  show ?thesis
    unfolding webdavUploadFile_def file_size_def
    apply (rule wp_bind, intro does_any, rule wp_ask)
    apply (rule wp_bind, intro does_any)
    apply (intro wp_bind wp_call wp_ask wp_return does_any)
    apply (rule rest)
     apply (intro does_rules; simp)
    apply (intro keeps_rules; simp)
    done
qed

lemma wp_run: "(stopped w = None \<Longrightarrow> run_state m w = (x, w')) \<Longrightarrow> (stopped w' = None \<Longrightarrow> Q x w') \<Longrightarrow> wp m Q w"
  by (simp add: wp_def)

definition stat_of :: "string \<times> bool \<Rightarrow> call" where
  "stat_of e = Fs (Fs_stat (get_sd_data_path (Some (fst e))))"

lemma unlisted_connect:
  "does unlisted (if \<not> act then do { _ \<leftarrow> stop_gnss; _ \<leftarrow> lte_connect; State_Monad.return () } else State_Monad.return ())"
  unfolding stop_gnss_def lte_connect_def by (intro does_rules; simp)

lemma unlisted_rename: "does unlisted (if b then perform (Fs (Fs_rename a c)) else State_Monad.return ())"
  by (intro does_rules; simp)

lemma first_selected:
  assumes "dropWhile (\<lambda>e. \<not> P e) es = e # es'"
  shows "filter P es = e # filter P es'" and "drop (Suc (length (takeWhile (\<lambda>e. \<not> P e) es))) es = es'"
    and "length (takeWhile (\<lambda>e. \<not> P e) es) < length es"
proof -
  have es: "es = takeWhile (\<lambda>e. \<not> P e) es @ e # es'" using assms by (metis takeWhile_dropWhile_id)
  have "P e" using assms by (metis hd_dropWhile list.discI list.sel(1))
  moreover have "filter P (takeWhile (\<lambda>e. \<not> P e) es) = []"
    by (auto simp: filter_empty_conv dest: set_takeWhileD)
  ultimately show "filter P es = e # filter P es'" by (subst es) simp
  show "drop (Suc (length (takeWhile (\<lambda>e. \<not> P e) es))) es = es'"
    by (subst (2) es) simp
  show "length (takeWhile (\<lambda>e. \<not> P e) es) < length es"
    by (subst (2) es) simp
qed

text \<open>From one file to the next: the directory serves the rest, and one more file has been tried.\<close>

lemma sync_loop_stats:
  fixes w :: "'z upload_world_scheme"
  assumes "serves (outside w) (events w) es" and "\<forall>e \<in> set es. entry_ok ''.lz4'' 50 e" and "length es < k"
    and "length (filter (selected ''.lz4'') es) < m"
  shows "wp (sync_loop m k n act) (\<lambda>_ w'. \<exists>cs. events w' = events w @ cs
    \<and> stats cs = map stat_of (filter (selected ''.lz4'') es)) w"
  using assms
proof (induction m arbitrary: act w es)
  case (Suc m)
  let ?sel = "selected ''.lz4''"
  let ?skipped = "takeWhile (\<lambda>e. \<not> ?sel e) es"
  let ?rest = "dropWhile (\<lambda>e. \<not> ?sel e) es"
  let ?listed = "replicate (Suc (length ?skipped)) (Fs Fs_readdir)"
  let ?w1 = "w\<lparr>events := events w @ ?listed\<rparr>"
  have rest: "drop (length ?skipped) es = ?rest" by (simp add: dropWhile_eq_drop)
  have run: "run_state (lsdir_next k (Some ''.lz4'') 50) w = (if ?rest = [] then None else Some (fst (hd ?rest)), ?w1)"
    if "stopped w = None"
    using lsdir_next_serves [OF that Suc.prems(1-3)] unfolding Let_def rest .
  have listed: "stats ?listed = []" "reads ?listed = Suc (length ?skipped)"
    by (simp_all add: is_stat_def reads_def filter_replicate)
  show ?case
  proof (cases ?rest)
    case Nil
    then have "filter ?sel es = []" by (simp add: filter_empty_conv dropWhile_eq_Nil_conv)
    then show ?thesis
      unfolding sync_loop.simps Let_def
      apply (intro wp_bind does_any)
      apply (rule wp_run [OF run], assumption)
      using Nil listed(1) apply (simp add: wp_return)
      done
  next
    case (Cons e es')
    note f = first_selected [OF Cons]
    have tried: "wp (sync_loop m k n True) (\<lambda>_ w'. \<exists>cs. events w' = events w @ cs \<and> stats cs = map stat_of (filter ?sel es)) v"
      if v: "outside v = outside w" "events v = events w @ ?listed @ as @ stat_of e # bs" "list_all unlisted as" "list_all unlisted bs"
      for v :: "'z upload_world_scheme" and as bs
    proof -
      have new: "stats (?listed @ as @ stat_of e # bs) = [stat_of e]" "reads (?listed @ as @ stat_of e # bs) = Suc (length ?skipped)"
        using unlisted_none [OF v(3)] unlisted_none [OF v(4)] listed by (simp_all add: stat_of_def is_stat_def)
      have "serves (outside v) (events v) es'"
        using serves_drop [OF Suc.prems(1), of "?listed @ as @ stat_of e # bs"] new(2) v(1,2) f(2)
        by (simp add: f(3) Suc_le_eq)
      moreover have "set es' \<subseteq> set es" by (metis f(2) set_drop_subset)
      ultimately have "wp (sync_loop m k n True) (\<lambda>_ w'. \<exists>cs. events w' = events v @ cs \<and> stats cs = map stat_of (filter ?sel es')) v"
        using Suc.prems(2-4) f by (intro Suc.IH) auto
      then show ?thesis
        by (rule wp_mono) (use v(2) new(1) f(1) in fastforce)
    qed
    show ?thesis
      unfolding sync_loop.simps Let_def
      apply (rule wp_bind, intro does_any, rule wp_run [OF run], assumption)
      apply (simp only: Cons list.simps if_False option.simps list.sel)
      apply (rule wp_bind, intro does_any, rule wp_does [OF unlisted_connect])
      apply (rule wp_bind, intro does_any, rule wp_check)
      apply (rule wp_bind, intro does_any, rule wp_mono [OF webdavUploadFile_stat])
      apply (rule wp_bind, rule does_any_sync_loop, rule wp_does [OF unlisted_rename])
      apply (elim conjE exE)
      subgoal for _ v1 as _ v2 _ v3 bs cs
        using tried [of v3 as "cs @ bs"] by (simp add: stat_of_def [of e])
      done
  qed
qed (simp add: wp_stop)


lemma one_file_runs:
  "\<exists>w'. run_state (sync_files (Suc (Suc (Suc 0))) (Suc (Suc (Suc 0))) 1) one_file = ((), w') \<and> stopped w' = None"
  by (simp add: sync_files_def get_led_status_def lsdir_init_def lsdir_close_def lte_disconnect_def k_sleep_def start_gnss_def
      name_matches_def stop_gnss_def lte_connect_def webdav_empty Let_def
      get_sd_data_path_def get_sd_path_def sddata_def EAGAIN_def UPLOADCLNT_ERROR_def UPLOADCLNT_SUCCESS_def)


end
