(* ===== verification/Lz4_Properties.thy ===== *)
theory Lz4_Properties
  imports Lz4_File_Correct
begin

text \<open>
  What the compression library guarantees, from the log file down to the integers it stores.
\<close>

section \<open>The log file\<close>

text \<open>C6: A log that is opened, written line by line and closed: every call succeeds, no
  assertion fails and nothing is read or written out of place, and the bytes handed to the file
  between are one LZ4 frame that decodes to exactly the concatenation of the lines. The file is
  closed before it is renamed from its temporary to its final name.\<close>

theorem log_file_round_trip:
  assumes "log_closed w" and "opens w path" and "length path < 200" and "\<forall>l \<in> set ls. length l < CHUNKSIZE"
  shows "\<exists>w' p new. run_state (log_session path ls) w = ((LZ4_SUCCESS, LZ4_SUCCESS), w')
    \<and> events w' = events w @ new @ close_calls p path
    \<and> lz4f_decode (written p new) = Some (bytes_of_string (concat ls))"
  using log_session_ok [OF assms] by blast

definition sample_env :: environment where
  "sample_env = quiet\<lparr>ans := (\<lambda>t. case last t of Kernel _ \<Rightarrow> 1 | _ \<Rightarrow> 0)\<rparr>"

definition sample_log :: lz4_world where
  "sample_log =
     \<lparr>outside = sample_env, events = [], stopped = None, memory_of = (\<lambda>_. 0),
      lz4id = \<lparr>ctx = No_Context, fid = 0, cap = 0, filename = [], nsrcdata = 0, isOpen = False, reuseContext = True\<rparr>,
      lz4id_addr = 1000\<rparr>"

lemma sample_log_closed: "log_closed sample_log"
  by (simp add: log_closed_def sample_log_def)

lemma sample_log_opens: "opens sample_log path"
  using small_no_error [of 0]
  by (simp add: opens_def Let_def sample_log_def sample_env_def quiet_def clear_buffer_def srcbuf_def CHUNKSIZE_def)

theorem log_file_round_trip_witness:
  "\<exists>w' p new. run_state (log_session ''/SD:/data/a.lz4'' [''$GPRMC'', ''$GPGSV'']) sample_log
      = ((LZ4_SUCCESS, LZ4_SUCCESS), w')
    \<and> events w' = events sample_log @ new @ close_calls p ''/SD:/data/a.lz4''
    \<and> lz4f_decode (written p new) = Some (bytes_of_string (concat [''$GPRMC'', ''$GPGSV'']))"
  by (rule log_file_round_trip [OF sample_log_closed sample_log_opens]) (simp_all add: CHUNKSIZE_def)

text \<open>C22: A line of 4096 characters or more stops the program in the assertion of \<open>lz4write\<close>,
  although the source buffer would hold 4096.\<close>

theorem oversized_line_asserts:
  assumes "log_open w cs txt" and "CHUNKSIZE \<le> length data"
  shows "stopped (snd (run_state (lz4write (Some data)) w)) = Some Assert_Failed"
  by (rule lz4write_oversized [OF assms])

lemma sample_open: "\<exists>w cs. log_open (w :: lz4_world) cs []"
  using lz4open_ok [OF sample_log_closed sample_log_opens, of "''a''"] by auto

theorem oversized_line_asserts_witness:
  "\<exists>w :: lz4_world. stopped w = None
    \<and> stopped (snd (run_state (lz4write (Some (replicate 4096 CHR ''x''))) w)) = Some Assert_Failed"
proof -
  obtain w :: lz4_world and cs where w: "log_open w cs []" using sample_open by blast
  then have "stopped w = None" by (simp add: log_open_def)
  with oversized_line_asserts [OF w, of "replicate 4096 CHR ''x''"] show ?thesis
    by (auto simp: CHUNKSIZE_def)
qed

text \<open>C23: When the file cannot be created, \<open>lz4open\<close> reports an I/O error, writes nothing and does
  not mark the log open; the only further call it makes is to free the log structure itself,
  which was never allocated, and the file object it did allocate is not freed.\<close>

theorem open_failure:
  assumes "stopped w = None" and "length path < 200"
    and "ans (outside w) (events w @ [Kernel (K_malloc Fs_file_object)]) = p" and "p \<noteq> 0"
    and "ans (outside w) (events w @ [Kernel (K_malloc Fs_file_object),
           Fs (Fs_open (Allocated_File p) (tempname path) [FS_O_WRITE, FS_O_CREATE])]) \<noteq> 0"
  shows "\<exists>w'. run_state (lz4open path) w = (LZ4_ERR_IO, w') \<and> stopped w' = None
    \<and> isOpen (lz4id w') = isOpen (lz4id w)
    \<and> events w' = events w @ [Kernel (K_malloc Fs_file_object),
         Fs (Fs_open (Allocated_File p) (tempname path) [FS_O_WRITE, FS_O_CREATE]), Kernel (K_free (lz4id_addr w))]"
  by (rule lz4open_fails [OF assms])

theorem open_failure_witness:
  "\<exists>w'. run_state (lz4open ''a'')
      (sample_log\<lparr>outside := quiet\<lparr>ans := (\<lambda>t. case last t of Kernel _ \<Rightarrow> 7 | _ \<Rightarrow> -5)\<rparr>\<rparr>) = (LZ4_ERR_IO, w')
    \<and> events w' = [Kernel (K_malloc Fs_file_object),
        Fs (Fs_open (Allocated_File 7) ''a.tmp'' [FS_O_WRITE, FS_O_CREATE]), Kernel (K_free 1000)]"
  using open_failure [of "sample_log\<lparr>outside := quiet\<lparr>ans := (\<lambda>t. case last t of Kernel _ \<Rightarrow> 7 | _ \<Rightarrow> -5)\<rparr>\<rparr>" "''a''" 7]
  by (auto simp: sample_log_def tempname_def)



section \<open>Frames\<close>

text \<open>C16: Feeding \<open>n\<close> bytes to an open frame with the capacity that \<open>LZ4F_compressBound\<close> asks for
  succeeds: the bytes it returns, put behind what the frame has so far, make a decoder produce
  the \<open>n\<close> bytes, the invariant of the open frame is kept for the longer history, and memory
  changes at most in the frame's own buffer.\<close>

theorem frame_update:
  assumes "frame_ok m cctx hist" and "clear_of cctx src n" and "n < 1073741824"
    and "unat (LZ4F_compressBound_internal (of_nat n) (prefs cctx) 0) \<le> dstCapacity"
  shows "\<exists>r. LZ4F_compressUpdate m cctx dstCapacity src n False = Inr r \<and> update_ok m cctx hist src n r"
  by (rule LZ4F_compressUpdate_ok [OF assms])

definition sample_cctx :: LZ4F_cctx where
  "sample_cctx = (the (snd (LZ4F_createCompressionContext True LZ4F_VERSION)))
     \<lparr>prefs := kPrefs, cStage := 1, maxBlockSize := 65536, maxBufferSize := 65536, tmpBuff := 65536,
      lz4CtxPtr := Some LZ4_initStream, lz4CtxAlloc := 1, lz4CtxState := 1\<rparr>"

lemma init_inv: "stream_inv m LZ4_initStream []"
  using stream_ok_init by (simp add: stream_inv_def dict_ok_def LZ4_initStream_def)

lemma sample_frame_ok: "frame_ok m sample_cctx []"
  using init_inv kPrefs_ok kPrefs_flags
  by (simp add: frame_ok_def sample_cctx_def LZ4F_createCompressionContext_def)
    (simp add: kPrefs_def LZ4F_getBlockSize_def LZ4_initStream_def)

theorem frame_update_witness:
  "\<exists>r. LZ4F_compressUpdate (\<lambda>_. 65) sample_cctx 4104 1000 4096 False = Inr r
    \<and> update_ok (\<lambda>_. 65) sample_cctx [] 1000 4096 r"
  by (rule frame_update [OF sample_frame_ok])
    (use kPrefs_bound [of 4096] in
      \<open>simp_all add: clear_of_def sample_cctx_def LZ4F_createCompressionContext_def\<close>)

text \<open>C17: The bound is adequate: whatever is fed, the output of the update together with the
  bytes that end the frame is no longer than \<open>LZ4F_compressBound\<close> says.\<close>

theorem frame_bound_adequate:
  assumes "frame_ok m cctx hist" and "clear_of cctx src n" and "n < 1073741824"
    and "unat (LZ4F_compressBound (of_nat n) (prefs cctx)) \<le> dstCapacity"
  shows "\<exists>code out m1 cctx1. LZ4F_compressUpdate m cctx dstCapacity src n False = Inr (code, out, m1, cctx1)
    \<and> length out + length (end_bytes (prefs cctx) (hist @ mem_bytes m src n))
        \<le> unat (LZ4F_compressBound (of_nat n) (prefs cctx))"
proof -
  have p: "header_ok (prefs cctx)" "autoFlush (prefs cctx)"
    using assms(1) by (simp_all add: frame_ok_def frame_prefs_def)
  note b = compressBound_value [OF p assms(3)]
  have eq: "LZ4F_compressBound (of_nat n) (prefs cctx) = LZ4F_compressBound_internal (of_nat n) (prefs cctx) 0"
    using p(2) by (simp add: LZ4F_compressBound_def)
  obtain r where "LZ4F_compressUpdate m cctx dstCapacity src n False = Inr r" "update_ok m cctx hist src n r"
    using LZ4F_compressUpdate_ok [OF assms(1-3) assms(4) [unfolded eq]] by blast
  then show ?thesis
    by (cases r) (auto simp: update_ok_def eq b length_end_bytes mult.commute)
qed

theorem frame_bound_adequate_witness:
  "\<exists>code out m1 cctx1. LZ4F_compressUpdate (\<lambda>_. 65) sample_cctx 4104 1000 4096 False = Inr (code, out, m1, cctx1)
    \<and> length out + length (end_bytes (prefs sample_cctx) ([] @ mem_bytes (\<lambda>_. 65) 1000 4096))
        \<le> unat (LZ4F_compressBound (of_nat 4096) (prefs sample_cctx))"
  by (rule frame_bound_adequate [OF sample_frame_ok])
    (use kPrefs_bound [of 4096] kPrefs_flags in
      \<open>simp_all add: clear_of_def sample_cctx_def LZ4F_createCompressionContext_def LZ4F_compressBound_def\<close>)

text \<open>C18: A frame header is read back: for every preference with a valid block size, decoding the
  header that was written, whatever follows it, gives its length and the preference, up to the
  two fields a header does not carry.\<close>

theorem header_round_trip:
  assumes "header_ok p"
  shows "LZ4F_decodeHeader (LZ4F_header p @ rest)
    = Frame_Header (p\<lparr>compressionLevel := 0, autoFlush := False\<rparr>) (length (LZ4F_header p))"
  by (rule decodeHeader_header [OF assms])

theorem header_round_trip_witness:
  "LZ4F_decodeHeader (LZ4F_header kPrefs @ [1, 2, 3])
    = Frame_Header (kPrefs\<lparr>compressionLevel := 0, autoFlush := False\<rparr>) 7"
  using header_round_trip [OF kPrefs_header, of "[1, 2, 3]"] by (simp add: length_header kPrefs_def)

section \<open>Blocks\<close>

text \<open>C7: One block of a stream: whatever the source, the capacity and the acceleration, the
  streaming compressor returns; when it reports a size, its output has that size and decodes,
  behind the history of the stream, to that history followed by the source; every byte it
  stores, the over-copying of its wild copies included, lies within the capacity; and the stream
  it leaves is a well-formed one for the longer history.\<close>

theorem block_round_trip:
  assumes "stream_ok s" and "dict_ok m s hist" and "0 < n" and "n \<le> LZ4_MAX_INPUT_SIZE" and "apart s source n"
  shows "\<exists>r. LZ4_compress_fast_continue m s source n capacity accel = Inr r \<and> block_result m hist source n capacity r"
  by (rule fast_continue_block [OF assms])

theorem block_round_trip_witness:
  "\<exists>r. LZ4_compress_fast_continue (\<lambda>_. 65) LZ4_initStream 1000 100 99 1 = Inr r
    \<and> block_result (\<lambda>_. 65) [] 1000 100 99 r"
  by (rule block_round_trip)
    (simp_all add: stream_ok_init dict_ok_def LZ4_initStream_def LZ4_MAX_INPUT_SIZE_def apart_def
      stream_ok_init [unfolded LZ4_initStream_def])

text \<open>C11: The block compressor never stores a byte at or beyond the capacity it was given, for any
  memory, stream, table content and size, and the size it reports counts the bytes it stored.\<close>

theorem block_output_bounds:
  "(let r = LZ4_compress_generic m s src n capacity dd di a
    in r_result r \<le> r_top r \<and> r_top r \<le> capacity \<and> r_result r \<in> {0, length (r_out r)})"
  using LZ4_compress_generic_out [OF refl, of m s src n capacity dd di a] by (auto simp: Let_def)

text \<open>C19: After a stream is rescaled it is still well-formed for the same history, its dictionary
  ends at the same place, and the offset leaves room for the next block below \<open>2^31\<close>, so that no
  index of a position wraps around.\<close>

theorem rescaling_keeps_stream:
  assumes "stream_ok s" and "dict_ok m s hist" and "n \<le> LZ4_MAX_INPUT_SIZE"
  shows "stream_ok (LZ4_renormDictT s n) \<and> dict_ok m (LZ4_renormDictT s n) hist
    \<and> unat (currentOffset (LZ4_renormDictT s n)) + n \<le> 2147483648
    \<and> dictionary (LZ4_renormDictT s n) + uint (dictSize (LZ4_renormDictT s n)) = dictionary s + uint (dictSize s)"
  using renorm_ok [OF assms] by simp

theorem rescaling_keeps_stream_witness:
  "stream_ok (LZ4_renormDictT LZ4_initStream 4096) \<and> dict_ok (\<lambda>_. 0) (LZ4_renormDictT LZ4_initStream 4096) []
    \<and> unat (currentOffset (LZ4_renormDictT LZ4_initStream 4096)) + 4096 \<le> 2147483648
    \<and> dictionary (LZ4_renormDictT LZ4_initStream 4096) + uint (dictSize (LZ4_renormDictT LZ4_initStream 4096))
        = dictionary LZ4_initStream + uint (dictSize LZ4_initStream)"
  by (rule rescaling_keeps_stream [OF stream_ok_init]) (simp_all add: dict_ok_def LZ4_initStream_def LZ4_MAX_INPUT_SIZE_def)

text \<open>Saving the dictionary copies its last \<open>min limit 65536\<close> bytes, or all of it, to the safe
  buffer, touches nothing else, and leaves a well-formed stream whose dictionary is that copy.\<close>

theorem saveDict_copies:
  assumes "stream_ok s" and "dict_ok m s hist" and "0 < buf" and "LZ4_saveDict m s buf limit = (m1, s1, k)"
  shows "k = min (min limit 65536) (unat (dictSize s)) \<and> stream_ok s1 \<and> dict_ok m1 s1 hist
    \<and> dictionary s1 = buf \<and> unat (dictSize s1) = k \<and> (\<forall>p. p < buf \<or> buf + int k \<le> p \<longrightarrow> m1 p = m p)"
  using saveDict_ok [OF assms] by blast

definition sample_stream :: LZ4_stream where
  "sample_stream = LZ4_initStream\<lparr>dictionary := 500, dictSize := 3, currentOffset := 65536, tableType := byU32\<rparr>"

theorem saveDict_copies_witness:
  "case LZ4_saveDict (\<lambda>_. 9) sample_stream 2000 65536 of (m1, s1, k) \<Rightarrow>
    k = 3 \<and> dictionary s1 = 2000 \<and> dict_ok m1 s1 [9, 9, 9]"
proof -
  obtain m1 s1 k where sv: "LZ4_saveDict (\<lambda>_. 9) sample_stream 2000 65536 = (m1, s1, k)"
    by (cases "LZ4_saveDict (\<lambda>_. 9) sample_stream 2000 65536")
  have ok: "stream_ok sample_stream"
    by (simp add: sample_stream_def LZ4_initStream_def stream_ok_def table_rest_def)
  have d: "dict_ok (\<lambda>_. 9) sample_stream [9, 9, 9]"
    by (simp add: sample_stream_def LZ4_initStream_def dict_ok_def mem_bytes_def upt_rec)
  show ?thesis
    using saveDict_copies [OF ok d _ sv] by (simp add: sv) (simp add: sample_stream_def)
qed

text \<open>C20: Counting the common bytes of two places a word at a time gives the same as comparing
  byte by byte up to the limit.\<close>

theorem count_is_bytewise:
  "LZ4_count m pIn pMatch pInLimit = common_bytes m pIn pMatch (nat (pInLimit - pIn))"
  by (rule LZ4_count_eq)

section \<open>Checksums and integers\<close>

text \<open>C21: The streaming hash agrees with the one-shot hash: however a message is cut into pieces,
  feeding the pieces one after the other and taking the digest gives the hash of the whole.\<close>

theorem xxh32_streaming:
  "XXH32_digest (foldl XXH32_update (XXH32_reset seed) pieces) = XXH32 (concat pieces) seed"
  by (rule xxh32.fin_foldl)

text \<open>Reading back what was written little-endian gives the value, for 16, 32 and 64 bits and
  whatever bytes follow.\<close>

theorem little_endian_round_trip:
  "LZ4_readLE16 (LZ4_writeLE16 x @ r) = x \<and> LZ4F_readLE32 (LZ4F_writeLE32 y @ r) = y
    \<and> LZ4F_readLE64 (LZ4F_writeLE64 z @ r) = z"
  by (simp add: le16.dec_enc le32.dec_enc le64.dec_enc)

end
