(* ===== verification/Log_Day.thy ===== *)
theory Log_Day
  imports Logger_Correct Lz4_Properties
begin

text \<open>
  What happens between two rollovers, as a step relation over the activities of the firmware, and
  what the log file holds in the end. Every activity runs to its end before the next begins: the
  iterations of the main loop, the events of the receiver and of the modem, the button, and the
  rounds of the LED thread.
\<close>

section \<open>Calls that write nothing to the log\<close>

definition unwritten :: "call \<Rightarrow> bool" where
  "unwritten c \<longleftrightarrow> (\<forall>p. written_by p c = [])"

lemma unwritten_simps [simp]:
  "unwritten (Kernel k)" "unwritten (Device d)" "unwritten (Modem q)" "unwritten (Gnss g)" "unwritten (Net c)"
  "unwritten (Http h)" "unwritten (Supl u)" "unwritten (Json j)"
  "unwritten (Fs (Fs_stat p))" "unwritten (Fs Fs_readdir)" "unwritten (Fs Fs_closedir)" "unwritten (Fs (Fs_opendir p))"
  "unwritten (Fs (Fs_open f p fl))" "unwritten (Fs (Fs_read f len))" "unwritten (Fs (Fs_close f))" "unwritten (Fs (Fs_rename p p'))"
  by (simp_all add: unwritten_def)

lemma unwritten_all: "list_all unwritten cs \<Longrightarrow> written p cs = []"
  by (induction cs) (simp_all add: unwritten_def)

text \<open>The part of the world a log file depends on.\<close>

definition log_part :: "'z lz4_world_scheme \<Rightarrow> lz4streamfile \<times> memory \<times> int" where
  "log_part w = (lz4id w, memory_of w, lz4id_addr w)"

lemma log_part_simps [simp]:
  "log_part (w\<lparr>events := t\<rparr>) = log_part w" "log_part (w\<lparr>stopped := e\<rparr>) = log_part w"
  by (simp_all add: log_part_def)

lemma log_open_frame:
  assumes "log_open w cs txt" and "log_part w' = log_part w" and "stopped w' = None" and "list_all unwritten new"
  shows "log_open w' (cs @ new) txt"
  using assms unwritten_all [OF assms(4)]
  by (simp add: log_open_def log_part_def pending_def clear_buffer_def srcbuf_def)

text \<open>An activity that leaves the log alone.\<close>

definition leaves_log :: "('z lz4_world_scheme, 'a) state \<Rightarrow> bool" where
  "leaves_log m \<longleftrightarrow> does unwritten m \<and> keeps log_part m"

lemma leaves_logD:
  assumes "leaves_log m" and "run_state m w = (x, w')" and "stopped w' = None"
  shows "stopped w = None \<and> outside w' = outside w \<and> log_part w' = log_part w
    \<and> (\<exists>cs. events w' = events w @ cs \<and> list_all unwritten cs)"
  using does_events [of unwritten m w] does_outside [of unwritten m w] does_sticky [of unwritten m w] keepsD [of log_part m w] assms
  by (cases "stopped w") (auto simp: leaves_log_def)

section \<open>Activities\<close>

text \<open>
  The upload and the message of an iteration that has rolled over, which follow the new file, are
  activities of their own.
\<close>

inductive activity :: "bool \<Rightarrow> 'z logger_world_scheme \<Rightarrow> string \<Rightarrow> 'z logger_world_scheme \<Rightarrow> bool" for supl_client where
  iteration: "run_state (main_loop_body m k n) w = ((False, txt), w') \<Longrightarrow> activity supl_client w txt w'"
| upload: "run_state (sync_files m k n) w = (u, w') \<Longrightarrow> activity supl_client w [] w'"
| message: "run_state main_message w = (txt, w') \<Longrightarrow> activity supl_client w txt w'"
| receiver: "run_state (gnss_event_handler supl_client e) w = (u, w') \<Longrightarrow> activity supl_client w [] w'"
| link: "run_state (lte_lc_event_handler e) w = (u, w') \<Longrightarrow> activity supl_client w [] w'"
| button: "run_state button_pressed_callback w = (u, w') \<Longrightarrow> activity supl_client w [] w'"
| leds: "run_state led_round w = (u, w') \<Longrightarrow> activity supl_client w [] w'"

inductive log_day :: "bool \<Rightarrow> 'z logger_world_scheme \<Rightarrow> string \<Rightarrow> 'z logger_world_scheme \<Rightarrow> bool" for supl_client where
  dawn: "log_day supl_client w [] w"
| more: "log_day supl_client w t w' \<Longrightarrow> activity supl_client w' s w'' \<Longrightarrow> log_day supl_client w (t @ s) w''"

inductive_cases activityE: "activity supl_client w txt w'"
inductive_simps log_day_simps: "log_day supl_client w txt w'"

section \<open>The handlers leave the log alone\<close>

lemma keeps_set_http [simp]: "log_part (w\<lparr>led_status := l\<rparr>) = log_part w"
  "log_part (v\<lparr>dev_status := d\<rparr>) = log_part v" "log_part (v\<lparr>hrprev := h\<rparr>) = log_part v"
  by (simp_all add: log_part_def)

lemma does_pvt_event: "does unwritten pvt_event"
  unfolding pvt_event_def by (intro does_rules) simp_all

lemma does_nmea_event: "does unwritten nmea_event"
  unfolding nmea_event_def by (intro does_rules) simp_all

lemma does_assistance_request: "does unwritten assistance_request"
proof -
  have "does unwritten (supl_try err i as)" for err i as
  proof (induction err i as rule: supl_try.induct)
    case (2 err i a as)
    show ?case unfolding supl_try.simps by (intro does_rules 2; (assumption | simp))
  qed (simp add: does_return)
  then show ?thesis
    unfolding assistance_request_def open_supl_socket_def close_supl_socket_def by (intro does_rules) simp_all
qed

lemma does_agps_event: "does unwritten agps_event"
  unfolding agps_event_def lte_connect_def lte_disconnect_def
  by (intro does_rules does_assistance_request) simp_all

lemma keeps_update_device_status_log: "keeps log_part (update_device_status p)"
  unfolding update_device_status_def Let_def
  by (intro keeps_rules) (simp_all add: log_part_def split: option.split)

lemma keeps_pvt_event: "keeps log_part pvt_event"
  unfolding pvt_event_def print_searching_def
  by (intro keeps_rules keeps_update_device_status_log) (simp_all add: log_part_def)

lemma keeps_nmea_event: "keeps log_part nmea_event"
  unfolding nmea_event_def by (intro keeps_rules) simp_all

lemma keeps_assistance_request: "keeps log_part assistance_request"
proof -
  have "keeps log_part (supl_try err i as)" for err i as
  proof (induction err i as rule: supl_try.induct)
    case (2 err i a as)
    show ?case unfolding supl_try.simps by (intro keeps_rules 2; (assumption | simp add: log_part_def))
  qed (simp add: keeps_return)
  then show ?thesis
    unfolding assistance_request_def open_supl_socket_def close_supl_socket_def
    by (intro keeps_rules) (simp_all add: log_part_def)
qed

lemma keeps_agps_event: "keeps log_part agps_event"
  unfolding agps_event_def
  by (intro keeps_rules keeps_assistance_request) (simp_all add: log_part_def)

lemma receiver_leaves_log: "leaves_log (gnss_event_handler supl_client e)"
  unfolding leaves_log_def gnss_event_handler_def
  by (cases e) (simp_all add: does_return keeps_return does_pvt_event does_nmea_event does_agps_event
      keeps_pvt_event keeps_nmea_event keeps_agps_event)

lemma link_leaves_log: "leaves_log (lte_lc_event_handler e)"
  unfolding leaves_log_def lte_lc_event_handler_def
  by (cases e) (simp_all add: does_return keeps_return does_perform keeps_perform)

lemma button_leaves_log: "leaves_log button_pressed_callback"
  unfolding leaves_log_def button_pressed_callback_def by (simp add: does_perform keeps_perform)

lemma leds_leaves_log: "leaves_log led_round"
  unfolding leaves_log_def led_round_def turn_leds_off_def k_sleep_def
  by (intro conjI; intro does_rules keeps_rules; simp)

lemma keeps_sync_loop_log: "keeps log_part (sync_loop m k n act)"
proof (induction m arbitrary: act)
  case (Suc m)
  show ?case unfolding sync_loop.simps stop_gnss_def lte_connect_def
    by (intro keeps_rules keeps_lsdir_next Suc; simp add: log_part_def)
qed (simp add: keeps_stop)

lemma does_sync_loop_log: "does unwritten (sync_loop m k n act)"
proof (induction m arbitrary: act)
  case (Suc m)
  show ?case unfolding sync_loop.simps stop_gnss_def lte_connect_def
    by (intro does_rules does_webdavUploadFile Suc; simp)
qed (simp add: does_stop)

lemma upload_leaves_log: "leaves_log (sync_files m k n)"
  unfolding leaves_log_def sync_files_def get_led_status_def set_led_status_def lsdir_init_def lsdir_close_def
    lte_disconnect_def start_gnss_def k_sleep_def
  by (intro conjI; intro does_rules keeps_rules keeps_sync_loop_log does_sync_loop_log; simp add: log_part_def)

section \<open>A sentence\<close>

text \<open>No sentence is longer than the buffer for one line; the modem's have at most 83 characters.\<close>

definition nmea_short :: "environment \<Rightarrow> bool" where
  "nmea_short E \<longleftrightarrow> (\<forall>t. length (text_ans E (t @ [Kernel (K_msgq_get K_NO_WAIT)])) < CHUNKSIZE)"

text \<open>A log that goes on: what was written since some point of the trace, and the text so far.\<close>

definition logging :: "trace \<Rightarrow> trace \<Rightarrow> string \<Rightarrow> 'z lz4_world_scheme \<Rightarrow> 'z lz4_world_scheme \<Rightarrow> bool" where
  "logging cs new txt w w' \<longleftrightarrow> log_open w' (cs @ new) txt \<and> events w' = events w @ new \<and> outside w' = outside w
     \<and> fid (lz4id w') = fid (lz4id w) \<and> filename (lz4id w') = filename (lz4id w)
     \<and> reuseContext (lz4id w') = reuseContext (lz4id w)"

lemma logging_leaves:
  assumes "leaves_log m" and "run_state m w = (x, w')" and "stopped w' = None" and "log_open w cs txt"
  shows "\<exists>new. logging cs new txt w w'"
proof -
  from leaves_logD [OF assms(1-3)] obtain new where n: "events w' = events w @ new" "list_all unwritten new"
    "outside w' = outside w" "log_part w' = log_part w" by blast
  with log_open_frame [OF assms(4) n(4) assms(3) n(2)] show ?thesis
    by (auto simp: logging_def log_part_def)
qed

lemma logging_write:
  assumes "log_open w cs txt" and "length data < CHUNKSIZE"
  shows "\<exists>r w' new. run_state (lz4write (Some data)) w = (r, w') \<and> stopped w' = None \<and> logging cs new (txt @ data) w w'"
  using lz4write_ok [OF assms] by (auto simp: logging_def log_step_def log_open_def)

lemma logging_trans:
  "logging cs new txt u v \<Longrightarrow> logging (cs @ new) new' txt' v w \<Longrightarrow> logging cs (new @ new') txt' u w"
  by (simp add: logging_def)

lemma logging_event:
  "unwritten c \<Longrightarrow> log_open w cs txt \<Longrightarrow> logging cs [c] txt w (w\<lparr>events := events w @ [c]\<rparr>)"
  using log_open_frame [of w cs "txt" "w\<lparr>events := events w @ [c]\<rparr>" "[c]"]
  by (simp add: logging_def log_open_def)

lemma logging_static:
  "log_open w cs txt \<Longrightarrow> log_part w' = log_part w \<Longrightarrow> stopped w' = stopped w \<Longrightarrow> events w' = events w
   \<Longrightarrow> outside w' = outside w \<Longrightarrow> logging cs [] txt w w'"
  using log_open_frame [of w cs "txt" w' "[]"] by (simp add: logging_def log_open_def log_part_def)

lemma message_logging:
  assumes "log_open w cs txt" and "nmea_short (outside w)" and "run_state main_message w = (t, w')"
  shows "\<exists>new. logging cs new (txt @ t) w w'"
proof -
  have s: "stopped w = None" and opened: "isOpen (lz4id w)" using assms(1) by (simp_all add: log_open_def)
  let ?get = "Kernel (K_msgq_get K_NO_WAIT)"
  let ?w1 = "w\<lparr>events := events w @ [?get]\<rparr>"
  let ?p = "int (size_ans (outside w) (events w @ [?get]))" and ?str = "text_ans (outside w) (events w @ [?get])"
  note 1 = logging_event [OF unwritten_simps(1) [of "K_msgq_get K_NO_WAIT"] assms(1)]
  have static: "logging c [] t v (v\<lparr>msgq_state := b\<rparr>)" if "log_open v c t" for v :: "'a logger_world_scheme" and c t b
    by (rule logging_static [OF that]) (simp_all add: log_part_def)
  have op: "log_open v (c @ new) t" if "logging c new t u v" for u v :: "'a logger_world_scheme" and c new t
    using that by (simp add: logging_def)
  show ?thesis
  proof (cases "msgq_state w")
    case False
    then have "t = []" "w' = w" using assms(3) by (simp_all add: main_message_def)
    then show ?thesis using assms(1) by (auto intro: exI [of _ "[]"] simp: logging_def)
  next
    case taken: True
    show ?thesis
    proof (cases "ans (outside w) (events w @ [?get]) = 0")
      case False
      then have "t = []" "w' = ?w1\<lparr>msgq_state := False\<rparr>" using assms(3) taken s by (simp_all add: main_message_def)
      then show ?thesis using logging_trans [OF 1 static [OF op [OF 1]]] by auto
    next
      case got: True
      show ?thesis
      proof (cases "gnss_fixed w = 0")
        case True
        note 2 = logging_trans [OF 1 logging_event [OF unwritten_simps(1) [of "K_free ?p"] op [OF 1]]]
        have "t = []" "w' = ?w1\<lparr>events := events ?w1 @ [Kernel (K_free ?p)], msgq_state := False\<rparr>"
          using assms(3) taken got True s opened by (simp_all add: main_message_def got_fix_def)
        then show ?thesis using logging_trans [OF 2 static [OF op [OF 2]]] by auto
      next
        case False
        have "length ?str < CHUNKSIZE" using assms(2) by (simp add: nmea_short_def)
        from logging_write [OF op [OF 1] this] obtain r w2 new where
          w2: "run_state (lz4write (Some ?str)) ?w1 = (r, w2)" "stopped w2 = None" "logging (cs @ [?get]) new (txt @ ?str) ?w1 w2"
          by blast
        note 2 = logging_trans [OF 1 w2(3)]
        note 3 = logging_trans [OF 2 logging_event [OF unwritten_simps(1) [of "K_free ?p"] op [OF 2]]]
        have "t = ?str" "w' = w2\<lparr>events := events w2 @ [Kernel (K_free ?p)], msgq_state := False\<rparr>"
          using assms(3) taken got False s w2 opened by (auto simp: main_message_def got_fix_def)
        then show ?thesis using logging_trans [OF 3 static [OF op [OF 3]]] by auto
      qed
    qed
  qed
qed

section \<open>A day\<close>

lemma poll_leaves_log: "leaves_log main_poll"
  unfolding leaves_log_def main_poll_def
  by (intro conjI; intro does_rules keeps_rules; simp add: log_part_def)

text \<open>An iteration that does not roll over at most fails to take the semaphore.\<close>

lemma no_rollover_leaves_log:
  assumes "run_state (main_rollover m k n) w = (False, w')"
  shows "\<exists>r. run_state (if sem_state w then call (Kernel (K_sem_take rollover_event_sem K_NO_WAIT)) else State_Monad.return (-1)) w = (r, w')"
proof -
  obtain t v where tv: "run_state (if sem_state w then call (Kernel (K_sem_take rollover_event_sem K_NO_WAIT)) else State_Monad.return (-1)) w = (t, v)"
    by fastforce
  have "\<not> (sem_state w \<and> t = 0)"
  proof
    assume "sem_state w \<and> t = 0"
    with assms tv show False
      by (cases "run_state rollover_lz4log v") (auto simp: main_rollover_def split: prod.splits)
  qed
  with assms tv have "v = w'" by (auto simp: main_rollover_def split: if_splits)
  with tv show ?thesis by blast
qed

lemma leaves_log_if_call:
  "unwritten c \<Longrightarrow> leaves_log (if b then call c else State_Monad.return x)"
  unfolding leaves_log_def by (intro conjI; intro does_rules keeps_rules; simp)

lemma leaves_log_sticky: "leaves_log m \<Longrightarrow> stopped (snd (run_state m w)) = None \<Longrightarrow> stopped w = None"
  using leaves_logD [of m w] by (cases "run_state m w") fastforce

lemma does_context:
  "does P a \<Longrightarrow> (\<And>c. does P (f c)) \<Longrightarrow> does P b \<Longrightarrow>
   does P (case x of No_Context \<Rightarrow> a | Context c \<Rightarrow> f c | Freed_Context \<Rightarrow> b)"
  by (cases x) simp_all

lemma does_lz4_put: "(\<And>f. P (Fs f)) \<Longrightarrow> does P (lz4_put n out)"
  unfolding lz4_put_def by (intro does_rules)

lemma does_with_context: "does P (with_context g)"
  unfolding with_context_def set_lz4id_def by (intro does_rules does_context; simp)

lemma does_lz4write: "(\<And>f. P (Fs f)) \<Longrightarrow> does P (lz4write d)"
  unfolding lz4write_def lz4_compress_srcbuf_def lz4_append_def lz4_finish_def set_lz4id_def Let_def
  by (intro does_rules does_lz4_put does_with_context; simp)

lemma main_message_sticky: "does (\<lambda>_. True) main_message"
  unfolding main_message_def got_fix_def by (intro does_rules does_lz4write TrueI; simp)

lemma iteration_parts:
  assumes "run_state (main_loop_body m k n) w = ((False, t), w')" and "stopped w' = None"
  shows "\<exists>w1 w2 r. run_state main_poll w = ((), w1)
    \<and> run_state (if sem_state w1 then call (Kernel (K_sem_take rollover_event_sem K_NO_WAIT)) else State_Monad.return (-1)) w1 = (r, w2)
    \<and> run_state main_message w2 = (t, w') \<and> stopped w = None \<and> stopped w1 = None \<and> stopped w2 = None"
proof -
  obtain w1 w2 where parts: "run_state main_poll w = ((), w1)" "run_state (main_rollover m k n) w1 = (False, w2)"
    "run_state main_message w2 = (t, w')"
    using assms(1) by (auto simp: main_loop_body_def split: prod.splits)
  from no_rollover_leaves_log [OF parts(2)] obtain r where
    r: "run_state (if sem_state w1 then call (Kernel (K_sem_take rollover_event_sem K_NO_WAIT)) else State_Monad.return (-1)) w1 = (r, w2)" ..
  have 2: "stopped w2 = None"
    using does_sticky [OF main_message_sticky, of w2] parts(3) assms(2) by fastforce
  have 1: "stopped w1 = None"
    using leaves_log_sticky [OF leaves_log_if_call] r 2
    by (metis snd_conv unwritten_simps(1))
  have "stopped w = None"
    using leaves_log_sticky [OF poll_leaves_log, of w] parts(1) 1 by simp
  with parts r 1 2 show ?thesis by blast
qed

lemma iteration_logging:
  assumes "log_open w cs txt" and "nmea_short (outside w)" and "run_state (main_loop_body m k n) w = ((False, t), w')"
    and "stopped w' = None"
  shows "\<exists>new. logging cs new (txt @ t) w w'"
proof -
  obtain w1 w2 r where p: "run_state main_poll w = ((), w1)"
    "run_state (if sem_state w1 then call (Kernel (K_sem_take rollover_event_sem K_NO_WAIT)) else State_Monad.return (-1)) w1 = (r, w2)"
    "run_state main_message w2 = (t, w')" "stopped w1 = None" "stopped w2 = None"
    using iteration_parts [OF assms(3,4)] by blast
  obtain n1 where 1: "logging cs n1 txt w w1" using logging_leaves [OF poll_leaves_log p(1,4) assms(1)] by blast
  obtain n2 where 2: "logging (cs @ n1) n2 txt w1 w2"
    using logging_leaves [OF leaves_log_if_call [OF unwritten_simps(1)] p(2,5), of "cs @ n1" "txt"] 1
    unfolding logging_def by blast
  have "log_open w2 ((cs @ n1) @ n2) txt" "nmea_short (outside w2)"
    using 1 2 assms(2) by (simp_all add: logging_def)
  from message_logging [OF this p(3)] obtain n3 where 3: "logging ((cs @ n1) @ n2) n3 (txt @ t) w2 w'" by blast
  show ?thesis using logging_trans [OF logging_trans [OF 1 2]] 3 by auto
qed

lemma activity_logging:
  assumes "activity supl_client w t w'" and "log_open w cs txt" and "nmea_short (outside w)" and "stopped w' = None"
  shows "\<exists>new. logging cs new (txt @ t) w w'"
  using assms(1)
proof (cases rule: activity.cases)
  case (iteration m k n)
  then show ?thesis using iteration_logging [OF assms(2,3)] assms(4) by blast
next
  case (upload m k n u)
  then show ?thesis using logging_leaves [OF upload_leaves_log _ assms(4,2)] by auto
next
  case message
  then show ?thesis using message_logging [OF assms(2,3)] assms(4) by blast
next
  case (receiver e u)
  then show ?thesis using logging_leaves [OF receiver_leaves_log _ assms(4,2)] by auto
next
  case (link e u)
  then show ?thesis using logging_leaves [OF link_leaves_log _ assms(4,2)] by auto
next
  case (button u)
  then show ?thesis using logging_leaves [OF button_leaves_log _ assms(4,2)] by auto
next
  case (leds u)
  then show ?thesis using logging_leaves [OF leds_leaves_log _ assms(4,2)] by auto
qed

lemma activity_sticky:
  assumes "activity supl_client w t w'" and "stopped w' = None"
  shows "stopped w = None"
  using assms(1)
proof (cases rule: activity.cases)
  case (iteration m k n)
  then show ?thesis using iteration_parts assms(2) by blast
next
  case (upload m k n u)
  then show ?thesis using leaves_logD [OF upload_leaves_log _ assms(2)] by blast
next
  case message
  then show ?thesis using does_sticky [OF main_message_sticky, of w] assms(2) by fastforce
next
  case (receiver e u)
  then show ?thesis using leaves_logD [OF receiver_leaves_log _ assms(2)] by blast
next
  case (link e u)
  then show ?thesis using leaves_logD [OF link_leaves_log _ assms(2)] by blast
next
  case (button u)
  then show ?thesis using leaves_logD [OF button_leaves_log _ assms(2)] by blast
next
  case (leds u)
  then show ?thesis using leaves_logD [OF leds_leaves_log _ assms(2)] by blast
qed

lemma day_logging:
  assumes "log_day supl_client w t w'" and "log_open w cs txt" and "nmea_short (outside w)" and "stopped w' = None"
  shows "\<exists>new. logging cs new (txt @ t) w w'"
  using assms
proof (induction rule: log_day.induct)
  case (dawn w)
  then show ?case by (auto simp: logging_def intro: exI [of _ "[]"])
next
  case (more w t w' s w'')
  from activity_sticky [OF more.hyps(2) more.prems(3)] more.IH more.prems
  obtain new where n: "logging cs new (txt @ t) w w'" by blast
  then have "log_open w' (cs @ new) (txt @ t)" "nmea_short (outside w')"
    using more.prems(2) by (simp_all add: logging_def)
  from activity_logging [OF more.hyps(2) this more.prems(3)] obtain new' where
    "logging (cs @ new) new' ((txt @ t) @ s) w' w''" by blast
  with logging_trans [OF n] show ?case by auto
qed

section \<open>A new file\<close>

definition statuses_fit :: "environment \<Rightarrow> bool" where
  "statuses_fit E \<longleftrightarrow> (\<forall>t. length (text_ans E t) + 2 \<le> JSONBUFLEN)"

lemma does_add_battery: "does unwritten (add_battery a vs)"
  by (induction vs) (simp_all only: add_battery.simps, intro does_rules, intro does_rules, simp_all)

lemma keeps_add_battery: "keeps log_part (add_battery a vs)"
  by (induction vs) (simp_all only: add_battery.simps, intro keeps_rules, intro keeps_rules, simp_all)

lemma run_add_battery:
  "stopped w = None \<Longrightarrow> run_state (add_battery a vs) w
     = ((), w\<lparr>events := events w @ map (\<lambda>v. Json (CJSON_AddArrayNumber a (of_int (uint v)))) vs\<rparr>)"
  by (induction vs arbitrary: w) simp_all

lemma jsonstatus_leaves_log: "leaves_log (get_jsonstatus n)"
  unfolding leaves_log_def get_jsonstatus_def
  by (intro conjI; intro does_rules keeps_rules does_add_battery keeps_add_battery; simp add: log_part_def)

lemma jsonstatus_ok:
  assumes "stopped w = None" and "\<forall>t. length (text_ans (outside w) t) + 2 \<le> n"
  shows "\<exists>r w'. run_state (get_jsonstatus n) w = (r, w') \<and> stopped w' = None \<and> CHR 0x00 \<in> set (jsonbuf w')
    \<and> length (c_string (jsonbuf w')) < n"
proof -
  have short: "length (c_string s) \<le> length s" for s
    by (simp add: c_string_def length_takeWhile_le)
  have fit: "length (text_ans (outside w) t) + 2 \<le> n" for t
    using assms(2) by blast
  have nl: "length (c_string (s @ [CHR 0x0A, CHR 0x00])) \<le> length s + 1"
    "length (c_string (s @ [CHR 0x00])) \<le> length s" for s
    by (induction s) (simp_all add: c_string_def)
  have lt: "length (c_string (s @ [CHR 0x0A, CHR 0x00])) < n" "length (c_string (s @ [CHR 0x00])) < n"
    if "length s + 2 \<le> n" for s
    using nl [of s] that by simp_all
  show ?thesis
    using assms(1) fit by (simp add: get_jsonstatus_def run_add_battery lt)
qed

text \<open>What a new file begins with, and how its name is made.\<close>

definition log_path :: "'z gnss_world_scheme \<Rightarrow> string" where
  "log_path w = get_sd_data_path (Some (log_name (filebase (confdata w)) (datetimestr (datetime (pvt_data w)))))"

lemma keeps_context:
  "keeps f a \<Longrightarrow> (\<And>c. keeps f (g c)) \<Longrightarrow> keeps f b \<Longrightarrow>
   keeps f (case x of No_Context \<Rightarrow> a | Context c \<Rightarrow> g c | Freed_Context \<Rightarrow> b)"
  by (cases x) simp_all

lemma keeps_lz4write:
  assumes "\<And>w t. f (w\<lparr>events := t\<rparr>) = f w" and "\<And>w e. f (w\<lparr>stopped := e\<rparr>) = f w"
    and "\<And>w s. f (w\<lparr>lz4id := s\<rparr>) = f w" and "\<And>w m. f (w\<lparr>memory_of := m\<rparr>) = f w"
  shows "keeps f (lz4write d)"
proof -
  have "keeps f (lz4_put n out)" for n out
    unfolding lz4_put_def by (intro keeps_rules assms)
  moreover have "keeps f (with_context g)" for g
    unfolding with_context_def set_lz4id_def by (intro keeps_rules keeps_context assms)
  ultimately show ?thesis
    unfolding lz4write_def lz4_compress_srcbuf_def lz4_append_def lz4_finish_def set_lz4id_def Let_def
    by (intro keeps_rules assms)
qed

lemma keeps_lz4open:
  assumes "\<And>w t. f (w\<lparr>events := t\<rparr>) = f w" and "\<And>w e. f (w\<lparr>stopped := e\<rparr>) = f w"
    and "\<And>w s. f (w\<lparr>lz4id := s\<rparr>) = f w" and "\<And>w m. f (w\<lparr>memory_of := m\<rparr>) = f w"
  shows "keeps f (lz4open path)"
  unfolding lz4open_def set_lz4id_def by (intro keeps_rules keeps_context assms)

text \<open>Opening a log leaves the fix and the poll events alone.\<close>

definition polled :: "'z logger_world_scheme \<Rightarrow> u32 \<times> bool" where
  "polled w = (gnss_fixed w, msgq_state w)"

lemma keeps_rollover: "keeps polled rollover_lz4log"
proof -
  have "keeps polled (add_battery a vs)" for a vs
    by (induction vs) (simp_all only: add_battery.simps, intro keeps_rules, intro keeps_rules, simp_all add: polled_def)
  then show ?thesis
    unfolding rollover_lz4log_def lz4close_def set_lz4id_def gnss_get_current_datetimestr_def get_jsonstatus_def
    by (intro keeps_rules keeps_lz4open keeps_lz4write; simp add: polled_def)
qed

lemma rollover_opens:
  assumes "log_closed w" and "opens w (log_path w)" and "printable (datetime (pvt_data w))"
    and "length (filebase (confdata w)) < 20" and "statuses_fit (outside w)"
  shows "\<exists>w' new. run_state rollover_lz4log w = (0, w') \<and> log_open w' new (c_string (jsonbuf w'))
    \<and> events w' = events w @ new \<and> outside w' = outside w \<and> filename (lz4id w') = log_path w
    \<and> reuseContext (lz4id w') = reuseContext (lz4id w) \<and> length (c_string (jsonbuf w')) < JSONBUFLEN"
proof -
  let ?path = "log_path w" and ?d = "datetimestr (datetime (pvt_data w))"
  have l: "length ?d = 17" "length (log_name (filebase (confdata w)) ?d) < 55" "length ?path < 200"
    using assms(4) datetimestr_length [OF assms(3)]
    by (simp_all add: log_path_def log_name_def get_sd_data_path_def get_sd_path_def sddata_def)
  have s: "stopped w = None" "\<not> isOpen (lz4id w)" using assms(1) by (simp_all add: log_closed_def)
  let ?w0 = "w\<lparr>lz4id := lz4id w\<lparr>filename := ?path\<rparr>\<rparr>"
  have "log_closed ?w0" "opens ?w0 ?path"
    using assms(1,2) by (simp_all add: log_closed_def opens_def clear_buffer_def srcbuf_def)
  from lz4open_ok [OF this l(3)] obtain w1 where 1: "run_state (lz4open ?path) ?w0 = (LZ4_SUCCESS, w1)"
    "log_open w1 (open_calls (fid (lz4id w1)) ?path) []" "events w1 = events w @ open_calls (fid (lz4id w1)) ?path"
    "outside w1 = outside w" "filename (lz4id w1) = ?path" "reuseContext (lz4id w1) = reuseContext (lz4id w)"
    by auto
  obtain r w2 where 2: "run_state (get_jsonstatus JSONBUFLEN) w1 = (r, w2)" "stopped w2 = None"
    "CHR 0x00 \<in> set (jsonbuf w2)" "length (c_string (jsonbuf w2)) < JSONBUFLEN"
    using jsonstatus_ok [of w1 JSONBUFLEN] 1(2,4) assms(5) by (auto simp: statuses_fit_def log_open_def)
  from logging_leaves [OF jsonstatus_leaves_log 2(1,2) 1(2)] obtain n2 where
    n2: "logging (open_calls (fid (lz4id w1)) ?path) n2 [] w1 w2" by blast
  then have "log_open w2 (open_calls (fid (lz4id w1)) ?path @ n2) []" by (simp add: logging_def)
  from logging_write [OF this, of "c_string (jsonbuf w2)"] obtain x w3 n3 where
    3: "run_state (lz4write (Some (c_string (jsonbuf w2)))) w2 = (x, w3)" "stopped w3 = None"
      "logging (open_calls (fid (lz4id w1)) ?path @ n2) n3 (c_string (jsonbuf w2)) w2 w3"
    using 2(4) by (auto simp: JSONBUFLEN_def CHUNKSIZE_def)
  have same: "jsonbuf w3 = jsonbuf w2"
    using keepsD [OF keeps_lz4write, of jsonbuf "Some (c_string (jsonbuf w2))" w2] 3(1) by simp
  let ?cs = "open_calls (fid (lz4id w1)) ?path"
  let ?up = "Kernel K_uptime_get"
  let ?w4 = "w3\<lparr>events := events w3 @ [?up]\<rparr>"
  let ?w5 = "?w4\<lparr>log_timestamp := ans (outside w3) (events w3 @ [?up])\<rparr>"
  have op: "log_open v (c @ new) t" if "logging c new t u v" for u v :: "'a logger_world_scheme" and c new t
    using that by (simp add: logging_def)
  note 4 = logging_trans [OF n2 3(3)]
  note 5 = logging_trans [OF 4 logging_event [OF unwritten_simps(1) [of K_uptime_get] op [OF 4]]]
  have "logging c [] t v (v\<lparr>log_timestamp := z\<rparr>)" if "log_open v c t" for v :: "'a logger_world_scheme" and c t z
    by (rule logging_static [OF that]) (simp_all add: log_part_def)
  note 6 = logging_trans [OF 5 this [OF op [OF 5], where z = "ans (outside w3) (events w3 @ [?up])"]]
  have "run_state rollover_lz4log w = (0, ?w5)"
    using s l 1 2 3 unfolding log_path_def
    by (simp add: rollover_lz4log_def gnss_get_current_datetimestr_def set_lz4id_def log_open_def Let_def)
  moreover have "log_open ?w5 (?cs @ ((n2 @ n3) @ [?up]) @ []) (c_string (jsonbuf ?w5))"
    using op [OF 6] same by simp
  moreover have "events ?w5 = events w1 @ (n2 @ n3) @ [?up]" "outside ?w5 = outside w1" "filename (lz4id ?w5) = filename (lz4id w1)"
    "reuseContext (lz4id ?w5) = reuseContext (lz4id w1)"
    using 6 by (simp_all add: logging_def)
  moreover have "length (c_string (jsonbuf ?w5)) < JSONBUFLEN" using 2(4) same by simp
  ultimately show ?thesis
    using 1(3-6) by (intro exI [of _ ?w5] exI [of _ "?cs @ ((n2 @ n3) @ [?up]) @ []"]) (simp del: append_assoc)
qed

lemma does_lz4open: "does (\<lambda>_. True) (lz4open path)"
  unfolding lz4open_def set_lz4id_def by (intro does_rules does_context TrueI; simp)

lemma rollover_closes:
  assumes "isOpen (lz4id w)" and "run_state lz4close w = (x, v)" and "run_state rollover_lz4log w = (y, w')"
  shows "\<exists>cs. events w' = events v @ cs"
proof -
  obtain k :: "('a logger_world_scheme, int) state" where k: "rollover_lz4log = do {
      f \<leftarrow> ask lz4id;
      (if isOpen f then do { _ \<leftarrow> lz4close; State_Monad.return () } else State_Monad.return ());
      k
    }" and "does (\<lambda>_. True) k"
    by (rule that [OF rollover_lz4log_def])
      (unfold set_lz4id_def gnss_get_current_datetimestr_def get_jsonstatus_def,
       intro does_rules does_lz4open does_lz4write does_mono [OF does_add_battery] TrueI; simp)
  then show ?thesis
    using does_events [of _ k v] assms by (auto simp: k split: prod.splits)
qed

lemma day_file:
  assumes "log_closed w" and "opens w (log_path w)" and "printable (datetime (pvt_data w))"
    and "length (filebase (confdata w)) < 20" and "statuses_fit (outside w)" and "nmea_short (outside w)"
    and "run_state rollover_lz4log w = (r, w0)" and "log_day supl_client w0 t w1" and "stopped w1 = None"
    and "run_state rollover_lz4log w1 = (r', w2)"
  shows "r = 0 \<and> (\<exists>p new rest. events w2 = events w @ new @ close_calls p (log_path w) @ rest
    \<and> lz4f_decode (written p new) = Some (bytes_of_string (c_string (jsonbuf w0) @ t))
    \<and> length (written p new) \<le> 11 + 5 * length (c_string (jsonbuf w0) @ t))"
proof -
  obtain n0 where 0: "r = 0" "log_open w0 n0 (c_string (jsonbuf w0))" "events w0 = events w @ n0"
    "outside w0 = outside w" "filename (lz4id w0) = log_path w"
    using rollover_opens [OF assms(1-5)] assms(7) by auto
  from day_logging [OF assms(8) 0(2) _ assms(9)] assms(6) 0(4)
  obtain n1 where "logging n0 n1 (c_string (jsonbuf w0) @ t) w0 w1" by auto
  then have 1: "log_open w1 (n0 @ n1) (c_string (jsonbuf w0) @ t)" "events w1 = events w0 @ n1"
    "filename (lz4id w1) = log_path w"
    using 0(5) by (simp_all add: logging_def)
  obtain w' n2 where 2: "run_state lz4close w1 = (LZ4_SUCCESS, w')"
    "events w' = events w1 @ n2 @ close_calls (fid (lz4id w1)) (log_path w)"
    "lz4f_decode (written (fid (lz4id w1)) ((n0 @ n1) @ n2)) = Some (bytes_of_string (c_string (jsonbuf w0) @ t))"
    "length (written (fid (lz4id w1)) ((n0 @ n1) @ n2)) \<le> 11 + 5 * length (c_string (jsonbuf w0) @ t)"
    using lz4close_ok [OF 1(1)] unfolding 1(3) by blast
  have "isOpen (lz4id w1)" using 1(1) by (simp add: log_open_def)
  from rollover_closes [OF this 2(1) assms(10)] obtain rest where "events w2 = events w' @ rest" ..
  with 0 1 2 show ?thesis
    by (intro conjI exI [of _ "fid (lz4id w1)"] exI [of _ "n0 @ n1 @ n2"] exI [of _ rest]) simp_all
qed

text \<open>
  C1: A log file holds what it should: from the rollover that opens it, through any sequence of
  activities of the firmware, to the rollover that closes it, the bytes written to the file are
  one LZ4 frame that decodes to exactly the device status followed by the sentences that were
  taken from the queue with a fix, in their order; the file is then closed and renamed from its
  temporary name to the name of the log.
\<close>

theorem log_holds_day:
  assumes "log_closed w" and "opens w (log_path w)" and "printable (datetime (pvt_data w))"
    and "length (filebase (confdata w)) < 20" and "statuses_fit (outside w)" and "nmea_short (outside w)"
    and "run_state rollover_lz4log w = (r, w0)" and "log_day supl_client w0 t w1" and "stopped w1 = None"
    and "run_state rollover_lz4log w1 = (r', w2)"
  shows "r = 0 \<and> (\<exists>p new rest. events w2 = events w @ new @ close_calls p (log_path w) @ rest
    \<and> lz4f_decode (written p new) = Some (bytes_of_string (c_string (jsonbuf w0) @ t)))"
  using day_file [OF assms] by blast

definition sample_day :: logger_world where
  "sample_day = (upload_world.extend idle_upload (logger_world.fields 0 False True))
     \<lparr>outside := sample_env\<lparr>ans := (\<lambda>t. if last t = Kernel (K_malloc Fs_file_object) then 1 else 0),
        text_ans := (\<lambda>t. if last t = Kernel (K_msgq_get K_NO_WAIT) then ''$GPGGA'' else ''{}'')\<rparr>,
      pvt_data := quiet_frame, gnss_fixed := 1, lz4id := lz4id sample_log, lz4id_addr := 1000\<rparr>"

lemma sample_day_simps [simp]:
  "stopped sample_day = None" "events sample_day = []" "lz4id sample_day = lz4id sample_log" "lz4id_addr sample_day = 1000"
  "polled sample_day = (1, True)" "pvt_data sample_day = quiet_frame" "length (filebase (confdata sample_day)) < 20"
  "outside sample_day = sample_env\<lparr>ans := (\<lambda>t. if last t = Kernel (K_malloc Fs_file_object) then 1 else 0),
     text_ans := (\<lambda>t. if last t = Kernel (K_msgq_get K_NO_WAIT) then ''$GPGGA'' else ''{}'')\<rparr>"
  by (simp_all add: sample_day_def upload_world.extend_def logger_world.fields_def polled_def idle_upload_def
      gnss_world.extend_def upload_world.fields_def idle_gnss_def supl_world.extend_def gnss_world.fields_def
      idle_supl_def config_world.extend_def supl_world.fields_def idle_config_def led_world.extend_def
      config_world.fields_def idle_led_def set_defaults_def)

lemma sample_day_ready:
  "log_closed sample_day" "opens sample_day path" "printable (datetime (pvt_data sample_day))"
  "statuses_fit (outside sample_day)" "nmea_short (outside sample_day)"
  using sample_log_closed small_no_error [of 0]
  by (simp_all add: log_closed_def sample_log_def opens_def Let_def sample_env_def quiet_def clear_buffer_def srcbuf_def
      CHUNKSIZE_def quiet_frame_def printable_def statuses_fit_def nmea_short_def JSONBUFLEN_def)

lemma message_text:
  assumes "stopped w = None" and "msgq_state w" and "isOpen (lz4id w)" and "gnss_fixed w \<noteq> 0"
    and "ans (outside w) (events w @ [Kernel (K_msgq_get K_NO_WAIT)]) = 0"
  shows "fst (run_state main_message w) = text_ans (outside w) (events w @ [Kernel (K_msgq_get K_NO_WAIT)])"
  using assms by (simp add: main_message_def got_fix_def split: prod.split)

lemma sample_message:
  "\<exists>w0 w1. run_state rollover_lz4log sample_day = (0, w0) \<and> run_state main_message w0 = (''$GPGGA'', w1)
    \<and> stopped w0 = None \<and> stopped w1 = None"
proof -
  obtain w0 cs where 0: "run_state rollover_lz4log sample_day = (0, w0)" "log_open w0 cs (c_string (jsonbuf w0))"
    "outside w0 = outside sample_day"
    using rollover_opens [OF sample_day_ready(1-3) _ sample_day_ready(4)] by auto
  have "polled w0 = (1, True)"
    using keepsD [OF keeps_rollover, of sample_day] 0(1) by simp
  then have t: "fst (run_state main_message w0) = ''$GPGGA''"
    using 0(2,3) message_text [of w0] by (auto simp: polled_def log_open_def)
  obtain w1 where 1: "run_state main_message w0 = (''$GPGGA'', w1)"
    using t by (cases "run_state main_message w0") simp
  obtain n where "logging cs n (c_string (jsonbuf w0) @ ''$GPGGA'') w0 w1"
    using message_logging [OF 0(2) _ 1] sample_day_ready(5) 0(3) by metis
  with 0 1 show ?thesis by (auto simp: logging_def log_open_def)
qed

theorem log_holds_day_witness:
  "\<exists>w0 w1 r' w2 p new rest. run_state rollover_lz4log sample_day = (0, w0) \<and> log_day True w0 ''$GPGGA'' w1
    \<and> run_state rollover_lz4log w1 = (r', w2) \<and> events w2 = new @ close_calls p (log_path sample_day) @ rest
    \<and> lz4f_decode (written p new) = Some (bytes_of_string (c_string (jsonbuf w0) @ ''$GPGGA''))"
proof -
  obtain w0 w1 where 1: "run_state rollover_lz4log sample_day = (0, w0)" "run_state main_message w0 = (''$GPGGA'', w1)"
    "stopped w1 = None"
    using sample_message by blast
  have "log_day True w0 ''$GPGGA'' w1"
    using log_day.more [OF log_day.dawn activity.message [OF 1(2)]] by simp
  moreover obtain r' w2 where 2: "run_state rollover_lz4log w1 = (r', w2)" by fastforce
  ultimately obtain p new rest where "events w2 = events sample_day @ new @ close_calls p (log_path sample_day) @ rest"
    "lz4f_decode (written p new) = Some (bytes_of_string (c_string (jsonbuf w0) @ ''$GPGGA''))" "log_day True w0 ''$GPGGA'' w1"
    using log_holds_day [OF sample_day_ready(1-3) sample_day_simps(7) sample_day_ready(4,5) 1(1) _ 1(3) 2] by blast
  with 1(1) 2 show ?thesis unfolding sample_day_simps(2) append_Nil by blast
qed

section \<open>The memory of a message\<close>

lemma held_files: "list_all (\<lambda>c. \<exists>f. c = Fs f) cs \<Longrightarrow> held E (t @ cs) = held E t"
proof (induction cs rule: rev_induct)
  case (snoc c cs)
  then show ?case using held_snoc [of E "t @ cs" c] by auto
qed simp

lemma held_lz4write:
  "held (outside (snd (run_state (lz4write d) w))) (events (snd (run_state (lz4write d) w))) = held (outside w) (events w)"
proof -
  have "does (\<lambda>c. \<exists>f. c = Fs f) (lz4write d)" by (rule does_lz4write) simp
  from does_events [OF this, of w] does_outside [OF this, of w] show ?thesis by (auto simp: held_files)
qed

text \<open>
  C15: Taking a sentence from the queue loses no memory: whether or not there is a log, a fix, or
  an error of the compression, the frame that was taken is given back before the next one, and
  nothing else is; and the event is reset, so that no sentence is taken twice.
\<close>

theorem main_message_keeps_memory:
  assumes "stopped w = None" and "run_state main_message w = (t, w')" and "stopped w' = None"
  shows "held (outside w') (events w') = held (outside w) (events w) \<and> \<not> msgq_state w'
    \<and> (t \<noteq> [] \<longrightarrow> isOpen (lz4id w) \<and> gnss_fixed w \<noteq> 0)"
proof -
  let ?get = "Kernel (K_msgq_get K_NO_WAIT)"
  let ?w1 = "w\<lparr>events := events w @ [?get]\<rparr>"
  let ?w2 = "snd (run_state (lz4write (Some (text_ans (outside w) (events w @ [?get])))) ?w1)"
  have h: "held (outside ?w2) (events ?w2) = held (outside w) (events w @ [?get])"
    using held_lz4write [of _ ?w1] by simp
  show ?thesis
    using assms h
    by (auto simp: main_message_def got_fix_def held_snoc split: prod.splits if_splits simp del: append_assoc)
qed

theorem main_message_keeps_memory_witness:
  "\<exists>w0 w1. run_state rollover_lz4log sample_day = (0, w0) \<and> run_state main_message w0 = (''$GPGGA'', w1)
    \<and> held (outside w1) (events w1) = held (outside w0) (events w0) \<and> isOpen (lz4id w0)"
proof -
  obtain w0 w1 where w: "run_state rollover_lz4log sample_day = (0, w0)" "run_state main_message w0 = (''$GPGGA'', w1)"
    "stopped w0 = None" "stopped w1 = None"
    using sample_message by blast
  with main_message_keeps_memory [OF w(3,2,4)] show ?thesis by auto
qed

end
