(* ===== verification/Startup.thy ===== *)
theory Startup
  imports Log_Day
begin

text \<open>
  What the main program guarantees when it enters its loop: the receiver runs, and the log and the
  configuration are as the first rollover needs them.
\<close>

section \<open>The parts of the start\<close>

definition start_part :: "'z config_world_scheme \<Rightarrow> int \<times> config" where
  "start_part w = (lz4id_addr w, confdata w)"

definition startable :: "'z config_world_scheme \<Rightarrow> bool" where
  "startable w \<longleftrightarrow> 0 < lz4id_addr w \<and> config_fits (confdata w)"

lemma start_part_simps [simp]:
  "start_part (w\<lparr>events := t\<rparr>) = start_part w" "start_part (w\<lparr>stopped := e\<rparr>) = start_part w"
  "start_part (w\<lparr>led_status := l\<rparr>) = start_part w" "start_part (w\<lparr>adc_dev := a\<rparr>) = start_part w"
  "start_part (v\<lparr>dev_status := d\<rparr>) = start_part v" "start_part (v\<lparr>hrprev := h\<rparr>) = start_part v"
  by (simp_all add: start_part_def)

lemma startable_part: "start_part w' = start_part w \<Longrightarrow> startable w \<Longrightarrow> startable w'"
  by (simp add: start_part_def startable_def)

lemma wp_start_part:
  "keeps start_part m \<Longrightarrow> startable w \<Longrightarrow> (\<And>x w'. startable w' \<Longrightarrow> Q x w') \<Longrightarrow> wp m Q w"
  by (rule wp_keeps [where f = start_part]) (auto intro: startable_part)

lemma keeps_start:
  "keeps start_part init_adc" "keeps start_part setup_modem" "keeps start_part print_boardinfo"
  "keeps start_part mount_sdcard" "keeps start_part initialize_sdcard_files" "keeps start_part init_device_status"
  "keeps start_part (cert_provision c)"
  unfolding init_adc_def setup_modem_def print_boardinfo_def mount_sdcard_def initialize_sdcard_files_def ensure_dir_def
    init_device_status_def set_dev_status_def cert_provision_def
  by (intro keeps_rules; simp)+

lemma does_start:
  "does (\<lambda>_. True) init_adc" "does (\<lambda>_. True) setup_modem" "does (\<lambda>_. True) print_boardinfo"
  "does (\<lambda>_. True) mount_sdcard" "does (\<lambda>_. True) initialize_sdcard_files" "does (\<lambda>_. True) init_device_status"
  "does (\<lambda>_. True) (cert_provision c)"
  unfolding init_adc_def setup_modem_def print_boardinfo_def mount_sdcard_def initialize_sdcard_files_def ensure_dir_def
    init_device_status_def set_dev_status_def cert_provision_def
  by (intro does_rules TrueI; simp)+

lemma read_config_startable: "startable w \<Longrightarrow> wp (read_config t) (\<lambda>_ w'. startable w') w"
proof -
  assume w: "startable w"
  have k: "keeps lz4id_addr (read_config t)"
    unfolding read_config_def read_config_file_def read_settings_def read_webdav_def read_auth_def read_tls_def
      strcpy_fits_def set_conf_def set_webdav_def write_default_config_def default_json_def Let_def
    by (intro keeps_rules; simp)
  have "wp (read_config t) (\<lambda>_ w'. config_fits (confdata w')) w"
    unfolding read_config_def
  proof (rule wp_bind)
    show "does (\<lambda>_. True) (if e then read_config_file t else write_default_config)" for e
      unfolding read_config_file_def write_default_config_def by (intro does_rules TrueI; simp)
    show "wp (file_exists config_file) (\<lambda>e. wp (if e then read_config_file t else write_default_config)
        (\<lambda>_ w'. config_fits (confdata w'))) w"
    proof (rule wp_keeps [where f = confdata])
      fix e :: bool and w' assume c: "confdata w' = confdata w"
      show "wp (if e then read_config_file t else write_default_config) (\<lambda>_ w'. config_fits (confdata w')) w'"
        using w c by (auto intro!: wp_mono [OF read_config_file_usable] wp_mono [OF write_default_config_defaults]
            simp: startable_def config_read_def set_defaults_fits)
    qed (intro keeps_rules; simp)
  qed
  then show ?thesis
    using keepsD [OF k, of w] w by (simp add: startable_def wp_def)
qed

text \<open>Starting the receiver leaves the log and the configuration alone.\<close>

definition ready_part :: "'z config_world_scheme \<Rightarrow> (lz4streamfile \<times> memory \<times> int) \<times> config" where
  "ready_part w = (log_part w, confdata w)"

lemma keeps_settings_ready: "keeps ready_part (settings cs)"
  by (induction cs) (simp_all only: settings.simps, intro keeps_rules, intro keeps_rules, simp_all add: ready_part_def)

lemma keeps_ready: "keeps ready_part (init_gnss supl_client a)" "keeps ready_part start_gnss"
  unfolding init_gnss_def start_gnss_def enable_gnss_mode_def assistance_init_def
  by (intro keeps_rules keeps_settings_ready; simp add: ready_part_def log_part_def)+

lemma does_settings: "does (\<lambda>_. True) (settings cs)"
  by (induction cs) (simp_all only: settings.simps, intro does_rules, intro does_rules, simp_all)

lemma does_ready: "does (\<lambda>_. True) (init_gnss supl_client a)" "does (\<lambda>_. True) start_gnss"
  unfolding init_gnss_def start_gnss_def enable_gnss_mode_def assistance_init_def
  by (intro does_rules does_settings TrueI; simp)+

lemma does_read_config_any: "does (\<lambda>_. True) (read_config t)"
  unfolding read_config_def read_config_file_def write_default_config_def by (intro does_rules TrueI; simp)

lemma does_led_status: "does (\<lambda>_. True) (set_led_status s)" "does (\<lambda>_. True) led_error"
  unfolding set_led_status_def led_error_def by (intro does_rules; simp)+

lemma does_init_lz4stream: "does (\<lambda>_. True) (init_lz4stream b)"
  unfolding init_lz4stream_def set_lz4id_def by (intro does_rules; simp)

lemmas does_main = does_start does_ready does_read_config_any does_led_status does_init_lz4stream does_rules TrueI

text \<open>How the start ends.\<close>

definition started :: "bool \<Rightarrow> 'z config_world_scheme \<Rightarrow> bool" where
  "started b w \<longleftrightarrow> (if b then led_status w = LED_SEARCHING \<and> log_closed w \<and> reuseContext (lz4id w)
     \<and> config_fits (confdata w) \<and> (\<exists>t. events w = t @ [Gnss Gnss_start] \<and> ans (outside w) (events w) = 0)
   else led_status w = LED_ERROR)"

lemma log_closed_simps:
  "log_closed (w\<lparr>events := t\<rparr>) = log_closed w" "log_closed (v\<lparr>led_status := l\<rparr>) = log_closed v"
  by (simp_all add: log_closed_def)

lemma wp_led_error: "wp led_error started w"
  by (simp add: wp_def led_error_def started_def)

lemma wp_receiver:
  assumes "log_closed w" and "reuseContext (lz4id w)" and "config_fits (confdata w)"
  shows "wp (do {
     r \<leftarrow> init_gnss supl_client a;
     if r \<noteq> 0 then led_error
     else do {
       r \<leftarrow> start_gnss;
       if r \<noteq> 0 then led_error
       else do { set_led_status LED_SEARCHING; State_Monad.return True }
     }
   }) started w"
proof (intro wp_bind does_main, rule wp_keeps [OF keeps_ready(1)])
  fix r w' assume "ready_part w' = ready_part w"
  with assms have "stopped w' = None \<Longrightarrow> log_closed w'" "reuseContext (lz4id w')" "config_fits (confdata w')"
    by (auto simp: ready_part_def log_part_def log_closed_def)
  then show "wp (if r \<noteq> 0 then led_error
     else do {
       r \<leftarrow> start_gnss;
       if r \<noteq> 0 then led_error
       else do { set_led_status LED_SEARCHING; State_Monad.return True }
     }) started w'"
    by (cases "stopped w'") (auto simp: wp_def start_gnss_def led_error_def started_def log_closed_simps)
qed

text \<open>A step of the start: it keeps what the later ones need.\<close>

lemma wp_start_step:
  assumes "startable w" and "keeps start_part m" and "\<And>x. does (\<lambda>_. True) (f x)"
    and "\<And>x w'. startable w' \<Longrightarrow> wp (f x) Q w'"
  shows "wp (State_Monad.bind m f) Q w"
  by (rule wp_bind [OF assms(3)], rule wp_start_part [OF assms(2,1)]) (rule assms(4))

lemma wp_guarded: "(\<not> b \<Longrightarrow> wp m started w) \<Longrightarrow> wp (if b then led_error else m) started w"
  by (simp add: wp_led_error)

lemma keeps_led: "keeps start_part (set_led_status s)"
  by (rule keepsI) simp

lemma init_lz4stream_log:
  "startable w \<Longrightarrow> stopped w = None \<Longrightarrow> run_state (init_lz4stream True) w = ((), w')
   \<Longrightarrow> log_closed w' \<and> reuseContext (lz4id w') \<and> config_fits (confdata w')"
  by (auto simp: init_lz4stream_def set_lz4id_def log_closed_def startable_def)

lemma main_init_started: "startable w \<Longrightarrow> wp (main_init t supl_client) started w"
  unfolding main_init_def
  apply (erule wp_start_step, rule keeps_start, intro does_main)
  apply (erule wp_start_step, rule keeps_led, intro does_main)
  apply (erule wp_start_step, rule keeps_start, intro does_main, rule wp_guarded)
  apply (erule wp_start_step, rule keeps_start, intro does_main)
  apply (erule wp_start_step, rule keeps_start, intro does_main, rule wp_guarded)
  apply (erule wp_start_step, rule keeps_start, intro does_main, rule wp_guarded)
  apply (rule wp_bind, intro does_main, erule wp_mono [OF read_config_startable], rule wp_guarded)
  apply (erule wp_start_step, rule keeps_start, intro does_main)
  apply (rule wp_bind, intro does_main, rule wp_ask)
  apply (erule wp_start_step, intro keeps_rules keeps_start, intro does_main, rule wp_guarded)
  apply (rule wp_bind, intro does_main)
  apply (rule wpI)
  apply (drule init_lz4stream_log, assumption, simp)
  apply (blast intro: wp_receiver)
  done

text \<open>
  C14: The start ends in one of two ways: either some part fails, and the LED shows the error; or
  the last call started the receiver successfully, the LED shows the search, the log is closed
  and will keep its compression context, and the configuration fits its arrays, the name of the
  log included, as the first rollover needs it.
\<close>

theorem main_init_outcome:
  assumes "stopped w = None" and "0 < lz4id_addr w" and "config_fits (confdata w)"
    and "run_state (main_init sockopt_tls supl_client) w = (ok, w')" and "stopped w' = None"
  shows "if ok then led_status w' = LED_SEARCHING \<and> log_closed w' \<and> reuseContext (lz4id w')
     \<and> config_fits (confdata w') \<and> (\<exists>t. events w' = t @ [Gnss Gnss_start] \<and> ans (outside w') (events w') = 0)
   else led_status w' = LED_ERROR"
  using wpD [OF main_init_started assms(1,4,5)] assms(2,3) by (simp add: startable_def started_def)

definition sample_start :: logger_world where
  "sample_start = sample_day\<lparr>outside := quiet\<lparr>ans := card_ans, text_ans := card_text\<rparr>\<rparr>"

lemma sample_start_simps [simp]:
  "stopped sample_start = None" "events sample_start = []" "lz4id_addr sample_start = 1000"
  "ans (outside sample_start) = card_ans" "text_ans (outside sample_start) = card_text"
  "config_fits (confdata sample_start)"
proof -
  have "confdata sample_day = set_defaults (confdata sample_day)"
    by (simp add: sample_day_def upload_world.extend_def logger_world.fields_def polled_def idle_upload_def
      gnss_world.extend_def upload_world.fields_def idle_gnss_def supl_world.extend_def gnss_world.fields_def
      idle_supl_def config_world.extend_def supl_world.fields_def idle_config_def led_world.extend_def
      config_world.fields_def idle_led_def set_defaults_def)
  with set_defaults_fits [of "confdata sample_day"] show "config_fits (confdata sample_start)"
    by (simp add: sample_start_def)
qed (simp_all add: sample_start_def)

theorem main_init_outcome_witness:
  "\<exists>w'. run_state (main_init False False) sample_start = (True, w') \<and> led_status w' = LED_SEARCHING
    \<and> log_closed w' \<and> config_fits (confdata w')"
proof -
  obtain w' where r: "run_state (main_init False False) sample_start = (True, w')" "stopped w' = None"
    by (simp add: main_init_def init_adc_def setup_modem_def print_boardinfo_def mount_sdcard_def initialize_sdcard_files_def
      ensure_dir_def read_config_def file_exists_def read_config_file_def read_settings_def read_webdav_def read_auth_def read_tls_def
      get_item_def valueint_def valuestring_def strcpy_fits_def set_conf_def set_webdav_def fs_gets_def Let_def
      init_device_status_def set_dev_status_def init_lz4stream_def set_lz4id_def init_gnss_def enable_gnss_mode_def
      start_gnss_def card_ans_def card_text_def JSONBUFLEN_def AUTH_PREFIX_def c_string_def CONF_SUCCESS_def
      FEA_SUCCESS_def UPLOADCLNT_SUCCESS_def)
  from main_init_outcome [OF _ _ _ r] show ?thesis using r(1) by simp
qed

end
