(* ===== verification/Lz4_Decompress.thy ===== *)
theory Lz4_Decompress
  imports Lz4_Stream
begin

text \<open>
  The block decompressor \<open>LZ4_decompress_generic\<close> of \<open>lz4.c\<close> with all its directives, and the
  functions of the interface that instantiate it. The loop for fast targets
  (\<open>LZ4_FAST_DEC_LOOP\<close>) is not compiled for this one. Pointers are integers that do not wrap
  around; lengths are 32-bit words, and the tests for overflow compute modulo the size of the
  address space as the casts to \<open>uptrval\<close> do.

  Every load must lie in one of the ranges \<open>d_room\<close> that the caller lends, every store in the
  output buffer; \<open>memcpy\<close> is undefined on overlapping ranges. Outside these limits the model
  stops with a fault.
\<close>

section \<open>Directives and pointers of one call\<close>

datatype endCondition_directive = endOnOutputSize | endOnInputSize

datatype earlyEnd_directive = decode_full_block | partial_decode

record dec_call =
  d_src :: int
  d_dst :: int
  d_srcSize :: int
  d_outputSize :: int
  d_endOnInput :: endCondition_directive
  d_partialDecoding :: earlyEnd_directive
  d_dict :: dict_directive
  d_lowPrefix :: int
  d_dictStart :: int
  d_dictSize :: nat
  d_room :: "(int \<times> int) list"

abbreviation d_safe :: "dec_call \<Rightarrow> bool" where
  "d_safe c \<equiv> d_endOnInput c = endOnInputSize"

abbreviation d_partial :: "dec_call \<Rightarrow> bool" where
  "d_partial c \<equiv> d_partialDecoding c = partial_decode"

definition d_iend :: "dec_call \<Rightarrow> int" where
  "d_iend c = d_src c + d_srcSize c"

definition d_oend :: "dec_call \<Rightarrow> int" where
  "d_oend c = d_dst c + d_outputSize c"

definition d_dictEnd :: "dec_call \<Rightarrow> int" where
  "d_dictEnd c = (if d_dictStart c = 0 then 0 else d_dictStart c + int (d_dictSize c))"

definition d_checkOffset :: "dec_call \<Rightarrow> bool" where
  "d_checkOffset c \<longleftrightarrow> d_safe c \<and> d_dictSize c < 65536"

definition d_shortiend :: "dec_call \<Rightarrow> int" where
  "d_shortiend c = d_iend c - (if d_safe c then 14 else 8) - 2"

definition d_shortoend :: "dec_call \<Rightarrow> int" where
  "d_shortoend c = d_oend c - (if d_safe c then 14 else 8) - 18"

section \<open>Memory\<close>

definition d_readable :: "dec_call \<Rightarrow> int \<Rightarrow> int \<Rightarrow> bool" where
  "d_readable c p n \<longleftrightarrow> n = 0 \<or> 0 < n \<and> list_ex (\<lambda>(a, b). a \<le> p \<and> p + n \<le> b) (d_room c)"

definition d_writable :: "dec_call \<Rightarrow> int \<Rightarrow> int \<Rightarrow> bool" where
  "d_writable c p n \<longleftrightarrow> n = 0 \<or> 0 < n \<and> d_dst c \<le> p \<and> p + n \<le> d_oend c"

definition d_load :: "dec_call \<Rightarrow> memory \<Rightarrow> int \<Rightarrow> u8 outcome" where
  "d_load c m p = chain (require Out_Of_Bounds (d_readable c p 1)) (\<lambda>_. Inr (m p))"

definition d_readLE16 :: "dec_call \<Rightarrow> memory \<Rightarrow> int \<Rightarrow> u16 outcome" where
  "d_readLE16 c m p = chain (require Out_Of_Bounds (d_readable c p 2)) (\<lambda>_. Inr (LZ4_read16 m p))"

definition d_memmove :: "dec_call \<Rightarrow> memory \<Rightarrow> int \<Rightarrow> int \<Rightarrow> int \<Rightarrow> memory outcome" where
  "d_memmove c m dst src n =
     chain (require Out_Of_Bounds (d_readable c src n \<and> d_writable c dst n))
       (\<lambda>_. Inr (memmove m dst src (nat n)))"

definition LZ4_memcpy :: "dec_call \<Rightarrow> memory \<Rightarrow> int \<Rightarrow> int \<Rightarrow> int \<Rightarrow> memory outcome" where
  "LZ4_memcpy c m dst src n =
     chain (require Overlapping_Copy (dst + n \<le> src \<or> src + n \<le> dst)) (\<lambda>_. d_memmove c m dst src n)"

function LZ4_wildCopy8 :: "dec_call \<Rightarrow> memory \<Rightarrow> int \<Rightarrow> int \<Rightarrow> int \<Rightarrow> memory outcome" where
  "LZ4_wildCopy8 c m d s e =
     (case LZ4_memcpy c m d s 8 of
        Inl f \<Rightarrow> Inl f
      | Inr m1 \<Rightarrow> if d + 8 < e then LZ4_wildCopy8 c m1 (d + 8) (s + 8) e else Inr m1)"
  by pat_completeness auto
termination by (relation "measure (\<lambda>(c, m, d, s, e). nat (e - d))") auto

declare LZ4_wildCopy8.simps [simp del]

text \<open>\<open>while (op < end) *op++ = *match++;\<close>\<close>

function d_copy_bytes :: "dec_call \<Rightarrow> memory \<Rightarrow> int \<Rightarrow> int \<Rightarrow> int \<Rightarrow> memory outcome" where
  "d_copy_bytes c m op match e =
     (if op < e then
        case d_memmove c m op match 1 of
          Inl f \<Rightarrow> Inl f
        | Inr m1 \<Rightarrow> d_copy_bytes c m1 (op + 1) (match + 1) e
      else Inr m)"
  by pat_completeness auto
termination by (relation "measure (\<lambda>(c, m, p, s, e). nat (e - p))") auto

declare d_copy_bytes.simps [simp del]

section \<open>Lengths\<close>

datatype variable_length_error = loop_error | initial_error | ok

text \<open>Where the caller's ranges end: no load succeeds from there on.\<close>

definition d_top :: "dec_call \<Rightarrow> int" where
  "d_top c = fold max (map snd (d_room c)) 0"

lemma fold_max_ge: "a \<le> fold max xs (a :: int) \<and> (\<forall>x \<in> set xs. x \<le> fold max xs a)"
proof (induction xs arbitrary: a)
  case (Cons y ys)
  from Cons.IH [of "max y a"] show ?case by auto
qed simp

lemma d_readable_top: "d_readable c p n \<Longrightarrow> 0 < n \<Longrightarrow> p + n \<le> d_top c"
  using fold_max_ge [of 0 "map snd (d_room c)"]
  by (fastforce simp: d_readable_def d_top_def list_ex_iff)

lemma d_load_top: "d_load c m p = Inr s \<Longrightarrow> p < d_top c"
  using d_readable_top [of c p 1] by (auto simp: d_load_def require_def split: if_splits)

function read_length_loop ::
  "dec_call \<Rightarrow> memory \<Rightarrow> int \<Rightarrow> int \<Rightarrow> bool \<Rightarrow> u32 \<Rightarrow> (u32 \<times> int \<times> variable_length_error) outcome" where
  "read_length_loop c m ip lencheck loop_check len =
     (case d_load c m ip of
        Inl f \<Rightarrow> Inl f
      | Inr s \<Rightarrow>
          let len1 = len + ucast s; ip1 = ip + 1
          in if loop_check \<and> ip1 \<ge> lencheck then Inr (len1, ip1, loop_error)
             else if s = 255 then read_length_loop c m ip1 lencheck loop_check len1
             else Inr (len1, ip1, ok))"
  by pat_completeness auto
termination
  by (relation "measure (\<lambda>(c, m, ip, l, b, n). nat (d_top c - ip))") (auto dest: d_load_top)

declare read_length_loop.simps [simp del]

definition read_variable_length ::
  "dec_call \<Rightarrow> memory \<Rightarrow> int \<Rightarrow> int \<Rightarrow> bool \<Rightarrow> bool \<Rightarrow> (u32 \<times> int \<times> variable_length_error) outcome" where
  "read_variable_length c m ip lencheck loop_check initial_check =
     (if initial_check \<and> ip \<ge> lencheck then Inr (0, ip, initial_error)
      else read_length_loop c m ip lencheck loop_check 0)"

text \<open>\<open>(uptrval)(p) + length < (uptrval)(p)\<close>\<close>

definition d_wraps :: "int \<Rightarrow> u32 \<Rightarrow> bool" where
  "d_wraps p len \<longleftrightarrow> (word_of_int p + len :: u32) < word_of_int p"

section \<open>Copying a match\<close>

record dec_vars =
  x_ip :: int
  x_op :: int
  x_mem :: memory

datatype dec_next = Loop_Again dec_vars | End_Of_Block dec_vars | Output_Error dec_vars

text \<open>A match that begins in the external dictionary; it may run on into the prefix.\<close>

definition LZ4_ext_match :: "dec_call \<Rightarrow> dec_vars \<Rightarrow> int \<Rightarrow> int \<Rightarrow> dec_next outcome" where
  "LZ4_ext_match c v match len =
     (let op = x_op v;
          near = (op + len > d_oend c - 5);
          len1 = (if near then min len (d_oend c - op) else len);
          lead = d_lowPrefix c - match
      in if near \<and> \<not> d_partial c then Inr (Output_Error v)
         else if len1 \<le> lead then
           chain (d_memmove c (x_mem v) op (d_dictEnd c - lead) len1)
             (\<lambda>m1. Inr (Loop_Again (v\<lparr>x_op := op + len1, x_mem := m1\<rparr>)))
         else
           let restSize = len1 - lead; op1 = op + lead
           in chain (LZ4_memcpy c (x_mem v) op (d_dictEnd c - lead) lead)
                (\<lambda>m1. chain (if restSize > op1 - d_lowPrefix c
                              then d_copy_bytes c m1 op1 (d_lowPrefix c) (op1 + restSize)
                              else LZ4_memcpy c m1 op1 (d_lowPrefix c) restSize)
                  (\<lambda>m2. Inr (Loop_Again (v\<lparr>x_op := op1 + restSize, x_mem := m2\<rparr>)))))"

definition inc32table :: "int list" where
  "inc32table = [0, 1, 2, 1, 0, 4, 4, 4]"

definition dec64table :: "int list" where
  "dec64table = [0, 0, 0, -1, -4, 1, 2, 3]"

text \<open>The first eight bytes of a match; the result is the memory and where the copy goes on.\<close>

definition LZ4_first_bytes :: "dec_call \<Rightarrow> memory \<Rightarrow> int \<Rightarrow> int \<Rightarrow> nat \<Rightarrow> (memory \<times> int) outcome" where
  "LZ4_first_bytes c m op match offset =
     (if offset < 8 then
        chain (require Out_Of_Bounds (d_writable c op 4)) (\<lambda>_.
        let m0 = (\<lambda>p. if op \<le> p \<and> p < op + 4 then 0 else m p);
            match1 = match + inc32table ! offset
        in chain (d_copy_bytes c m0 op match (op + 4)) (\<lambda>m1.
           chain (LZ4_memcpy c m1 (op + 4) match1 4) (\<lambda>m2.
           Inr (m2, match1 - dec64table ! offset))))
      else chain (LZ4_memcpy c m op match 8) (\<lambda>m1. Inr (m1, match + 8)))"

text \<open>The rest of a match that has room to spare, and of one near the end of the output.\<close>

definition LZ4_rest_near_end :: "dec_call \<Rightarrow> memory \<Rightarrow> int \<Rightarrow> int \<Rightarrow> int \<Rightarrow> memory outcome" where
  "LZ4_rest_near_end c m op match cpy =
     (let oCopyLimit = d_oend c - (8 - 1)
      in chain (if op < oCopyLimit
                then chain (LZ4_wildCopy8 c m op match oCopyLimit)
                       (\<lambda>m1. Inr (m1, oCopyLimit, match + (oCopyLimit - op)))
                else Inr (m, op, match))
           (\<lambda>(m1, op1, match1). d_copy_bytes c m1 op1 match1 cpy))"

definition LZ4_rest_wild :: "dec_call \<Rightarrow> memory \<Rightarrow> int \<Rightarrow> int \<Rightarrow> int \<Rightarrow> int \<Rightarrow> memory outcome" where
  "LZ4_rest_wild c m op match len cpy =
     chain (LZ4_memcpy c m op match 8)
       (\<lambda>m1. if len > 16 then LZ4_wildCopy8 c m1 (op + 8) (match + 8) cpy else Inr m1)"

definition LZ4_block_match :: "dec_call \<Rightarrow> dec_vars \<Rightarrow> int \<Rightarrow> nat \<Rightarrow> int \<Rightarrow> dec_next outcome" where
  "LZ4_block_match c v match offset len =
     (let op = x_op v; cpy = op + len
      in chain (require Assert_Failed (op \<le> d_oend c)) (\<lambda>_.
         if d_partial c \<and> cpy > d_oend c - 12 then
           let mlen = min len (d_oend c - op); copyEnd = op + mlen
           in chain (if match + mlen > op then d_copy_bytes c (x_mem v) op match copyEnd
                     else LZ4_memcpy c (x_mem v) op match mlen)
                (\<lambda>m1. let v1 = v\<lparr>x_op := copyEnd, x_mem := m1\<rparr>
                       in Inr (if copyEnd = d_oend c then End_Of_Block v1 else Loop_Again v1))
         else
           chain (LZ4_first_bytes c (x_mem v) op match offset) (\<lambda>(m1, match1).
             if cpy > d_oend c - 12 \<and> cpy > d_oend c - 5 then Inr (Output_Error (v\<lparr>x_op := op + 8, x_mem := m1\<rparr>))
             else
               chain (if cpy > d_oend c - 12 then LZ4_rest_near_end c m1 (op + 8) match1 cpy
                      else LZ4_rest_wild c m1 (op + 8) match1 len cpy)
                 (\<lambda>m2. Inr (Loop_Again (v\<lparr>x_op := cpy, x_mem := m2\<rparr>))))))"

text \<open>From the length of the match on; the offset may reach before all that is there.\<close>

definition LZ4_match_copy :: "dec_call \<Rightarrow> dec_vars \<Rightarrow> int \<Rightarrow> nat \<Rightarrow> u32 \<Rightarrow> dec_next outcome" where
  "LZ4_match_copy c v match offset len =
     (if d_checkOffset c \<and> match + int (d_dictSize c) < d_lowPrefix c then Inr (Output_Error v)
      else if d_dict c = usingExtDict \<and> match < d_lowPrefix c then LZ4_ext_match c v match (uint len)
      else chain (require Assert_Failed (d_lowPrefix c \<le> match))
             (\<lambda>_. LZ4_block_match c v match offset (uint len)))"

text \<open>The label \<open>_copy_match\<close>; \<open>len\<close> is the nibble of the token.\<close>

definition LZ4_copy_match :: "dec_call \<Rightarrow> dec_vars \<Rightarrow> int \<Rightarrow> nat \<Rightarrow> u32 \<Rightarrow> dec_next outcome" where
  "LZ4_copy_match c v match offset len =
     chain (if len = 15 then
              chain (read_variable_length c (x_mem v) (x_ip v) (d_iend c - 5 + 1) (d_safe c) False)
                (\<lambda>(n, ip, err). Inr (len + n, ip, err \<noteq> ok \<or> d_safe c \<and> d_wraps (x_op v) (len + n)))
            else Inr (len, x_ip v, False))
       (\<lambda>(len1, ip, bad).
          let v1 = v\<lparr>x_ip := ip\<rparr>
          in if bad then Inr (Output_Error v1) else LZ4_match_copy c v1 match offset (len1 + 4))"

section \<open>One sequence\<close>

text \<open>The shortcut for short literals and a short match well inside both buffers.\<close>

definition LZ4_shortcut :: "dec_call \<Rightarrow> dec_vars \<Rightarrow> u8 \<Rightarrow> dec_next outcome" where
  "LZ4_shortcut c v token =
     (let lits = uint (drop_bit 4 token); op = x_op v + lits; ip = x_ip v + lits;
          len = token AND 15
      in chain (LZ4_memcpy c (x_mem v) (x_op v) (x_ip v) (if d_safe c then 16 else 8)) (\<lambda>m1.
         chain (d_readLE16 c m1 ip) (\<lambda>offset.
         let match = op - uint offset
         in if len \<noteq> 15 \<and> offset \<ge> 8 \<and> (d_dict c = withPrefix64k \<or> d_lowPrefix c \<le> match) then
              chain (LZ4_memcpy c m1 op match 8) (\<lambda>m2.
              chain (LZ4_memcpy c m2 (op + 8) (match + 8) 8) (\<lambda>m3.
              chain (LZ4_memcpy c m3 (op + 16) (match + 16) 2) (\<lambda>m4.
              Inr (Loop_Again \<lparr>x_ip = ip + 2, x_op = op + uint len + 4, x_mem = m4\<rparr>))))
            else LZ4_copy_match c \<lparr>x_ip = ip + 2, x_op = op, x_mem = m1\<rparr> match (unat offset) (ucast len))))"

definition LZ4_take_offset :: "dec_call \<Rightarrow> dec_vars \<Rightarrow> u8 \<Rightarrow> dec_next outcome" where
  "LZ4_take_offset c v token =
     chain (d_readLE16 c (x_mem v) (x_ip v)) (\<lambda>offset.
       LZ4_copy_match c (v\<lparr>x_ip := x_ip v + 2\<rparr>) (x_op v - uint offset) (unat offset) (ucast (token AND 15)))"

text \<open>Literals close to the end of a buffer: the last ones, unless decoding is partial.\<close>

definition LZ4_last_run :: "dec_call \<Rightarrow> dec_vars \<Rightarrow> u8 \<Rightarrow> int \<Rightarrow> dec_next outcome" where
  "LZ4_last_run c v token len =
     (let op = x_op v; ip = x_ip v;
          len1 = (if d_partial c \<and> ip + len > d_iend c then d_iend c - ip else len);
          len2 = (if d_partial c \<and> op + len1 > d_oend c then d_oend c - op else len1);
          cpy = op + len2
      in chain (require Assert_Failed (d_partial c \<longrightarrow> d_safe c \<and> (op + len1 > d_oend c \<longrightarrow> op \<le> d_oend c))) (\<lambda>_.
         if \<not> d_partial c \<and> (\<not> d_safe c \<and> cpy \<noteq> d_oend c \<or> d_safe c \<and> (ip + len \<noteq> d_iend c \<or> cpy > d_oend c))
         then Inr (Output_Error v)
         else
           chain (d_memmove c (x_mem v) op ip len2) (\<lambda>m1.
           let v1 = \<lparr>x_ip = ip + len2, x_op = op + len2, x_mem = m1\<rparr>
           in if \<not> d_partial c \<or> cpy = d_oend c \<or> ip + len2 \<ge> d_iend c - 2 then Inr (End_Of_Block v1)
              else LZ4_take_offset c v1 token)))"

definition LZ4_literals :: "dec_call \<Rightarrow> dec_vars \<Rightarrow> u8 \<Rightarrow> int \<Rightarrow> dec_next outcome" where
  "LZ4_literals c v token len =
     (let op = x_op v; ip = x_ip v; cpy = op + len
      in if d_safe c \<and> (cpy > d_oend c - 12 \<or> ip + len > d_iend c - (2 + 1 + 5)) \<or> \<not> d_safe c \<and> cpy > d_oend c - 8
         then LZ4_last_run c v token len
         else chain (LZ4_wildCopy8 c (x_mem v) op ip cpy) (\<lambda>m1.
              LZ4_take_offset c \<lparr>x_ip = ip + len, x_op = cpy, x_mem = m1\<rparr> token))"

definition LZ4_literal_length :: "dec_call \<Rightarrow> dec_vars \<Rightarrow> u8 \<Rightarrow> dec_next outcome" where
  "LZ4_literal_length c v token =
     (let len = ucast (drop_bit 4 token) :: u32
      in chain (if len = 15 then
                  chain (read_variable_length c (x_mem v) (x_ip v) (d_iend c - 15) (d_safe c) (d_safe c))
                    (\<lambda>(n, ip, err). Inr (len + n, ip, err = initial_error
                        \<or> d_safe c \<and> (d_wraps (x_op v) (len + n) \<or> d_wraps ip (len + n))))
                else Inr (len, x_ip v, False))
           (\<lambda>(len1, ip, bad).
              let v1 = v\<lparr>x_ip := ip\<rparr>
              in if bad then Inr (Output_Error v1) else LZ4_literals c v1 token (uint len1)))"

definition LZ4_dec_step :: "dec_call \<Rightarrow> dec_vars \<Rightarrow> dec_next outcome" where
  "LZ4_dec_step c v =
     chain (d_load c (x_mem v) (x_ip v)) (\<lambda>token.
     let v1 = v\<lparr>x_ip := x_ip v + 1\<rparr>; len = drop_bit 4 token
     in chain (require Assert_Failed (d_safe c \<longrightarrow> x_ip v1 \<le> d_iend c)) (\<lambda>_.
        if (if d_safe c then len \<noteq> 15 else len \<le> 8)
           \<and> (d_safe c \<longrightarrow> x_ip v1 < d_shortiend c) \<and> x_op v1 \<le> d_shortoend c
        then LZ4_shortcut c v1 token
        else LZ4_literal_length c v1 token))"

section \<open>The loop\<close>

lemma read_length_loop_ip: "read_length_loop c m ip lc b n = Inr (n1, ip1, err) \<Longrightarrow> ip < ip1"
proof (induction c m ip lc b n rule: read_length_loop.induct)
  case (1 c m ip lc b n)
  from "1.prems" show ?case
    by (subst (asm) read_length_loop.simps)
      (auto simp: Let_def split: sum.splits if_splits dest: "1.IH")
qed

lemma read_variable_length_ip: "read_variable_length c m ip lc b i = Inr (n, ip1, err) \<Longrightarrow> ip \<le> ip1"
  by (auto simp: read_variable_length_def split: if_splits dest: read_length_loop_ip)

lemma LZ4_match_copy_ip:
  "LZ4_match_copy c v match offset len = Inr (Loop_Again v1) \<Longrightarrow> x_ip v1 = x_ip v"
  by (auto simp: LZ4_match_copy_def LZ4_ext_match_def LZ4_block_match_def Let_def chain_eq_Inr split: if_splits)

lemma LZ4_copy_match_ip:
  "LZ4_copy_match c v match offset len = Inr (Loop_Again v1) \<Longrightarrow> x_ip v \<le> x_ip v1"
  by (auto simp: LZ4_copy_match_def Let_def chain_eq_Inr split: if_splits dest!: read_variable_length_ip LZ4_match_copy_ip)

lemma LZ4_take_offset_ip: "LZ4_take_offset c v token = Inr (Loop_Again v1) \<Longrightarrow> x_ip v < x_ip v1"
  by (auto simp: LZ4_take_offset_def chain_eq_Inr dest!: LZ4_copy_match_ip)

lemma d_memmove_size: "d_memmove c m d s n = Inr m1 \<Longrightarrow> 0 \<le> n"
  by (auto simp: d_memmove_def chain_eq_Inr d_readable_def split: if_splits)

lemma LZ4_literals_ip: "LZ4_literals c v token len = Inr (Loop_Again v1) \<Longrightarrow> 0 \<le> len \<Longrightarrow> x_ip v < x_ip v1"
  by (auto simp: LZ4_literals_def LZ4_last_run_def Let_def chain_eq_Inr split: if_splits
      dest!: LZ4_take_offset_ip d_memmove_size)

lemma LZ4_literal_length_ip: "LZ4_literal_length c v token = Inr (Loop_Again v1) \<Longrightarrow> x_ip v < x_ip v1"
  by (auto simp: LZ4_literal_length_def Let_def chain_eq_Inr split: if_splits
      dest!: read_variable_length_ip LZ4_literals_ip)

lemma LZ4_shortcut_ip:
  assumes "LZ4_shortcut c v token = Inr (Loop_Again v1)"
  shows "x_ip v < x_ip v1"
proof -
  obtain l where l: "uint (drop_bit 4 token) = l" "0 \<le> l" by simp
  from assms l(2) show ?thesis
    by (auto simp: LZ4_shortcut_def l(1) Let_def chain_eq_Inr split: if_splits dest!: LZ4_copy_match_ip)
qed

lemma LZ4_dec_step_ip: "LZ4_dec_step c v = Inr (Loop_Again v1) \<Longrightarrow> x_ip v < d_top c \<and> x_ip v < x_ip v1"
  by (auto simp: LZ4_dec_step_def Let_def chain_eq_Inr split: if_splits
      dest: d_load_top dest!: LZ4_literal_length_ip LZ4_shortcut_ip)

function LZ4_dec_loop :: "dec_call \<Rightarrow> dec_vars \<Rightarrow> (int \<times> memory) outcome" where
  "LZ4_dec_loop c v =
     (case LZ4_dec_step c v of
        Inl f \<Rightarrow> Inl f
      | Inr (Loop_Again v1) \<Rightarrow> LZ4_dec_loop c v1
      | Inr (End_Of_Block v1) \<Rightarrow> Inr (if d_safe c then x_op v1 - d_dst c else x_ip v1 - d_src c, x_mem v1)
      | Inr (Output_Error v1) \<Rightarrow> Inr (- (x_ip v1 - d_src c) - 1, x_mem v1))"
  by pat_completeness auto
termination
  by (relation "measure (\<lambda>(c, v). nat (d_top c - x_ip v))") (auto dest: LZ4_dec_step_ip)

declare LZ4_dec_loop.simps [simp del]

definition LZ4_decompress_generic :: "dec_call \<Rightarrow> memory \<Rightarrow> (int \<times> memory) outcome" where
  "LZ4_decompress_generic c m =
     (if d_src c = 0 then Inr (-1, m)
      else
        chain (require Assert_Failed (d_lowPrefix c \<le> d_dst c)) (\<lambda>_.
        if d_safe c \<and> d_outputSize c = 0 then
          if d_partial c then Inr (0, m)
          else if d_srcSize c \<noteq> 1 then Inr (-1, m)
          else chain (d_load c m (d_src c)) (\<lambda>b. Inr (if b = 0 then 0 else -1, m))
        else if \<not> d_safe c \<and> d_outputSize c = 0 then
          chain (d_load c m (d_src c)) (\<lambda>b. Inr (if b = 0 then 1 else -1, m))
        else if d_safe c \<and> d_srcSize c = 0 then Inr (-1, m)
        else LZ4_dec_loop c \<lparr>x_ip = d_src c, x_op = d_dst c, x_mem = m\<rparr>))"

section \<open>The functions of the interface\<close>

text \<open>Each takes the ranges \<open>room\<close> that may be read, which the C functions do not know.\<close>

type_synonym room = "(int \<times> int) list"

definition LZ4_decompress_safe :: "room \<Rightarrow> memory \<Rightarrow> int \<Rightarrow> int \<Rightarrow> int \<Rightarrow> int \<Rightarrow> (int \<times> memory) outcome" where
  "LZ4_decompress_safe room m source dest compressedSize maxDecompressedSize =
     LZ4_decompress_generic
       \<lparr>d_src = source, d_dst = dest, d_srcSize = compressedSize, d_outputSize = maxDecompressedSize,
        d_endOnInput = endOnInputSize, d_partialDecoding = decode_full_block, d_dict = noDict,
        d_lowPrefix = dest, d_dictStart = 0, d_dictSize = 0, d_room = room\<rparr> m"

definition LZ4_decompress_safe_partial ::
  "room \<Rightarrow> memory \<Rightarrow> int \<Rightarrow> int \<Rightarrow> int \<Rightarrow> int \<Rightarrow> int \<Rightarrow> (int \<times> memory) outcome" where
  "LZ4_decompress_safe_partial room m src dst compressedSize targetOutputSize dstCapacity =
     LZ4_decompress_generic
       \<lparr>d_src = src, d_dst = dst, d_srcSize = compressedSize, d_outputSize = min targetOutputSize dstCapacity,
        d_endOnInput = endOnInputSize, d_partialDecoding = partial_decode, d_dict = noDict,
        d_lowPrefix = dst, d_dictStart = 0, d_dictSize = 0, d_room = room\<rparr> m"

definition LZ4_decompress_fast :: "room \<Rightarrow> memory \<Rightarrow> int \<Rightarrow> int \<Rightarrow> int \<Rightarrow> (int \<times> memory) outcome" where
  "LZ4_decompress_fast room m source dest originalSize =
     LZ4_decompress_generic
       \<lparr>d_src = source, d_dst = dest, d_srcSize = 0, d_outputSize = originalSize,
        d_endOnInput = endOnOutputSize, d_partialDecoding = decode_full_block, d_dict = withPrefix64k,
        d_lowPrefix = dest - 65536, d_dictStart = 0, d_dictSize = 0, d_room = room\<rparr> m"

definition LZ4_decompress_safe_withPrefix64k ::
  "room \<Rightarrow> memory \<Rightarrow> int \<Rightarrow> int \<Rightarrow> int \<Rightarrow> int \<Rightarrow> (int \<times> memory) outcome" where
  "LZ4_decompress_safe_withPrefix64k room m source dest compressedSize maxOutputSize =
     LZ4_decompress_generic
       \<lparr>d_src = source, d_dst = dest, d_srcSize = compressedSize, d_outputSize = maxOutputSize,
        d_endOnInput = endOnInputSize, d_partialDecoding = decode_full_block, d_dict = withPrefix64k,
        d_lowPrefix = dest - 65536, d_dictStart = 0, d_dictSize = 0, d_room = room\<rparr> m"

definition LZ4_decompress_fast_withPrefix64k :: "room \<Rightarrow> memory \<Rightarrow> int \<Rightarrow> int \<Rightarrow> int \<Rightarrow> (int \<times> memory) outcome" where
  "LZ4_decompress_fast_withPrefix64k room m source dest originalSize = LZ4_decompress_fast room m source dest originalSize"

definition LZ4_decompress_safe_withSmallPrefix ::
  "room \<Rightarrow> memory \<Rightarrow> int \<Rightarrow> int \<Rightarrow> int \<Rightarrow> int \<Rightarrow> nat \<Rightarrow> (int \<times> memory) outcome" where
  "LZ4_decompress_safe_withSmallPrefix room m source dest compressedSize maxOutputSize prefixSize =
     LZ4_decompress_generic
       \<lparr>d_src = source, d_dst = dest, d_srcSize = compressedSize, d_outputSize = maxOutputSize,
        d_endOnInput = endOnInputSize, d_partialDecoding = decode_full_block, d_dict = noDict,
        d_lowPrefix = dest - int prefixSize, d_dictStart = 0, d_dictSize = 0, d_room = room\<rparr> m"

definition LZ4_decompress_safe_forceExtDict ::
  "room \<Rightarrow> memory \<Rightarrow> int \<Rightarrow> int \<Rightarrow> int \<Rightarrow> int \<Rightarrow> int \<Rightarrow> nat \<Rightarrow> (int \<times> memory) outcome" where
  "LZ4_decompress_safe_forceExtDict room m source dest compressedSize maxOutputSize dictStart dictLen =
     LZ4_decompress_generic
       \<lparr>d_src = source, d_dst = dest, d_srcSize = compressedSize, d_outputSize = maxOutputSize,
        d_endOnInput = endOnInputSize, d_partialDecoding = decode_full_block, d_dict = usingExtDict,
        d_lowPrefix = dest, d_dictStart = dictStart, d_dictSize = dictLen, d_room = room\<rparr> m"

definition LZ4_decompress_fast_extDict ::
  "room \<Rightarrow> memory \<Rightarrow> int \<Rightarrow> int \<Rightarrow> int \<Rightarrow> int \<Rightarrow> nat \<Rightarrow> (int \<times> memory) outcome" where
  "LZ4_decompress_fast_extDict room m source dest originalSize dictStart dictLen =
     LZ4_decompress_generic
       \<lparr>d_src = source, d_dst = dest, d_srcSize = 0, d_outputSize = originalSize,
        d_endOnInput = endOnOutputSize, d_partialDecoding = decode_full_block, d_dict = usingExtDict,
        d_lowPrefix = dest, d_dictStart = dictStart, d_dictSize = dictLen, d_room = room\<rparr> m"

definition LZ4_decompress_safe_doubleDict ::
  "room \<Rightarrow> memory \<Rightarrow> int \<Rightarrow> int \<Rightarrow> int \<Rightarrow> int \<Rightarrow> nat \<Rightarrow> int \<Rightarrow> nat \<Rightarrow> (int \<times> memory) outcome" where
  "LZ4_decompress_safe_doubleDict room m source dest compressedSize maxOutputSize prefixSize dictStart dictLen =
     LZ4_decompress_generic
       \<lparr>d_src = source, d_dst = dest, d_srcSize = compressedSize, d_outputSize = maxOutputSize,
        d_endOnInput = endOnInputSize, d_partialDecoding = decode_full_block, d_dict = usingExtDict,
        d_lowPrefix = dest - int prefixSize, d_dictStart = dictStart, d_dictSize = dictLen, d_room = room\<rparr> m"

definition LZ4_decompress_fast_doubleDict ::
  "room \<Rightarrow> memory \<Rightarrow> int \<Rightarrow> int \<Rightarrow> int \<Rightarrow> nat \<Rightarrow> int \<Rightarrow> nat \<Rightarrow> (int \<times> memory) outcome" where
  "LZ4_decompress_fast_doubleDict room m source dest originalSize prefixSize dictStart dictLen =
     LZ4_decompress_generic
       \<lparr>d_src = source, d_dst = dest, d_srcSize = 0, d_outputSize = originalSize,
        d_endOnInput = endOnOutputSize, d_partialDecoding = decode_full_block, d_dict = usingExtDict,
        d_lowPrefix = dest - int prefixSize, d_dictStart = dictStart, d_dictSize = dictLen, d_room = room\<rparr> m"

section \<open>Streaming\<close>

text \<open>
  Where the bytes decoded before are: \<open>prefixSize\<close> of them end at \<open>prefixEnd\<close>, and the
  \<open>extDictSize\<close> before those lie at \<open>externalDict\<close>.
\<close>

record LZ4_streamDecode =
  externalDict :: int
  extDictSize :: nat
  prefixEnd :: int
  prefixSize :: nat

text \<open>\<open>room\<close> in the heap for the structure, which is filled with zeros.\<close>

definition LZ4_createStreamDecode :: "bool \<Rightarrow> LZ4_streamDecode option" where
  "LZ4_createStreamDecode room =
     (if room then Some \<lparr>externalDict = 0, extDictSize = 0, prefixEnd = 0, prefixSize = 0\<rparr> else None)"

definition LZ4_setStreamDecode :: "LZ4_streamDecode \<Rightarrow> int \<Rightarrow> nat \<Rightarrow> LZ4_streamDecode \<times> int" where
  "LZ4_setStreamDecode lz4sd dict dictLen =
     (lz4sd\<lparr>prefixSize := dictLen, prefixEnd := dict + int dictLen, externalDict := 0, extDictSize := 0\<rparr>, 1)"

definition LZ4_decoderRingBufferSize :: "int \<Rightarrow> int" where
  "LZ4_decoderRingBufferSize maxBlockSize =
     (if maxBlockSize < 0 then 0
      else if maxBlockSize > int LZ4_MAX_INPUT_SIZE then 0
      else 65536 + 14 + max maxBlockSize 16)"

text \<open>Nothing is recorded when nothing was decoded.\<close>

definition d_record ::
  "(int \<times> memory) outcome \<Rightarrow> LZ4_streamDecode \<Rightarrow> (int \<Rightarrow> LZ4_streamDecode)
     \<Rightarrow> (int \<times> memory \<times> LZ4_streamDecode) outcome" where
  "d_record r lz4sd f = chain r (\<lambda>(result, m1). Inr (result, m1, if result \<le> 0 then lz4sd else f result))"

definition LZ4_decompress_safe_continue ::
  "room \<Rightarrow> memory \<Rightarrow> LZ4_streamDecode \<Rightarrow> int \<Rightarrow> int \<Rightarrow> int \<Rightarrow> int \<Rightarrow> (int \<times> memory \<times> LZ4_streamDecode) outcome" where
  "LZ4_decompress_safe_continue room m lz4sd source dest compressedSize maxOutputSize =
     (if prefixSize lz4sd = 0 then
        chain (require Assert_Failed (extDictSize lz4sd = 0)) (\<lambda>_.
        d_record (LZ4_decompress_safe room m source dest compressedSize maxOutputSize) lz4sd
          (\<lambda>result. lz4sd\<lparr>prefixSize := nat result, prefixEnd := dest + result\<rparr>))
      else if prefixEnd lz4sd = dest then
        d_record
          (if prefixSize lz4sd \<ge> 65536 - 1
           then LZ4_decompress_safe_withPrefix64k room m source dest compressedSize maxOutputSize
           else if extDictSize lz4sd = 0
           then LZ4_decompress_safe_withSmallPrefix room m source dest compressedSize maxOutputSize (prefixSize lz4sd)
           else LZ4_decompress_safe_doubleDict room m source dest compressedSize maxOutputSize
                  (prefixSize lz4sd) (externalDict lz4sd) (extDictSize lz4sd))
          lz4sd
          (\<lambda>result. lz4sd\<lparr>prefixSize := prefixSize lz4sd + nat result, prefixEnd := prefixEnd lz4sd + result\<rparr>)
      else
        let lz4sd1 = lz4sd\<lparr>extDictSize := prefixSize lz4sd, externalDict := prefixEnd lz4sd - int (prefixSize lz4sd)\<rparr>
        in d_record
             (LZ4_decompress_safe_forceExtDict room m source dest compressedSize maxOutputSize
                (externalDict lz4sd1) (extDictSize lz4sd1))
             lz4sd1
             (\<lambda>result. lz4sd1\<lparr>prefixSize := nat result, prefixEnd := dest + result\<rparr>))"

definition LZ4_decompress_fast_continue ::
  "room \<Rightarrow> memory \<Rightarrow> LZ4_streamDecode \<Rightarrow> int \<Rightarrow> int \<Rightarrow> int \<Rightarrow> (int \<times> memory \<times> LZ4_streamDecode) outcome" where
  "LZ4_decompress_fast_continue room m lz4sd source dest originalSize =
     chain (require Assert_Failed (originalSize \<ge> 0)) (\<lambda>_.
     if prefixSize lz4sd = 0 then
       chain (require Assert_Failed (extDictSize lz4sd = 0)) (\<lambda>_.
       d_record (LZ4_decompress_fast room m source dest originalSize) lz4sd
         (\<lambda>_. lz4sd\<lparr>prefixSize := nat originalSize, prefixEnd := dest + originalSize\<rparr>))
     else if prefixEnd lz4sd = dest then
       d_record
         (if prefixSize lz4sd \<ge> 65536 - 1 \<or> extDictSize lz4sd = 0
          then LZ4_decompress_fast room m source dest originalSize
          else LZ4_decompress_fast_doubleDict room m source dest originalSize
                 (prefixSize lz4sd) (externalDict lz4sd) (extDictSize lz4sd))
         lz4sd
         (\<lambda>_. lz4sd\<lparr>prefixSize := prefixSize lz4sd + nat originalSize, prefixEnd := prefixEnd lz4sd + originalSize\<rparr>)
     else
       let lz4sd1 = lz4sd\<lparr>extDictSize := prefixSize lz4sd, externalDict := prefixEnd lz4sd - int (prefixSize lz4sd)\<rparr>
       in d_record
            (LZ4_decompress_fast_extDict room m source dest originalSize (externalDict lz4sd1) (extDictSize lz4sd1))
            lz4sd1
            (\<lambda>_. lz4sd1\<lparr>prefixSize := nat originalSize, prefixEnd := dest + originalSize\<rparr>))"

section \<open>Decoding with a dictionary\<close>

definition LZ4_decompress_safe_usingDict ::
  "room \<Rightarrow> memory \<Rightarrow> int \<Rightarrow> int \<Rightarrow> int \<Rightarrow> int \<Rightarrow> int \<Rightarrow> nat \<Rightarrow> (int \<times> memory) outcome" where
  "LZ4_decompress_safe_usingDict room m source dest compressedSize maxOutputSize dictStart dictLen =
     (if dictLen = 0 then LZ4_decompress_safe room m source dest compressedSize maxOutputSize
      else if dictStart + int dictLen = dest then
        if dictLen \<ge> 65536 - 1 then LZ4_decompress_safe_withPrefix64k room m source dest compressedSize maxOutputSize
        else LZ4_decompress_safe_withSmallPrefix room m source dest compressedSize maxOutputSize dictLen
      else LZ4_decompress_safe_forceExtDict room m source dest compressedSize maxOutputSize dictStart dictLen)"

definition LZ4_decompress_fast_usingDict ::
  "room \<Rightarrow> memory \<Rightarrow> int \<Rightarrow> int \<Rightarrow> int \<Rightarrow> int \<Rightarrow> nat \<Rightarrow> (int \<times> memory) outcome" where
  "LZ4_decompress_fast_usingDict room m source dest originalSize dictStart dictLen =
     (if dictLen = 0 \<or> dictStart + int dictLen = dest then LZ4_decompress_fast room m source dest originalSize
      else LZ4_decompress_fast_extDict room m source dest originalSize dictStart dictLen)"

definition LZ4_uncompress :: "room \<Rightarrow> memory \<Rightarrow> int \<Rightarrow> int \<Rightarrow> int \<Rightarrow> (int \<times> memory) outcome" where
  "LZ4_uncompress room m source dest outputSize = LZ4_decompress_fast room m source dest outputSize"

definition LZ4_uncompress_unknownOutputSize ::
  "room \<Rightarrow> memory \<Rightarrow> int \<Rightarrow> int \<Rightarrow> int \<Rightarrow> int \<Rightarrow> (int \<times> memory) outcome" where
  "LZ4_uncompress_unknownOutputSize room m source dest isize maxOutputSize =
     LZ4_decompress_safe room m source dest isize maxOutputSize"

end
