(* ===== verification/Lz4_Decompress_Safe.thy ===== *)
theory Lz4_Decompress_Safe
  imports Lz4_Decompress
begin

text \<open>
  Copies of the decompressor: none leaves the buffers it was lent, and each is the byte-wise copy
  that the block format asks for, although the code copies in groups of eight and beyond the end.
\<close>

section \<open>Well-formed calls\<close>

definition covers :: "dec_call \<Rightarrow> int \<Rightarrow> int \<Rightarrow> bool" where
  "covers c a b \<longleftrightarrow> (a < b \<longrightarrow> list_ex (\<lambda>(x, y). x \<le> a \<and> b \<le> y) (d_room c))"

lemma covers_readable:
  assumes "covers c a b" and "a \<le> p" and "p + n \<le> b" and "0 \<le> n"
  shows "d_readable c p n"
proof (cases "n = 0")
  case False
  with assms obtain x y where "(x, y) \<in> set (d_room c)" "x \<le> a" "b \<le> y"
    by (auto simp: covers_def list_ex_iff)
  with assms False show ?thesis
    by (auto simp: d_readable_def list_ex_iff intro!: bexI [of _ "(x, y)"])
qed (simp add: d_readable_def)

text \<open>The lowest address a match may come from, below the dictionary.\<close>

definition d_floor :: "dec_call \<Rightarrow> int" where
  "d_floor c = (if d_dict c = withPrefix64k then d_dst c - 65535 else d_lowPrefix c)"

text \<open>
  What the caller of a safe decoding function promises: the source and the history can be read,
  and the output lies apart from the source and from the external dictionary.
\<close>

definition dec_ok :: "dec_call \<Rightarrow> bool" where
  "dec_ok c \<longleftrightarrow> d_safe c \<and> 0 \<le> d_srcSize c \<and> 0 \<le> d_outputSize c \<and> d_src c \<noteq> 0
     \<and> d_dict c \<noteq> usingDictCtx \<and> d_lowPrefix c \<le> d_dst c
     \<and> (d_dict c = withPrefix64k \<longrightarrow> d_lowPrefix c = d_dst c - 65536)
     \<and> (d_dict c \<noteq> usingExtDict \<longrightarrow> d_dictSize c = 0)
     \<and> covers c (d_src c) (d_iend c) \<and> covers c (d_floor c) (d_oend c)
     \<and> (d_iend c \<le> d_dst c \<or> d_oend c \<le> d_src c)
     \<and> (d_dict c = usingExtDict \<longrightarrow> d_dictStart c \<noteq> 0
          \<and> covers c (d_dictStart c) (d_dictStart c + int (d_dictSize c))
          \<and> (d_dictStart c + int (d_dictSize c) \<le> d_lowPrefix c \<or> d_oend c \<le> d_dictStart c))"

section \<open>Copies\<close>

text \<open>Between \<open>a\<close> and \<open>b\<close> the memory may have changed.\<close>

definition changed :: "memory \<Rightarrow> memory \<Rightarrow> int \<Rightarrow> int \<Rightarrow> bool" where
  "changed m m' a b \<longleftrightarrow> (\<forall>p. p < a \<or> b \<le> p \<longrightarrow> m' p = m p)"

text \<open>From \<open>a\<close> to \<open>b\<close> every byte repeats the one \<open>k\<close> before it.\<close>

definition repeated :: "memory \<Rightarrow> int \<Rightarrow> int \<Rightarrow> int \<Rightarrow> bool" where
  "repeated m a b k \<longleftrightarrow> (\<forall>p. a \<le> p \<and> p < b \<longrightarrow> m p = m (p - k))"

lemma changed_refl [simp]: "changed m m a b"
  by (simp add: changed_def)

lemma changed_trans: "changed m m1 a b \<Longrightarrow> changed m1 m2 a' b' \<Longrightarrow> changed m m2 (min a a') (max b b')"
  by (simp add: changed_def)

lemma changed_mono: "changed m m' a b \<Longrightarrow> a' \<le> a \<Longrightarrow> b \<le> b' \<Longrightarrow> changed m m' a' b'"
  by (simp add: changed_def)

lemma repeated_mono: "repeated m a b k \<Longrightarrow> a \<le> a' \<Longrightarrow> b' \<le> b \<Longrightarrow> repeated m a' b' k"
  by (simp add: repeated_def)

lemma repeated_append: "repeated m a b k \<Longrightarrow> repeated m b d k \<Longrightarrow> repeated m a d k"
  by (simp add: repeated_def) (meson linorder_not_le)

lemma repeated_changed: "repeated m a b k \<Longrightarrow> changed m m' b e \<Longrightarrow> 0 \<le> k \<or> e \<le> a - k \<Longrightarrow> repeated m' a b k"
  by (auto simp: repeated_def changed_def)

lemma memmove_changed: "0 \<le> n \<Longrightarrow> changed m (memmove m d s (nat n)) d (d + n)"
  by (simp add: changed_def memmove_def)

lemma memmove_repeated:
  "0 \<le> n \<Longrightarrow> n \<le> d - s \<or> d + n \<le> s \<or> d = s \<Longrightarrow> repeated (memmove m d s (nat n)) d (d + n) (d - s)"
  by (auto simp: repeated_def memmove_def algebra_simps)

lemma d_memmove_ok:
  "covers c a b \<Longrightarrow> a \<le> s \<Longrightarrow> s + n \<le> b \<Longrightarrow> 0 \<le> n \<Longrightarrow> d_dst c \<le> d \<Longrightarrow> d + n \<le> d_oend c \<Longrightarrow>
   d_memmove c m d s n = Inr (memmove m d s (nat n))"
  using covers_readable [of c a b s n] by (auto simp: d_memmove_def d_writable_def)

lemma LZ4_memcpy_ok:
  assumes "covers c a b" and "a \<le> s" and "s + n \<le> b" and "0 \<le> n" and "d_dst c \<le> d" and "d + n \<le> d_oend c"
    and "n \<le> d - s \<or> d + n \<le> s"
  shows "\<exists>m'. LZ4_memcpy c m d s n = Inr m' \<and> changed m m' d (d + n) \<and> repeated m' d (d + n) (d - s)"
  using d_memmove_ok [OF assms(1-6)] memmove_changed [OF assms(4)] memmove_repeated [OF assms(4), of d s] assms(7)
  by (auto simp: LZ4_memcpy_def)

lemma LZ4_wildCopy8_ok:
  assumes "covers c a b" and "a \<le> s" and "s + 8 \<le> b" and "s + (e - d) + 7 \<le> b"
    and "d_dst c \<le> d" and "d + 8 \<le> d_oend c" and "e + 7 \<le> d_oend c" and "8 \<le> d - s \<or> d_oend c \<le> s"
  shows "\<exists>m'. LZ4_wildCopy8 c m d s e = Inr m' \<and> changed m m' d (max (d + 8) (e + 7))
    \<and> repeated m' d (max (d + 8) e) (d - s)"
  using assms
proof (induction c m d s e rule: LZ4_wildCopy8.induct)
  case (1 c m d s e)
  obtain m1 where m1: "LZ4_memcpy c m d s 8 = Inr m1" "changed m m1 d (d + 8)" "repeated m1 d (d + 8) (d - s)"
    using LZ4_memcpy_ok [OF "1.prems"(1,2), of 8 d m] "1.prems" by auto
  show ?case
  proof (cases "d + 8 < e")
    case False
    then show ?thesis using m1 by (subst LZ4_wildCopy8.simps) (auto intro: changed_mono)
  next
    case True
    from "1.IH" [OF m1(1) True] "1.prems" True obtain m2 where m2:
      "LZ4_wildCopy8 c m1 (d + 8) (s + 8) e = Inr m2" "changed m1 m2 (d + 8) (max (d + 8 + 8) (e + 7))"
      "repeated m2 (d + 8) (max (d + 8 + 8) e) (d - s)"
      by auto
    have "LZ4_wildCopy8 c m d s e = Inr m2"
      using m1(1) m2(1) True by (subst LZ4_wildCopy8.simps) simp
    moreover have "changed m m2 d (max (d + 8) (e + 7))"
      using changed_trans [OF m1(2) m2(2)] True by (auto elim: changed_mono)
    moreover have "repeated m2 d (max (d + 8) e) (d - s)"
    proof -
      have "max (d + 8 + 8) (e + 7) \<le> d_oend c" using "1.prems"(7) True by simp
      with "1.prems"(8) have "repeated m2 d (d + 8) (d - s)"
        by (intro repeated_changed [OF m1(3) m2(2)]) auto
      from repeated_append [OF this m2(3)] show ?thesis by (rule repeated_mono) auto
    qed
    ultimately show ?thesis by blast
  qed
qed

lemma d_copy_bytes_ok:
  assumes "covers c a b" and "a \<le> s" and "s + (e - p) \<le> b" and "p \<le> e"
    and "d_dst c \<le> p" and "e \<le> d_oend c" and "s \<le> p"
  shows "\<exists>m'. d_copy_bytes c m p s e = Inr m' \<and> changed m m' p e \<and> repeated m' p e (p - s)"
  using assms
proof (induction c m p s e rule: d_copy_bytes.induct)
  case (1 c m p s e)
  show ?case
  proof (cases "p < e")
    case False
    then show ?thesis by (subst d_copy_bytes.simps) (auto simp: repeated_def)
  next
    case True
    let ?m1 = "memmove m p s (nat 1)"
    have m1: "d_memmove c m p s 1 = Inr ?m1" "changed m ?m1 p (p + 1)" "repeated ?m1 p (p + 1) (p - s)"
      using d_memmove_ok [OF "1.prems"(1,2), of 1 p m] memmove_changed [of 1 m p s] memmove_repeated [of 1 p s m] "1.prems" True
      by (auto intro: memmove_repeated [of 1, simplified])
    from "1.IH" [OF True m1(1)] "1.prems" True obtain m2 where m2:
      "d_copy_bytes c ?m1 (p + 1) (s + 1) e = Inr m2" "changed ?m1 m2 (p + 1) e" "repeated m2 (p + 1) e (p - s)"
      by auto
    have "d_copy_bytes c m p s e = Inr m2"
      using m1(1) m2(1) True by (subst d_copy_bytes.simps) simp
    moreover have "changed m m2 p e"
      using changed_trans [OF m1(2) m2(2)] True by (auto elim: changed_mono)
    moreover have "repeated m2 p e (p - s)"
      using repeated_append [OF repeated_changed [OF m1(3) m2(2)] m2(3)] "1.prems"(7) by simp
    ultimately show ?thesis by blast
  qed
qed

section \<open>Copies that overlap\<close>

text \<open>
  From \<open>a\<close> to \<open>b\<close> the memory holds a match of the given offset. The offset 0, which no valid block
  has, stands for zeros: that is what the code produces.
\<close>

definition filled :: "memory \<Rightarrow> int \<Rightarrow> int \<Rightarrow> nat \<Rightarrow> bool" where
  "filled m a b off \<longleftrightarrow> (\<forall>p. a \<le> p \<and> p < b \<longrightarrow> m p = (if off = 0 then 0 else m (p - int off)))"

lemma filled_repeated: "0 < off \<Longrightarrow> filled m a b off \<longleftrightarrow> repeated m a b (int off)"
  by (simp add: filled_def repeated_def)

lemma filled_mono: "filled m a b off \<Longrightarrow> a \<le> a' \<Longrightarrow> b' \<le> b \<Longrightarrow> filled m a' b' off"
  by (simp add: filled_def)

lemma filled_changed: "filled m a b off \<Longrightarrow> changed m m' b e \<Longrightarrow> filled m' a b off"
  by (auto simp: filled_def changed_def)

lemma repeated_times:
  "repeated m a b k \<Longrightarrow> 0 \<le> k \<Longrightarrow> p < b \<Longrightarrow> a \<le> p - int i * k \<Longrightarrow> m p = m (p - int (Suc i) * k)"
proof (induction i)
  case (Suc i)
  have "int i * k \<le> int (Suc i) * k" "0 \<le> int (Suc i) * k" using Suc.prems(2) by (simp_all add: mult_right_mono)
  with Suc have "m p = m (p - int (Suc i) * k)" by linarith
  also have "\<dots> = m (p - int (Suc i) * k - k)"
    using Suc.prems(1,3,4) \<open>0 \<le> int (Suc i) * k\<close> unfolding repeated_def by (simp del: of_nat_Suc)
  finally show ?case by (simp add: algebra_simps)
qed (simp add: repeated_def)

text \<open>A copy at a multiple of the offset goes on with the match.\<close>

lemma filled_extend:
  assumes "filled m a b off" and "repeated m b d (int (Suc j) * int off)" and "0 < off" and "int j * int off \<le> b - a"
  shows "filled m a d off"
proof -
  have "m p = m (p - int off)" if "a \<le> p" "p < d" for p
    using that
  proof (induction "nat (p - a)" arbitrary: p rule: less_induct)
    case less
    show ?case
    proof (cases "p < b")
      case True
      then show ?thesis using assms(1,3) less.prems by (simp add: filled_def)
    next
      case False
      have rep: "repeated m a p (int off)"
        unfolding repeated_def using less.hyps less.prems by auto
      have "m p = m (p - int (Suc j) * int off)"
        using assms(2) False less.prems(2) by (simp add: repeated_def)
      also have "\<dots> = m (p - int off)"
      proof (cases j)
        case (Suc i)
        have "m (p - int off) = m (p - int off - int (Suc i) * int off)"
          using False assms(3,4) less.prems(1) unfolding Suc
          by (intro repeated_times [OF rep]) (auto simp: algebra_simps)
        with Suc show ?thesis by (simp add: algebra_simps)
      qed simp
      finally show ?thesis .
    qed
  qed
  then show ?thesis using assms(3) by (simp add: filled_def)
qed

lemma zeros_extend:
  assumes "filled m a b 0" and "repeated m b d k" and "0 < k" and "k \<le> b - a"
  shows "filled m a d 0"
proof -
  have "m p = 0" if "a \<le> p" "p < d" for p
    using that
  proof (induction "nat (p - a)" arbitrary: p rule: less_induct)
    case less
    show ?case
    proof (cases "p < b")
      case True
      then show ?thesis using assms(1) less.prems by (simp add: filled_def)
    next
      case False
      have "m p = m (p - k)" using assms(2) False less.prems(2) by (simp add: repeated_def)
      also have "\<dots> = 0" using less.hyps [of "p - k"] less.prems False assms(3,4) by simp
      finally show ?thesis .
    qed
  qed
  then show ?thesis by (simp add: filled_def)
qed

lemma d_copy_bytes_self:
  "covers c a b \<Longrightarrow> a \<le> p \<Longrightarrow> e \<le> b \<Longrightarrow> d_dst c \<le> p \<Longrightarrow> e \<le> d_oend c \<Longrightarrow> d_copy_bytes c m p p e = Inr m"
proof (induction "nat (e - p)" arbitrary: p)
  case 0
  then show ?case by (subst d_copy_bytes.simps) simp
next
  case (Suc n)
  then have "d_copy_bytes c m (p + 1) (p + 1) e = Inr m" by simp
  moreover have "memmove m p p (Suc 0) = m" by (simp add: memmove_def fun_eq_iff)
  ultimately show ?case
    using Suc.prems Suc.hyps(2) d_memmove_ok [of c a b p 1 p m] by (subst d_copy_bytes.simps) auto
qed

text \<open>How the copy of a match goes on after its first eight bytes.\<close>

definition period_ok :: "nat \<Rightarrow> int \<Rightarrow> bool" where
  "period_ok off k \<longleftrightarrow> 8 \<le> k \<and> (if off = 0 then k = 8 else \<exists>j. k = int (Suc j) * int off \<and> int j * int off \<le> 8)"

lemma filled_period:
  "filled m a b off \<Longrightarrow> a + 8 \<le> b \<Longrightarrow> repeated m b d k \<Longrightarrow> period_ok off k \<Longrightarrow> filled m a d off"
  by (cases "off = 0") (auto simp: period_ok_def intro: zeros_extend filled_extend)

section \<open>The match copies\<close>

lemma period_ok_table:
  assumes "off < 8"
  shows "period_ok off (8 + int off - inc32table ! off + dec64table ! off)
    \<and> 0 \<le> inc32table ! off \<and> inc32table ! off \<le> int off
    \<and> 0 \<le> inc32table ! off - dec64table ! off \<and> inc32table ! off - dec64table ! off \<le> int off
    \<and> (off = 0 \<or> (\<exists>j. 4 + int off - inc32table ! off = int (Suc j) * int off \<and> int j * int off \<le> 4))"
proof -
  have "off \<in> {0, 1, 2, 3, 4, 5, 6, 7}" using assms by auto
  then show ?thesis
    by (elim insertE emptyE)
      (simp_all add: period_ok_def inc32table_def dec64table_def exI [of _ 7] exI [of _ 3] exI [of _ 1] exI [of _ 2] exI [of _ "0::nat"])
qed

text \<open>The range a match may be read from.\<close>

definition match_range :: "dec_call \<Rightarrow> bool" where
  "match_range c \<longleftrightarrow> covers c (d_floor c) (d_oend c)"

lemma LZ4_first_bytes_ok:
  assumes "match_range c" and "d_floor c \<le> match" and "match = op - int off" and "d_dst c \<le> op" and "op + 8 \<le> d_oend c"
  shows "\<exists>m' match'. LZ4_first_bytes c m op match off = Inr (m', match') \<and> changed m m' op (op + 8)
    \<and> filled m' op (op + 8) off \<and> match \<le> match' \<and> match' \<le> op + 8 \<and> period_ok off (op + 8 - match')"
proof (cases "off < 8")
  case False
  then obtain m' where m': "LZ4_memcpy c m op match 8 = Inr m'" "changed m m' op (op + 8)" "repeated m' op (op + 8) (op - match)"
    using LZ4_memcpy_ok [of c "d_floor c" "d_oend c" match 8 op m] assms by (auto simp: match_range_def)
  then show ?thesis
    using False assms(3) by (auto simp: LZ4_first_bytes_def filled_repeated period_ok_def intro: exI [of _ "0::nat"])
next
  case True
  note t = period_ok_table [OF True]
  let ?m0 = "\<lambda>p. if op \<le> p \<and> p < op + 4 then 0 else m p"
  let ?inc = "inc32table ! off" and ?dec = "dec64table ! off"
  have w: "d_writable c op 4" using assms(4,5) by (simp add: d_writable_def)
  obtain m1 where m1: "d_copy_bytes c ?m0 op match (op + 4) = Inr m1" "changed ?m0 m1 op (op + 4)" "filled m1 op (op + 4) off"
  proof (cases "off = 0")
    case True
    with d_copy_bytes_self [of c "d_floor c" "d_oend c" op "op + 4" ?m0] assms that show ?thesis
      by (auto simp: match_range_def filled_def)
  next
    case False
    with d_copy_bytes_ok [of c "d_floor c" "d_oend c" match "op + 4" op ?m0] assms that show ?thesis
      by (auto simp: match_range_def filled_repeated)
  qed
  have ch1: "changed m m1 op (op + 4)"
    using m1(2) by (auto simp: changed_def)
  obtain m2 where m2: "LZ4_memcpy c m1 (op + 4) (match + ?inc) 4 = Inr m2" "changed m1 m2 (op + 4) (op + 4 + 4)"
    "repeated m2 (op + 4) (op + 4 + 4) (op + 4 - (match + ?inc))"
    using LZ4_memcpy_ok [of c "d_floor c" "d_oend c" "match + ?inc" 4 "op + 4" m1] assms t by (auto simp: match_range_def)
  have f2: "filled m2 op (op + 4) off" by (rule filled_changed [OF m1(3) m2(2)])
  have k: "op + 4 - (match + ?inc) = 4 + int off - ?inc" using assms(3) by simp
  have "filled m2 op (op + 8) off"
  proof (cases "off = 0")
    case True
    then have "?inc = 0" by (simp add: inc32table_def)
    with True zeros_extend [of m2 op "op + 4" "op + 8" 4] f2 m2(3) k show ?thesis by (simp add: add.commute)
  next
    case False
    with t obtain j where j: "4 + int off - ?inc = int (Suc j) * int off" "int j * int off \<le> 4" by auto
    show ?thesis
      by (rule filled_extend [OF f2, of _ j]) (use m2(3) k j False in \<open>auto simp: add.commute\<close>)
  qed
  moreover have "changed m m2 op (op + 8)"
    using changed_trans [OF ch1 m2(2)] by (simp add: add.commute)
  moreover have "period_ok off (op + 8 - (match + ?inc - ?dec))"
  proof -
    have "op + 8 - (match + ?inc - ?dec) = 8 + int off - ?inc + ?dec" using assms(3) by simp
    with t show ?thesis by metis
  qed
  ultimately show ?thesis
    using True w m1(1) m2(1) t assms(3) by (auto simp: LZ4_first_bytes_def Let_def)
qed

text \<open>What a copy of a match leaves: bytes up to \<open>e\<close>, and beyond them anything before the end.\<close>

definition match_filled :: "dec_call \<Rightarrow> memory \<Rightarrow> memory \<Rightarrow> int \<Rightarrow> int \<Rightarrow> nat \<Rightarrow> bool" where
  "match_filled c m m' op e off \<longleftrightarrow> changed m m' op (d_oend c) \<and> filled m' op e off"

lemma LZ4_rest_near_end_ok:
  assumes "match_range c" and "d_floor c \<le> match" and "8 \<le> op - match" and "d_dst c \<le> op"
    and "cpy \<le> d_oend c - 5" and "op \<le> d_oend c - 4"
  shows "\<exists>m'. LZ4_rest_near_end c m op match cpy = Inr m' \<and> changed m m' op (d_oend c) \<and> repeated m' op cpy (op - match)"
proof -
  let ?lim = "d_oend c - 7"
  obtain m1 op1 where m1: "(if op < ?lim then chain (LZ4_wildCopy8 c m op match ?lim) (\<lambda>m1. Inr (m1, ?lim, match + (?lim - op)))
      else Inr (m, op, match)) = Inr (m1, op1, op1 - (op - match))"
    "changed m m1 op (d_oend c)" "repeated m1 op op1 (op - match)" "op \<le> op1" "op1 \<le> d_oend c"
  proof (cases "op < ?lim")
    case True
    obtain m1 where m1: "LZ4_wildCopy8 c m op match ?lim = Inr m1" "changed m m1 op (max (op + 8) (?lim + 7))"
      "repeated m1 op (max (op + 8) ?lim) (op - match)"
      using LZ4_wildCopy8_ok [of c "d_floor c" "d_oend c" match ?lim op m] assms True by (auto simp: match_range_def)
    have "changed m m1 op (d_oend c)" by (rule changed_mono [OF m1(2)]) (use True in auto)
    moreover have "repeated m1 op ?lim (op - match)" by (rule repeated_mono [OF m1(3)]) auto
    ultimately show ?thesis using that [of m1 ?lim] m1(1) True by simp
  next
    case False
    have "repeated m op op (op - match)" by (auto simp: repeated_def)
    then show ?thesis using that [of m op] False assms(6) by simp
  qed
  show ?thesis
  proof (cases "op1 < cpy")
    case True
    obtain m2 where m2: "d_copy_bytes c m1 op1 (op1 - (op - match)) cpy = Inr m2" "changed m1 m2 op1 cpy"
      "repeated m2 op1 cpy (op - match)"
      using d_copy_bytes_ok [of c "d_floor c" "d_oend c" "op1 - (op - match)" cpy op1 m1] assms True m1(4)
      by (auto simp: match_range_def)
    have "changed m m2 op (d_oend c)"
      by (rule changed_mono [OF changed_trans [OF m1(2) m2(2)]]) (use m1(4) assms(5) in auto)
    moreover have "repeated m2 op cpy (op - match)"
      using repeated_append [OF repeated_changed [OF m1(3) m2(2)] m2(3)] assms(3) by simp
    ultimately show ?thesis
      using m1(1) m2(1) by (simp add: LZ4_rest_near_end_def Let_def)
  next
    case False
    then have "repeated m1 op cpy (op - match)" by (intro repeated_mono [OF m1(3)]) auto
    then show ?thesis
      using m1(1,2) False by (simp add: LZ4_rest_near_end_def Let_def d_copy_bytes.simps)
  qed
qed

lemma LZ4_rest_wild_ok:
  assumes "match_range c" and "d_floor c \<le> match" and "8 \<le> op - match" and "d_dst c \<le> op"
    and "cpy \<le> d_oend c - 12" and "cpy = op - 8 + len" and "4 \<le> len"
  shows "\<exists>m'. LZ4_rest_wild c m op match len cpy = Inr m' \<and> changed m m' op (d_oend c) \<and> repeated m' op cpy (op - match)"
proof -
  obtain m1 where m1: "LZ4_memcpy c m op match 8 = Inr m1" "changed m m1 op (op + 8)" "repeated m1 op (op + 8) (op - match)"
    using LZ4_memcpy_ok [of c "d_floor c" "d_oend c" match 8 op m] assms by (auto simp: match_range_def)
  show ?thesis
  proof (cases "len > 16")
    case True
    obtain m2 where m2: "LZ4_wildCopy8 c m1 (op + 8) (match + 8) cpy = Inr m2" "changed m1 m2 (op + 8) (max (op + 8 + 8) (cpy + 7))"
      "repeated m2 (op + 8) (max (op + 8 + 8) cpy) (op - match)"
      using LZ4_wildCopy8_ok [of c "d_floor c" "d_oend c" "match + 8" cpy "op + 8" m1] assms True
      by (auto simp: match_range_def)
    have "changed m m2 op (d_oend c)"
      by (rule changed_mono [OF changed_trans [OF m1(2) m2(2)]]) (use assms True in auto)
    moreover have "repeated m2 op cpy (op - match)"
      by (rule repeated_mono [OF repeated_append [OF repeated_changed [OF m1(3) m2(2)] m2(3)]]) (use assms(3) in auto)
    ultimately show ?thesis using m1(1) m2(1) True by (simp add: LZ4_rest_wild_def)
  next
    case False
    have "changed m m1 op (d_oend c)" by (rule changed_mono [OF m1(2)]) (use assms in auto)
    moreover have "repeated m1 op cpy (op - match)" by (rule repeated_mono [OF m1(3)]) (use assms False in auto)
    ultimately show ?thesis using m1(1) False by (simp add: LZ4_rest_wild_def)
  qed
qed

section \<open>Matches\<close>

text \<open>
  The history as one range of addresses: the external dictionary is where it would be if it lay
  directly below the prefix.
\<close>

definition d_low0 :: "dec_call \<Rightarrow> int" where
  "d_low0 c = d_lowPrefix c - int (d_dictSize c)"

definition d_byte :: "dec_call \<Rightarrow> memory \<Rightarrow> int \<Rightarrow> u8" where
  "d_byte c m q = (if q < d_lowPrefix c then m (d_dictEnd c - (d_lowPrefix c - q)) else m q)"

text \<open>What any copy of a match may do, and what it does when the block is decoded in full.\<close>

definition stays_within :: "dec_call \<Rightarrow> dec_vars \<Rightarrow> dec_vars \<Rightarrow> bool" where
  "stays_within c v v' \<longleftrightarrow> x_op v \<le> x_op v' \<and> x_op v' \<le> d_oend c \<and> x_ip v' = x_ip v
     \<and> changed (x_mem v) (x_mem v') (x_op v) (d_oend c)"

definition match_done :: "dec_call \<Rightarrow> dec_vars \<Rightarrow> nat \<Rightarrow> int \<Rightarrow> dec_vars \<Rightarrow> bool" where
  "match_done c v off n v' \<longleftrightarrow> x_op v' = x_op v + n
     \<and> (\<forall>p. x_op v \<le> p \<and> p < x_op v' \<longrightarrow> x_mem v' p = (if off = 0 then 0 else d_byte c (x_mem v') (p - int off)))"

definition match_post :: "dec_call \<Rightarrow> dec_vars \<Rightarrow> nat \<Rightarrow> int \<Rightarrow> dec_next \<Rightarrow> bool" where
  "match_post c v off n r \<longleftrightarrow> (case r of
      Loop_Again v' \<Rightarrow> stays_within c v v' \<and> (\<not> d_partial c \<longrightarrow> match_done c v off n v')
    | End_Of_Block v' \<Rightarrow> stays_within c v v' \<and> d_partial c
    | Output_Error v' \<Rightarrow> stays_within c v v'
        \<and> (\<not> d_partial c \<longrightarrow> d_low0 c \<le> x_op v - int off \<longrightarrow> d_oend c - 5 < x_op v + n))"

lemma filled_match_done:
  assumes "filled m' op (op + n) off" and "d_lowPrefix c \<le> op - int off" and "x_op v = op" and "x_op v' = op + n" and "x_mem v' = m'"
  shows "match_done c v off n v'"
  using assms by (auto simp: match_done_def filled_def d_byte_def)

lemma LZ4_block_match_ok:
  assumes "match_range c" and "d_floor c \<le> match" and "d_lowPrefix c \<le> match" and "match = x_op v - int off"
    and "d_dst c \<le> x_op v" and "x_op v \<le> d_oend c" and "4 \<le> len" and "d_partial c \<or> x_op v + 12 \<le> d_oend c"
  shows "\<exists>r. LZ4_block_match c v match off len = Inr r \<and> match_post c v off len r"
proof (cases "d_partial c \<and> x_op v + len > d_oend c - 12")
  case True
  let ?op = "x_op v" and ?mlen = "min len (d_oend c - x_op v)"
  have len: "0 \<le> ?mlen" "?op + ?mlen \<le> d_oend c" using assms(6,7) by auto
  obtain m1 where m1: "(if match + ?mlen > ?op then d_copy_bytes c (x_mem v) ?op match (?op + ?mlen)
      else LZ4_memcpy c (x_mem v) ?op match ?mlen) = Inr m1" "changed (x_mem v) m1 ?op (?op + ?mlen)"
  proof (cases "match + ?mlen > ?op")
    case True
    with d_copy_bytes_ok [of c "d_floor c" "d_oend c" match "?op + ?mlen" ?op "x_mem v"] len assms(1,2,4,5) that
    show ?thesis by (auto simp: match_range_def)
  next
    case False
    with LZ4_memcpy_ok [of c "d_floor c" "d_oend c" match ?mlen ?op "x_mem v"] len assms(1,2,4,5) that
    show ?thesis by (auto simp: match_range_def)
  qed
  have "stays_within c v (v\<lparr>x_op := ?op + ?mlen, x_mem := m1\<rparr>)"
    using changed_mono [OF m1(2)] assms(6,7) by (simp add: stays_within_def)
  with True m1(1) assms(6) show ?thesis
    by (auto simp: LZ4_block_match_def Let_def match_post_def)
next
  case False
  let ?op = "x_op v" and ?cpy = "x_op v + len"
  have op8: "?op + 8 \<le> d_oend c" using assms(7,8) False by auto
  obtain m1 match1 where m1: "LZ4_first_bytes c (x_mem v) ?op match off = Inr (m1, match1)" "changed (x_mem v) m1 ?op (?op + 8)"
    "filled m1 ?op (?op + 8) off" "match \<le> match1" "period_ok off (?op + 8 - match1)"
    using LZ4_first_bytes_ok [OF assms(1,2,4,5) op8] by blast
  have k: "8 \<le> ?op + 8 - match1" "d_floor c \<le> match1" "d_dst c \<le> ?op + 8"
    using m1(4,5) assms(2,5) by (auto simp: period_ok_def)
  show ?thesis
  proof (cases "?cpy > d_oend c - 5")
    case True
    have "stays_within c v (v\<lparr>x_op := ?op + 8, x_mem := m1\<rparr>)"
      using changed_mono [OF m1(2), of ?op "d_oend c"] op8 by (simp add: stays_within_def)
    with True False m1(1) assms(6) show ?thesis
      by (auto simp: LZ4_block_match_def Let_def match_post_def)
  next
    case in_time: False
    obtain m2 where m2: "(if ?cpy > d_oend c - 12 then LZ4_rest_near_end c m1 (?op + 8) match1 ?cpy
          else LZ4_rest_wild c m1 (?op + 8) match1 len ?cpy) = Inr m2"
      "changed m1 m2 (?op + 8) (d_oend c)" "repeated m2 (?op + 8) ?cpy (?op + 8 - match1)"
    proof (cases "?cpy > d_oend c - 12")
      case True
      then have b: "?cpy \<le> d_oend c - 5" "?op + 8 \<le> d_oend c - 4" using False assms(8) in_time by auto
      show ?thesis
        using LZ4_rest_near_end_ok [OF assms(1) k(2,1,3) b] that True by (metis (no_types, lifting))
    next
      case False
      then have b: "?cpy \<le> d_oend c - 12" "?cpy = ?op + 8 - 8 + len" by auto
      show ?thesis
        using LZ4_rest_wild_ok [OF assms(1) k(2,1,3) b assms(7)] that False by (metis (no_types, lifting))
    qed
    let ?v' = "v\<lparr>x_op := ?cpy, x_mem := m2\<rparr>"
    have "filled m2 ?op ?cpy off"
      by (rule filled_period [OF filled_changed [OF m1(3) m2(2)] _ m2(3) m1(5)]) simp
    then have "match_done c v off len ?v'"
      by (rule filled_match_done) (use assms(3,4) in auto)
    moreover have "changed (x_mem v) m2 ?op (d_oend c)"
      by (rule changed_mono [OF changed_trans [OF m1(2) m2(2)]]) (use op8 in auto)
    then have "stays_within c v ?v'"
      using in_time assms(7) by (simp add: stays_within_def)
    moreover have "LZ4_block_match c v match off len = Inr (Loop_Again ?v')"
      using False in_time m1(1) m2(1) assms(6) by (auto simp: LZ4_block_match_def Let_def)
    ultimately show ?thesis by (auto simp: match_post_def)
  qed
qed

text \<open>A match that starts in the dictionary.\<close>

lemma dec_ok_dict:
  assumes "dec_ok c" and "d_dict c = usingExtDict"
  shows "d_dictEnd c = d_dictStart c + int (d_dictSize c)" and "covers c (d_dictStart c) (d_dictEnd c)"
    and "d_dictEnd c \<le> d_lowPrefix c \<or> d_oend c \<le> d_dictStart c"
  using assms by (auto simp: dec_ok_def d_dictEnd_def)

lemma d_byte_changed:
  assumes "dec_ok c" and "changed m m' a (d_oend c)" and "d_dst c \<le> a" and "d_low0 c \<le> q" and "q < a"
    and "d_lowPrefix c \<le> q \<or> d_dict c = usingExtDict"
  shows "d_byte c m' q = d_byte c m q"
  using assms dec_ok_dict [of c]
  by (auto simp: d_byte_def changed_def d_low0_def dec_ok_def)

lemma LZ4_ext_match_ok:
  assumes "dec_ok c" and "d_dict c = usingExtDict" and "match < d_lowPrefix c" and "d_low0 c \<le> match"
    and "match = x_op v - int off" and "d_dst c \<le> x_op v" and "x_op v \<le> d_oend c" and "0 \<le> len"
  shows "\<exists>r. LZ4_ext_match c v match len = Inr r \<and> match_post c v off len r"
proof -
  let ?op = "x_op v" and ?near = "x_op v + len > d_oend c - 5"
  let ?len1 = "if ?near then min len (d_oend c - ?op) else len"
  let ?lead = "d_lowPrefix c - match"
  define src0 where "src0 = d_dictEnd c - ?lead"
  note dict = dec_ok_dict [OF assms(1,2)]
  have off: "off \<noteq> 0" using assms(1,3,5,6) by (auto simp: dec_ok_def)
  have len1: "0 \<le> ?len1" "?op + ?len1 \<le> d_oend c" "\<not> d_partial c \<and> \<not> ?near \<Longrightarrow> ?len1 = len"
    using assms(7,8) by auto
  have lead: "0 < ?lead" "d_dictStart c \<le> src0" "?lead \<le> int off"
    using assms(1,3-6) dict(1) by (auto simp: src0_def d_low0_def dec_ok_def)
  have apart: "src0 + ?lead \<le> d_dst c \<or> d_oend c \<le> src0"
    using dict(3) lead(2) assms(1) by (auto simp: src0_def dec_ok_def)
  have dict_byte: "d_byte c m' (p - int off) = x_mem v (src0 + (p - ?op))"
    if "changed (x_mem v) m' ?op (d_oend c)" "?op \<le> p" "p < ?op + ?lead" for m' p
  proof -
    have q: "p - int off < d_lowPrefix c" "d_low0 c \<le> p - int off" using that(2,3) assms(4,5) by auto
    have "d_byte c m' (p - int off) = d_byte c (x_mem v) (p - int off)"
      by (rule d_byte_changed [OF assms(1) that(1) assms(6) q(2)]) (use q(1) assms(1,2,6) in \<open>auto simp: dec_ok_def\<close>)
    also have "\<dots> = x_mem v (d_dictEnd c - (d_lowPrefix c - (p - int off)))" using q(1) by (simp add: d_byte_def)
    also have "d_dictEnd c - (d_lowPrefix c - (p - int off)) = src0 + (p - ?op)"
      using assms(5) by (simp add: src0_def)
    finally show ?thesis .
  qed
  show ?thesis
  proof (cases "?near \<and> \<not> d_partial c")
    case True
    then show ?thesis using assms(7) by (simp add: LZ4_ext_match_def Let_def match_post_def stays_within_def)
  next
    case fits: False
    show ?thesis
    proof (cases "?len1 \<le> ?lead")
      case True
      let ?m1 = "memmove (x_mem v) ?op src0 (nat ?len1)"
      let ?v' = "v\<lparr>x_op := ?op + ?len1, x_mem := ?m1\<rparr>"
      have mv: "d_memmove c (x_mem v) ?op src0 ?len1 = Inr ?m1"
        by (rule d_memmove_ok [OF dict(2) lead(2)]) (use True len1 assms(6) in \<open>auto simp: src0_def\<close>)
      have ch: "changed (x_mem v) ?m1 ?op (d_oend c)"
        by (rule changed_mono [OF memmove_changed [OF len1(1)]]) (use len1(2) in auto)
      have "stays_within c v ?v'"
        using len1 ch by (simp add: stays_within_def)
      moreover have "match_done c v off len ?v'" if "\<not> d_partial c"
      proof -
        have "?m1 p = d_byte c ?m1 (p - int off)" if "?op \<le> p" "p < ?op + ?len1" for p
          using dict_byte [OF ch, of p] that True by (simp add: memmove_def)
        with off len1(3) fits that show ?thesis by (auto simp: match_done_def)
      qed
      moreover have "LZ4_ext_match c v match len = Inr (Loop_Again ?v')"
        using fits True mv unfolding LZ4_ext_match_def Let_def src0_def by (auto simp del: nat_le_0)
      ultimately show ?thesis by (auto simp: match_post_def)
    next
      case False
      let ?op1 = "?op + ?lead" and ?rest = "?len1 - ?lead"
      have low: "covers c (d_lowPrefix c) (d_oend c)" using assms(1,2) by (auto simp: dec_ok_def d_floor_def)
      obtain m1 where m1: "LZ4_memcpy c (x_mem v) ?op src0 ?lead = Inr m1" "m1 = memmove (x_mem v) ?op src0 (nat ?lead)"
        using d_memmove_ok [OF dict(2) lead(2), of ?lead ?op "x_mem v"] apart lead(1) False len1 assms(6)
        by (auto simp: LZ4_memcpy_def src0_def)
      have ch1: "changed (x_mem v) m1 ?op ?op1"
        unfolding m1(2) using memmove_changed [of ?lead] lead(1) by simp
      have k: "?op1 - d_lowPrefix c = int off" using assms(5) by simp
      obtain m2 where m2: "(if ?rest > ?op1 - d_lowPrefix c then d_copy_bytes c m1 ?op1 (d_lowPrefix c) (?op1 + ?rest)
          else LZ4_memcpy c m1 ?op1 (d_lowPrefix c) ?rest) = Inr m2"
        "changed m1 m2 ?op1 (?op1 + ?rest)" "repeated m2 ?op1 (?op1 + ?rest) (int off)"
      proof (cases "?rest > ?op1 - d_lowPrefix c")
        case True
        have "\<exists>m2. d_copy_bytes c m1 ?op1 (d_lowPrefix c) (?op1 + ?rest) = Inr m2 \<and> changed m1 m2 ?op1 (?op1 + ?rest)
            \<and> repeated m2 ?op1 (?op1 + ?rest) (?op1 - d_lowPrefix c)"
          by (rule d_copy_bytes_ok [OF low order.refl]) (use k False len1(2) lead(1) assms(6) in auto)
        with True that k show ?thesis by auto
      next
        case no: False
        have "\<exists>m2. LZ4_memcpy c m1 ?op1 (d_lowPrefix c) ?rest = Inr m2 \<and> changed m1 m2 ?op1 (?op1 + ?rest)
            \<and> repeated m2 ?op1 (?op1 + ?rest) (?op1 - d_lowPrefix c)"
          by (rule LZ4_memcpy_ok [OF low order.refl]) (use k no False len1(2) lead(1) assms(6) in auto)
        with no that k show ?thesis by auto
      qed
      let ?v' = "v\<lparr>x_op := ?op1 + ?rest, x_mem := m2\<rparr>"
      have ch: "changed (x_mem v) m2 ?op (d_oend c)"
        by (rule changed_mono [OF changed_trans [OF ch1 m2(2)]]) (use lead(1) False len1(2) in auto)
      have "stays_within c v ?v'"
        using len1 ch by (simp add: stays_within_def)
      moreover have "match_done c v off len ?v'" if "\<not> d_partial c"
      proof -
        have "m2 p = d_byte c m2 (p - int off)" if p: "?op \<le> p" "p < ?op + ?len1" for p
        proof (cases "p < ?op1")
          case True
          then have "m2 p = m1 p" using m2(2) by (simp add: changed_def)
          then show ?thesis using dict_byte [OF ch p(1) True] p(1) True by (simp add: m1(2) memmove_def)
        next
          case False
          then have "m2 p = m2 (p - int off)" using m2(3) p by (simp add: repeated_def)
          with False k show ?thesis by (simp add: d_byte_def)
        qed
        with off len1(3) fits that show ?thesis by (auto simp: match_done_def)
      qed
      moreover have "LZ4_ext_match c v match len = Inr (Loop_Again ?v')"
        using fits False m1(1) m2(1) unfolding LZ4_ext_match_def Let_def src0_def by auto
      ultimately show ?thesis by (auto simp: match_post_def)
    qed
  qed
qed

end
