(* ===== verification/Lz4_Decompress_Correct.thy ===== *)
theory Lz4_Decompress_Correct
  imports Lz4_Decompress_Safe
begin

text \<open>
  The decompressor against the block format: for any source, however corrupt, it stays within its
  buffers, and what it accepts it decodes as the format says.
\<close>

section \<open>What the decompressor accepts\<close>

text \<open>
  The format, but for matches of offset 0: a decoder should refuse them, this one takes them for
  zeros.
\<close>

definition lz4_copy0 :: "bytes \<Rightarrow> nat \<Rightarrow> nat \<Rightarrow> bytes" where
  "lz4_copy0 out off n = (if off = 0 then out @ replicate n 0 else lz4_copy out off n)"

function lz4_decode0 :: "bytes \<Rightarrow> bytes \<Rightarrow> bytes option" where
  "lz4_decode0 [] out = None"
| "lz4_decode0 (t # bs) out =
     (case lz4_len (unat (drop_bit 4 t)) bs of
        None \<Rightarrow> None
      | Some (ll, bs1) \<Rightarrow>
          if length bs1 < ll then None
          else if length bs1 = ll then Some (out @ bs1)
          else if length bs1 < ll + 2 then None
          else
            let out1 = out @ take ll bs1;
                off = unat (LZ4_readLE16 (drop ll bs1))
            in if length out1 < off then None
               else (case lz4_len (unat (t AND 15)) (drop (ll + 2) bs1) of
                       None \<Rightarrow> None
                     | Some (ml, bs2) \<Rightarrow> lz4_decode0 bs2 (lz4_copy0 out1 off (ml + 4))))"
  by pat_completeness auto
termination
  by (relation "measure (\<lambda>(bs, out). length bs)")
    (auto dest!: lz4_len_shrinks)

lemma lz4_decode_lax: "lz4_decode bs out = Some x \<Longrightarrow> lz4_decode0 bs out = Some x"
  by (induction bs out rule: lz4_decode.induct) (auto simp: Let_def lz4_copy0_def split: option.splits if_splits)

lemma offset_zero_decoded:
  "lz4_decode [0x10, 65, 0, 0, 0x50, 66, 66, 66, 66, 66] [] = None"
  "lz4_decode0 [0x10, 65, 0, 0, 0x50, 66, 66, 66, 66, 66] [] = Some [65, 0, 0, 0, 0, 66, 66, 66, 66, 66]"
  by code_simp+

text \<open>Its parts, as the code reaches them: after the token, at the offset, and at the match length.\<close>

definition dec_match :: "u8 \<Rightarrow> bytes \<Rightarrow> bytes \<Rightarrow> nat \<Rightarrow> bytes option" where
  "dec_match t bs out off =
     (if length out < off then None
      else case lz4_len (unat (t AND 15)) bs of
          None \<Rightarrow> None
        | Some (ml, bs2) \<Rightarrow> lz4_decode0 bs2 (lz4_copy0 out off (ml + 4)))"

definition dec_offset :: "u8 \<Rightarrow> bytes \<Rightarrow> bytes \<Rightarrow> bytes option" where
  "dec_offset t bs out =
     (if length bs < 2 then None else dec_match t (drop 2 bs) out (unat (LZ4_readLE16 bs)))"

definition dec_literals :: "u8 \<Rightarrow> nat \<Rightarrow> bytes \<Rightarrow> bytes \<Rightarrow> bytes option" where
  "dec_literals t ll bs out =
     (if length bs < ll then None
      else if length bs = ll then Some (out @ bs)
      else dec_offset t (drop ll bs) (out @ take ll bs))"

lemma lz4_decode0_token:
  "lz4_decode0 (t # bs) out =
     (case lz4_len (unat (drop_bit 4 t)) bs of None \<Rightarrow> None | Some (ll, bs1) \<Rightarrow> dec_literals t ll bs1 out)"
  by (auto simp: dec_literals_def dec_offset_def dec_match_def Let_def split: option.split)

text \<open>The same parts of the restrictions at the end of a block.\<close>

definition strict_match :: "nat \<Rightarrow> u8 \<Rightarrow> bytes \<Rightarrow> bytes \<Rightarrow> nat \<Rightarrow> bool" where
  "strict_match N t bs out off \<longleftrightarrow> 0 < off \<and> off \<le> length out \<and>
     (case lz4_len (unat (t AND 15)) bs of
        None \<Rightarrow> False
      | Some (ml, bs2) \<Rightarrow>
          6 \<le> length bs2 \<and> length out + ml + 4 + 5 \<le> N \<and> lz4_strict N bs2 (lz4_copy out off (ml + 4)))"

definition strict_offset :: "nat \<Rightarrow> u8 \<Rightarrow> bytes \<Rightarrow> bytes \<Rightarrow> bool" where
  "strict_offset N t bs out \<longleftrightarrow>
     2 \<le> length bs \<and> strict_match N t (drop 2 bs) out (unat (LZ4_readLE16 bs))"

definition strict_literals :: "nat \<Rightarrow> u8 \<Rightarrow> nat \<Rightarrow> bytes \<Rightarrow> bytes \<Rightarrow> bool" where
  "strict_literals N t ll bs out \<longleftrightarrow>
     ll \<le> length bs \<and>
     (if length bs = ll then length out + ll \<le> N
      else length out + ll + 12 \<le> N \<and> strict_offset N t (drop ll bs) (out @ take ll bs))"

lemma lz4_strict_token:
  "lz4_strict N (t # bs) out \<longleftrightarrow>
     (case lz4_len (unat (drop_bit 4 t)) bs of None \<Rightarrow> False | Some (ll, bs1) \<Rightarrow> strict_literals N t ll bs1 out)"
  by (auto simp: strict_literals_def strict_offset_def strict_match_def Let_def add.commute split: option.split)

lemma strict_match_room: "strict_match N t bs out off \<Longrightarrow> 6 \<le> length bs"
  by (auto simp: strict_match_def split: option.splits dest: lz4_len_shrinks)

lemma strict_offset_room: "strict_offset N t bs out \<Longrightarrow> 8 \<le> length bs"
  by (drule strict_offset_def [THEN iffD1]) (auto dest: strict_match_room)

section \<open>The history and the source in memory\<close>

definition src_bytes :: "dec_call \<Rightarrow> memory \<Rightarrow> int \<Rightarrow> bytes" where
  "src_bytes c m ip = mem_bytes m ip (nat (d_iend c - ip))"

definition d_out :: "dec_call \<Rightarrow> memory \<Rightarrow> int \<Rightarrow> bytes" where
  "d_out c m op = map (\<lambda>j. d_byte c m (d_low0 c + int j)) [0..<nat (op - d_low0 c)]"

lemma length_d_out [simp]: "length (d_out c m op) = nat (op - d_low0 c)"
  by (simp add: d_out_def)

lemma nth_d_out [simp]: "j < nat (op - d_low0 c) \<Longrightarrow> d_out c m op ! j = d_byte c m (d_low0 c + int j)"
  by (simp add: d_out_def)

lemma dec_ok_low0: "dec_ok c \<Longrightarrow> d_low0 c \<le> d_dst c"
  by (simp add: dec_ok_def d_low0_def)

lemma d_out_changed:
  assumes "dec_ok c" and "changed m m' a (d_oend c)" and "d_dst c \<le> a" and "op \<le> a"
  shows "d_out c m' op = d_out c m op"
proof (rule nth_equalityI)
  fix j assume j: "j < length (d_out c m' op)"
  have "d_lowPrefix c \<le> d_low0 c + int j \<or> d_dict c = usingExtDict"
    using assms(1) by (auto simp: d_low0_def dec_ok_def)
  with j d_byte_changed [OF assms(1-3), of "d_low0 c + int j"] assms(4) show "d_out c m' op ! j = d_out c m op ! j" by simp
qed simp

lemma take_d_out: "op \<le> op' \<Longrightarrow> take (nat (op - d_low0 c)) (d_out c m op') = d_out c m op"
  by (rule nth_equalityI) auto

lemma src_bytes_changed:
  assumes "dec_ok c" and "changed m m' a (d_oend c)" and "d_dst c \<le> a" and "d_src c \<le> ip"
  shows "src_bytes c m' ip = src_bytes c m ip"
  unfolding src_bytes_def by (rule nth_equalityI) (use assms in \<open>auto simp: changed_def dec_ok_def\<close>)

lemma d_out_match:
  assumes "dec_ok c" and "d_dst c \<le> x_op v" and "d_low0 c \<le> x_op v - int off"
    and "stays_within c v v'" and "match_done c v off n v'"
  shows "d_out c (x_mem v') (x_op v') = lz4_copy0 (d_out c (x_mem v) (x_op v)) off (nat n)"
proof -
  let ?op = "x_op v" and ?m' = "x_mem v'"
  have op': "x_op v' = ?op + n" "0 \<le> n" using assms(4,5) by (auto simp: match_done_def stays_within_def)
  have ch: "changed (x_mem v) ?m' ?op (d_oend c)" using assms(4) by (simp add: stays_within_def)
  let ?W = "d_out c ?m' (?op + n)" and ?i = "nat (?op - d_low0 c)"
  have W: "take ?i ?W = d_out c (x_mem v) ?op"
    using take_d_out [of ?op "?op + n" c ?m'] d_out_changed [OF assms(1) ch assms(2) order.refl] op'(2) by simp
  have low: "d_low0 c \<le> ?op" "d_lowPrefix c \<le> ?op" using assms(1,2) dec_ok_low0 [of c] by (auto simp: dec_ok_def)
  have len: "length ?W = ?i + nat n" using low op'(2) by (simp add: nat_add_distrib algebra_simps flip: nat_add_distrib)
  have byte: "?W ! (?i + k) = ?m' (?op + int k)" if "k < nat n" for k
    using that low op'(2) by (simp add: d_byte_def)
  show ?thesis
  proof (cases "off = 0")
    case True
    have "?W = take ?i ?W @ replicate (nat n) 0"
    proof (rule nth_equalityI)
      fix j assume j: "j < length ?W"
      show "?W ! j = (take ?i ?W @ replicate (nat n) 0) ! j"
      proof (cases "j < ?i")
        case False
        then obtain k where k: "j = ?i + k" "k < nat n" using j len by (metis add_diff_inverse nat_add_left_cancel_less)
        with byte [of k] assms(5) op' True show ?thesis by (simp add: match_done_def nth_append len)
      next
        case True
        then have "j < length (take ?i ?W)" using j by simp
        then show ?thesis by (simp only: nth_append if_True nth_take) simp
      qed
    qed (use low op'(2) in auto)
    with True W op'(1) show ?thesis by (simp add: lz4_copy0_def)
  next
    case False
    have "repeats ?W ?i off (nat n)"
      unfolding repeats_def
    proof (intro conjI allI impI)
      fix k assume k: "k < nat n"
      have "?W ! (?i + k - off) = d_byte c ?m' (?op + int k - int off)"
      proof -
        have "off \<le> ?i + k" using assms(3) by linarith
        then show ?thesis using k assms(3) low op'(2) by (subst nth_d_out) (auto simp: of_nat_diff algebra_simps)
      qed
      then show "?W ! (?i + k) = ?W ! (?i + k - off)"
        using byte [OF k] assms(5) k False op' by (simp add: match_done_def)
    qed (use False assms(3) len in auto)
    from lz4_copy_window [OF this] W len False op'(1) show ?thesis by (simp add: lz4_copy0_def)
  qed
qed

lemma d_out_literals:
  assumes "dec_ok c" and "d_dst c \<le> op" and "changed m m' op (d_oend c)" and "0 \<le> n"
    and "\<And>p. op \<le> p \<Longrightarrow> p < op + n \<Longrightarrow> m' p = m (ip + (p - op))"
  shows "d_out c m' (op + n) = d_out c m op @ mem_bytes m ip (nat n)"
proof (rule nth_equalityI)
  have low: "d_low0 c \<le> op" "d_lowPrefix c \<le> op" using assms(1,2) dec_ok_low0 [of c] by (auto simp: dec_ok_def)
  then show len: "length (d_out c m' (op + n)) = length (d_out c m op @ mem_bytes m ip (nat n))"
    using assms(4) by simp
  fix j assume j: "j < length (d_out c m' (op + n))"
  show "d_out c m' (op + n) ! j = (d_out c m op @ mem_bytes m ip (nat n)) ! j"
  proof (cases "j < nat (op - d_low0 c)")
    case True
    then have "d_out c m' (op + n) ! j = d_out c m' op ! j" using assms(4) by simp
    with True d_out_changed [OF assms(1,3,2) order.refl] show ?thesis by (simp add: nth_append)
  next
    case False
    let ?k = "j - nat (op - d_low0 c)"
    have a: "d_low0 c + int j = op + int ?k" "int ?k < n" using False low j by auto
    have "d_out c m' (op + n) ! j = m' (op + int ?k)"
      using j low(2) a(1) by (simp add: d_byte_def)
    also have "\<dots> = m (ip + int ?k)" using assms(5) [of "op + int ?k"] a(2) by simp
    also have "\<dots> = mem_bytes m ip (nat n) ! ?k"
      by (rule nth_mem_bytes [symmetric]) (use a(2) in linarith)
    finally show ?thesis using False by (simp add: nth_append)
  qed
qed

section \<open>Lengths\<close>

lemma mem_bytes_Suc: "mem_bytes m p (Suc n) = m p # mem_bytes m (p + 1) n"
  using mem_bytes_add [of m p 1 n] by (simp add: mem_bytes_def)

lemma src_bytes_Cons: "ip < d_iend c \<Longrightarrow> src_bytes c m ip = m ip # src_bytes c m (ip + 1)"
proof -
  assume "ip < d_iend c"
  then have "nat (d_iend c - ip) = Suc (nat (d_iend c - (ip + 1)))" by linarith
  then show ?thesis unfolding src_bytes_def by (simp only: mem_bytes_Suc)
qed

lemma drop_src_bytes: "0 \<le> n \<Longrightarrow> ip + n \<le> d_iend c \<Longrightarrow> drop (nat n) (src_bytes c m ip) = src_bytes c m (ip + n)"
  unfolding src_bytes_def by (rule nth_equalityI) (auto simp: add.assoc)

lemma length_src_bytes [simp]: "length (src_bytes c m ip) = nat (d_iend c - ip)"
  by (simp add: src_bytes_def)

text \<open>
  What the length loop returns. At the limit it may stop after a 255 that says that more follows;
  the length is then large.
\<close>

definition length_post :: "dec_call \<Rightarrow> memory \<Rightarrow> int \<Rightarrow> int \<Rightarrow> u32 \<Rightarrow> u32 \<times> int \<times> variable_length_error \<Rightarrow> bool" where
  "length_post c m ip lencheck len r \<longleftrightarrow> (case r of (len1, ip1, err) \<Rightarrow>
     ip < ip1 \<and> ip1 \<le> d_iend c \<and> err \<noteq> initial_error \<and> (if err = ok then ip1 < lencheck else lencheck \<le> ip1)
     \<and> (\<exists>k. len1 = len + of_nat k \<and> int k \<le> 255 * (ip1 - ip)
          \<and> (lz4_vlen (src_bytes c m ip) = Some (k, src_bytes c m ip1)
              \<or> err \<noteq> ok \<and> 255 \<le> k \<and> (\<forall>n r. lz4_vlen (src_bytes c m ip) = Some (n, r) \<longrightarrow> int (length r) < d_iend c - ip1))))"

lemma read_length_loop_ok:
  assumes "covers c (d_src c) (d_iend c)" and "d_src c \<le> ip" and "ip < d_iend c" and "lencheck \<le> d_iend c"
  shows "\<exists>r. read_length_loop c m ip lencheck True len = Inr r \<and> length_post c m ip lencheck len r"
  using assms
proof (induction c m ip lencheck True len rule: read_length_loop.induct)
  case (1 c m ip lc len)
  have load: "d_load c m ip = Inr (m ip)"
    using covers_readable [OF "1.prems"(1,2), of 1] "1.prems"(3) by (simp add: d_load_def)
  have w: "(ucast (m ip) :: u32) = of_nat (unat (m ip))" by simp
  have b: "unat (m ip) \<le> 255" "m ip = 255 \<longrightarrow> unat (m ip) = 255"
    using unat_less_256 [of "m ip"] by linarith simp
  have one: "lz4_vlen (src_bytes c m ip) = Some (unat (m ip), src_bytes c m (ip + 1))" if "m ip \<noteq> 255"
    using that "1.prems"(3) by (simp add: src_bytes_Cons)
  have cut: "int (length r) < d_iend c - (ip + 1)" if "lz4_vlen (src_bytes c m ip) = Some (n, r)" "m ip = 255" for n r
  proof -
    from that "1.prems"(3) obtain k where "lz4_vlen (src_bytes c m (ip + 1)) = Some (k, r)"
      by (auto simp: src_bytes_Cons)
    from lz4_vlen_shrinks [OF this] show ?thesis by simp
  qed
  show ?case
  proof (cases "ip + 1 \<ge> lc")
    case True
    have "length_post c m ip lc len (len + ucast (m ip), ip + 1, loop_error)"
      unfolding length_post_def using "1.prems"(3) True one b w cut
      by (cases "m ip = 255") (auto intro!: exI [of _ "unat (m ip)"])
    then show ?thesis using load True by (subst read_length_loop.simps) (simp add: Let_def)
  next
    case False
    show ?thesis
    proof (cases "m ip = 255")
      case more: True
      have "ip + 1 < d_iend c" using False "1.prems"(4) by simp
      with "1.hyps" [OF load refl refl _ more] False "1.prems" obtain r where
        r: "read_length_loop c m (ip + 1) lc True (len + ucast (m ip)) = Inr r" "length_post c m (ip + 1) lc (len + ucast (m ip)) r"
        by auto
      obtain len1 ip1 err where re: "r = (len1, ip1, err)" by (cases r)
      from r(2) obtain k where k: "len1 = len + ucast (m ip) + of_nat k" "int k \<le> 255 * (ip1 - (ip + 1))"
        "lz4_vlen (src_bytes c m (ip + 1)) = Some (k, src_bytes c m ip1)
          \<or> err \<noteq> ok \<and> 255 \<le> k \<and> (\<forall>n r. lz4_vlen (src_bytes c m (ip + 1)) = Some (n, r) \<longrightarrow> int (length r) < d_iend c - ip1)"
        "ip + 1 < ip1" "ip1 \<le> d_iend c" "err \<noteq> initial_error" "if err = ok then ip1 < lc else lc \<le> ip1"
        unfolding length_post_def re by auto
      have "src_bytes c m ip = 255 # src_bytes c m (ip + 1)" using more "1.prems"(3) by (simp add: src_bytes_Cons)
      with k(3) have v: "lz4_vlen (src_bytes c m ip) = Some (k + 255, src_bytes c m ip1)
          \<or> err \<noteq> ok \<and> 255 \<le> k + 255 \<and> (\<forall>n r. lz4_vlen (src_bytes c m ip) = Some (n, r) \<longrightarrow> int (length r) < d_iend c - ip1)"
        by auto
      have n: "len1 = len + of_nat (k + 255)" "int (k + 255) \<le> 255 * (ip1 - ip)" using k(1,2) more by simp_all
      have "length_post c m ip lc len r"
        unfolding length_post_def re prod.case using k(4-7) v n by (intro conjI exI [of _ "k + 255"]) simp_all
      then show ?thesis using load False more r(1) by (subst read_length_loop.simps) (simp add: Let_def)
    next
      case last: False
      have "length_post c m ip lc len (len + ucast (m ip), ip + 1, ok)"
        unfolding length_post_def using "1.prems"(3,4) False one [OF last] b w
        by (auto intro!: exI [of _ "unat (m ip)"])
      then show ?thesis using load False last by (subst read_length_loop.simps) (simp add: Let_def)
    qed
  qed
qed

section \<open>One sequence\<close>

text \<open>Sources under 16 MB, so that no sum of length bytes exceeds 32 bits.\<close>

definition dec_small :: "dec_call \<Rightarrow> bool" where
  "dec_small c \<longleftrightarrow> d_srcSize c < 16777216"

definition dec_state_ok :: "dec_call \<Rightarrow> dec_vars \<Rightarrow> bool" where
  "dec_state_ok c v \<longleftrightarrow> d_src c \<le> x_ip v \<and> x_ip v < d_iend c \<and> d_dst c \<le> x_op v \<and> x_op v \<le> d_oend c"

text \<open>
  What a part of a sequence may do from the state \<open>v\<close> on, when \<open>T\<close> is what the format says of the
  rest of the block, and \<open>S\<close> says that it keeps the restrictions at the end of a block.
\<close>

text \<open>What the history and the output may hold; addresses are those of a 32-bit machine.\<close>

definition d_total :: "dec_call \<Rightarrow> nat" where
  "d_total c = nat (d_oend c - d_low0 c)"

definition d_addresses :: "dec_call \<Rightarrow> bool" where
  "d_addresses c \<longleftrightarrow> 0 \<le> d_src c \<and> d_iend c < 4294967296 \<and> 0 \<le> d_dst c \<and> d_oend c < 4294967296"

lemma d_wraps_iff: "0 \<le> p \<Longrightarrow> p + uint len < 4294967296 \<Longrightarrow> \<not> d_wraps p len"
proof -
  assume p: "0 \<le> p" "p + uint len < 4294967296"
  have "p mod 4294967296 = p" "(p + uint len) mod 4294967296 = p + uint len"
    by (rule mod_pos_pos_trivial; use p uint_ge_0 [of len] in linarith)+
  then have "uint (word_of_int p :: u32) = p" "uint (word_of_int p + len) = p + uint len"
    by (simp_all add: uint_word_ariths uint_word_of_int)
  then show ?thesis by (simp add: d_wraps_def word_less_def)
qed

definition in_buffers :: "dec_call \<Rightarrow> dec_vars \<Rightarrow> dec_vars \<Rightarrow> bool" where
  "in_buffers c v v' \<longleftrightarrow> d_src c \<le> x_ip v' \<and> x_ip v' \<le> d_iend c \<and> d_dst c \<le> x_op v' \<and> x_op v' \<le> d_oend c
     \<and> changed (x_mem v) (x_mem v') (d_dst c) (d_oend c)"

definition step_post :: "dec_call \<Rightarrow> dec_vars \<Rightarrow> bytes option \<Rightarrow> bool \<Rightarrow> dec_next \<Rightarrow> bool" where
  "step_post c v T S r \<longleftrightarrow> (case r of
      Loop_Again v' \<Rightarrow> in_buffers c v v' \<and> x_ip v' < d_iend c
        \<and> (\<not> d_partial c \<longrightarrow>
             T = lz4_decode0 (src_bytes c (x_mem v') (x_ip v')) (d_out c (x_mem v') (x_op v'))
             \<and> (S \<longrightarrow> lz4_strict (d_total c) (src_bytes c (x_mem v') (x_ip v')) (d_out c (x_mem v') (x_op v'))))
    | End_Of_Block v' \<Rightarrow> in_buffers c v v' \<and> (\<not> d_partial c \<longrightarrow> T = Some (d_out c (x_mem v') (x_op v')))
    | Output_Error v' \<Rightarrow> in_buffers c v v' \<and> (\<not> d_partial c \<longrightarrow> \<not> S))"

lemma in_buffers_trans: "changed (x_mem u) (x_mem v) (d_dst c) (d_oend c) \<Longrightarrow> in_buffers c v w \<Longrightarrow> in_buffers c u w"
  by (simp add: in_buffers_def changed_def)

lemma step_post_trans:
  "changed (x_mem u) (x_mem v) (d_dst c) (d_oend c) \<Longrightarrow> step_post c v T S r \<Longrightarrow> step_post c u T S r"
  by (auto simp: step_post_def in_buffers_trans split: dec_next.splits)

lemma stays_in_buffers:
  "stays_within c v v' \<Longrightarrow> d_src c \<le> x_ip v \<Longrightarrow> x_ip v \<le> d_iend c \<Longrightarrow> d_dst c \<le> x_op v \<Longrightarrow> in_buffers c v v'"
  by (auto simp: stays_within_def in_buffers_def elim: changed_mono)

lemma LZ4_match_copy_ok:
  assumes ok: "dec_ok c" and "match = x_op v - int off" and "off < 65536" and "d_dst c \<le> x_op v" and "x_op v \<le> d_oend c"
    and "4 \<le> uint len" and "d_partial c \<or> x_op v + 12 \<le> d_oend c"
  shows "\<exists>r. LZ4_match_copy c v match off len = Inr r \<and> match_post c v off (uint len) r
    \<and> (\<forall>v'. r = Loop_Again v' \<longrightarrow> d_low0 c \<le> match)"
proof (cases "d_checkOffset c \<and> match + int (d_dictSize c) < d_lowPrefix c")
  case True
  then show ?thesis using assms(2,5) by (auto simp: LZ4_match_copy_def match_post_def stays_within_def d_low0_def)
next
  case near: False
  have low: "d_low0 c \<le> match"
    using near assms(2-4) ok by (auto simp: d_checkOffset_def d_low0_def dec_ok_def)
  show ?thesis
  proof (cases "d_dict c = usingExtDict \<and> match < d_lowPrefix c")
    case True
    then have d: "d_dict c = usingExtDict" "match < d_lowPrefix c" by simp_all
    have "0 \<le> uint len" by simp
    from LZ4_ext_match_ok [OF ok d low assms(2,4,5) this] near True low show ?thesis
      by (auto simp: LZ4_match_copy_def)
  next
    case False
    then have m: "d_lowPrefix c \<le> match" using low ok by (auto simp: d_low0_def dec_ok_def)
    have "match_range c" using ok by (simp add: dec_ok_def match_range_def)
    moreover have "d_floor c \<le> match" using m assms(2-4) by (auto simp: d_floor_def)
    ultimately show ?thesis
      using LZ4_block_match_ok [of c match v off "uint len"] m assms near False low by (auto simp: LZ4_match_copy_def)
  qed
qed

lemma nibble_le: "unat (drop_bit 4 (t :: u8)) \<le> 15"
proof -
  have "unat (drop_bit 4 t) = unat t div 16" by (simp only: unat_drop_bit_eq) (simp add: drop_bit_eq_div)
  then show ?thesis using unat_less_256 [of t] by linarith
qed

lemma uint_of_nat_small: "n < 4294967296 \<Longrightarrow> uint (of_nat n :: u32) = int n"
  by (simp add: unsigned_of_nat take_bit_eq_mod)

lemma match_length_ok:
  assumes "dec_ok c" and "dec_small c" and "d_src c \<le> ip" and "ip < d_iend c" and "nib \<le> (15 :: u8)"
  shows "\<exists>len1 ip1 bad. (if (ucast nib :: u32) = 15 then
        chain (read_variable_length c m ip (d_iend c - 5 + 1) (d_safe c) False)
          (\<lambda>(n, ip, err). Inr (ucast nib + n, ip, err \<noteq> ok \<or> d_safe c \<and> d_wraps op (ucast nib + n)))
      else Inr (ucast nib, ip, False)) = Inr (len1, ip1, bad)
    \<and> ip \<le> ip1 \<and> ip1 \<le> d_iend c
    \<and> (\<not> bad \<longrightarrow> ip1 < d_iend c \<and> (\<exists>ml. lz4_len (unat nib) (src_bytes c m ip) = Some (ml, src_bytes c m ip1)
          \<and> uint (len1 + 4) = int ml + 4))
    \<and> (bad \<longrightarrow> (\<forall>ml r. lz4_len (unat nib) (src_bytes c m ip) = Some (ml, r) \<longrightarrow> 6 \<le> length r
          \<longrightarrow> 0 \<le> op \<longrightarrow> 4294967296 \<le> op + int ml))"
proof -
  have safe: "d_safe c" "covers c (d_src c) (d_iend c)" using assms(1) by (simp_all add: dec_ok_def)
  have size: "d_iend c - ip < 16777216" using assms(2,3) by (simp add: dec_small_def d_iend_def)
  have nib: "(ucast nib :: u32) = of_nat (unat nib)" "unat nib \<le> 15"
    using assms(5) by (simp_all add: word_le_nat_alt)
  have nib15: "(ucast nib :: u32) = 15 \<longleftrightarrow> unat nib = 15"
    using nib by (auto simp: word_unat_eq_iff unsigned_ucast_eq take_bit_eq_mod)
  show ?thesis
  proof (cases "unat nib = 15")
    case False
    have "(ucast nib :: u32) + 4 = of_nat (unat nib + 4)" by simp
    then have "uint ((ucast nib :: u32) + 4) = int (unat nib + 4)"
      using uint_of_nat_small [of "unat nib + 4"] nib(2) by simp
    with False nib15 assms(3,4) show ?thesis by (auto simp: lz4_len_def)
  next
    case True
    obtain n ip1 err where r: "read_length_loop c m ip (d_iend c - 4) True 0 = Inr (n, ip1, err)"
      "length_post c m ip (d_iend c - 4) 0 (n, ip1, err)"
      using read_length_loop_ok [OF safe(2) assms(3,4), of "d_iend c - 4" m 0] by fastforce
    then obtain k where k: "n = of_nat k" "int k \<le> 255 * (ip1 - ip)" "ip < ip1" "ip1 \<le> d_iend c"
      "err = ok \<longrightarrow> ip1 < d_iend c - 4 \<and> lz4_vlen (src_bytes c m ip) = Some (k, src_bytes c m ip1)"
      "err \<noteq> ok \<longrightarrow> d_iend c - 4 \<le> ip1
        \<and> (\<forall>n r. lz4_vlen (src_bytes c m ip) = Some (n, r) \<longrightarrow> int (length r) \<le> d_iend c - ip1)"
      by (fastforce simp: length_post_def split: if_splits)
    have short: "length r < 6" if "err \<noteq> ok" "lz4_vlen (src_bytes c m ip) = Some (n', r)" for n' r
    proof -
      have "int (length r) \<le> d_iend c - ip1 \<and> d_iend c - 4 \<le> ip1" using k(6) that by blast
      then show ?thesis by linarith
    qed
    have "int k \<le> 255 * 16777215" using k(2,4) size by simp
    then have "k \<le> 255 * 16777215" by simp
    moreover have "(ucast nib :: u32) + n + 4 = of_nat (15 + k + 4)" using nib15 True k(1) by simp
    moreover have "(ucast nib :: u32) + n = of_nat (15 + k)" using nib15 True k(1) by simp
    ultimately have u: "uint ((ucast nib :: u32) + n + 4) = int (15 + k) + 4"
      and u': "uint ((ucast nib :: u32) + n) = int (15 + k)"
      using uint_of_nat_small [of "15 + k + 4"] uint_of_nat_small [of "15 + k"] by simp_all
    have e: "(if (ucast nib :: u32) = 15 then
        chain (read_variable_length c m ip (d_iend c - 5 + 1) (d_safe c) False)
          (\<lambda>(n, ip, err). Inr (ucast nib + n, ip, err \<noteq> ok \<or> d_safe c \<and> d_wraps op (ucast nib + n)))
      else Inr (ucast nib, ip, False)) = Inr (ucast nib + n, ip1, err \<noteq> ok \<or> d_wraps op (ucast nib + n))"
      using r(1) safe(1) nib15 True by (simp add: read_variable_length_def)
    have "lz4_len (unat nib) (src_bytes c m ip) = Some (15 + k, src_bytes c m ip1)" if "err = ok"
      using k(5) that True by (simp add: lz4_len_def)
    moreover have "4294967296 \<le> op + int (15 + k)" if "0 \<le> op" "d_wraps op (ucast nib + n)"
      using d_wraps_iff [of op "ucast nib + n"] that u' by linarith
    ultimately show ?thesis
      unfolding e using k u True short by (auto simp: lz4_len_def)
  qed
qed

lemma LZ4_copy_match_ok:
  assumes "dec_ok c" and "dec_small c" and "d_src c \<le> x_ip v" and "x_ip v < d_iend c"
    and "match = x_op v - int off" and "off < 65536" and "d_dst c \<le> x_op v" and "x_op v \<le> d_oend c"
    and "d_partial c \<or> x_op v + 12 \<le> d_oend c"
  shows "\<exists>r. LZ4_copy_match c v match off (ucast (t AND 15)) = Inr r
    \<and> step_post c v (dec_match t (src_bytes c (x_mem v) (x_ip v)) (d_out c (x_mem v) (x_op v)) off)
        (d_addresses c \<and> strict_match (d_total c) t (src_bytes c (x_mem v) (x_ip v)) (d_out c (x_mem v) (x_op v)) off) r"
    (is "\<exists>r. _ \<and> step_post c v ?T ?S r")
proof -
  have total: "int (length (d_out c m (x_op v))) + d_oend c = x_op v + int (d_total c)" for m
    using dec_ok_low0 [OF assms(1)] assms(7,8) by (simp add: d_total_def)
  have nib: "t AND 15 \<le> (15 :: u8)" by (rule word_and_le1)
  obtain len1 ip1 bad where len: "(if (ucast (t AND 15) :: u32) = 15 then
        chain (read_variable_length c (x_mem v) (x_ip v) (d_iend c - 5 + 1) (d_safe c) False)
          (\<lambda>(n, ip, err). Inr (ucast (t AND 15) + n, ip, err \<noteq> ok \<or> d_safe c \<and> d_wraps (x_op v) (ucast (t AND 15) + n)))
      else Inr (ucast (t AND 15), x_ip v, False)) = Inr (len1, ip1, bad)"
    "x_ip v \<le> ip1" "ip1 \<le> d_iend c"
    "\<not> bad \<longrightarrow> ip1 < d_iend c \<and> (\<exists>ml. lz4_len (unat (t AND 15)) (src_bytes c (x_mem v) (x_ip v)) = Some (ml, src_bytes c (x_mem v) ip1)
          \<and> uint (len1 + 4) = int ml + 4)"
    "bad \<longrightarrow> (\<forall>ml r. lz4_len (unat (t AND 15)) (src_bytes c (x_mem v) (x_ip v)) = Some (ml, r) \<longrightarrow> 6 \<le> length r
          \<longrightarrow> 0 \<le> x_op v \<longrightarrow> 4294967296 \<le> x_op v + int ml)"
    using match_length_ok [OF assms(1-4) nib, of "x_mem v" "x_op v"] by auto
  let ?v1 = "v\<lparr>x_ip := ip1\<rparr>"
  show ?thesis
  proof (cases bad)
    case True
    have "\<not> ?S"
    proof
      assume S: ?S
      then obtain ml r where ml: "lz4_len (unat (t AND 15)) (src_bytes c (x_mem v) (x_ip v)) = Some (ml, r)" "6 \<le> length r"
        "length (d_out c (x_mem v) (x_op v)) + ml + 4 + 5 \<le> d_total c"
        by (auto simp: strict_match_def split: option.splits)
      then have "x_op v + int ml + 9 \<le> d_oend c" using total [of "x_mem v"] by linarith
      moreover have "0 \<le> x_op v" "d_oend c < 4294967296" using S assms(7) by (simp_all add: d_addresses_def)
      ultimately show False using len(5) True ml(1,2) by fastforce
    qed
    with True len assms(3,7,8) show ?thesis
      by (simp add: LZ4_copy_match_def step_post_def in_buffers_def)
  next
    case False
    with len(4) obtain ml where ml: "ip1 < d_iend c" "lz4_len (unat (t AND 15)) (src_bytes c (x_mem v) (x_ip v)) = Some (ml, src_bytes c (x_mem v) ip1)"
      "uint (len1 + 4) = int ml + 4" by auto
    obtain r where r: "LZ4_match_copy c ?v1 match off (len1 + 4) = Inr r" "match_post c ?v1 off (uint (len1 + 4)) r"
      "\<forall>v'. r = Loop_Again v' \<longrightarrow> d_low0 c \<le> match"
      using LZ4_match_copy_ok [OF assms(1), of match ?v1 off "len1 + 4"] assms ml(3) by auto
    have eq: "LZ4_copy_match c v match off (ucast (t AND 15)) = Inr r"
      using len(1) False r(1) by (simp add: LZ4_copy_match_def)
    have S: "d_low0 c \<le> x_op v - int off \<and> x_op v + int ml + 9 \<le> d_oend c" if ?S
      using that ml(2) total [of "x_mem v"] dec_ok_low0 [OF assms(1)] assms(7) by (auto simp: strict_match_def)
    have "step_post c v ?T ?S r"
    proof (cases r)
      case (Loop_Again v')
      then have w: "stays_within c ?v1 v'" "d_low0 c \<le> match" "\<not> d_partial c \<longrightarrow> match_done c ?v1 off (int ml + 4) v'"
        using r(2,3) ml(3) by (auto simp: match_post_def)
      have ch: "changed (x_mem v) (x_mem v') (x_op v) (d_oend c)" "x_ip v' = ip1" using w(1) by (auto simp: stays_within_def)
      have "?T = lz4_decode0 (src_bytes c (x_mem v') ip1) (d_out c (x_mem v') (x_op v'))
        \<and> (?S \<longrightarrow> lz4_strict (d_total c) (src_bytes c (x_mem v') ip1) (d_out c (x_mem v') (x_op v')))" if "\<not> d_partial c"
      proof -
        have "d_out c (x_mem v') (x_op v') = lz4_copy0 (d_out c (x_mem v) (x_op v)) off (ml + 4)"
          using d_out_match [OF assms(1), of ?v1 off v' "int ml + 4"] assms(5,7) w that by (simp add: nat_add_distrib)
        moreover have "src_bytes c (x_mem v') ip1 = src_bytes c (x_mem v) ip1"
          using src_bytes_changed [OF assms(1) ch(1) assms(7)] assms(3) len(2) by simp
        moreover have "\<not> length (d_out c (x_mem v) (x_op v)) < off" using w(2) assms(5) by auto
        ultimately show ?thesis using ml(2) by (simp add: dec_match_def strict_match_def lz4_copy0_def)
      qed
      then show ?thesis
        using Loop_Again stays_in_buffers [OF w(1)] assms(3,7) len(2) ml(1) ch(2)
        by (auto simp: step_post_def in_buffers_def)
    next
      case (End_Of_Block v')
      then show ?thesis
        using r(2) stays_in_buffers [of c ?v1 v'] assms(3,7) len(2,3) by (auto simp: match_post_def step_post_def in_buffers_def)
    next
      case (Output_Error v')
      then have "in_buffers c v v'" "\<not> d_partial c \<longrightarrow> d_low0 c \<le> x_op v - int off \<longrightarrow> d_oend c - 5 < x_op v + (int ml + 4)"
        using r(2) stays_in_buffers [of c ?v1 v'] assms(3,7) len(2,3) ml(3)
        by (auto simp: match_post_def in_buffers_def)
      moreover from this(2) S have "\<not> d_partial c \<longrightarrow> \<not> ?S" by fastforce
      ultimately show ?thesis using Output_Error by (simp only: step_post_def dec_next.case)
    qed
    with eq show ?thesis by blast
  qed
qed

lemma step_post_weaken:
  "step_post c v T' S' r \<Longrightarrow> (\<not> d_partial c \<Longrightarrow> T = T' \<and> (S \<longrightarrow> S')) \<Longrightarrow> step_post c v T S r"
  by (auto simp: step_post_def split: dec_next.splits)

lemma dec_offset_read:
  assumes "ip + 2 \<le> d_iend c"
  shows "dec_offset t (src_bytes c m ip) out = dec_match t (src_bytes c m (ip + 2)) out (unat (LZ4_read16 m ip))"
    and "strict_offset N t (src_bytes c m ip) out = strict_match N t (src_bytes c m (ip + 2)) out (unat (LZ4_read16 m ip))"
proof -
  have b: "src_bytes c m ip = m ip # m (ip + 1) # src_bytes c m (ip + 2)"
    using assms src_bytes_Cons [of ip c m] src_bytes_Cons [of "ip + 1" c m] by (simp add: add.assoc)
  then have "unat (LZ4_readLE16 (src_bytes c m ip)) = unat (LZ4_read16 m ip)"
    by (simp add: LZ4_read16_def LZ4_readLE16_def)
  moreover have "drop 2 (src_bytes c m ip) = src_bytes c m (ip + 2)" by (simp add: b)
  moreover have "\<not> length (src_bytes c m ip) < 2" using assms by simp
  ultimately show "dec_offset t (src_bytes c m ip) out = dec_match t (src_bytes c m (ip + 2)) out (unat (LZ4_read16 m ip))"
    "strict_offset N t (src_bytes c m ip) out = strict_match N t (src_bytes c m (ip + 2)) out (unat (LZ4_read16 m ip))"
    unfolding dec_offset_def strict_offset_def by simp_all
qed

lemma LZ4_take_offset_ok:
  assumes "dec_ok c" and "dec_small c" and "d_src c \<le> x_ip v" and "x_ip v + 2 < d_iend c"
    and "d_dst c \<le> x_op v" and "x_op v \<le> d_oend c" and "d_partial c \<or> x_op v + 12 \<le> d_oend c"
  shows "\<exists>r. LZ4_take_offset c v t = Inr r
    \<and> step_post c v (dec_offset t (src_bytes c (x_mem v) (x_ip v)) (d_out c (x_mem v) (x_op v)))
        (d_addresses c \<and> strict_offset (d_total c) t (src_bytes c (x_mem v) (x_ip v)) (d_out c (x_mem v) (x_op v))) r"
proof -
  let ?m = "x_mem v" and ?ip = "x_ip v"
  let ?off = "LZ4_read16 ?m ?ip" and ?v1 = "v\<lparr>x_ip := ?ip + 2\<rparr>"
  have "covers c (d_src c) (d_iend c)" using assms(1) by (simp add: dec_ok_def)
  then have rd: "d_readLE16 c ?m ?ip = Inr ?off"
    using covers_readable [of c "d_src c" "d_iend c" ?ip 2] assms(3,4) by (simp add: d_readLE16_def)
  have off: "uint ?off = int (unat ?off)" "unat ?off < 65536"
    using unat_less_2p [of ?off] by simp_all
  have ip2: "?ip + 2 \<le> d_iend c" using assms(4) by simp
  have "x_op v - uint ?off = x_op ?v1 - int (unat ?off)" using off(1) by simp
  from LZ4_copy_match_ok [OF assms(1,2) _ _ this off(2), of t]
  have "\<exists>r. LZ4_copy_match c ?v1 (x_op v - uint ?off) (unat ?off) (ucast (t AND 15)) = Inr r
    \<and> step_post c ?v1 (dec_match t (src_bytes c ?m (?ip + 2)) (d_out c ?m (x_op v)) (unat ?off))
        (d_addresses c \<and> strict_match (d_total c) t (src_bytes c ?m (?ip + 2)) (d_out c ?m (x_op v)) (unat ?off)) r"
    using assms(3-7) by simp
  moreover have "step_post c v T S r" if "step_post c ?v1 T S r" for T S r
    by (rule step_post_trans [OF _ that]) simp
  ultimately show ?thesis
    unfolding LZ4_take_offset_def rd dec_offset_read [OF ip2] by auto
qed

lemma dec_literals_more:
  assumes "0 \<le> n" and "ip + n < d_iend c"
  shows "dec_literals t (nat n) (src_bytes c m ip) out = dec_offset t (src_bytes c m (ip + n)) (out @ mem_bytes m ip (nat n))"
    and "strict_literals N t (nat n) (src_bytes c m ip) out
      \<longleftrightarrow> length out + nat n + 12 \<le> N \<and> strict_offset N t (src_bytes c m (ip + n)) (out @ mem_bytes m ip (nat n))"
proof -
  have "take (nat n) (src_bytes c m ip) = mem_bytes m ip (nat n)"
    unfolding src_bytes_def by (rule nth_equalityI) (use assms in auto)
  moreover have "nat n < length (src_bytes c m ip)" using assms by simp
  ultimately show "dec_literals t (nat n) (src_bytes c m ip) out = dec_offset t (src_bytes c m (ip + n)) (out @ mem_bytes m ip (nat n))"
    "strict_literals N t (nat n) (src_bytes c m ip) out
      \<longleftrightarrow> length out + nat n + 12 \<le> N \<and> strict_offset N t (src_bytes c m (ip + n)) (out @ mem_bytes m ip (nat n))"
    using assms drop_src_bytes [of n ip c m]
    by (simp_all add: dec_literals_def strict_literals_def del: length_src_bytes)
qed

text \<open>Literals that were copied, possibly with more behind them.\<close>

lemma literals_out:
  assumes "dec_ok c" and "d_src c \<le> ip" and "ip + n \<le> d_iend c" and "d_dst c \<le> op" and "op + n \<le> d_oend c" and "0 \<le> n"
    and "changed m m' op (d_oend c)" and "repeated m' op (op + n) (op - ip)"
  shows "d_out c m' (op + n) = d_out c m op @ mem_bytes m ip (nat n)"
proof (rule d_out_literals [OF assms(1,4,7,6)])
  fix p assume p: "op \<le> p" "p < op + n"
  then have "m' p = m' (ip + (p - op))" using assms(8) by (simp add: repeated_def algebra_simps)
  also have "\<dots> = m (ip + (p - op))"
    using assms(1,2,3,4,7) p by (auto simp: changed_def dec_ok_def)
  finally show "m' p = m (ip + (p - op))" .
qed

lemma LZ4_last_run_ok:
  assumes ok: "dec_ok c" and "dec_small c" and "d_src c \<le> x_ip v" and "x_ip v \<le> d_iend c"
    and "d_dst c \<le> x_op v" and "x_op v \<le> d_oend c" and "0 \<le> len"
    and "\<not> d_partial c \<Longrightarrow> x_ip v + len = d_iend c
      \<Longrightarrow> T = Some (d_out c (x_mem v) (x_op v) @ src_bytes c (x_mem v) (x_ip v))"
    and "\<not> d_partial c \<Longrightarrow> S \<Longrightarrow> x_ip v + len = d_iend c \<and> x_op v + len \<le> d_oend c"
  shows "\<exists>r. LZ4_last_run c v t len = Inr r \<and> step_post c v T S r"
proof -
  let ?op = "x_op v" and ?ip = "x_ip v"
  define len1 where "len1 = (if d_partial c \<and> ?ip + len > d_iend c then d_iend c - ?ip else len)"
  define len2 where "len2 = (if d_partial c \<and> ?op + len1 > d_oend c then d_oend c - ?op else len1)"
  have safe: "d_safe c" "covers c (d_src c) (d_iend c)" using ok by (simp_all add: dec_ok_def)
  let ?wrong = "\<not> d_partial c \<and> (?ip + len \<noteq> d_iend c \<or> ?op + len2 > d_oend c)"
  have run: "LZ4_last_run c v t len = (if ?wrong then Inr (Output_Error v)
      else chain (d_memmove c (x_mem v) ?op ?ip len2) (\<lambda>m1.
        let v1 = \<lparr>x_ip = ?ip + len2, x_op = ?op + len2, x_mem = m1\<rparr>
        in if \<not> d_partial c \<or> ?op + len2 = d_oend c \<or> ?ip + len2 \<ge> d_iend c - 2 then Inr (End_Of_Block v1)
           else LZ4_take_offset c v1 t))"
    using safe(1) assms(6) unfolding LZ4_last_run_def len1_def [symmetric] len2_def [symmetric] Let_def
    by (auto simp: len1_def len2_def)
  show ?thesis
  proof (cases ?wrong)
    case True
    moreover have "\<not> S" using True assms(9) by (auto simp: len2_def len1_def)
    ultimately show ?thesis using run assms(3-6) by (auto simp: step_post_def in_buffers_def)
  next
    case False
    have l: "0 \<le> len2" "?ip + len2 \<le> d_iend c" "?op + len2 \<le> d_oend c"
      using False assms(4,6,7) by (auto simp: len1_def len2_def)
    let ?m1 = "memmove (x_mem v) ?op ?ip (nat len2)"
    let ?v1 = "\<lparr>x_ip = ?ip + len2, x_op = ?op + len2, x_mem = ?m1\<rparr>"
    have mv: "d_memmove c (x_mem v) ?op ?ip len2 = Inr ?m1"
      by (rule d_memmove_ok [OF safe(2) assms(3)]) (use l assms(5) in auto)
    have ch: "changed (x_mem v) ?m1 ?op (d_oend c)"
      by (rule changed_mono [OF memmove_changed [OF l(1)]]) (use l(3) in auto)
    have "in_buffers c v ?v1"
      using l assms(3,5) changed_mono [OF ch assms(5) order.refl] by (simp add: in_buffers_def)
    show ?thesis
    proof (cases "\<not> d_partial c \<or> ?op + len2 = d_oend c \<or> ?ip + len2 \<ge> d_iend c - 2")
      case True
      have "T = Some (d_out c ?m1 (?op + len2))" if full: "\<not> d_partial c"
      proof -
        have len: "len2 = d_iend c - ?ip" "?ip + len = d_iend c" using full False by (simp_all add: len1_def len2_def)
        have "?m1 p = x_mem v (?ip + (p - ?op))" if "?op \<le> p" "p < ?op + len2" for p
          using that by (simp add: memmove_def)
        from d_out_literals [OF ok assms(5) ch l(1) this]
        have "d_out c ?m1 (?op + len2) = d_out c (x_mem v) ?op @ src_bytes c (x_mem v) ?ip"
          unfolding src_bytes_def len(1) .
        with assms(8) [OF full len(2)] show ?thesis by simp
      qed
      then have "step_post c v T S (End_Of_Block ?v1)" using \<open>in_buffers c v ?v1\<close> by (simp add: step_post_def)
      with run False mv True show ?thesis by auto
    next
      case more: False
      then obtain r where r: "LZ4_take_offset c ?v1 t = Inr r" "step_post c ?v1 (dec_offset t (src_bytes c ?m1 (?ip + len2)) (d_out c ?m1 (?op + len2)))
          (d_addresses c \<and> strict_offset (d_total c) t (src_bytes c ?m1 (?ip + len2)) (d_out c ?m1 (?op + len2))) r"
        using LZ4_take_offset_ok [OF ok assms(2), of ?v1 t] l assms(3,5) by auto
      have "changed (x_mem v) (x_mem ?v1) (d_dst c) (d_oend c)" using changed_mono [OF ch assms(5) order.refl] by simp
      from step_post_weaken [OF step_post_trans [OF this r(2)]] more have "step_post c v T S r" by blast
      with run False mv more r(1) show ?thesis by auto
    qed
  qed
qed

lemma LZ4_literals_ok:
  assumes ok: "dec_ok c" and "dec_small c" and "d_src c \<le> x_ip v" and "x_ip v \<le> d_iend c"
    and "d_dst c \<le> x_op v" and "x_op v \<le> d_oend c" and "0 \<le> len"
    and "\<not> d_partial c \<Longrightarrow> x_ip v + len \<le> d_iend c
      \<Longrightarrow> T = dec_literals t (nat len) (src_bytes c (x_mem v) (x_ip v)) (d_out c (x_mem v) (x_op v))"
    and "\<not> d_partial c \<Longrightarrow> S \<Longrightarrow> d_addresses c \<and> x_ip v + len \<le> d_iend c
      \<and> strict_literals (d_total c) t (nat len) (src_bytes c (x_mem v) (x_ip v)) (d_out c (x_mem v) (x_op v))"
  shows "\<exists>r. LZ4_literals c v t len = Inr r \<and> step_post c v T S r"
proof -
  have total: "int (length (d_out c m (x_op v))) + d_oend c = x_op v + int (d_total c)" for m
    using dec_ok_low0 [OF ok] assms(5,6) by (simp add: d_total_def)
  let ?op = "x_op v" and ?ip = "x_ip v"
  have safe: "d_safe c" "covers c (d_src c) (d_iend c)" "d_iend c \<le> d_dst c \<or> d_oend c \<le> d_src c"
    using ok by (simp_all add: dec_ok_def)
  show ?thesis
  proof (cases "?op + len > d_oend c - 12 \<or> ?ip + len > d_iend c - 8")
    case True
    have "LZ4_literals c v t len = LZ4_last_run c v t len"
      using True safe(1) by (auto simp: LZ4_literals_def Let_def)
    moreover have "T = Some (d_out c (x_mem v) ?op @ src_bytes c (x_mem v) ?ip)"
      if "\<not> d_partial c" "?ip + len = d_iend c"
      using assms(8) [OF that(1)] that(2) by (auto simp: dec_literals_def)
    moreover have "?ip + len = d_iend c \<and> ?op + len \<le> d_oend c" if full: "\<not> d_partial c" S
    proof -
      note S = assms(9) [OF full]
      show ?thesis
      proof (cases "?ip + len = d_iend c")
        case at_end: True
        have "length (d_out c (x_mem v) ?op) + nat len \<le> d_total c"
          using S by (auto simp: strict_literals_def simp del: length_d_out split: if_splits)
        with at_end show ?thesis using total [of "x_mem v"] assms(7) by linarith
      next
        case False
        then have "?ip + len < d_iend c" using S by simp
        note more = S [unfolded dec_literals_more(2) [OF assms(7) this]]
        with strict_offset_room [of "d_total c" t] have "8 \<le> length (src_bytes c (x_mem v) (?ip + len))" by blast
        moreover have "?op + len + 12 \<le> d_oend c" using more total [of "x_mem v"] assms(7) by linarith
        ultimately show ?thesis using True by (simp only: length_src_bytes) linarith
      qed
    qed
    ultimately show ?thesis using LZ4_last_run_ok [OF assms(1-7), of T S t] by simp
  next
    case False
    then have room: "?op + len \<le> d_oend c - 12" "?ip + len \<le> d_iend c - 8" by simp_all
    obtain m1 where m1: "LZ4_wildCopy8 c (x_mem v) ?op ?ip (?op + len) = Inr m1"
      "changed (x_mem v) m1 ?op (max (?op + 8) (?op + len + 7))" "repeated m1 ?op (max (?op + 8) (?op + len)) (?op - ?ip)"
      using LZ4_wildCopy8_ok [OF safe(2) assms(3), of "?op + len" ?op "x_mem v"] room assms(3,5,7) safe(3) by auto
    let ?v1 = "\<lparr>x_ip = ?ip + len, x_op = ?op + len, x_mem = m1\<rparr>"
    have ch: "changed (x_mem v) m1 ?op (d_oend c)" by (rule changed_mono [OF m1(2)]) (use room assms(7) in auto)
    have out: "d_out c m1 (?op + len) = d_out c (x_mem v) ?op @ mem_bytes (x_mem v) ?ip (nat len)"
      by (rule literals_out [OF ok assms(3) _ assms(5) _ assms(7) ch])
        (use room m1(3) in \<open>auto elim: repeated_mono\<close>)
    have src: "src_bytes c m1 (?ip + len) = src_bytes c (x_mem v) (?ip + len)"
      using src_bytes_changed [OF ok ch assms(5)] assms(3,7) by simp
    obtain r where r: "LZ4_take_offset c ?v1 t = Inr r"
      "step_post c ?v1 (dec_offset t (src_bytes c m1 (?ip + len)) (d_out c m1 (?op + len)))
         (d_addresses c \<and> strict_offset (d_total c) t (src_bytes c m1 (?ip + len)) (d_out c m1 (?op + len))) r"
      using LZ4_take_offset_ok [OF ok assms(2), of ?v1 t] room assms(3,5,7) by auto
    have T: "T = dec_offset t (src_bytes c m1 (?ip + len)) (d_out c m1 (?op + len))
      \<and> (S \<longrightarrow> d_addresses c \<and> strict_offset (d_total c) t (src_bytes c m1 (?ip + len)) (d_out c m1 (?op + len)))" if "\<not> d_partial c"
      using assms(8,9) [OF that] dec_literals_more [OF assms(7), of ?ip c] room out src by auto
    have "changed (x_mem v) (x_mem ?v1) (d_dst c) (d_oend c)" using changed_mono [OF ch assms(5) order.refl] by simp
    from step_post_weaken [OF step_post_trans [OF this r(2)] T] have "step_post c v T S r" .
    moreover have "LZ4_literals c v t len = Inr r"
      using False safe(1) m1(1) r(1) by (simp add: LZ4_literals_def)
    ultimately show ?thesis by blast
  qed
qed

text \<open>
  A length of literals cut off by the limit of the loop is too large for what is left of the source.
\<close>

lemma literal_length_ok:
  assumes "dec_ok c" and "dec_small c" and "d_src c \<le> ip" and "ip \<le> d_iend c" and "nib \<le> (15 :: u8)"
  shows "\<exists>len1 ip1 bad. (if (ucast nib :: u32) = 15 then
        chain (read_variable_length c m ip (d_iend c - 15) (d_safe c) (d_safe c))
          (\<lambda>(n, ip, err). Inr (ucast nib + n, ip, err = initial_error
              \<or> d_safe c \<and> (d_wraps op (ucast nib + n) \<or> d_wraps ip (ucast nib + n))))
      else Inr (ucast nib, ip, False)) = Inr (len1, ip1, bad)
    \<and> ip \<le> ip1 \<and> ip1 \<le> d_iend c
    \<and> (\<not> bad \<longrightarrow> ip1 + uint len1 > d_iend c
        \<or> lz4_len (unat nib) (src_bytes c m ip) = Some (nat (uint len1), src_bytes c m ip1))
    \<and> (bad \<or> ip1 + uint len1 > d_iend c \<longrightarrow> (\<forall>ll r. lz4_len (unat nib) (src_bytes c m ip) = Some (ll, r)
        \<longrightarrow> ll \<le> length r \<longrightarrow> d_iend c < 4294967296 \<longrightarrow> 0 \<le> ip \<longrightarrow> 0 \<le> op \<longrightarrow> 4294967296 \<le> op + int ll))"
proof -
  have safe: "d_safe c" "covers c (d_src c) (d_iend c)" using assms(1) by (simp_all add: dec_ok_def)
  have size: "d_iend c - ip < 16777216" using assms(2,3) by (simp add: dec_small_def d_iend_def)
  have nib15: "(ucast nib :: u32) = 15 \<longleftrightarrow> unat nib = 15"
    using assms(5) by (auto simp: word_unat_eq_iff unsigned_ucast_eq take_bit_eq_mod word_le_nat_alt)
  show ?thesis
  proof (cases "unat nib = 15")
    case False
    have "unat (ucast nib :: u32) = unat nib"
      using assms(5) by (simp add: unsigned_ucast_eq take_bit_eq_mod word_le_nat_alt)
    then have u: "uint (ucast nib :: u32) = int (unat nib)" by (simp only: uint_nat)
    have len: "lz4_len (unat nib) (src_bytes c m ip) = Some (unat nib, src_bytes c m ip)"
      using False by (simp add: lz4_len_def)
    have "\<not> unat nib \<le> length (src_bytes c m ip)" if "ip + uint (ucast nib :: u32) > d_iend c"
      using that assms(4) unfolding u length_src_bytes by linarith
    moreover have "nat (uint (ucast nib :: u32)) = unat nib" unfolding u by simp
    ultimately show ?thesis
      using False nib15 assms(4) len
      by (intro exI [of _ "ucast nib"] exI [of _ ip] exI [of _ False]) auto
  next
    case nib: True
    show ?thesis
    proof (cases "ip \<ge> d_iend c - 15")
      case True
      have "\<not> ll \<le> length r" if "lz4_len (unat nib) (src_bytes c m ip) = Some (ll, r)" for ll r
      proof -
        from that nib obtain n where "lz4_vlen (src_bytes c m ip) = Some (n, r)" "ll = n + 15" by (auto simp: lz4_len_def)
        with lz4_vlen_shrinks [of "src_bytes c m ip" n r] True show ?thesis by simp
      qed
      with True show ?thesis using nib nib15 safe(1) assms(4) by (auto simp: read_variable_length_def)
    next
      case False
      then obtain n ip1 err where r: "read_length_loop c m ip (d_iend c - 15) True 0 = Inr (n, ip1, err)"
        "length_post c m ip (d_iend c - 15) 0 (n, ip1, err)"
        using read_length_loop_ok [OF safe(2) assms(3), of "d_iend c - 15" m 0] by fastforce
      then obtain k where k: "n = of_nat k" "int k \<le> 255 * (ip1 - ip)" "ip < ip1" "ip1 \<le> d_iend c"
        "err \<noteq> initial_error"
        "lz4_vlen (src_bytes c m ip) = Some (k, src_bytes c m ip1) \<or> d_iend c - 15 \<le> ip1 \<and> 255 \<le> k
          \<and> (\<forall>n r. lz4_vlen (src_bytes c m ip) = Some (n, r) \<longrightarrow> int (length r) < d_iend c - ip1)"
        by (auto simp: length_post_def split: if_splits)
      have "int k \<le> 255 * 16777215" using k(2,4) size by simp
      then have "k \<le> 255 * 16777215" by simp
      moreover have "(ucast nib :: u32) + n = of_nat (15 + k)" using nib15 nib k(1) by simp
      ultimately have u: "uint ((ucast nib :: u32) + n) = int (15 + k)"
        using uint_of_nat_small [of "15 + k"] by simp
      then have "nat (uint ((ucast nib :: u32) + n)) = 15 + k" by simp
      with k u nib have post: "ip1 + uint ((ucast nib :: u32) + n) > d_iend c
          \<or> lz4_len (unat nib) (src_bytes c m ip) = Some (nat (uint ((ucast nib :: u32) + n)), src_bytes c m ip1)"
        by (auto simp: lz4_len_def)
      let ?len = "(ucast nib :: u32) + n"
      have strict: "4294967296 \<le> op + int ll"
        if "lz4_len (unat nib) (src_bytes c m ip) = Some (ll, r)" "ll \<le> length r" "d_iend c < 4294967296" "0 \<le> ip" "0 \<le> op"
          "d_wraps op ?len \<or> d_wraps ip1 ?len \<or> ip1 + uint ?len > d_iend c" for ll r
      proof -
        from that(1) nib obtain q where "lz4_vlen (src_bytes c m ip) = Some (q, r)" and "ll = q + 15" by (auto simp: lz4_len_def)
        then have q: "lz4_vlen (src_bytes c m ip) = Some (q, r)" "15 \<le> length r" using that(2) by simp_all
        have "lz4_vlen (src_bytes c m ip) = Some (k, src_bytes c m ip1)"
        proof (rule ccontr)
          assume "lz4_vlen (src_bytes c m ip) \<noteq> Some (k, src_bytes c m ip1)"
          with k(6) q(1) have "d_iend c - 15 \<le> ip1" "int (length r) < d_iend c - ip1" by blast+
          with q(2) show False by linarith
        qed
        with q(1) \<open>ll = q + 15\<close> have "ll = 15 + k" "r = src_bytes c m ip1" by auto
        with that(2) k(4) u have fit: "ip1 + uint ?len \<le> d_iend c" "uint ?len = int ll" by auto
        then have "\<not> d_wraps ip1 ?len" using d_wraps_iff [of ip1 ?len] that(3,4) k(3) by linarith
        with that(6) fit have "d_wraps op ?len" by auto
        with d_wraps_iff [of op ?len] that(5) fit(2) show ?thesis by linarith
      qed
      show ?thesis
        using r(1) False k(3,4,5) post nib nib15 safe(1) strict
        by (auto simp: read_variable_length_def)
    qed
  qed
qed

lemma LZ4_literal_length_ok:
  assumes ok: "dec_ok c" and "dec_small c" and "d_src c \<le> x_ip v" and "x_ip v \<le> d_iend c"
    and "d_dst c \<le> x_op v" and "x_op v \<le> d_oend c"
  shows "\<exists>r. LZ4_literal_length c v t = Inr r
    \<and> step_post c v (case lz4_len (unat (drop_bit 4 t)) (src_bytes c (x_mem v) (x_ip v)) of None \<Rightarrow> None
        | Some (ll, bs1) \<Rightarrow> dec_literals t ll bs1 (d_out c (x_mem v) (x_op v)))
      (d_addresses c \<and> (case lz4_len (unat (drop_bit 4 t)) (src_bytes c (x_mem v) (x_ip v)) of None \<Rightarrow> False
        | Some (ll, bs1) \<Rightarrow> strict_literals (d_total c) t ll bs1 (d_out c (x_mem v) (x_op v)))) r"
    (is "\<exists>r. _ \<and> step_post c v ?T ?S r")
proof -
  have total: "int (length (d_out c m (x_op v))) + d_oend c = x_op v + int (d_total c)" for m
    using dec_ok_low0 [OF ok] assms(5,6) by (simp add: d_total_def)
  let ?nib = "drop_bit 4 t"
  have "unat ?nib \<le> 15" by (rule nibble_le)
  then have "?nib \<le> (15 :: u8)" by (simp only: word_le_nat_alt) simp
  from literal_length_ok [OF assms(1-4) this, of "x_mem v" "x_op v"] obtain len1 ip1 bad where len:
    "(if (ucast ?nib :: u32) = 15 then
        chain (read_variable_length c (x_mem v) (x_ip v) (d_iend c - 15) (d_safe c) (d_safe c))
          (\<lambda>(n, ip, err). Inr (ucast ?nib + n, ip, err = initial_error
              \<or> d_safe c \<and> (d_wraps (x_op v) (ucast ?nib + n) \<or> d_wraps ip (ucast ?nib + n))))
      else Inr (ucast ?nib, x_ip v, False)) = Inr (len1, ip1, bad)"
    "x_ip v \<le> ip1" "ip1 \<le> d_iend c"
    "\<not> bad \<longrightarrow> ip1 + uint len1 > d_iend c
        \<or> lz4_len (unat ?nib) (src_bytes c (x_mem v) (x_ip v)) = Some (nat (uint len1), src_bytes c (x_mem v) ip1)"
    "bad \<or> ip1 + uint len1 > d_iend c \<longrightarrow> (\<forall>ll r. lz4_len (unat ?nib) (src_bytes c (x_mem v) (x_ip v)) = Some (ll, r)
        \<longrightarrow> ll \<le> length r \<longrightarrow> d_iend c < 4294967296 \<longrightarrow> 0 \<le> x_ip v \<longrightarrow> 0 \<le> x_op v \<longrightarrow> 4294967296 \<le> x_op v + int ll)"
    by blast
  let ?v1 = "v\<lparr>x_ip := ip1\<rparr>"
  have eq: "LZ4_literal_length c v t = (if bad then Inr (Output_Error ?v1) else LZ4_literals c ?v1 t (uint len1))"
    unfolding LZ4_literal_length_def Let_def len(1) by simp
  have S: "\<not> bad \<and> ip1 + uint len1 \<le> d_iend c \<and> d_addresses c
    \<and> strict_literals (d_total c) t (nat (uint len1)) (src_bytes c (x_mem v) ip1) (d_out c (x_mem v) (x_op v))" if ?S
  proof -
    from that obtain ll bs1 where ll: "lz4_len (unat ?nib) (src_bytes c (x_mem v) (x_ip v)) = Some (ll, bs1)"
      "strict_literals (d_total c) t ll bs1 (d_out c (x_mem v) (x_op v))" "d_addresses c"
      by (auto split: option.splits)
    from ll(2) have "ll \<le> length bs1" "length (d_out c (x_mem v) (x_op v)) + ll \<le> d_total c"
      by (auto simp: strict_literals_def split: if_splits)
    moreover from this(2) total [of "x_mem v"] have "x_op v + int ll \<le> d_oend c" by linarith
    ultimately have "\<not> bad \<and> ip1 + uint len1 \<le> d_iend c"
      using len(5) ll(1,3) assms(3,5) unfolding d_addresses_def by fastforce
    with len(4) ll show ?thesis by auto
  qed
  show ?thesis
  proof (cases bad)
    case True
    with eq len(2,3) assms(3-6) S show ?thesis by (auto simp: step_post_def in_buffers_def)
  next
    case False
    have "\<exists>r. LZ4_literals c ?v1 t (uint len1) = Inr r \<and> step_post c ?v1 ?T ?S r"
      by (rule LZ4_literals_ok) (use assms len(2-4) False S in \<open>auto split: option.splits\<close>)
    moreover have "step_post c v ?T ?S r" if "step_post c ?v1 ?T ?S r" for r
      by (rule step_post_trans [OF _ that]) simp
    ultimately show ?thesis using eq False by auto
  qed
qed

text \<open>Three copies of a match that lies at least eight back are one.\<close>

lemma short_copies_ok:
  assumes "match_range c" and "d_floor c \<le> match" and "8 \<le> op - match" and "d_dst c \<le> op" and "op + 18 \<le> d_oend c"
  shows "\<exists>m2 m3 m4. LZ4_memcpy c m op match 8 = Inr m2 \<and> LZ4_memcpy c m2 (op + 8) (match + 8) 8 = Inr m3
    \<and> LZ4_memcpy c m3 (op + 16) (match + 16) 2 = Inr m4
    \<and> changed m m4 op (op + 18) \<and> repeated m4 op (op + 18) (op - match)"
proof -
  have cov: "covers c (d_floor c) (d_oend c)" using assms(1) by (simp add: match_range_def)
  obtain m2 where m2: "LZ4_memcpy c m op match 8 = Inr m2" "changed m m2 op (op + 8)" "repeated m2 op (op + 8) (op - match)"
    using LZ4_memcpy_ok [OF cov assms(2), of 8 op m] assms(3-5) by auto
  obtain m3 where m3: "LZ4_memcpy c m2 (op + 8) (match + 8) 8 = Inr m3" "changed m2 m3 (op + 8) (op + 16)"
    "repeated m3 (op + 8) (op + 16) (op - match)"
    using LZ4_memcpy_ok [OF cov, of "match + 8" 8 "op + 8" m2] assms(2-5) by (auto simp: add.commute)
  obtain m4 where m4: "LZ4_memcpy c m3 (op + 16) (match + 16) 2 = Inr m4" "changed m3 m4 (op + 16) (op + 18)"
    "repeated m4 (op + 16) (op + 18) (op - match)"
    using LZ4_memcpy_ok [OF cov, of "match + 16" 2 "op + 16" m3] assms(2-5) by (auto simp: add.commute)
  have ch: "changed m m4 op (op + 18)"
    using m2(2) m3(2) m4(2) by (auto simp: changed_def)
  have pos: "0 \<le> op - match" using assms(3) by simp
  have "repeated m3 op (op + 16) (op - match)"
    using repeated_append [OF repeated_changed [OF m2(3) m3(2)] m3(3)] pos by blast
  from repeated_append [OF repeated_changed [OF this m4(2)] m4(3)] pos
  have "repeated m4 op (op + 18) (op - match)" by blast
  with m2(1) m3(1) m4(1) ch show ?thesis by blast
qed

lemma LZ4_shortcut_ok:
  assumes ok: "dec_ok c" and "dec_small c" and "d_src c \<le> x_ip v" and "x_ip v < d_shortiend c"
    and "d_dst c \<le> x_op v" and "x_op v \<le> d_shortoend c" and "unat (drop_bit 4 t) < 15"
  shows "\<exists>r. LZ4_shortcut c v t = Inr r
    \<and> step_post c v (dec_literals t (unat (drop_bit 4 t)) (src_bytes c (x_mem v) (x_ip v)) (d_out c (x_mem v) (x_op v)))
        (d_addresses c \<and> strict_literals (d_total c) t (unat (drop_bit 4 t)) (src_bytes c (x_mem v) (x_ip v)) (d_out c (x_mem v) (x_op v))) r"
    (is "\<exists>r. _ \<and> step_post c v ?T ?S r")
proof -
  let ?ip = "x_ip v" and ?op = "x_op v" and ?m = "x_mem v"
  define n where "n = int (unat (drop_bit 4 t))"
  have "n < 15" using assms(7) unfolding n_def by linarith
  then have n: "0 \<le> n" "n < 15" "uint (drop_bit 4 t) = n" "unat (drop_bit 4 t) = nat n"
    by (simp_all add: n_def)
  have safe: "d_safe c" "covers c (d_src c) (d_iend c)" "d_iend c \<le> d_dst c \<or> d_oend c \<le> d_src c" "match_range c"
    using ok by (simp_all add: dec_ok_def match_range_def)
  have room: "?ip + 16 < d_iend c" "?op + 32 \<le> d_oend c"
    using assms(4,6) safe(1) by (simp_all add: d_shortiend_def d_shortoend_def)
  obtain m1 where m1: "LZ4_memcpy c ?m ?op ?ip 16 = Inr m1" "changed ?m m1 ?op (?op + 16)" "repeated m1 ?op (?op + 16) (?op - ?ip)"
    using LZ4_memcpy_ok [OF safe(2) assms(3), of 16 ?op ?m] room safe(3) assms(3,5) by auto
  have ch: "changed ?m m1 ?op (d_oend c)" by (rule changed_mono [OF m1(2)]) (use room in auto)
  let ?ip1 = "?ip + n" and ?op1 = "?op + n"
  let ?off = "LZ4_read16 m1 ?ip1"
  let ?match = "?op1 - uint ?off" and ?v1 = "\<lparr>x_ip = ?ip1 + 2, x_op = ?op1, x_mem = m1\<rparr>"
  have rd: "d_readLE16 c m1 ?ip1 = Inr ?off"
    using covers_readable [OF safe(2), of ?ip1 2] assms(3) room n by (simp add: d_readLE16_def)
  have out: "d_out c m1 ?op1 = d_out c ?m ?op @ mem_bytes ?m ?ip (nat n)"
    by (rule literals_out [OF ok assms(3) _ assms(5) _ n(1) ch]) (use room m1(3) n in \<open>auto elim: repeated_mono\<close>)
  have src: "src_bytes c m1 ?ip1 = src_bytes c ?m ?ip1"
    using src_bytes_changed [OF ok ch assms(5)] assms(3) n(1) by simp
  have lits: "?ip + n < d_iend c" and two: "?ip1 + 2 \<le> d_iend c" using room n by simp_all
  note read = dec_literals_more [OF n(1) lits, where m = ?m] dec_offset_read [OF two, where m = m1]
  have T: "?T = dec_match t (src_bytes c m1 (?ip1 + 2)) (d_out c m1 ?op1) (unat ?off)"
    unfolding n(4) read(1) out [symmetric] src [symmetric] by (rule read(3))
  have S: "strict_match (d_total c) t (src_bytes c m1 (?ip1 + 2)) (d_out c m1 ?op1) (unat ?off)" if ?S
    using that unfolding n(4) read(2) out [symmetric] src [symmetric] read(4) by simp
  have v1: "d_src c \<le> x_ip ?v1" "x_ip ?v1 < d_iend c" "d_dst c \<le> x_op ?v1" "x_op ?v1 \<le> d_oend c" "x_op ?v1 + 18 \<le> d_oend c"
    using room n assms(3,5) by simp_all
  have off: "uint ?off = int (unat ?off)" "unat ?off < 65536" using unat_less_2p [of ?off] by simp_all
  have start: "LZ4_shortcut c v t = (if t AND 15 \<noteq> 15 \<and> ?off \<ge> 8 \<and> (d_dict c = withPrefix64k \<or> d_lowPrefix c \<le> ?match)
      then chain (LZ4_memcpy c m1 ?op1 ?match 8) (\<lambda>m2.
           chain (LZ4_memcpy c m2 (?op1 + 8) (?match + 8) 8) (\<lambda>m3.
           chain (LZ4_memcpy c m3 (?op1 + 16) (?match + 16) 2) (\<lambda>m4.
           Inr (Loop_Again \<lparr>x_ip = ?ip1 + 2, x_op = ?op1 + uint (t AND 15) + 4, x_mem = m4\<rparr>))))
      else LZ4_copy_match c ?v1 ?match (unat ?off) (ucast (t AND 15)))"
    using m1(1) rd safe(1) by (simp add: LZ4_shortcut_def n(3) Let_def)
  have up: "step_post c v T S r" if "step_post c ?v1 T S r" for T S r
    by (rule step_post_trans [OF _ that]) (use changed_mono [OF ch assms(5) order.refl] in simp)
  show ?thesis
  proof (cases "t AND 15 \<noteq> 15 \<and> ?off \<ge> 8 \<and> (d_dict c = withPrefix64k \<or> d_lowPrefix c \<le> ?match)")
    case False
    have "?match = x_op ?v1 - int (unat ?off)" by simp
    from LZ4_copy_match_ok [OF ok assms(2) v1(1,2) this off(2) v1(3,4), of t] v1(5)
    obtain r where r: "LZ4_copy_match c ?v1 ?match (unat ?off) (ucast (t AND 15)) = Inr r"
      "step_post c ?v1 ?T (d_addresses c \<and> strict_match (d_total c) t (src_bytes c m1 (?ip1 + 2)) (d_out c m1 ?op1) (unat ?off)) r"
      unfolding T by auto
    have "step_post c ?v1 ?T ?S r" by (rule step_post_weaken [OF r(2)]) (use S in blast)
    with up r(1) start False show ?thesis by auto
  next
    case True
    let ?k = "t AND 15"
    have "t AND 15 \<le> (15 :: u8)" by (rule word_and_le1)
    then have k: "unat ?k < 15" using True by (auto simp: word_le_nat_alt word_unat_eq_iff)
    moreover have "uint ?k = int (unat ?k)" by simp
    ultimately have k: "unat ?k < 15" "0 \<le> uint ?k" "uint ?k < 15" by linarith+
    have o8: "8 \<le> unat ?off" using True by (simp add: word_le_nat_alt)
    have "uint ?off \<le> 65535" using off by linarith
    moreover have "d_dst c \<le> ?op1" using v1(3) by simp
    moreover have "d_dict c = withPrefix64k \<or> d_lowPrefix c \<le> ?match" using True by simp
    ultimately have low: "d_floor c \<le> ?match" "d_low0 c \<le> ?match" "d_lowPrefix c \<le> ?match"
      using ok unfolding d_floor_def d_low0_def dec_ok_def by auto
    have apart: "8 \<le> ?op1 - ?match" using o8 off(1) by linarith
    obtain m2 m3 m4 where c3: "LZ4_memcpy c m1 ?op1 ?match 8 = Inr m2" "LZ4_memcpy c m2 (?op1 + 8) (?match + 8) 8 = Inr m3"
      "LZ4_memcpy c m3 (?op1 + 16) (?match + 16) 2 = Inr m4"
      "changed m1 m4 ?op1 (?op1 + 18)" "repeated m4 ?op1 (?op1 + 18) (?op1 - ?match)"
      using short_copies_ok [OF safe(4) low(1) apart, of m1] v1(3,5) by auto
    let ?v' = "\<lparr>x_ip = ?ip1 + 2, x_op = ?op1 + uint ?k + 4, x_mem = m4\<rparr>"
    have w: "stays_within c ?v1 ?v'"
      using c3(4) k v1(5) by (auto simp: stays_within_def intro: changed_mono)
    have "repeated m4 ?op1 (?op1 + (uint ?k + 4)) (int (unat ?off))"
      using repeated_mono [OF c3(5), of ?op1 "?op1 + (uint ?k + 4)"] k by simp
    then have "match_done c ?v1 (unat ?off) (uint ?k + 4) ?v'"
      using filled_match_done [of m4 ?op1 "uint ?k + 4" "unat ?off" c ?v1 ?v'] filled_repeated o8 low(3) by simp
    then have copied: "d_out c m4 (x_op ?v') = lz4_copy0 (d_out c m1 ?op1) (unat ?off) (nat (uint ?k + 4))"
      using d_out_match [OF ok v1(3) _ w] low(2) by simp
    have "changed m1 m4 ?op1 (d_oend c)" using c3(4) v1(5) by (auto elim: changed_mono)
    then have src1: "src_bytes c m4 (?ip1 + 2) = src_bytes c m1 (?ip1 + 2)"
      using src_bytes_changed [OF ok] v1(1,3) by simp
    have "lz4_len (unat ?k) bs = Some (unat ?k, bs)" for bs using k(1) by (simp add: lz4_len_def)
    moreover have "\<not> length (d_out c m1 ?op1) < unat ?off"
      using low(2) off(1) by (simp only: length_d_out)
    ultimately have "?T = lz4_decode0 (src_bytes c m4 (x_ip ?v')) (d_out c m4 (x_op ?v'))"
      "?S \<longrightarrow> lz4_strict (d_total c) (src_bytes c m4 (x_ip ?v')) (d_out c m4 (x_op ?v'))"
      using src1 k S unfolding T dec_match_def strict_match_def copied by (auto simp: nat_add_distrib lz4_copy0_def)
    then have "step_post c ?v1 ?T ?S (Loop_Again ?v')"
      using stays_in_buffers [OF w] v1 by (simp add: step_post_def)
    with up have "step_post c v ?T ?S (Loop_Again ?v')" by blast
    moreover have "LZ4_shortcut c v t = Inr (Loop_Again ?v')"
      using start True c3(1-3) by simp
    ultimately show ?thesis by blast
  qed
qed

lemma LZ4_dec_step_ok:
  assumes ok: "dec_ok c" and "dec_small c" and "dec_state_ok c v"
  shows "\<exists>r. LZ4_dec_step c v = Inr r
    \<and> step_post c v (lz4_decode0 (src_bytes c (x_mem v) (x_ip v)) (d_out c (x_mem v) (x_op v)))
        (d_addresses c \<and> lz4_strict (d_total c) (src_bytes c (x_mem v) (x_ip v)) (d_out c (x_mem v) (x_op v))) r"
proof -
  let ?t = "x_mem v (x_ip v)" and ?v1 = "v\<lparr>x_ip := x_ip v + 1\<rparr>"
  have st: "d_src c \<le> x_ip v" "x_ip v < d_iend c" "d_dst c \<le> x_op v" "x_op v \<le> d_oend c"
    using assms(3) by (simp_all add: dec_state_ok_def)
  have safe: "d_safe c" "covers c (d_src c) (d_iend c)" using ok by (simp_all add: dec_ok_def)
  have load: "d_load c (x_mem v) (x_ip v) = Inr ?t"
    using covers_readable [OF safe(2) st(1), of 1] st(2) by (simp add: d_load_def)
  define T where "T = (case lz4_len (unat (drop_bit 4 ?t)) (src_bytes c (x_mem v) (x_ip v + 1)) of None \<Rightarrow> None
        | Some (ll, bs1) \<Rightarrow> dec_literals ?t ll bs1 (d_out c (x_mem v) (x_op v)))"
  define S where "S \<longleftrightarrow> d_addresses c \<and> (case lz4_len (unat (drop_bit 4 ?t)) (src_bytes c (x_mem v) (x_ip v + 1)) of None \<Rightarrow> False
        | Some (ll, bs1) \<Rightarrow> strict_literals (d_total c) ?t ll bs1 (d_out c (x_mem v) (x_op v)))"
  have T: "lz4_decode0 (src_bytes c (x_mem v) (x_ip v)) (d_out c (x_mem v) (x_op v)) = T"
    unfolding T_def src_bytes_Cons [OF st(2)] by (rule lz4_decode0_token)
  have S: "(d_addresses c \<and> lz4_strict (d_total c) (src_bytes c (x_mem v) (x_ip v)) (d_out c (x_mem v) (x_op v))) = S"
    unfolding S_def src_bytes_Cons [OF st(2)] lz4_strict_token ..
  let ?short = "drop_bit 4 ?t \<noteq> 15 \<and> x_ip v + 1 < d_shortiend c \<and> x_op v \<le> d_shortoend c"
  have step: "LZ4_dec_step c v = (if ?short then LZ4_shortcut c ?v1 ?t else LZ4_literal_length c ?v1 ?t)"
    using load safe(1) st(2) by (simp add: LZ4_dec_step_def Let_def)
  have "\<exists>r. LZ4_dec_step c v = Inr r \<and> step_post c ?v1 T S r"
  proof (cases ?short)
    case False
    have v1: "T = (case lz4_len (unat (drop_bit 4 ?t)) (src_bytes c (x_mem ?v1) (x_ip ?v1)) of None \<Rightarrow> None
        | Some (ll, bs1) \<Rightarrow> dec_literals ?t ll bs1 (d_out c (x_mem ?v1) (x_op ?v1)))"
      "S = (d_addresses c \<and> (case lz4_len (unat (drop_bit 4 ?t)) (src_bytes c (x_mem ?v1) (x_ip ?v1)) of None \<Rightarrow> False
        | Some (ll, bs1) \<Rightarrow> strict_literals (d_total c) ?t ll bs1 (d_out c (x_mem ?v1) (x_op ?v1))))"
      by (auto simp: T_def S_def split: option.split)
    have "\<exists>r. LZ4_literal_length c ?v1 ?t = Inr r \<and> step_post c ?v1 T S r"
      unfolding v1 by (rule LZ4_literal_length_ok [OF ok assms(2)]) (use st in simp_all)
    with step False show ?thesis by auto
  next
    case True
    have "unat (drop_bit 4 ?t) \<le> 15" by (rule nibble_le)
    with True have nib: "unat (drop_bit 4 ?t) < 15" by (auto simp: word_unat_eq_iff)
    then have "T = dec_literals ?t (unat (drop_bit 4 ?t)) (src_bytes c (x_mem v) (x_ip v + 1)) (d_out c (x_mem v) (x_op v))"
      "S = (d_addresses c \<and> strict_literals (d_total c) ?t (unat (drop_bit 4 ?t)) (src_bytes c (x_mem v) (x_ip v + 1)) (d_out c (x_mem v) (x_op v)))"
      by (simp_all add: T_def S_def lz4_len_def)
    with LZ4_shortcut_ok [OF ok assms(2), of ?v1 ?t] nib st step True show ?thesis by auto
  qed
  moreover have "step_post c v T S r" if "step_post c ?v1 T S r" for r
    by (rule step_post_trans [OF _ that]) simp
  ultimately show ?thesis unfolding T S by blast
qed

section \<open>A whole block\<close>

lemma dec_state_next:
  "in_buffers c v v' \<Longrightarrow> x_ip v' < d_iend c \<Longrightarrow> dec_state_ok c v'"
  by (simp add: in_buffers_def dec_state_ok_def)

definition loop_post :: "dec_call \<Rightarrow> dec_vars \<Rightarrow> int \<times> memory \<Rightarrow> bool" where
  "loop_post c v r \<longleftrightarrow> fst r \<le> d_outputSize c \<and> changed (x_mem v) (snd r) (d_dst c) (d_oend c)
     \<and> (\<not> d_partial c \<longrightarrow>
          (0 \<le> fst r \<longrightarrow> lz4_decode0 (src_bytes c (x_mem v) (x_ip v)) (d_out c (x_mem v) (x_op v))
              = Some (d_out c (snd r) (d_dst c + fst r)))
          \<and> (d_addresses c \<longrightarrow> lz4_strict (d_total c) (src_bytes c (x_mem v) (x_ip v)) (d_out c (x_mem v) (x_op v))
              \<longrightarrow> 0 \<le> fst r))"

lemma LZ4_dec_loop_ok:
  "dec_ok c \<Longrightarrow> dec_small c \<Longrightarrow> dec_state_ok c v \<Longrightarrow> \<exists>r. LZ4_dec_loop c v = Inr r \<and> loop_post c v r"
proof (induction c v rule: LZ4_dec_loop.induct)
  case (1 c v)
  let ?T = "lz4_decode0 (src_bytes c (x_mem v) (x_ip v)) (d_out c (x_mem v) (x_op v))"
  let ?S = "d_addresses c \<and> lz4_strict (d_total c) (src_bytes c (x_mem v) (x_ip v)) (d_out c (x_mem v) (x_op v))"
  obtain n where n: "LZ4_dec_step c v = Inr n" "step_post c v ?T ?S n"
    using LZ4_dec_step_ok [OF "1.prems"] by auto
  have safe: "d_safe c" "0 \<le> d_outputSize c" using "1.prems"(1) by (simp_all add: dec_ok_def)
  show ?case
  proof (cases n)
    case (Loop_Again v')
    then have w: "in_buffers c v v'" "x_ip v' < d_iend c"
      "\<not> d_partial c \<longrightarrow> ?T = lz4_decode0 (src_bytes c (x_mem v') (x_ip v')) (d_out c (x_mem v') (x_op v'))
        \<and> (?S \<longrightarrow> lz4_strict (d_total c) (src_bytes c (x_mem v') (x_ip v')) (d_out c (x_mem v') (x_op v')))"
      using n(2) by (simp_all add: step_post_def)
    obtain r where r: "LZ4_dec_loop c v' = Inr r" "loop_post c v' r"
      using "1.IH" [OF n(1) Loop_Again "1.prems"(1,2) dec_state_next [OF w(1,2)]] by auto
    have "changed (x_mem v) (snd r) (d_dst c) (d_oend c)"
      using r(2) w(1) by (auto simp: loop_post_def in_buffers_def changed_def)
    with r(2) w(3) have "loop_post c v r" by (simp add: loop_post_def)
    with r(1) n(1) Loop_Again show ?thesis by (subst LZ4_dec_loop.simps) simp
  next
    case (End_Of_Block v')
    then have w: "in_buffers c v v'" "\<not> d_partial c \<longrightarrow> ?T = Some (d_out c (x_mem v') (x_op v'))"
      using n(2) by (simp_all add: step_post_def)
    then have "loop_post c v (x_op v' - d_dst c, x_mem v')"
      by (auto simp: loop_post_def in_buffers_def d_oend_def)
    with n(1) End_Of_Block safe(1) show ?thesis by (subst LZ4_dec_loop.simps) simp
  next
    case (Output_Error v')
    then have w: "in_buffers c v v'" "\<not> d_partial c \<longrightarrow> \<not> ?S" using n(2) by (simp_all add: step_post_def)
    then have "loop_post c v (- (x_ip v' - d_src c) - 1, x_mem v')"
      using safe(2) by (auto simp: loop_post_def in_buffers_def)
    with n(1) Output_Error show ?thesis by (subst LZ4_dec_loop.simps) simp
  qed
qed

section \<open>A call\<close>

lemma strict_mono: "lz4_strict N bs out \<Longrightarrow> N \<le> N' \<Longrightarrow> lz4_strict N' bs out"
  by (induction N bs out rule: lz4_strict.induct) (auto simp: Let_def split: option.splits if_splits)

lemma src_bytes_all: "src_bytes c m (d_src c) = mem_bytes m (d_src c) (nat (d_srcSize c))"
  by (simp add: src_bytes_def d_iend_def)

lemma d_out_behind:
  assumes "dec_ok c" and "changed m m' (d_dst c) (d_oend c)" and "0 \<le> n"
  shows "d_out c m' (d_dst c + n) = d_out c m (d_dst c) @ mem_bytes m' (d_dst c) (nat n)"
proof -
  have "changed m' m' (d_dst c) (d_oend c)" by simp
  from d_out_literals [OF assms(1) order.refl this assms(3), of "d_dst c"]
  have "d_out c m' (d_dst c + n) = d_out c m' (d_dst c) @ mem_bytes m' (d_dst c) (nat n)" by simp
  with d_out_changed [OF assms(1,2) order.refl order.refl] show ?thesis by simp
qed

lemma lz4_decode0_zero: "lz4_decode0 [0] out = Some out"
  by (simp add: lz4_len_def)

lemma LZ4_decompress_generic_ok:
  fixes m :: memory
  assumes ok: "dec_ok c" and "dec_small c"
  defines "src \<equiv> mem_bytes m (d_src c) (nat (d_srcSize c))" and "hist \<equiv> d_out c m (d_dst c)"
  shows "\<exists>r m'. LZ4_decompress_generic c m = Inr (r, m') \<and> r \<le> d_outputSize c \<and> changed m m' (d_dst c) (d_oend c)
    \<and> (\<not> d_partial c \<longrightarrow>
         (0 \<le> r \<longrightarrow> lz4_decode0 src hist = Some (hist @ mem_bytes m' (d_dst c) (nat r)))
         \<and> (0 < d_outputSize c \<longrightarrow> d_addresses c \<longrightarrow> lz4_strict (d_total c) src hist \<longrightarrow> 0 \<le> r))"
proof -
  have safe: "d_safe c" "covers c (d_src c) (d_iend c)" "d_src c \<noteq> 0" "d_lowPrefix c \<le> d_dst c"
    "0 \<le> d_srcSize c" "0 \<le> d_outputSize c"
    using ok by (simp_all add: dec_ok_def)
  show ?thesis
  proof (cases "d_outputSize c = 0")
    case zero: True
    have load: "d_load c m (d_src c) = Inr (m (d_src c))" if "d_srcSize c = 1"
      using covers_readable [OF safe(2) order.refl, of 1] that by (simp add: d_load_def d_iend_def)
    have "src = [0]" if "d_srcSize c = 1" "m (d_src c) = 0"
      using that by (simp add: src_def mem_bytes_Suc [of _ _ 0, simplified] mem_bytes_def)
    then show ?thesis
      using zero safe load lz4_decode0_zero by (auto simp: LZ4_decompress_generic_def mem_bytes_def)
  next
    case False
    show ?thesis
    proof (cases "d_srcSize c = 0")
      case True
      then show ?thesis using False safe by (simp add: LZ4_decompress_generic_def src_def mem_bytes_def)
    next
      case some: False
      let ?v = "\<lparr>x_ip = d_src c, x_op = d_dst c, x_mem = m\<rparr>"
      have "dec_state_ok c ?v" using some safe(5,6) by (simp add: dec_state_ok_def d_iend_def d_oend_def)
      from LZ4_dec_loop_ok [OF assms(1,2) this] obtain r m' where
        r: "LZ4_dec_loop c ?v = Inr (r, m')" "loop_post c ?v (r, m')" by auto
      from r(2) have ch: "changed m m' (d_dst c) (d_oend c)" by (simp add: loop_post_def)
      have "LZ4_decompress_generic c m = Inr (r, m')"
        using safe False some r(1) by (simp add: LZ4_decompress_generic_def)
      moreover have "0 \<le> r \<longrightarrow> d_out c m' (d_dst c + r) = hist @ mem_bytes m' (d_dst c) (nat r)"
        using d_out_behind [OF ok ch] by (simp add: hist_def)
      ultimately show ?thesis using r(2) ch by (auto simp: loop_post_def src_bytes_all src_def hist_def)
    qed
  qed
qed

text \<open>A block of the compressor, with at least its size to decode it to.\<close>

lemma decompress_encoded:
  assumes ok: "dec_ok c" and "dec_small c" and "\<not> d_partial c" and "d_addresses c"
    and "mem_bytes m (d_src c) (nat (d_srcSize c)) = bs" and "d_out c m (d_dst c) = hist"
    and enc: "encodes bs hist (hist @ x)" and "int (length x) \<le> d_outputSize c" and "x \<noteq> []"
  shows "\<exists>m'. LZ4_decompress_generic c m = Inr (int (length x), m') \<and> mem_bytes m' (d_dst c) (length x) = x
    \<and> changed m m' (d_dst c) (d_oend c)"
proof -
  have "length hist = nat (d_dst c - d_low0 c)" using assms(6) by (metis length_d_out)
  then have "length (hist @ x) \<le> d_total c"
    using assms(8) dec_ok_low0 [OF ok] by (simp add: d_total_def d_oend_def)
  then have "lz4_strict (d_total c) bs hist" using enc strict_mono by (auto simp: encodes_def)
  moreover have "lz4_decode0 bs hist = Some (hist @ x)" using enc lz4_decode_lax by (simp add: encodes_def)
  moreover have "0 < d_outputSize c" using assms(8,9) by (cases x) auto
  ultimately obtain r m' where r: "LZ4_decompress_generic c m = Inr (r, m')" "0 \<le> r"
    "changed m m' (d_dst c) (d_oend c)" "x = mem_bytes m' (d_dst c) (nat r)"
    using LZ4_decompress_generic_ok [OF ok assms(2), of m] assms(3-6) by auto
  then have "length x = nat r" by simp
  with r show ?thesis by auto
qed

section \<open>The functions of the interface\<close>

text \<open>What a caller lends: a source and an output that do not overlap.\<close>

definition lends :: "room \<Rightarrow> int \<Rightarrow> int \<Rightarrow> bool" where
  "lends room a b \<longleftrightarrow> (a < b \<longrightarrow> list_ex (\<lambda>(x, y). x \<le> a \<and> b \<le> y) room)"

definition buffers_ok :: "room \<Rightarrow> int \<Rightarrow> int \<Rightarrow> int \<Rightarrow> int \<Rightarrow> int \<Rightarrow> bool" where
  "buffers_ok room source len dest capacity low \<longleftrightarrow>
     0 < source \<and> 0 \<le> len \<and> len < 16777216 \<and> 0 \<le> capacity \<and> 0 < low \<and> low \<le> dest
     \<and> source + len < 4294967296 \<and> dest + capacity < 4294967296
     \<and> lends room source (source + len) \<and> lends room low (dest + capacity)
     \<and> (source + len \<le> dest \<or> dest + capacity \<le> source)"

lemma covers_lends: "covers c a b = lends (d_room c) a b"
  by (simp add: covers_def lends_def)

lemma withSmallPrefix_call:
  assumes "buffers_ok room source len dest capacity (dest - int n)"
  defines "c \<equiv> \<lparr>d_src = source, d_dst = dest, d_srcSize = len, d_outputSize = capacity,
        d_endOnInput = endOnInputSize, d_partialDecoding = decode_full_block, d_dict = noDict,
        d_lowPrefix = dest - int n, d_dictStart = 0, d_dictSize = 0, d_room = room\<rparr>"
  shows "dec_ok c" and "dec_small c" and "d_addresses c" and "d_out c m dest = mem_bytes m (dest - int n) n"
    and "LZ4_decompress_safe_withSmallPrefix room m source dest len capacity n = LZ4_decompress_generic c m"
proof -
  show "dec_ok c" "dec_small c" "d_addresses c"
    using assms(1) by (auto simp: c_def buffers_ok_def dec_ok_def dec_small_def d_addresses_def covers_lends
        d_iend_def d_oend_def d_floor_def)
  show "d_out c m dest = mem_bytes m (dest - int n) n"
    by (rule nth_equalityI) (simp_all add: c_def d_low0_def d_byte_def)
qed (simp add: LZ4_decompress_safe_withSmallPrefix_def c_def)

lemma safe_is_withSmallPrefix:
  "LZ4_decompress_safe room m source dest len capacity = LZ4_decompress_safe_withSmallPrefix room m source dest len capacity 0"
  by (simp add: LZ4_decompress_safe_def LZ4_decompress_safe_withSmallPrefix_def)

lemma forceExtDict_call:
  assumes "buffers_ok room source len dest capacity dest" and "0 < dictStart"
    and "lends room dictStart (dictStart + int n)"
    and "dictStart + int n \<le> dest \<or> dest + capacity \<le> dictStart"
  defines "c \<equiv> \<lparr>d_src = source, d_dst = dest, d_srcSize = len, d_outputSize = capacity,
        d_endOnInput = endOnInputSize, d_partialDecoding = decode_full_block, d_dict = usingExtDict,
        d_lowPrefix = dest, d_dictStart = dictStart, d_dictSize = n, d_room = room\<rparr>"
  shows "dec_ok c" and "dec_small c" and "d_addresses c" and "d_out c m dest = mem_bytes m dictStart n"
    and "LZ4_decompress_safe_forceExtDict room m source dest len capacity dictStart n = LZ4_decompress_generic c m"
proof -
  show "dec_ok c" "dec_small c" "d_addresses c"
    using assms(1-4) by (auto simp: c_def buffers_ok_def dec_ok_def dec_small_def d_addresses_def covers_lends
        d_iend_def d_oend_def d_floor_def)
  show "d_out c m dest = mem_bytes m dictStart n"
    by (rule nth_equalityI) (use assms(2) in \<open>simp_all add: c_def d_low0_def d_byte_def d_dictEnd_def\<close>)
qed (simp add: LZ4_decompress_safe_forceExtDict_def c_def)

end
