(* ===== verification/Lz4_Roundtrip.thy ===== *)
theory Lz4_Roundtrip
  imports Lz4_Decompress_Correct Lz4_Stream_Correct
begin

text \<open>
  The functions of the interface against the format: what each of them takes for the history,
  that none of them needs more than 64 KB of it, and that a decoder which follows a compressor
  block by block stays in step with it.
\<close>

section \<open>Only the last 64 KB matter\<close>

lemma lz4_copy_prefix: "0 < off \<Longrightarrow> off \<le> length h \<Longrightarrow> lz4_copy (p @ h) off n = p @ lz4_copy h off n"
proof (induction n arbitrary: h)
  case (Suc n)
  have "(p @ h) ! (length (p @ h) - off) = h ! (length h - off)"
  proof -
    have "length (p @ h) - off = length p + (length h - off)" using Suc.prems by simp
    then show ?thesis by (simp only: nth_append_length_plus)
  qed
  with Suc.IH [of "h @ [h ! (length h - off)]"] Suc.prems show ?case by simp
qed simp

lemma length_lz4_copy0: "length (lz4_copy0 h off n) = length h + n"
proof -
  have "length (lz4_copy h off n) = length h + n" by (induction n arbitrary: h) simp_all
  then show ?thesis by (simp add: lz4_copy0_def)
qed

lemma decode0_prefix:
  "65535 \<le> length h \<Longrightarrow> lz4_decode0 bs (p @ h) = map_option ((@) p) (lz4_decode0 bs h)"
proof (induction bs h rule: lz4_decode0.induct)
  case (2 t bs h)
  have off: "unat (LZ4_readLE16 xs) \<le> 65535" for xs using unat_less_2p [of "LZ4_readLE16 xs"] by simp
  have copy: "lz4_copy0 (p @ h') (unat (LZ4_readLE16 xs)) n = p @ lz4_copy0 h' (unat (LZ4_readLE16 xs)) n"
    if "65535 \<le> length h'" for h' xs n
    using that off [of xs] by (auto simp: lz4_copy0_def intro!: lz4_copy_prefix)
  show ?case
  proof (cases "lz4_len (unat (drop_bit 4 t)) bs")
    case (Some q)
    obtain ll bs1 where q: "q = (ll, bs1)" by (cases q)
    show ?thesis
    proof (cases "length bs1 < ll + 2")
      case True
      then show ?thesis by (simp add: Some q)
    next
      case False
      let ?off = "unat (LZ4_readLE16 (drop ll bs1))"
      have far: "\<not> length (p @ h @ take ll bs1) < ?off" "\<not> length (h @ take ll bs1) < ?off"
        using off [of "drop ll bs1"] "2.prems" by simp_all
      show ?thesis
      proof (cases "lz4_len (unat (t AND 15)) (drop (ll + 2) bs1)")
        case None
        with False far show ?thesis by (simp add: Some q None [unfolded add_2_eq_Suc'])
      next
        case more: (Some q2)
        obtain ml bs2 where q2: "q2 = (ml, bs2)" by (cases q2)
        have "65535 \<le> length (lz4_copy0 (h @ take ll bs1) ?off (ml + 4))"
          using "2.prems" by (simp add: length_lz4_copy0)
        from "2.IH" [OF Some q [symmetric] _ _ _ refl refl far(2) more q2 [symmetric] this] False
        have "lz4_decode0 bs2 (p @ lz4_copy0 (h @ take ll bs1) ?off (ml + 4))
          = map_option ((@) p) (lz4_decode0 bs2 (lz4_copy0 (h @ take ll bs1) ?off (ml + 4)))" by simp
        then show ?thesis
          using False far copy [of "h @ take ll bs1" "drop ll bs1" "ml + 4"] "2.prems"
          by (simp add: Some q more [unfolded add_2_eq_Suc'] q2 Let_def)
      qed
    qed
  qed simp
qed simp

lemma strict_prefix:
  "65535 \<le> length h \<Longrightarrow> lz4_strict (length p + N) bs (p @ h) = lz4_strict N bs h"
proof (induction N bs h rule: lz4_strict.induct)
  case (2 N t bs h)
  have off: "unat (LZ4_readLE16 xs) \<le> 65535" for xs using unat_less_2p [of "LZ4_readLE16 xs"] by simp
  show ?case
  proof (cases "lz4_len (unat (drop_bit 4 t)) bs")
    case (Some q)
    obtain ll bs1 where q: "q = (ll, bs1)" by (cases q)
    let ?off = "unat (LZ4_readLE16 (drop ll bs1))"
    have far: "?off \<le> length (h @ take ll bs1)" using off [of "drop ll bs1"] "2.prems" by simp
    show ?thesis
    proof (cases "ll + 2 \<le> length bs1 \<and> 0 < ?off")
      case False
      then show ?thesis by (auto simp: Some q)
    next
      case True
      show ?thesis
      proof (cases "lz4_len (unat (t AND 15)) (drop (ll + 2) bs1)")
        case None
        with True far show ?thesis by (simp add: Some q None [unfolded add_2_eq_Suc'])
      next
        case more: (Some q2)
        obtain ml bs2 where q2: "q2 = (ml, bs2)" by (cases q2)
        have copy: "lz4_copy (p @ h @ take ll bs1) ?off (ml + 4) = p @ lz4_copy (h @ take ll bs1) ?off (ml + 4)"
          using lz4_copy_prefix [OF conjunct2 [OF True] far] by simp
        have "length (lz4_copy (h @ take ll bs1) ?off (ml + 4)) = length (h @ take ll bs1) + (ml + 4)"
          using length_lz4_copy0 [of "h @ take ll bs1" ?off "ml + 4"] True by (simp add: lz4_copy0_def)
        then have "65535 \<le> length (lz4_copy (h @ take ll bs1) ?off (ml + 4))" using "2.prems" by simp
        note IH = "2.IH" [OF Some q [symmetric] _ refl refl more q2 [symmetric] this]
        have "lz4_strict (length p + N) bs2 (p @ lz4_copy (h @ take ll bs1) ?off (ml + 4))
          = lz4_strict N bs2 (lz4_copy (h @ take ll bs1) ?off (ml + 4))"
          by (rule IH) (use True in simp)
        with True far copy show ?thesis
          by (simp add: Some q more [unfolded add_2_eq_Suc'] q2 Let_def add.assoc)
      qed
    qed
  qed simp
qed simp

section \<open>What a function of the interface does\<close>

text \<open>
  It returns; it changes memory in the output only; what it accepts decodes behind the history
  \<open>hist\<close> to what it wrote; and it accepts what keeps the restrictions at the end of a block.
\<close>

definition decoded :: "memory \<Rightarrow> (int \<times> memory) outcome \<Rightarrow> bytes \<Rightarrow> bytes \<Rightarrow> int \<Rightarrow> int \<Rightarrow> bool" where
  "decoded m res src hist dest capacity \<longleftrightarrow>
     (\<exists>r m'. res = Inr (r, m') \<and> r \<le> capacity \<and> changed m m' dest (dest + capacity)
        \<and> (0 \<le> r \<longrightarrow> lz4_decode0 src hist = Some (hist @ mem_bytes m' dest (nat r)))
        \<and> (0 < capacity \<longrightarrow> lz4_strict (length hist + nat capacity) src hist \<longrightarrow> 0 \<le> r))"

lemma call_decoded:
  assumes "dec_ok c" and "dec_small c" and "d_addresses c" and "\<not> d_partial c"
  shows "decoded m (LZ4_decompress_generic c m) (mem_bytes m (d_src c) (nat (d_srcSize c))) (d_out c m (d_dst c))
    (d_dst c) (d_outputSize c)"
proof -
  have "d_total c = length (d_out c m (d_dst c)) + nat (d_outputSize c)"
  proof -
    have "d_oend c - d_low0 c = (d_dst c - d_low0 c) + d_outputSize c" by (simp add: d_oend_def)
    moreover have "0 \<le> d_outputSize c" using assms(1) by (simp add: dec_ok_def)
    ultimately show ?thesis using dec_ok_low0 [OF assms(1)] by (simp add: d_total_def nat_add_distrib)
  qed
  with LZ4_decompress_generic_ok [OF assms(1,2), of m] assms(3,4) show ?thesis
    by (auto simp: decoded_def d_oend_def)
qed

lemma decoded_prefix: "65535 \<le> length h \<Longrightarrow> decoded m res src (p @ h) dest cap = decoded m res src h dest cap"
  by (auto simp: decoded_def decode0_prefix add.assoc strict_prefix)

lemma withSmallPrefix_decoded:
  assumes "buffers_ok room source len dest capacity (dest - int n)"
  shows "decoded m (LZ4_decompress_safe_withSmallPrefix room m source dest len capacity n)
    (mem_bytes m source (nat len)) (mem_bytes m (dest - int n) n) dest capacity"
  using call_decoded [OF withSmallPrefix_call(1-3) [OF assms]] withSmallPrefix_call(4,5) [OF assms] by simp

lemma safe_decoded:
  assumes "buffers_ok room source len dest capacity dest"
  shows "decoded m (LZ4_decompress_safe room m source dest len capacity) (mem_bytes m source (nat len)) [] dest capacity"
  using withSmallPrefix_decoded [of room source len dest capacity 0] assms
  by (simp add: safe_is_withSmallPrefix mem_bytes_def)

lemma forceExtDict_decoded:
  assumes "buffers_ok room source len dest capacity dest" and "0 < dictStart"
    and "lends room dictStart (dictStart + int n)" and "dictStart + int n \<le> dest \<or> dest + capacity \<le> dictStart"
  shows "decoded m (LZ4_decompress_safe_forceExtDict room m source dest len capacity dictStart n)
    (mem_bytes m source (nat len)) (mem_bytes m dictStart n) dest capacity"
  using call_decoded [OF forceExtDict_call(1-3) [OF assms]] forceExtDict_call(4,5) [OF assms] by simp

lemma lends_mono: "lends room a b \<Longrightarrow> a \<le> a' \<Longrightarrow> b' \<le> b \<Longrightarrow> lends room a' b'"
  unfolding lends_def list_ex_iff by (auto elim!: impE bexI [rotated])

lemma withPrefix64k_decoded:
  assumes "buffers_ok room source len dest capacity (dest - int n)" and "65535 \<le> n"
  shows "decoded m (LZ4_decompress_safe_withPrefix64k room m source dest len capacity)
    (mem_bytes m source (nat len)) (mem_bytes m (dest - int n) n) dest capacity"
proof -
  let ?c = "\<lparr>d_src = source, d_dst = dest, d_srcSize = len, d_outputSize = capacity,
        d_endOnInput = endOnInputSize, d_partialDecoding = decode_full_block, d_dict = withPrefix64k,
        d_lowPrefix = dest - 65536, d_dictStart = 0, d_dictSize = 0, d_room = room\<rparr>"
  have "covers ?c (d_floor ?c) (d_oend ?c)"
    unfolding covers_lends
    by (rule lends_mono [of _ "dest - int n" "dest + capacity"])
      (use assms in \<open>auto simp: d_floor_def d_oend_def buffers_ok_def\<close>)
  then have "dec_ok ?c" "dec_small ?c" "d_addresses ?c"
    using assms by (auto simp: buffers_ok_def dec_ok_def dec_small_def d_addresses_def covers_lends d_iend_def d_oend_def)
  from call_decoded [OF this, of m]
  have "decoded m (LZ4_decompress_safe_withPrefix64k room m source dest len capacity) (mem_bytes m source (nat len))
    (d_out ?c m dest) dest capacity"
    by (simp add: LZ4_decompress_safe_withPrefix64k_def)
  moreover have "d_out ?c m dest = mem_bytes m (dest - 65536) 65536"
    by (rule nth_equalityI) (simp_all add: d_low0_def d_byte_def)
  moreover have "mem_bytes m (dest - 65536) (1 + 65535) = mem_bytes m (dest - 65536) 1 @ mem_bytes m (dest - 65535) 65535"
    unfolding mem_bytes_add by simp
  moreover have "mem_bytes m (dest - int n) ((n - 65535) + 65535)
    = mem_bytes m (dest - int n) (n - 65535) @ mem_bytes m (dest - 65535) 65535"
    unfolding mem_bytes_add using assms(2) by (simp add: of_nat_diff)
  ultimately show ?thesis using assms(2) by (simp add: decoded_prefix)
qed

lemma doubleDict_decoded:
  assumes "buffers_ok room source len dest capacity (dest - int n)" and "0 < dictStart"
    and "lends room dictStart (dictStart + int k)" and "dictStart + int k \<le> dest - int n \<or> dest + capacity \<le> dictStart"
  shows "decoded m (LZ4_decompress_safe_doubleDict room m source dest len capacity n dictStart k)
    (mem_bytes m source (nat len)) (mem_bytes m dictStart k @ mem_bytes m (dest - int n) n) dest capacity"
proof -
  let ?c = "\<lparr>d_src = source, d_dst = dest, d_srcSize = len, d_outputSize = capacity,
        d_endOnInput = endOnInputSize, d_partialDecoding = decode_full_block, d_dict = usingExtDict,
        d_lowPrefix = dest - int n, d_dictStart = dictStart, d_dictSize = k, d_room = room\<rparr>"
  have "dec_ok ?c" "dec_small ?c" "d_addresses ?c"
    using assms by (auto simp: buffers_ok_def dec_ok_def dec_small_def d_addresses_def covers_lends d_iend_def d_oend_def d_floor_def)
  from call_decoded [OF this, of m]
  have "decoded m (LZ4_decompress_safe_doubleDict room m source dest len capacity n dictStart k) (mem_bytes m source (nat len))
    (d_out ?c m dest) dest capacity"
    by (simp add: LZ4_decompress_safe_doubleDict_def)
  moreover have "d_out ?c m dest = mem_bytes m dictStart k @ mem_bytes m (dest - int n) n"
    by (rule nth_equalityI) (use assms(2) in \<open>auto simp: d_low0_def d_byte_def d_dictEnd_def nth_append algebra_simps\<close>)
  ultimately show ?thesis by simp
qed

text \<open>A dictionary elsewhere in memory, apart from the output and from what lies before it.\<close>

definition dict_lent :: "room \<Rightarrow> int \<Rightarrow> nat \<Rightarrow> int \<Rightarrow> int \<Rightarrow> bool" where
  "dict_lent room dictStart n low end \<longleftrightarrow>
     0 < dictStart \<and> lends room dictStart (dictStart + int n)
     \<and> (dictStart + int n \<le> low \<or> end \<le> dictStart)"

definition usingDict_ok :: "room \<Rightarrow> int \<Rightarrow> int \<Rightarrow> int \<Rightarrow> int \<Rightarrow> int \<Rightarrow> nat \<Rightarrow> bool" where
  "usingDict_ok room source len dest capacity dictStart n \<longleftrightarrow>
     (if dictStart + int n = dest then buffers_ok room source len dest capacity (dest - int n)
      else buffers_ok room source len dest capacity dest
        \<and> (n = 0 \<or> dict_lent room dictStart n dest (dest + capacity)))"

lemma usingDict_decoded:
  assumes "usingDict_ok room source len dest capacity dictStart n"
  shows "decoded m (LZ4_decompress_safe_usingDict room m source dest len capacity dictStart n)
    (mem_bytes m source (nat len)) (mem_bytes m dictStart n) dest capacity"
proof (cases "n = 0")
  case True
  with assms have "buffers_ok room source len dest capacity dest" by (simp add: usingDict_ok_def split: if_splits)
  from safe_decoded [OF this] True show ?thesis by (simp add: LZ4_decompress_safe_usingDict_def mem_bytes_def)
next
  case some: False
  show ?thesis
  proof (cases "dictStart + int n = dest")
    case True
    then have b: "buffers_ok room source len dest capacity (dest - int n)" and d: "dictStart = dest - int n"
      using assms by (simp_all add: usingDict_ok_def)
    show ?thesis
      using withPrefix64k_decoded [OF b, of m] withSmallPrefix_decoded [OF b, of m] some
      by (simp add: LZ4_decompress_safe_usingDict_def d)
  next
    case False
    with assms some forceExtDict_decoded [of room source len dest capacity dictStart n m] show ?thesis
      by (simp add: LZ4_decompress_safe_usingDict_def usingDict_ok_def dict_lent_def)
  qed
qed

section \<open>A stream\<close>

text \<open>The bytes that a stream decoder has for history when the next block goes to \<open>dest\<close>.\<close>

definition sd_history :: "memory \<Rightarrow> LZ4_streamDecode \<Rightarrow> int \<Rightarrow> bytes" where
  "sd_history m sd dest =
     (if prefixSize sd = 0 then []
      else (if prefixEnd sd = dest then mem_bytes m (externalDict sd) (extDictSize sd) else [])
        @ mem_bytes m (prefixEnd sd - int (prefixSize sd)) (prefixSize sd))"

definition sd_ok :: "room \<Rightarrow> int \<Rightarrow> int \<Rightarrow> int \<Rightarrow> int \<Rightarrow> LZ4_streamDecode \<Rightarrow> bool" where
  "sd_ok room source len dest capacity sd \<longleftrightarrow>
     (if prefixSize sd = 0 then extDictSize sd = 0 \<and> buffers_ok room source len dest capacity dest
      else if prefixEnd sd = dest then
        buffers_ok room source len dest capacity (dest - int (prefixSize sd))
        \<and> (extDictSize sd = 0
            \<or> dict_lent room (externalDict sd) (extDictSize sd) (dest - int (prefixSize sd)) (dest + capacity))
      else buffers_ok room source len dest capacity dest
        \<and> dict_lent room (prefixEnd sd - int (prefixSize sd)) (prefixSize sd) dest (dest + capacity))"

lemma mem_bytes_outside: "changed m m' a b \<Longrightarrow> p + int n \<le> a \<or> b \<le> p \<Longrightarrow> mem_bytes m' p n = mem_bytes m p n"
  by (rule nth_equalityI) (auto simp: changed_def)

lemma decodedE:
  assumes "decoded m res src hist dest capacity"
  obtains r m' where "res = Inr (r, m')" "decoded m (Inr (r, m')) src hist dest capacity" "changed m m' dest (dest + capacity)"
  using assms by (auto simp: decoded_def)

definition continue_post ::
  "memory \<Rightarrow> (int \<times> memory \<times> LZ4_streamDecode) outcome \<Rightarrow> bytes \<Rightarrow> bytes \<Rightarrow> int \<Rightarrow> int \<Rightarrow> bool" where
  "continue_post m res src hist dest capacity \<longleftrightarrow>
     (\<exists>r m' sd'. res = Inr (r, m', sd') \<and> decoded m (Inr (r, m')) src hist dest capacity
        \<and> (0 < r \<longrightarrow> sd_history m' sd' (dest + r) = hist @ mem_bytes m' dest (nat r)))"

lemma d_record_post:
  assumes "decoded m res src hist dest capacity"
    and "\<And>r m'. 0 < r \<Longrightarrow> changed m m' dest (dest + capacity) \<Longrightarrow> sd_history m' (f r) (dest + r) = hist @ mem_bytes m' dest (nat r)"
  shows "continue_post m (d_record res sd f) src hist dest capacity"
proof -
  from assms(1) obtain r m' where "res = Inr (r, m')" "decoded m (Inr (r, m')) src hist dest capacity"
    "changed m m' dest (dest + capacity)" by (rule decodedE)
  with assms(2) [of r m'] show ?thesis by (auto simp: continue_post_def d_record_def)
qed

lemma mem_bytes_join: "mem_bytes m p (k + n) = mem_bytes m p k @ mem_bytes m (p + int k) n"
  by (rule mem_bytes_add)

lemma safe_continue_ok:
  assumes "sd_ok room source len dest capacity sd"
  shows "continue_post m (LZ4_decompress_safe_continue room m sd source dest len capacity)
    (mem_bytes m source (nat len)) (sd_history m sd dest) dest capacity"
proof (cases "prefixSize sd = 0")
  case True
  then have b: "extDictSize sd = 0" "buffers_ok room source len dest capacity dest" using assms by (simp_all add: sd_ok_def)
  have "continue_post m (d_record (LZ4_decompress_safe room m source dest len capacity) sd
      (\<lambda>result. sd\<lparr>prefixSize := nat result, prefixEnd := dest + result\<rparr>))
    (mem_bytes m source (nat len)) (sd_history m sd dest) dest capacity"
    by (rule d_record_post) (use safe_decoded [OF b(2), of m] True b(1) in \<open>simp_all add: sd_history_def mem_bytes_def\<close>)
  then show ?thesis using True b(1) by (simp add: LZ4_decompress_safe_continue_def)
next
  case some: False
  define k where "k = prefixSize sd"
  show ?thesis
  proof (cases "prefixEnd sd = dest")
    case True
    then have b: "buffers_ok room source len dest capacity (dest - int k)"
      "extDictSize sd = 0 \<or> dict_lent room (externalDict sd) (extDictSize sd) (dest - int k) (dest + capacity)"
      using assms some by (simp_all add: sd_ok_def k_def)
    have hist: "sd_history m sd dest = mem_bytes m (externalDict sd) (extDictSize sd) @ mem_bytes m (dest - int k) k"
      using True some by (simp add: sd_history_def k_def)
    let ?res = "if k \<ge> 65536 - 1 then LZ4_decompress_safe_withPrefix64k room m source dest len capacity
      else if extDictSize sd = 0 then LZ4_decompress_safe_withSmallPrefix room m source dest len capacity k
      else LZ4_decompress_safe_doubleDict room m source dest len capacity k (externalDict sd) (extDictSize sd)"
    have dec: "decoded m ?res (mem_bytes m source (nat len)) (sd_history m sd dest) dest capacity"
    proof (cases "65535 \<le> k")
      case True
      with withPrefix64k_decoded [OF b(1) True, of m] show ?thesis by (simp add: hist decoded_prefix)
    next
      case small: False
      show ?thesis
      proof (cases "extDictSize sd = 0")
        case True
        with small withSmallPrefix_decoded [OF b(1), of m] show ?thesis by (simp add: hist mem_bytes_def [of _ _ 0])
      next
        case False
        with b(2) small doubleDict_decoded [OF b(1), of "externalDict sd" "extDictSize sd" m]
        show ?thesis by (simp add: hist dict_lent_def)
      qed
    qed
    have "continue_post m (d_record ?res sd (\<lambda>result. sd\<lparr>prefixSize := k + nat result, prefixEnd := dest + result\<rparr>))
      (mem_bytes m source (nat len)) (sd_history m sd dest) dest capacity"
    proof (rule d_record_post [OF dec])
      fix r :: int and m' assume r: "0 < r" and ch: "changed m m' dest (dest + capacity)"
      have "mem_bytes m' (externalDict sd) (extDictSize sd) = mem_bytes m (externalDict sd) (extDictSize sd)"
      proof (cases "extDictSize sd = 0")
        case False
        with b(2) show ?thesis by (intro mem_bytes_outside [OF ch]) (auto simp: dict_lent_def)
      qed (simp add: mem_bytes_def)
      moreover have "mem_bytes m' (dest - int k) k = mem_bytes m (dest - int k) k"
        by (rule mem_bytes_outside [OF ch]) simp
      moreover have "mem_bytes m' (dest - int k) (k + nat r) = mem_bytes m' (dest - int k) k @ mem_bytes m' dest (nat r)"
        using mem_bytes_join [of m' "dest - int k" k "nat r"] by simp
      moreover have "dest + r - int (k + nat r) = dest - int k" using r by simp
      ultimately show "sd_history m' (sd\<lparr>prefixSize := k + nat r, prefixEnd := dest + r\<rparr>) (dest + r)
        = sd_history m sd dest @ mem_bytes m' dest (nat r)"
        using r some unfolding hist by (simp add: sd_history_def k_def)
    qed
    moreover have "LZ4_decompress_safe_continue room m sd source dest len capacity
      = d_record ?res sd (\<lambda>result. sd\<lparr>prefixSize := k + nat result, prefixEnd := dest + result\<rparr>)"
      using some by (simp add: LZ4_decompress_safe_continue_def k_def True)
    ultimately show ?thesis by (simp only:)
  next
    case False
    then have b: "buffers_ok room source len dest capacity dest"
      "dict_lent room (prefixEnd sd - int k) k dest (dest + capacity)"
      using assms some by (simp_all add: sd_ok_def k_def)
    let ?sd1 = "sd\<lparr>extDictSize := k, externalDict := prefixEnd sd - int k\<rparr>"
    have hist: "sd_history m sd dest = mem_bytes m (prefixEnd sd - int k) k"
      using False some by (simp add: sd_history_def k_def)
    have dec: "decoded m (LZ4_decompress_safe_forceExtDict room m source dest len capacity (prefixEnd sd - int k) k)
      (mem_bytes m source (nat len)) (sd_history m sd dest) dest capacity"
      unfolding hist by (rule forceExtDict_decoded [OF b(1)]) (use b(2) in \<open>simp_all add: dict_lent_def\<close>)
    have "continue_post m (d_record (LZ4_decompress_safe_forceExtDict room m source dest len capacity (prefixEnd sd - int k) k) ?sd1
        (\<lambda>result. ?sd1\<lparr>prefixSize := nat result, prefixEnd := dest + result\<rparr>))
      (mem_bytes m source (nat len)) (sd_history m sd dest) dest capacity"
    proof (rule d_record_post [OF dec])
      fix r :: int and m' assume r: "0 < r" and ch: "changed m m' dest (dest + capacity)"
      have "mem_bytes m' (prefixEnd sd - int k) k = mem_bytes m (prefixEnd sd - int k) k"
        by (rule mem_bytes_outside [OF ch]) (use b(2) in \<open>auto simp: dict_lent_def\<close>)
      then show "sd_history m' (?sd1\<lparr>prefixSize := nat r, prefixEnd := dest + r\<rparr>) (dest + r)
        = sd_history m sd dest @ mem_bytes m' dest (nat r)"
        using r unfolding hist by (simp add: sd_history_def)
    qed
    then show ?thesis using False some by (simp add: LZ4_decompress_safe_continue_def k_def Let_def)
  qed
qed

end
