(* ===== verification/Lz4_Decompress_Properties.thy ===== *)
theory Lz4_Decompress_Properties
  imports Lz4_Roundtrip
begin

text \<open>
  What a user of the decompressor may rely on: it stays in its buffers whatever it is fed, a
  stream of blocks is decoded as the format says, and a decoder that is given the blocks of a
  compressor one after the other keeps its history.
\<close>

section \<open>Any source\<close>

text \<open>C8: Whatever bytes the source holds, and whether a whole block is asked for or a part of it,
  decoding ends without reading outside of what the caller lends, without an overlapping
  \<open>memcpy\<close> and without failing an assertion; it writes at most in the output and reports no more
  than its size.\<close>

theorem decompress_memory_safe:
  assumes "dec_ok c" and "dec_small c"
  shows "\<exists>r m'. LZ4_decompress_generic c m = Inr (r, m') \<and> r \<le> d_outputSize c
    \<and> (\<forall>p. p < d_dst c \<or> d_dst c + d_outputSize c \<le> p \<longrightarrow> m' p = m p)"
  using LZ4_decompress_generic_ok [OF assms, of m] by (auto simp: changed_def d_oend_def)

definition sample_dec :: dec_call where
  "sample_dec =
     \<lparr>d_src = 1000, d_dst = 2000, d_srcSize = 40, d_outputSize = 60, d_endOnInput = endOnInputSize,
      d_partialDecoding = partial_decode, d_dict = usingExtDict, d_lowPrefix = 1990, d_dictStart = 500,
      d_dictSize = 100, d_room = [(1000, 1040), (1990, 2060), (500, 600)]\<rparr>"

theorem decompress_memory_safe_witness:
  "\<exists>r m'. LZ4_decompress_generic sample_dec (\<lambda>p. of_int (37 * p)) = Inr (r, m') \<and> r \<le> 60
    \<and> m' 1999 = of_int (37 * 1999) \<and> m' 2060 = of_int (37 * 2060)"
proof -
  have "dec_ok sample_dec" "dec_small sample_dec"
    by (simp_all add: sample_dec_def dec_ok_def dec_small_def covers_def d_iend_def d_oend_def d_floor_def)
  from decompress_memory_safe [OF this, of "\<lambda>p. of_int (37 * p)"] show ?thesis
    by (auto simp: sample_dec_def)
qed

section \<open>A stream of blocks\<close>


definition sample_memory :: memory where
  "sample_memory = (\<lambda>p. if p = 1000 then 0x11 else if p = 1002 then 3 else if p = 1003 then 0 else if p = 1004 then 0x50
     else of_int p)"

definition sample_sd :: LZ4_streamDecode where
  "sample_sd = \<lparr>externalDict = 500, extDictSize = 4, prefixEnd = 2000, prefixSize = 8\<rparr>"

definition sample_room :: room where
  "sample_room = [(1000, 1010), (1992, 2040), (500, 504)]"

lemma sample_sd_ok: "sd_ok sample_room 1000 10 2000 40 sample_sd"
  by (simp add: sd_ok_def sample_sd_def sample_room_def buffers_ok_def lends_def dict_lent_def)


text \<open>C9: A decoder follows a compressor: let a stream compress \<open>n\<close> bytes behind the history
  \<open>hist\<close>, and give its output to a stream decoder, in a memory of its own, that has the same
  history and at least \<open>n\<close> bytes of room. The decoder reports \<open>n\<close>, it has written the bytes
  that were compressed, and both have the same history again.\<close>

theorem streams_stay_in_step:
  assumes "stream_ok s" and "dict_ok m s hist" and "0 < n" and "n \<le> LZ4_MAX_INPUT_SIZE" and "apart s source n"
    and "LZ4_compress_fast_continue m s source n capacity accel = Inr r" and "r_result r \<noteq> 0"
    and "sd_ok room from_compressor (int (r_result r)) dest room_left sd" and "sd_history md sd dest = hist"
    and "mem_bytes md from_compressor (r_result r) = r_out r" and "int n \<le> room_left"
  shows "\<exists>md' sd'. LZ4_decompress_safe_continue room md sd from_compressor dest (int (r_result r)) room_left
      = Inr (int n, md', sd')
    \<and> mem_bytes md' dest n = mem_bytes m source n
    \<and> sd_history md' sd' (dest + int n) = hist @ mem_bytes m source n
    \<and> stream_ok (r_stream r) \<and> dict_ok m (r_stream r) (hist @ mem_bytes m source n)"
proof -
  have b: "stream_ok (r_stream r)" "dict_ok m (r_stream r) (hist @ mem_bytes m source n)"
    "encodes (r_out r) hist (hist @ mem_bytes m source n)"
    using fast_continue_block [OF assms(1-5), of capacity accel] assms(6,7) by (auto simp: block_result_def)
  obtain k md' sd' where c: "LZ4_decompress_safe_continue room md sd from_compressor dest (int (r_result r)) room_left = Inr (k, md', sd')"
    "0 \<le> k \<longrightarrow> lz4_decode0 (r_out r) hist = Some (hist @ mem_bytes md' dest (nat k))"
    "0 < k \<longrightarrow> sd_history md' sd' (dest + k) = hist @ mem_bytes md' dest (nat k)"
    "0 < room_left \<longrightarrow> lz4_strict (length hist + nat room_left) (r_out r) hist \<longrightarrow> 0 \<le> k"
    using safe_continue_ok [OF assms(8), of md] assms(9,10) by (auto simp: continue_post_def decoded_def)
  have "lz4_strict (length hist + nat room_left) (r_out r) hist"
    using b(3) assms(11) by (auto simp: encodes_def elim: strict_mono)
  then have k: "0 \<le> k" using c(4) assms(3,11) by simp
  then have bytes: "mem_bytes md' dest (nat k) = mem_bytes m source n"
    using c(2) b(3) lz4_decode_lax by (auto simp: encodes_def)
  then have "nat k = n" by (metis length_mem_bytes)
  with k assms(3) have "k = int n" "0 < k" by auto
  with c(1,3) bytes b(1,2) show ?thesis by simp
qed

lemma five_compressed:
  "\<exists>r. LZ4_compress_fast_continue (\<lambda>_. 65) LZ4_initStream 1000 5 20 1 = Inr r
    \<and> r_result r = 6 \<and> r_out r = [0x50, 65, 65, 65, 65, 65]"
  by (simp add: LZ4_compress_fast_continue_def LZ4_initStream_def LZ4_renormDictT_def LZ4_invalidate_tiny_def
      LZ4_overlap_def LZ4_compress_generic_def LZ4_compress_generic_validated_def LZ4_MAX_INPUT_SIZE_def Let_def
      LZ4_run_def LZ4_call_of_def LZ4_last_literals_def LZ4_init_vars_def c_iend_def mem_bytes_def upt_rec)

definition five_memory :: memory where
  "five_memory = (\<lambda>p. if p = 2000 then 0x50 else 65)"

definition new_sd :: LZ4_streamDecode where
  "new_sd = \<lparr>externalDict = 0, extDictSize = 0, prefixEnd = 0, prefixSize = 0\<rparr>"

theorem streams_stay_in_step_witness:
  "\<exists>md' sd'. LZ4_decompress_safe_continue [(2000, 2006), (3000, 3005)] five_memory new_sd 2000 3000 6 5 = Inr (5, md', sd')
    \<and> sd_history md' sd' 3005 = [65, 65, 65, 65, 65]"
proof -
  obtain r where r: "LZ4_compress_fast_continue (\<lambda>_. 65) LZ4_initStream 1000 5 20 1 = Inr r"
    "r_result r = 6" "r_out r = [0x50, 65, 65, 65, 65, 65]" using five_compressed by blast
  have bytes: "mem_bytes (\<lambda>_. 65) 1000 5 = [65, 65, 65, 65, 65]" by (simp add: mem_bytes_def upt_rec)
  have "dict_ok (\<lambda>_. 65) LZ4_initStream []" "apart LZ4_initStream 1000 5" "(5 :: nat) \<le> LZ4_MAX_INPUT_SIZE"
    by (simp_all add: dict_ok_def LZ4_initStream_def apart_def LZ4_MAX_INPUT_SIZE_def)
  moreover have "sd_ok [(2000, 2006), (3000, 3005)] 2000 (int (r_result r)) 3000 5 new_sd" "sd_history five_memory new_sd 3000 = []"
    by (simp_all add: r(2) sd_ok_def new_sd_def buffers_ok_def lends_def sd_history_def)
  moreover have "mem_bytes five_memory 2000 (r_result r) = r_out r"
    by (simp add: r(2,3) mem_bytes_def five_memory_def upt_rec)
  ultimately show ?thesis
    using streams_stay_in_step [OF stream_ok_init _ _ _ _ r(1), of "[]"] r(2) bytes by fastforce
qed

end
