(* ===== verification/Lz4_Frame_Decompress.thy ===== *)
theory Lz4_Frame_Decompress
  imports Lz4_Decompress Lz4_Frame
begin

text \<open>
  The frame layer on its decompression side: the context, the header, the history of linked
  blocks, and \<open>LZ4F_decompress\<close>, a state machine that is fed the frame in pieces of any size. A
  stage of it is a function here; the \<open>switch\<close> falls through where one calls the next.

  The accessible memory is the list of ranges \<open>room\<close>; the two buffers the machine allocates join
  it. A copy outside of it, or between overlapping ranges, is a fault.
\<close>

section \<open>The context\<close>

datatype dStage =
    getFrameHeader | storeFrameHeader | stage_init | getBlockHeader | storeBlockHeader
  | copyDirect | getBlockChecksum | getCBlock | storeCBlock | flushOut
  | getSuffix | storeSuffix | getSFrameSize | storeSFrameSize | skipSkippable

fun stage_no :: "dStage \<Rightarrow> nat" where
  "stage_no getFrameHeader = 0"
| "stage_no storeFrameHeader = 1"
| "stage_no stage_init = 2"
| "stage_no getBlockHeader = 3"
| "stage_no storeBlockHeader = 4"
| "stage_no copyDirect = 5"
| "stage_no getBlockChecksum = 6"
| "stage_no getCBlock = 7"
| "stage_no storeCBlock = 8"
| "stage_no flushOut = 9"
| "stage_no getSuffix = 10"
| "stage_no storeSuffix = 11"
| "stage_no getSFrameSize = 12"
| "stage_no storeSFrameSize = 13"
| "stage_no skipSkippable = 14"

datatype LZ4F_frameType = LZ4F_frame | LZ4F_skippableFrame

record LZ4F_dctx =
  dx_frameInfo :: LZ4F_preferences
  dx_frameType :: LZ4F_frameType
  dx_version :: u32
  dx_dStage :: dStage
  dx_frameRemainingSize :: u64
  dx_maxBlockSize :: nat
  dx_maxBufferSize :: nat
  dx_tmpIn :: int
  dx_tmpInSize :: nat
  dx_tmpInTarget :: nat
  dx_tmpOutBuffer :: int
  dx_dict :: int
  dx_dictSize :: nat
  dx_tmpOut :: int
  dx_tmpOutSize :: nat
  dx_tmpOutStart :: nat
  dx_xxh :: XXH32_state
  dx_blockChecksum :: XXH32_state
  dx_header :: bytes

definition LZ4F_createDecompressionContext :: "bool \<Rightarrow> u32 \<Rightarrow> u32 \<times> LZ4F_dctx option" where
  "LZ4F_createDecompressionContext allocated versionNumber =
     (if \<not> allocated then (err0r ERROR_allocation_failed, None)
      else (LZ4F_code OK_NoError,
        Some \<lparr>dx_frameInfo = zero_prefs, dx_frameType = LZ4F_frame, dx_version = versionNumber,
              dx_dStage = getFrameHeader, dx_frameRemainingSize = 0, dx_maxBlockSize = 0,
              dx_maxBufferSize = 0, dx_tmpIn = 0, dx_tmpInSize = 0, dx_tmpInTarget = 0,
              dx_tmpOutBuffer = 0, dx_dict = 0, dx_dictSize = 0, dx_tmpOut = 0, dx_tmpOutSize = 0,
              dx_tmpOutStart = 0, dx_xxh = zero_xxh, dx_blockChecksum = zero_xxh,
              dx_header = replicate 19 0\<rparr>))"

text \<open>
  Freeing takes the range of a buffer out of the room, allocating puts one in. The result of
  freeing a context is the stage it was in: 0 when no frame was being decoded.
\<close>

definition f_free :: "int \<Rightarrow> room \<Rightarrow> room" where
  "f_free p room = (if p = 0 then room else filter (\<lambda>(a, b). a \<noteq> p) room)"

definition f_alloc :: "int \<Rightarrow> nat \<Rightarrow> room \<Rightarrow> room" where
  "f_alloc p n room = (p, p + int n) # room"

definition LZ4F_freeDecompressionContext :: "room \<Rightarrow> LZ4F_dctx option \<Rightarrow> u32 \<times> room" where
  "LZ4F_freeDecompressionContext room dctx =
     (case dctx of
        None \<Rightarrow> (LZ4F_code OK_NoError, room)
      | Some x \<Rightarrow> (of_nat (stage_no (dx_dStage x)),
                   f_free (dx_tmpOutBuffer x) (f_free (dx_tmpIn x) room)))"

definition LZ4F_resetDecompressionContext :: "LZ4F_dctx \<Rightarrow> LZ4F_dctx" where
  "LZ4F_resetDecompressionContext dctx = dctx\<lparr>dx_dStage := getFrameHeader, dx_dict := 0, dx_dictSize := 0\<rparr>"

section \<open>Memory\<close>

definition f_ok :: "room \<Rightarrow> int \<Rightarrow> nat \<Rightarrow> bool" where
  "f_ok room p n \<longleftrightarrow> n = 0 \<or> list_ex (\<lambda>(a, b). a \<le> p \<and> p + int n \<le> b) room"

definition f_bytes :: "room \<Rightarrow> memory \<Rightarrow> int \<Rightarrow> nat \<Rightarrow> bytes outcome" where
  "f_bytes room m p n = chain (require Out_Of_Bounds (f_ok room p n)) (\<lambda>_. Inr (mem_bytes m p n))"

definition f_memcpy :: "room \<Rightarrow> memory \<Rightarrow> int \<Rightarrow> int \<Rightarrow> nat \<Rightarrow> memory outcome" where
  "f_memcpy room m dst src n =
     chain (require Out_Of_Bounds (f_ok room src n \<and> f_ok room dst n)) (\<lambda>_.
     chain (require Overlapping_Copy (n = 0 \<or> dst + int n \<le> src \<or> src + int n \<le> dst)) (\<lambda>_.
     Inr (memmove m dst src n)))"

text \<open>Bytes put into the header buffer at an offset.\<close>

definition header_put :: "bytes \<Rightarrow> nat \<Rightarrow> bytes \<Rightarrow> bytes outcome" where
  "header_put h off bs =
     chain (require Out_Of_Bounds (off + length bs \<le> length h))
       (\<lambda>_. Inr (take off h @ bs @ drop (off + length bs) h))"

section \<open>The header of a frame\<close>

text \<open>
  What \<open>LZ4F_decodeHeader\<close> stores in the context, for the bytes \<open>src\<close> it is given;
  \<open>own\<close> says that they are the header buffer itself. On success it returns how many it read.
\<close>

definition LZ4F_storeHeader :: "bool \<Rightarrow> bytes \<Rightarrow> LZ4F_dctx \<Rightarrow> ((LZ4F_errorCodes + nat) \<times> LZ4F_dctx) outcome" where
  "LZ4F_storeHeader own src dctx =
     (let x = dctx\<lparr>dx_frameInfo := zero_prefs, dx_frameType := LZ4F_frame\<rparr>
      in case LZ4F_decodeHeader src of
           Header_Error e \<Rightarrow> Inr (Inl e, if length src < minFHSize then dctx else x)
         | Skippable_Frame \<Rightarrow>
             let x1 = x\<lparr>dx_frameType := LZ4F_skippableFrame\<rparr>
             in if own
                then Inr (Inr (length src),
                          x1\<lparr>dx_tmpInSize := length src, dx_tmpInTarget := 8, dx_dStage := storeSFrameSize\<rparr>)
                else Inr (Inr 4, x1\<lparr>dx_dStage := getSFrameSize\<rparr>)
         | Header_Incomplete n \<Rightarrow>
             chain (if own then Inr (dx_header x) else header_put (dx_header x) 0 src) (\<lambda>h.
             Inr (Inr (length src),
                  x\<lparr>dx_header := h, dx_tmpInSize := length src, dx_tmpInTarget := n,
                    dx_dStage := storeFrameHeader\<rparr>))
         | Frame_Header p n \<Rightarrow>
             Inr (Inr n,
                  x\<lparr>dx_frameInfo := p, dx_maxBlockSize := unat (LZ4F_getBlockSize (blockSizeID p)),
                    dx_frameRemainingSize :=
                      (if drop_bit 3 (src ! 4) AND 1 \<noteq> 0 then contentSize p else dx_frameRemainingSize x),
                    dx_dStage := stage_init\<rparr>))"

section \<open>The history of linked blocks\<close>

definition LZ4F_updateDict ::
  "room \<Rightarrow> memory \<Rightarrow> LZ4F_dctx \<Rightarrow> int \<Rightarrow> nat \<Rightarrow> int \<Rightarrow> bool \<Rightarrow> (memory \<times> LZ4F_dctx) outcome" where
  "LZ4F_updateDict room m dctx dstPtr dstSize dstBufferStart withinTmp =
     (let x = (if dx_dictSize dctx = 0 then dctx\<lparr>dx_dict := dstPtr\<rparr> else dctx);
          n = dx_dictSize x
      in chain (require Assert_Failed (dstPtr \<noteq> 0 \<and> dx_dict x \<noteq> 0)) (\<lambda>_.
         if dx_dict x + int n = dstPtr then Inr (m, x\<lparr>dx_dictSize := n + dstSize\<rparr>)
         else
         chain (require Assert_Failed (dstBufferStart \<le> dstPtr)) (\<lambda>_.
         if nat (dstPtr - dstBufferStart) + dstSize \<ge> 65536
         then Inr (m, x\<lparr>dx_dict := dstBufferStart, dx_dictSize := nat (dstPtr - dstBufferStart) + dstSize\<rparr>)
         else
         chain (require Assert_Failed (dstSize < 65536 \<and> dx_tmpOutBuffer x \<noteq> 0)) (\<lambda>_.
         if withinTmp \<and> dx_dict x = dx_tmpOutBuffer x
         then chain (require Assert_Failed (dx_dict x + int n = dx_tmpOut x + int (dx_tmpOutStart x)))
                (\<lambda>_. Inr (m, x\<lparr>dx_dictSize := n + dstSize\<rparr>))
         else if withinTmp then
           let preserveSize = nat (dx_tmpOut x - dx_tmpOutBuffer x);
               copySize = min (if dx_tmpOutSize x > 65536 then 0 else 65536 - dx_tmpOutSize x) preserveSize;
               oldDictEnd = dx_dict x + int n - int (dx_tmpOutStart x)
           in chain (f_memcpy room m (dx_tmpOutBuffer x + int (preserveSize - copySize)) (oldDictEnd - int copySize) copySize)
                (\<lambda>m1. Inr (m1, x\<lparr>dx_dict := dx_tmpOutBuffer x, dx_dictSize := preserveSize + dx_tmpOutStart x + dstSize\<rparr>))
         else if dx_dict x = dx_tmpOutBuffer x then
           let preserveSize = 65536 - dstSize
           in chain (if n + dstSize > dx_maxBufferSize x
                     then chain (f_memcpy room m (dx_tmpOutBuffer x) (dx_dict x + int n - int preserveSize) preserveSize)
                            (\<lambda>m1. Inr (m1, preserveSize))
                     else Inr (m, n))
                (\<lambda>(m1, k). chain (f_memcpy room m1 (dx_tmpOutBuffer x + int k) dstPtr dstSize)
                  (\<lambda>m2. Inr (m2, x\<lparr>dx_dictSize := k + dstSize\<rparr>)))
         else
           let preserveSize = min (65536 - dstSize) n
           in chain (f_memcpy room m (dx_tmpOutBuffer x) (dx_dict x + int n - int preserveSize) preserveSize) (\<lambda>m1.
              chain (f_memcpy room m1 (dx_tmpOutBuffer x + int preserveSize) dstPtr dstSize) (\<lambda>m2.
              Inr (m2, x\<lparr>dx_dict := dx_tmpOutBuffer x, dx_dictSize := preserveSize + dstSize\<rparr>)))))))"

section \<open>The variables of one call\<close>

record df_call =
  f_srcEnd :: int
  f_dstStart :: int
  f_dstEnd :: int
  f_stableDst :: bool
  f_tmpIn :: "nat \<Rightarrow> int"
  f_tmpOutBuffer :: "nat \<Rightarrow> int"

text \<open>
  \<open>f_tmpIn\<close> and \<open>f_tmpOutBuffer\<close> are what the allocator answers to a request of a size, 0 when it
  has no memory.
\<close>

record df_vars =
  f_ctx :: LZ4F_dctx
  f_mem :: memory
  f_room :: room
  f_srcPtr :: int
  f_dstPtr :: int
  f_hint :: nat

datatype df_next = Another df_vars | Done df_vars | Return_Now u32 df_vars

definition f_left :: "df_call \<Rightarrow> df_vars \<Rightarrow> nat" where
  "f_left c v = nat (f_srcEnd c - f_srcPtr v)"

definition f_space :: "df_call \<Rightarrow> df_vars \<Rightarrow> nat" where
  "f_space c v = nat (f_dstEnd c - f_dstPtr v)"

definition f_stop :: "nat \<Rightarrow> df_vars \<Rightarrow> df_next outcome" where
  "f_stop hint v = Inr (Done (v\<lparr>f_hint := hint\<rparr>))"

definition f_goto :: "dStage \<Rightarrow> df_vars \<Rightarrow> df_next outcome" where
  "f_goto s v = Inr (Another (v\<lparr>f_ctx := (f_ctx v)\<lparr>dx_dStage := s\<rparr>\<rparr>))"

definition f_error :: "LZ4F_errorCodes \<Rightarrow> df_vars \<Rightarrow> df_next outcome" where
  "f_error e v = Inr (Return_Now (err0r e) v)"

text \<open>How much of a wanted amount can be had; wanting less than nothing would be a copy without end.\<close>

definition f_wanted :: "nat \<Rightarrow> LZ4F_dctx \<Rightarrow> nat outcome" where
  "f_wanted target x = chain (require Out_Of_Bounds (dx_tmpInSize x \<le> target)) (\<lambda>_. Inr (target - dx_tmpInSize x))"

text \<open>More of the source into the header buffer, or into \<open>tmpIn\<close>, up to \<open>target\<close> bytes in all.\<close>

definition f_fill_header :: "df_call \<Rightarrow> nat \<Rightarrow> df_vars \<Rightarrow> df_vars outcome" where
  "f_fill_header c target v =
     (let x = f_ctx v in
      chain (f_wanted target x) (\<lambda>wanted.
      let k = min wanted (f_left c v) in
      chain (f_bytes (f_room v) (f_mem v) (f_srcPtr v) k) (\<lambda>bs.
      chain (header_put (dx_header x) (dx_tmpInSize x) bs) (\<lambda>h.
      Inr (v\<lparr>f_srcPtr := f_srcPtr v + int k, f_ctx := x\<lparr>dx_header := h, dx_tmpInSize := dx_tmpInSize x + k\<rparr>\<rparr>)))))"

definition f_fill_tmpIn :: "df_call \<Rightarrow> nat \<Rightarrow> df_vars \<Rightarrow> df_vars outcome" where
  "f_fill_tmpIn c target v =
     (let x = f_ctx v in
      chain (f_wanted target x) (\<lambda>wanted.
      let k = min wanted (f_left c v) in
      chain (f_memcpy (f_room v) (f_mem v) (dx_tmpIn x + int (dx_tmpInSize x)) (f_srcPtr v) k) (\<lambda>m.
      Inr (v\<lparr>f_mem := m, f_srcPtr := f_srcPtr v + int k, f_ctx := x\<lparr>dx_tmpInSize := dx_tmpInSize x + k\<rparr>\<rparr>))))"

text \<open>Account for \<open>n\<close> decoded bytes at \<open>p\<close>.\<close>

definition f_account :: "df_vars \<Rightarrow> int \<Rightarrow> nat \<Rightarrow> df_vars outcome" where
  "f_account v p n =
     (let x = f_ctx v in
      chain (f_bytes (f_room v) (f_mem v) p n) (\<lambda>bs.
      Inr (v\<lparr>f_ctx := x\<lparr>dx_xxh := (if contentChecksumFlag (dx_frameInfo x) then XXH32_update (dx_xxh x) bs else dx_xxh x),
                        dx_frameRemainingSize := (if contentSize (dx_frameInfo x) \<noteq> 0 then dx_frameRemainingSize x - of_nat n
                                                  else dx_frameRemainingSize x)\<rparr>\<rparr>)))"

definition f_history :: "df_call \<Rightarrow> df_vars \<Rightarrow> nat \<Rightarrow> bool \<Rightarrow> df_vars outcome" where
  "f_history c v n withinTmp =
     (if blockMode (dx_frameInfo (f_ctx v)) = LZ4F_blockLinked
      then chain (LZ4F_updateDict (f_room v) (f_mem v) (f_ctx v) (f_dstPtr v) n (f_dstStart c) withinTmp)
             (\<lambda>(m, x). Inr (v\<lparr>f_mem := m, f_ctx := x\<rparr>))
      else Inr v)"

section \<open>The header stages\<close>

text \<open>\<open>dstage_storeFrameHeader\<close>: the header comes in pieces.\<close>

definition f_storeFrameHeader :: "df_call \<Rightarrow> df_vars \<Rightarrow> df_next outcome" where
  "f_storeFrameHeader c v =
     chain (f_fill_header c (dx_tmpInTarget (f_ctx v)) v) (\<lambda>v1.
     let x = f_ctx v1 in
     if dx_tmpInSize x < dx_tmpInTarget x then f_stop (dx_tmpInTarget x - dx_tmpInSize x + 4) v1
     else
       chain (LZ4F_storeHeader True (take (dx_tmpInTarget x) (dx_header x)) x) (\<lambda>(r, x1).
       case r of
         Inl e \<Rightarrow> f_error e (v1\<lparr>f_ctx := x1\<rparr>)
       | Inr _ \<Rightarrow> Inr (Another (v1\<lparr>f_ctx := x1\<rparr>))))"

definition f_getFrameHeader :: "df_call \<Rightarrow> df_vars \<Rightarrow> df_next outcome" where
  "f_getFrameHeader c v =
     (if f_left c v \<ge> maxFHSize
      then
        chain (f_bytes (f_room v) (f_mem v) (f_srcPtr v) (f_left c v)) (\<lambda>src.
        chain (LZ4F_storeHeader False src (f_ctx v)) (\<lambda>(r, x1).
        case r of
          Inl e \<Rightarrow> f_error e (v\<lparr>f_ctx := x1\<rparr>)
        | Inr hSize \<Rightarrow> Inr (Another (v\<lparr>f_ctx := x1, f_srcPtr := f_srcPtr v + int hSize\<rparr>))))
      else
        let v1 = v\<lparr>f_ctx := (f_ctx v)\<lparr>dx_tmpInSize := 0\<rparr>\<rparr>
        in if f_left c v = 0 then Inr (Return_Now (of_nat minFHSize) v1)
           else f_storeFrameHeader c
                  (v1\<lparr>f_ctx := (f_ctx v1)\<lparr>dx_tmpInTarget := minFHSize, dx_dStage := storeFrameHeader\<rparr>\<rparr>))"

section \<open>The block stages\<close>

text \<open>The four bytes before a block.\<close>

definition f_blockHeader :: "df_call \<Rightarrow> df_vars \<Rightarrow> bytes \<Rightarrow> df_next outcome" where
  "f_blockHeader c v bs =
     (let x = f_ctx v;
          blockHeader = LZ4F_readLE32 bs;
          nextCBlockSize = unat (blockHeader AND 0x7FFFFFFF);
          crcSize = (if blockChecksumFlag (dx_frameInfo x) then 4 else 0)
      in if blockHeader = 0 then f_goto getSuffix v
         else if nextCBlockSize > dx_maxBlockSize x then f_error ERROR_maxBlockSize_invalid v
         else if blockHeader AND LZ4F_BLOCKUNCOMPRESSED_FLAG \<noteq> 0 then
           f_goto copyDirect
             (v\<lparr>f_ctx := x\<lparr>dx_tmpInTarget := nextCBlockSize,
                          dx_blockChecksum := (if blockChecksumFlag (dx_frameInfo x) then XXH32_reset 0 else dx_blockChecksum x)\<rparr>\<rparr>)
         else
           let v1 = v\<lparr>f_ctx := x\<lparr>dx_tmpInTarget := nextCBlockSize + crcSize, dx_dStage := getCBlock\<rparr>\<rparr>
           in if f_dstPtr v = f_dstEnd c \<or> f_srcPtr v = f_srcEnd c
              then f_stop (4 + nextCBlockSize + crcSize) v1
              else Inr (Another v1))"

definition f_storeBlockHeader :: "df_call \<Rightarrow> df_vars \<Rightarrow> df_next outcome" where
  "f_storeBlockHeader c v =
     chain (f_fill_tmpIn c 4 v) (\<lambda>v1.
     let x = f_ctx v1 in
     if dx_tmpInSize x < 4 then f_stop (4 - dx_tmpInSize x) v1
     else chain (f_bytes (f_room v1) (f_mem v1) (dx_tmpIn x) 4) (f_blockHeader c v1))"

definition f_getBlockHeader :: "df_call \<Rightarrow> df_vars \<Rightarrow> df_next outcome" where
  "f_getBlockHeader c v =
     (if f_left c v \<ge> 4
      then chain (f_bytes (f_room v) (f_mem v) (f_srcPtr v) 4) (f_blockHeader c (v\<lparr>f_srcPtr := f_srcPtr v + 4\<rparr>))
      else f_storeBlockHeader c (v\<lparr>f_ctx := (f_ctx v)\<lparr>dx_tmpInSize := 0, dx_dStage := storeBlockHeader\<rparr>\<rparr>))"

text \<open>\<open>dstage_init\<close> sets the buffers up.\<close>

definition f_buffers :: "df_call \<Rightarrow> df_vars \<Rightarrow> df_vars + df_vars" where
  "f_buffers c v =
     (let x = f_ctx v;
          bufferNeeded = dx_maxBlockSize x + (if blockMode (dx_frameInfo x) = LZ4F_blockLinked then 131072 else 0)
      in if bufferNeeded > dx_maxBufferSize x
         then
           let room1 = f_free (dx_tmpIn x) (f_room v);
               newIn = f_tmpIn c (dx_maxBlockSize x + 4);
               x1 = x\<lparr>dx_maxBufferSize := 0, dx_tmpIn := newIn\<rparr>
           in if newIn = 0 then Inl (v\<lparr>f_ctx := x1, f_room := room1\<rparr>)
              else
                let room2 = f_free (dx_tmpOutBuffer x) (f_alloc newIn (dx_maxBlockSize x + 4) room1);
                    newOut = f_tmpOutBuffer c bufferNeeded;
                    x2 = x1\<lparr>dx_tmpOutBuffer := newOut\<rparr>
                in if newOut = 0 then Inl (v\<lparr>f_ctx := x2, f_room := room2\<rparr>)
                   else Inr (v\<lparr>f_ctx := x2\<lparr>dx_maxBufferSize := bufferNeeded\<rparr>,
                              f_room := f_alloc newOut bufferNeeded room2\<rparr>)
         else Inr v)"

definition f_init :: "df_call \<Rightarrow> df_vars \<Rightarrow> df_next outcome" where
  "f_init c v =
     (let x = f_ctx v;
          v0 = v\<lparr>f_ctx := x\<lparr>dx_xxh := (if contentChecksumFlag (dx_frameInfo x) then XXH32_reset 0 else dx_xxh x)\<rparr>\<rparr>
      in case f_buffers c v0 of
           Inl v1 \<Rightarrow> f_error ERROR_allocation_failed v1
         | Inr v1 \<Rightarrow>
             f_getBlockHeader c
               (v1\<lparr>f_ctx := (f_ctx v1)\<lparr>dx_tmpInSize := 0, dx_tmpInTarget := 0, dx_tmpOut := dx_tmpOutBuffer (f_ctx v1),
                                      dx_tmpOutStart := 0, dx_tmpOutSize := 0, dx_dStage := getBlockHeader\<rparr>\<rparr>))"

text \<open>An uncompressed block goes straight to the output.\<close>

definition f_copyDirect :: "df_call \<Rightarrow> df_vars \<Rightarrow> df_next outcome" where
  "f_copyDirect c v =
     (let target = dx_tmpInTarget (f_ctx v);
          flag = blockChecksumFlag (dx_frameInfo (f_ctx v))
      in chain (if f_dstPtr v = 0 then Inr (v, 0)
                else
                  let k = min target (min (f_left c v) (f_space c v))
                  in chain (f_memcpy (f_room v) (f_mem v) (f_dstPtr v) (f_srcPtr v) k) (\<lambda>m.
                     let bs = mem_bytes m (f_srcPtr v) k; x = f_ctx v;
                         v1 = v\<lparr>f_mem := m,
                                f_ctx := x\<lparr>dx_blockChecksum := (if flag then XXH32_update (dx_blockChecksum x) bs else dx_blockChecksum x)\<rparr>\<rparr>
                     in chain (f_account v1 (f_srcPtr v) k) (\<lambda>v2.
                        chain (f_history c v2 k False) (\<lambda>v3. Inr (v3, k)))))
           (\<lambda>(v1, k).
              let x = f_ctx v1;
                  v2 = v1\<lparr>f_srcPtr := f_srcPtr v1 + int k, f_dstPtr := f_dstPtr v1 + int k\<rparr>
              in if k = target
                 then (if flag then f_goto getBlockChecksum (v2\<lparr>f_ctx := x\<lparr>dx_tmpInSize := 0\<rparr>\<rparr>)
                       else f_goto getBlockHeader v2)
                 else f_stop (target - k + (if flag then 4 else 0) + 4)
                        (v2\<lparr>f_ctx := x\<lparr>dx_tmpInTarget := target - k\<rparr>\<rparr>)))"

text \<open>The hint stays at 1 when the checksum of an uncompressed block is not there yet.\<close>

definition f_checkBlock :: "df_vars \<Rightarrow> bytes \<Rightarrow> df_next outcome" where
  "f_checkBlock v bs =
     (if LZ4F_readLE32 bs \<noteq> XXH32_digest (dx_blockChecksum (f_ctx v)) then f_error ERROR_blockChecksum_invalid v
      else f_goto getBlockHeader v)"

definition f_getBlockChecksum :: "df_call \<Rightarrow> df_vars \<Rightarrow> df_next outcome" where
  "f_getBlockChecksum c v =
     (if f_left c v \<ge> 4 \<and> dx_tmpInSize (f_ctx v) = 0
      then chain (f_bytes (f_room v) (f_mem v) (f_srcPtr v) 4) (f_checkBlock (v\<lparr>f_srcPtr := f_srcPtr v + 4\<rparr>))
      else
        chain (f_fill_header c 4 v) (\<lambda>v1.
        if dx_tmpInSize (f_ctx v1) < 4 then f_stop (f_hint v1) v1
        else f_checkBlock v1 (take 4 (dx_header (f_ctx v1)))))"

section \<open>A compressed block\<close>

definition f_flushOut :: "df_call \<Rightarrow> df_vars \<Rightarrow> df_next outcome" where
  "f_flushOut c v =
     chain (if f_dstPtr v = 0 then Inr v
            else
              let x = f_ctx v;
                  k = min (dx_tmpOutSize x - dx_tmpOutStart x) (f_space c v)
              in chain (require Out_Of_Bounds (dx_tmpOutStart x \<le> dx_tmpOutSize x)) (\<lambda>_.
                 chain (f_memcpy (f_room v) (f_mem v) (f_dstPtr v) (dx_tmpOut x + int (dx_tmpOutStart x)) k) (\<lambda>m.
                 chain (f_history c (v\<lparr>f_mem := m\<rparr>) k True) (\<lambda>v1.
                 Inr (v1\<lparr>f_dstPtr := f_dstPtr v1 + int k,
                         f_ctx := (f_ctx v1)\<lparr>dx_tmpOutStart := dx_tmpOutStart (f_ctx v1) + k\<rparr>\<rparr>)))))
       (\<lambda>v2.
          if dx_tmpOutStart (f_ctx v2) = dx_tmpOutSize (f_ctx v2) then f_goto getBlockHeader v2
          else f_stop 4 v2)"

text \<open>The dictionary that is given to the block decompressor.\<close>

definition f_dict :: "LZ4F_dctx \<Rightarrow> int \<times> nat" where
  "f_dict x =
     (if dx_dict x \<noteq> 0 \<and> dx_dictSize x > 1073741824
      then (dx_dict x + int (dx_dictSize x) - 65536, 65536) else (dx_dict x, dx_dictSize x))"

text \<open>Where \<open>tmpOut\<close> must lie so that the history is before it.\<close>

definition f_place_tmpOut :: "df_vars \<Rightarrow> df_vars outcome" where
  "f_place_tmpOut v =
     (let x = f_ctx v in
      if blockMode (dx_frameInfo x) \<noteq> LZ4F_blockLinked then Inr v
      else if dx_dict x = dx_tmpOutBuffer x then
        chain (if dx_dictSize x > 131072
               then chain (f_memcpy (f_room v) (f_mem v) (dx_tmpOutBuffer x) (dx_dict x + int (dx_dictSize x) - 65536) 65536)
                      (\<lambda>m. Inr (m, 65536))
               else Inr (f_mem v, dx_dictSize x))
          (\<lambda>(m, n). Inr (v\<lparr>f_mem := m, f_ctx := x\<lparr>dx_dictSize := n, dx_tmpOut := dx_tmpOutBuffer x + int n\<rparr>\<rparr>))
      else Inr (v\<lparr>f_ctx := x\<lparr>dx_tmpOut := dx_tmpOutBuffer x + int (min (dx_dictSize x) 65536)\<rparr>\<rparr>))"

definition f_decode_direct :: "df_call \<Rightarrow> df_vars \<Rightarrow> int \<Rightarrow> df_next outcome" where
  "f_decode_direct c v selectedIn =
     (let x = f_ctx v; (dict, n) = f_dict x
      in chain (require Assert_Failed (f_dstPtr v \<noteq> 0)) (\<lambda>_.
         chain (LZ4_decompress_safe_usingDict (f_room v) (f_mem v) selectedIn (f_dstPtr v)
                  (int (dx_tmpInTarget x)) (int (dx_maxBlockSize x)) dict n) (\<lambda>(decodedSize, m).
         if decodedSize < 0 then f_error ERROR_GENERIC (v\<lparr>f_mem := m\<rparr>)
         else
           let k = nat decodedSize
           in chain (f_account (v\<lparr>f_mem := m\<rparr>) (f_dstPtr v) k) (\<lambda>v1.
              chain (f_history c v1 k False) (\<lambda>v2.
              f_goto getBlockHeader (v2\<lparr>f_dstPtr := f_dstPtr v2 + int k\<rparr>))))))"

definition f_decode_tmp :: "df_call \<Rightarrow> df_vars \<Rightarrow> int \<Rightarrow> df_next outcome" where
  "f_decode_tmp c v selectedIn =
     chain (f_place_tmpOut v) (\<lambda>v1.
     let x = f_ctx v1; (dict, n) = f_dict x
     in chain (LZ4_decompress_safe_usingDict (f_room v1) (f_mem v1) selectedIn (dx_tmpOut x)
                 (int (dx_tmpInTarget x)) (int (dx_maxBlockSize x)) dict n) (\<lambda>(decodedSize, m).
        if decodedSize < 0 then f_error ERROR_decompressionFailed (v1\<lparr>f_mem := m\<rparr>)
        else
          let k = nat decodedSize
          in chain (f_account (v1\<lparr>f_mem := m\<rparr>) (dx_tmpOut x) k) (\<lambda>v2.
             f_flushOut c
               (v2\<lparr>f_ctx := (f_ctx v2)\<lparr>dx_tmpOutSize := k, dx_tmpOutStart := 0, dx_dStage := flushOut\<rparr>\<rparr>))))"

text \<open>The whole block is at \<open>selectedIn\<close>.\<close>

definition f_decodeBlock :: "df_call \<Rightarrow> df_vars \<Rightarrow> int \<Rightarrow> df_next outcome" where
  "f_decodeBlock c v selectedIn =
     (let flag = blockChecksumFlag (dx_frameInfo (f_ctx v));
          target = dx_tmpInTarget (f_ctx v) - (if flag then 4 else 0);
          v1 = v\<lparr>f_ctx := (f_ctx v)\<lparr>dx_tmpInTarget := target\<rparr>\<rparr>
      in chain (if flag
                then chain (require Out_Of_Bounds (4 \<le> dx_tmpInTarget (f_ctx v))) (\<lambda>_.
                     chain (f_bytes (f_room v) (f_mem v) selectedIn (target + 4))
                     (\<lambda>bs. Inr (LZ4F_readLE32 (drop target bs) \<noteq> XXH32 (take target bs) 0)))
                else Inr False) (\<lambda>bad.
         if bad then f_error ERROR_blockChecksum_invalid v1
         else if f_space c v1 \<ge> dx_maxBlockSize (f_ctx v1) then f_decode_direct c v1 selectedIn
         else f_decode_tmp c v1 selectedIn))"

definition f_getCBlock :: "df_call \<Rightarrow> df_vars \<Rightarrow> df_next outcome" where
  "f_getCBlock c v =
     (let x = f_ctx v in
      if f_left c v < dx_tmpInTarget x then f_goto storeCBlock (v\<lparr>f_ctx := x\<lparr>dx_tmpInSize := 0\<rparr>\<rparr>)
      else f_decodeBlock c (v\<lparr>f_srcPtr := f_srcPtr v + int (dx_tmpInTarget x)\<rparr>) (f_srcPtr v))"

definition f_storeCBlock :: "df_call \<Rightarrow> df_vars \<Rightarrow> df_next outcome" where
  "f_storeCBlock c v =
     chain (f_fill_tmpIn c (dx_tmpInTarget (f_ctx v)) v) (\<lambda>v1.
     let x = f_ctx v1 in
     if dx_tmpInSize x < dx_tmpInTarget x
     then f_stop (dx_tmpInTarget x - dx_tmpInSize x + (if blockChecksumFlag (dx_frameInfo x) then 4 else 0) + 4) v1
     else f_decodeBlock c v1 (dx_tmpIn x))"

section \<open>The end of a frame\<close>

definition f_frame_done :: "df_vars \<Rightarrow> df_next outcome" where
  "f_frame_done v = f_stop 0 (v\<lparr>f_ctx := LZ4F_resetDecompressionContext (f_ctx v)\<rparr>)"

definition f_checkSuffix :: "df_vars \<Rightarrow> bytes \<Rightarrow> df_next outcome" where
  "f_checkSuffix v bs =
     (if LZ4F_readLE32 bs \<noteq> XXH32_digest (dx_xxh (f_ctx v)) then f_error ERROR_contentChecksum_invalid v
      else f_frame_done v)"

definition f_storeSuffix :: "df_call \<Rightarrow> df_vars \<Rightarrow> df_next outcome" where
  "f_storeSuffix c v =
     chain (f_fill_tmpIn c 4 v) (\<lambda>v1.
     let x = f_ctx v1 in
     if dx_tmpInSize x < 4 then f_stop (4 - dx_tmpInSize x) v1
     else chain (f_bytes (f_room v1) (f_mem v1) (dx_tmpIn x) 4) (f_checkSuffix v1))"

definition f_getSuffix :: "df_call \<Rightarrow> df_vars \<Rightarrow> df_next outcome" where
  "f_getSuffix c v =
     (if dx_frameRemainingSize (f_ctx v) \<noteq> 0 then f_error ERROR_frameSize_wrong v
      else if \<not> contentChecksumFlag (dx_frameInfo (f_ctx v)) then f_frame_done v
      else if f_left c v < 4
      then f_storeSuffix c (v\<lparr>f_ctx := (f_ctx v)\<lparr>dx_tmpInSize := 0, dx_dStage := storeSuffix\<rparr>\<rparr>)
      else chain (f_bytes (f_room v) (f_mem v) (f_srcPtr v) 4) (f_checkSuffix (v\<lparr>f_srcPtr := f_srcPtr v + 4\<rparr>)))"

section \<open>Skippable frames\<close>

definition f_decodeSFrameSize :: "df_vars \<Rightarrow> bytes \<Rightarrow> df_next outcome" where
  "f_decodeSFrameSize v bs =
     (let SFrameSize = LZ4F_readLE32 bs; x = f_ctx v
      in f_goto skipSkippable
           (v\<lparr>f_ctx := x\<lparr>dx_frameInfo := (dx_frameInfo x)\<lparr>contentSize := ucast SFrameSize\<rparr>,
                        dx_tmpInTarget := unat SFrameSize\<rparr>\<rparr>))"

definition f_storeSFrameSize :: "df_call \<Rightarrow> df_vars \<Rightarrow> df_next outcome" where
  "f_storeSFrameSize c v =
     chain (f_fill_header c (dx_tmpInTarget (f_ctx v)) v) (\<lambda>v1.
     let x = f_ctx v1 in
     if dx_tmpInSize x < dx_tmpInTarget x then f_stop (dx_tmpInTarget x - dx_tmpInSize x) v1
     else f_decodeSFrameSize v1 (take 4 (drop 4 (dx_header x))))"

definition f_getSFrameSize :: "df_call \<Rightarrow> df_vars \<Rightarrow> df_next outcome" where
  "f_getSFrameSize c v =
     (if f_left c v \<ge> 4
      then chain (f_bytes (f_room v) (f_mem v) (f_srcPtr v) 4) (f_decodeSFrameSize (v\<lparr>f_srcPtr := f_srcPtr v + 4\<rparr>))
      else f_storeSFrameSize c
             (v\<lparr>f_ctx := (f_ctx v)\<lparr>dx_tmpInSize := 4, dx_tmpInTarget := 8, dx_dStage := storeSFrameSize\<rparr>\<rparr>))"

definition f_skipSkippable :: "df_call \<Rightarrow> df_vars \<Rightarrow> df_next outcome" where
  "f_skipSkippable c v =
     (let x = f_ctx v;
          k = min (dx_tmpInTarget x) (f_left c v);
          v1 = v\<lparr>f_srcPtr := f_srcPtr v + int k, f_ctx := x\<lparr>dx_tmpInTarget := dx_tmpInTarget x - k\<rparr>\<rparr>
      in if dx_tmpInTarget (f_ctx v1) \<noteq> 0 then f_stop (dx_tmpInTarget (f_ctx v1)) v1 else f_frame_done v1)"

section \<open>The machine\<close>

definition f_stage :: "df_call \<Rightarrow> df_vars \<Rightarrow> df_next outcome" where
  "f_stage c v =
     (case dx_dStage (f_ctx v) of
        getFrameHeader \<Rightarrow> f_getFrameHeader c v
      | storeFrameHeader \<Rightarrow> f_storeFrameHeader c v
      | stage_init \<Rightarrow> f_init c v
      | getBlockHeader \<Rightarrow> f_getBlockHeader c v
      | storeBlockHeader \<Rightarrow> f_storeBlockHeader c v
      | copyDirect \<Rightarrow> f_copyDirect c v
      | getBlockChecksum \<Rightarrow> f_getBlockChecksum c v
      | getCBlock \<Rightarrow> f_getCBlock c v
      | storeCBlock \<Rightarrow> f_storeCBlock c v
      | flushOut \<Rightarrow> f_flushOut c v
      | getSuffix \<Rightarrow> f_getSuffix c v
      | storeSuffix \<Rightarrow> f_storeSuffix c v
      | getSFrameSize \<Rightarrow> f_getSFrameSize c v
      | storeSFrameSize \<Rightarrow> f_storeSFrameSize c v
      | skipSkippable \<Rightarrow> f_skipSkippable c v)"

text \<open>
  The loop ends: a stage that asks for another one has taken something from the source, or it is
  followed by one of lower rank.
\<close>

definition f_rank :: "df_vars \<Rightarrow> nat" where
  "f_rank v =
     (case dx_dStage (f_ctx v) of
        getFrameHeader \<Rightarrow> 14
      | storeFrameHeader \<Rightarrow> (if dx_tmpInSize (f_ctx v) < dx_tmpInTarget (f_ctx v) then 12 else 13)
      | stage_init \<Rightarrow> 11
      | storeBlockHeader \<Rightarrow> 10
      | copyDirect \<Rightarrow> 9
      | getBlockChecksum \<Rightarrow> 8
      | getCBlock \<Rightarrow> 7
      | storeCBlock \<Rightarrow> 6
      | flushOut \<Rightarrow> 5
      | getBlockHeader \<Rightarrow> 4
      | getSFrameSize \<Rightarrow> 3
      | storeSFrameSize \<Rightarrow> 2
      | getSuffix \<Rightarrow> 1
      | storeSuffix \<Rightarrow> 1
      | skipSkippable \<Rightarrow> 0)"

definition f_measure :: "df_call \<Rightarrow> df_vars \<Rightarrow> nat" where
  "f_measure c v = 16 * f_left c v + f_rank v"

lemmas f_steps = f_goto_def f_stop_def f_error_def f_frame_done_def

lemma f_rank_bound: "f_rank v \<le> 14"
  by (simp add: f_rank_def split: dStage.split)

definition f_progress :: "df_call \<Rightarrow> df_vars \<Rightarrow> df_vars \<Rightarrow> bool" where
  "f_progress c v v' \<longleftrightarrow> f_left c v' < f_left c v \<or> f_left c v' \<le> f_left c v \<and> f_rank v' < f_rank v"

lemma progress_measure: "f_progress c v v' \<Longrightarrow> f_measure c v' < f_measure c v"
  using f_rank_bound [of v'] by (auto simp: f_progress_def f_measure_def)

lemma fill_header_src:
  "f_fill_header c target v = Inr v1 \<Longrightarrow>
   \<exists>k. k = min (target - dx_tmpInSize (f_ctx v)) (f_left c v) \<and> f_left c v1 = f_left c v - k
     \<and> dx_tmpInSize (f_ctx v1) = dx_tmpInSize (f_ctx v) + k \<and> dx_tmpInTarget (f_ctx v1) = dx_tmpInTarget (f_ctx v)
     \<and> dx_tmpInSize (f_ctx v) \<le> target"
  by (auto simp: f_fill_header_def Let_def chain_eq_Inr f_wanted_def f_left_def split: if_splits)

lemma fill_tmpIn_src:
  "f_fill_tmpIn c target v = Inr v1 \<Longrightarrow>
   \<exists>k. k = min (target - dx_tmpInSize (f_ctx v)) (f_left c v) \<and> f_left c v1 = f_left c v - k
     \<and> dx_tmpInSize (f_ctx v1) = dx_tmpInSize (f_ctx v) + k"
  by (auto simp: f_fill_tmpIn_def Let_def chain_eq_Inr f_wanted_def f_left_def split: if_splits)

lemma account_src: "f_account v p n = Inr v1 \<Longrightarrow> f_srcPtr v1 = f_srcPtr v"
  by (auto simp: f_account_def Let_def chain_eq_Inr)

lemma history_src: "f_history c v n b = Inr v1 \<Longrightarrow> f_srcPtr v1 = f_srcPtr v"
  by (auto simp: f_history_def Let_def chain_eq_Inr split: if_splits)

lemma place_src: "f_place_tmpOut v = Inr v1 \<Longrightarrow> f_srcPtr v1 = f_srcPtr v"
  by (auto simp: f_place_tmpOut_def Let_def chain_eq_Inr split: if_splits)

lemma f_left_cong: "f_srcPtr v1 = f_srcPtr v \<Longrightarrow> f_left c v1 = f_left c v"
  by (simp add: f_left_def)

text \<open>The stage that follows, and how much of the source is left.\<close>

lemma blockHeader_next:
  "f_blockHeader c v bs = Inr (Another v') \<Longrightarrow> f_left c v' = f_left c v \<and> f_rank v' \<le> 9"
  by (auto simp: f_blockHeader_def Let_def f_steps f_rank_def f_left_def split: if_splits)

lemma flushOut_next:
  "f_flushOut c v = Inr (Another v') \<Longrightarrow> f_left c v' = f_left c v \<and> f_rank v' = 4"
  by (auto simp: f_flushOut_def Let_def f_steps f_rank_def f_left_def chain_eq_Inr split: if_splits dest!: history_src)

lemma goto_next: "f_goto s v = Inr (Another v') \<longleftrightarrow> v' = v\<lparr>f_ctx := (f_ctx v)\<lparr>dx_dStage := s\<rparr>\<rparr>"
  by (auto simp: f_goto_def)

lemma decode_direct_next:
  assumes "f_decode_direct c v p = Inr (Another v')"
  shows "f_left c v' = f_left c v \<and> f_rank v' = 4"
proof -
  obtain v0 v1 v2 k where "f_account v0 (f_dstPtr v) k = Inr v1" "f_history c v1 k False = Inr v2" "f_srcPtr v0 = f_srcPtr v"
    "v' = (v2\<lparr>f_dstPtr := f_dstPtr v2 + int k\<rparr>)\<lparr>f_ctx := (f_ctx v2)\<lparr>dx_dStage := getBlockHeader\<rparr>\<rparr>"
    using assms
    by (auto simp: f_decode_direct_def Let_def chain_eq_Inr goto_next f_error_def split: if_splits prod.splits)
  then show ?thesis by (auto simp: f_rank_def f_left_def dest!: account_src history_src)
qed

lemma decode_tmp_next:
  assumes "f_decode_tmp c v p = Inr (Another v')"
  shows "f_left c v' = f_left c v \<and> f_rank v' = 4"
proof -
  obtain v0 where v0: "f_place_tmpOut v = Inr v0"
    using assms by (auto simp: f_decode_tmp_def chain_eq_Inr)
  obtain dict n where d: "f_dict (f_ctx v0) = (dict, n)" by (cases "f_dict (f_ctx v0)")
  obtain v1 v2 v3 k q where "f_account v1 q k = Inr v2" "f_srcPtr v1 = f_srcPtr v0"
    "f_flushOut c v3 = Inr (Another v')" "f_srcPtr v3 = f_srcPtr v2"
    using assms v0 d
    by (auto simp: f_decode_tmp_def Let_def chain_eq_Inr f_error_def split: if_splits)
  with v0 show ?thesis by (auto simp: f_left_def dest!: flushOut_next account_src place_src)
qed

lemma decodeBlock_next:
  "f_decodeBlock c v p = Inr (Another v') \<Longrightarrow> f_left c v' = f_left c v \<and> f_rank v' = 4"
  by (auto simp: f_decodeBlock_def Let_def chain_eq_Inr f_error_def f_left_def
      split: if_splits dest!: decode_direct_next decode_tmp_next)

lemma header_result_Another [simp]:
  "(case r of Inl e \<Rightarrow> f_error e w | Inr k \<Rightarrow> Inr (Another (u k))) = Inr (Another v') \<longleftrightarrow> (\<exists>k. r = Inr k \<and> v' = u k)"
  by (cases r) (auto simp: f_error_def)

definition header_sizes :: "bytes \<Rightarrow> header_result \<Rightarrow> bool" where
  "header_sizes src r =
     (case r of
        Header_Error _ \<Rightarrow> True | Skippable_Frame \<Rightarrow> minFHSize \<le> length src
      | Header_Incomplete n \<Rightarrow> minFHSize \<le> length src \<and> length src < n \<and> n \<le> maxFHSize
      | Frame_Header _ n \<Rightarrow> minFHSize \<le> n \<and> n \<le> length src \<and> n \<le> maxFHSize)"

lemma header_sizes_if:
  "(b \<Longrightarrow> header_sizes src r) \<Longrightarrow> (\<not> b \<Longrightarrow> header_sizes src r') \<Longrightarrow> header_sizes src (if b then r else r')"
  by simp

lemma header_sizes_result:
  "header_sizes src (Header_Error e)"
  "\<not> length src < minFHSize \<Longrightarrow> header_sizes src Skippable_Frame"
  "\<not> length src < minFHSize \<Longrightarrow> length src < minFHSize + (if a then 8 else 0) + (if b then 4 else 0) \<Longrightarrow>
   header_sizes src (Header_Incomplete (minFHSize + (if a then 8 else 0) + (if b then 4 else 0)))"
  "\<not> length src < minFHSize + (if a then 8 else 0) + (if b then 4 else 0) \<Longrightarrow>
   header_sizes src (Frame_Header p (minFHSize + (if a then 8 else 0) + (if b then 4 else 0)))"
  by (auto simp: header_sizes_def minFHSize_def maxFHSize_def)

lemma decodeHeader_sizes: "header_sizes src (LZ4F_decodeHeader src)"
  unfolding LZ4F_decodeHeader_def Let_def by (intro header_sizes_if header_sizes_result)

lemma storeHeader_stage:
  assumes "LZ4F_storeHeader own src x = Inr (Inr k, x1)"
  shows "f_rank (v\<lparr>f_ctx := x1\<rparr>) \<le> 12" and "4 \<le> k"
    and "k \<le> length src"
  using assms decodeHeader_sizes [of src]
  by (auto simp: LZ4F_storeHeader_def Let_def f_rank_def chain_eq_Inr header_sizes_def minFHSize_def
      split: header_result.splits if_splits)

lemma storeFrameHeader_next:
  assumes "f_storeFrameHeader c v = Inr (Another v')"
  shows "f_left c v' < f_left c v
    \<or> f_left c v' \<le> f_left c v \<and> f_rank v' \<le> 12 \<and> \<not> dx_tmpInSize (f_ctx v) < dx_tmpInTarget (f_ctx v)"
proof -
  obtain v1 x1 k where v1: "f_fill_header c (dx_tmpInTarget (f_ctx v)) v = Inr v1"
    "\<not> dx_tmpInSize (f_ctx v1) < dx_tmpInTarget (f_ctx v1)" "v' = v1\<lparr>f_ctx := x1\<rparr>"
    "LZ4F_storeHeader True (take (dx_tmpInTarget (f_ctx v1)) (dx_header (f_ctx v1))) (f_ctx v1) = Inr (Inr k, x1)"
    using assms by (auto simp: f_storeFrameHeader_def Let_def chain_eq_Inr f_stop_def split: if_splits)
  note f = fill_header_src [OF v1(1)]
  have l: "f_left c v' = f_left c v1" by (simp add: v1(3) f_left_def)
  show ?thesis
  proof (cases "dx_tmpInSize (f_ctx v) < dx_tmpInTarget (f_ctx v)")
    case True
    then have "f_left c v1 < f_left c v" using f v1(2) by auto
    with l show ?thesis by simp
  next
    case False
    with l f storeHeader_stage(1) [OF v1(4)] show ?thesis by (auto simp: v1(3))
  qed
qed

lemma f_left_upd [simp]:
  "f_left c (v\<lparr>f_ctx := x\<rparr>) = f_left c v" "f_left c (v\<lparr>f_mem := m\<rparr>) = f_left c v"
  "f_left c (v\<lparr>f_dstPtr := p\<rparr>) = f_left c v"
  by (simp_all add: f_left_def)

lemma getFrameHeader_next:
  assumes "f_getFrameHeader c v = Inr (Another v')" and "dx_dStage (f_ctx v) = getFrameHeader"
  shows "f_left c v' < f_left c v"
proof (cases "maxFHSize \<le> f_left c v")
  case True
  then obtain src x1 k where "LZ4F_storeHeader False src (f_ctx v) = Inr (Inr k, x1)"
    "v' = v\<lparr>f_ctx := x1, f_srcPtr := f_srcPtr v + int k\<rparr>"
    using assms by (auto simp: f_getFrameHeader_def chain_eq_Inr)
  with storeHeader_stage(2) [of False src "f_ctx v" k x1] True show ?thesis
    by (auto simp: f_left_def maxFHSize_def)
next
  case False
  then have "f_storeFrameHeader c (v\<lparr>f_ctx := (f_ctx v)\<lparr>dx_tmpInSize := 0, dx_tmpInTarget := minFHSize, dx_dStage := storeFrameHeader\<rparr>\<rparr>)
      = Inr (Another v')"
    using assms by (auto simp: f_getFrameHeader_def Let_def split: if_splits)
  from storeFrameHeader_next [OF this] show ?thesis by (simp add: minFHSize_def)
qed

lemma storeBlockHeader_next:
  assumes "f_storeBlockHeader c v = Inr (Another v')"
  shows "f_left c v' \<le> f_left c v \<and> f_rank v' \<le> 9 \<and> 4 \<le> dx_tmpInSize (f_ctx v) + f_left c v"
proof -
  obtain v1 bs where "f_fill_tmpIn c 4 v = Inr v1" "\<not> dx_tmpInSize (f_ctx v1) < 4" "f_blockHeader c v1 bs = Inr (Another v')"
    using assms by (auto simp: f_storeBlockHeader_def Let_def chain_eq_Inr f_stop_def split: if_splits)
  with fill_tmpIn_src [of c 4 v v1] blockHeader_next [of c v1 bs v'] show ?thesis by auto
qed

lemma getBlockHeader_next:
  assumes "f_getBlockHeader c v = Inr (Another v')"
  shows "f_left c v' < f_left c v"
proof (cases "4 \<le> f_left c v")
  case True
  then obtain bs where "f_blockHeader c (v\<lparr>f_srcPtr := f_srcPtr v + 4\<rparr>) bs = Inr (Another v')"
    using assms by (auto simp: f_getBlockHeader_def chain_eq_Inr)
  with blockHeader_next [OF this] True show ?thesis by (auto simp: f_left_def)
next
  case False
  with assms storeBlockHeader_next [of c _ v'] show ?thesis by (force simp: f_getBlockHeader_def f_left_def)
qed

lemma init_next:
  assumes "f_init c v = Inr (Another v')"
  shows "f_left c v' < f_left c v"
  using assms
  by (auto simp: f_init_def f_buffers_def Let_def f_error_def f_left_def split: if_splits dest!: getBlockHeader_next)

lemma copyDirect_next:
  assumes "f_copyDirect c v = Inr (Another v')"
  shows "f_left c v' \<le> f_left c v \<and> f_rank v' \<le> 8"
  using assms
  by (auto simp: f_copyDirect_def Let_def chain_eq_Inr f_stop_def goto_next f_rank_def f_left_def
      split: if_splits dest!: account_src history_src)

lemma getBlockChecksum_next:
  assumes "f_getBlockChecksum c v = Inr (Another v')"
  shows "f_left c v' \<le> f_left c v \<and> f_rank v' = 4"
proof -
  have chk: "f_left c v' = f_left c w \<and> f_rank v' = 4" if "f_checkBlock w bs = Inr (Another v')" for w bs
    using that by (auto simp: f_checkBlock_def f_steps f_rank_def split: if_splits)
  show ?thesis
  proof (cases "4 \<le> f_left c v \<and> dx_tmpInSize (f_ctx v) = 0")
    case True
    then obtain bs where "f_checkBlock (v\<lparr>f_srcPtr := f_srcPtr v + 4\<rparr>) bs = Inr (Another v')"
      using assms by (auto simp: f_getBlockChecksum_def chain_eq_Inr)
    from chk [OF this] show ?thesis by (simp add: f_left_def)
  next
    case False
    then obtain v1 bs where "f_fill_header c 4 v = Inr v1" "f_checkBlock v1 bs = Inr (Another v')"
      using assms unfolding f_getBlockChecksum_def if_not_P [OF False] by (auto simp: chain_eq_Inr f_stop_def split: if_splits)
    with chk [of v1 bs] fill_header_src [of c 4 v v1] show ?thesis by auto
  qed
qed

lemma getCBlock_next:
  assumes "f_getCBlock c v = Inr (Another v')"
  shows "f_left c v' \<le> f_left c v \<and> f_rank v' \<le> 6"
  using assms
  by (auto simp: f_getCBlock_def Let_def f_steps f_rank_def f_left_def split: if_splits dest!: decodeBlock_next)

lemma storeCBlock_next:
  assumes "f_storeCBlock c v = Inr (Another v')"
  shows "f_left c v' \<le> f_left c v \<and> f_rank v' = 4"
  using assms
  by (auto simp: f_storeCBlock_def Let_def chain_eq_Inr f_stop_def split: if_splits dest!: decodeBlock_next fill_tmpIn_src)

lemma decodeSFrameSize_next: "f_decodeSFrameSize v bs = Inr (Another v') \<Longrightarrow> f_left c v' = f_left c v \<and> f_rank v' = 0"
  by (auto simp: f_decodeSFrameSize_def Let_def f_goto_def f_rank_def f_left_def)

lemma storeSFrameSize_next:
  assumes "f_storeSFrameSize c v = Inr (Another v')"
  shows "f_left c v' \<le> f_left c v \<and> f_rank v' = 0"
  using assms
  by (auto simp: f_storeSFrameSize_def Let_def chain_eq_Inr f_stop_def split: if_splits
      dest!: decodeSFrameSize_next [where c = c] fill_header_src)

lemma getSFrameSize_next:
  assumes "f_getSFrameSize c v = Inr (Another v')"
  shows "f_left c v' \<le> f_left c v \<and> f_rank v' = 0"
  using assms
  by (auto simp: f_getSFrameSize_def chain_eq_Inr f_left_def split: if_splits
      dest!: decodeSFrameSize_next [where c = c] storeSFrameSize_next)

lemma suffix_next: "f_getSuffix c v \<noteq> Inr (Another v')" "f_storeSuffix c v \<noteq> Inr (Another v')" "f_skipSkippable c v \<noteq> Inr (Another v')"
  by (auto simp: f_getSuffix_def f_storeSuffix_def f_checkSuffix_def f_skipSkippable_def f_steps Let_def chain_eq_Inr split: if_splits)

lemma stage_progress:
  assumes "f_stage c v = Inr (Another v')"
  shows "f_progress c v v'"
proof -
  have r: "f_rank v = (case dx_dStage (f_ctx v) of
        getFrameHeader \<Rightarrow> 14
      | storeFrameHeader \<Rightarrow> (if dx_tmpInSize (f_ctx v) < dx_tmpInTarget (f_ctx v) then 12 else 13)
      | stage_init \<Rightarrow> 11 | storeBlockHeader \<Rightarrow> 10 | copyDirect \<Rightarrow> 9 | getBlockChecksum \<Rightarrow> 8 | getCBlock \<Rightarrow> 7
      | storeCBlock \<Rightarrow> 6 | flushOut \<Rightarrow> 5 | getBlockHeader \<Rightarrow> 4 | getSFrameSize \<Rightarrow> 3 | storeSFrameSize \<Rightarrow> 2
      | getSuffix \<Rightarrow> 1 | storeSuffix \<Rightarrow> 1 | skipSkippable \<Rightarrow> 0)"
    by (simp add: f_rank_def)
  show ?thesis
    using assms r unfolding f_stage_def f_progress_def
    by (cases "dx_dStage (f_ctx v)")
      (force simp: suffix_next split: if_splits
        dest: getFrameHeader_next storeFrameHeader_next init_next getBlockHeader_next storeBlockHeader_next copyDirect_next
          getBlockChecksum_next getCBlock_next storeCBlock_next flushOut_next getSFrameSize_next storeSFrameSize_next)+
qed

function LZ4F_stages :: "df_call \<Rightarrow> df_vars \<Rightarrow> df_next outcome" where
  "LZ4F_stages c v = (case f_stage c v of Inr (Another v1) \<Rightarrow> LZ4F_stages c v1 | r \<Rightarrow> r)"
  by pat_completeness auto
termination
  by (relation "measure (\<lambda>(c, v). f_measure c v)") (auto dest: stage_progress progress_measure)

declare LZ4F_stages.simps [simp del]

text \<open>
  At the end of a call the history is copied in front of \<open>tmpOut\<close>, unless the caller promises
  that the output stays where it is.
\<close>

definition f_preserve :: "df_call \<Rightarrow> df_vars \<Rightarrow> df_vars outcome" where
  "f_preserve c v =
     (let x = f_ctx v in
      if blockMode (dx_frameInfo x) = LZ4F_blockLinked \<and> dx_dict x \<noteq> dx_tmpOutBuffer x \<and> dx_dict x \<noteq> 0
         \<and> \<not> f_stableDst c \<and> 2 \<le> stage_no (dx_dStage x) \<and> stage_no (dx_dStage x) < stage_no getSuffix
      then
        if dx_dStage x = flushOut then
          let preserveSize = nat (dx_tmpOut x - dx_tmpOutBuffer x);
              copySize = min (if dx_tmpOutSize x > 65536 then 0 else 65536 - dx_tmpOutSize x) preserveSize;
              oldDictEnd = dx_dict x + int (dx_dictSize x) - int (dx_tmpOutStart x)
          in chain (require Assert_Failed (dx_tmpOutBuffer x \<noteq> 0)) (\<lambda>_.
             chain (f_memcpy (f_room v) (f_mem v) (dx_tmpOutBuffer x + int (preserveSize - copySize)) (oldDictEnd - int copySize) copySize)
               (\<lambda>m. Inr (v\<lparr>f_mem := m, f_ctx := x\<lparr>dx_dict := dx_tmpOutBuffer x, dx_dictSize := preserveSize + dx_tmpOutStart x\<rparr>\<rparr>)))
        else
          let oldDictEnd = dx_dict x + int (dx_dictSize x);
              newDictSize = min (dx_dictSize x) 65536
          in chain (f_memcpy (f_room v) (f_mem v) (dx_tmpOutBuffer x) (oldDictEnd - int newDictSize) newDictSize)
               (\<lambda>m. Inr (v\<lparr>f_mem := m,
                           f_ctx := x\<lparr>dx_dict := dx_tmpOutBuffer x, dx_dictSize := newDictSize,
                                     dx_tmpOut := dx_tmpOutBuffer x + int newDictSize\<rparr>\<rparr>))
      else Inr v)"

text \<open>What a call gives: the hint or the error, what it wrote and read, and the state it leaves.\<close>

record df_result =
  o_code :: u32
  o_dstSize :: nat
  o_srcSize :: nat
  o_mem :: memory
  o_room :: room
  o_ctx :: LZ4F_dctx

definition LZ4F_decompress ::
  "room \<Rightarrow> memory \<Rightarrow> LZ4F_dctx \<Rightarrow> int \<Rightarrow> nat \<Rightarrow> int \<Rightarrow> nat \<Rightarrow> bool \<Rightarrow> (nat \<Rightarrow> int) \<Rightarrow> (nat \<Rightarrow> int) \<Rightarrow> df_result outcome" where
  "LZ4F_decompress room m dctx dstBuffer dstSize srcBuffer srcSize stableDst newTmpIn newTmpOutBuffer =
     (let c = \<lparr>f_srcEnd = srcBuffer + int srcSize, f_dstStart = dstBuffer,
              f_dstEnd = (if dstBuffer \<noteq> 0 then dstBuffer + int dstSize else 0), f_stableDst = stableDst,
              f_tmpIn = newTmpIn, f_tmpOutBuffer = newTmpOutBuffer\<rparr>;
          v = \<lparr>f_ctx = dctx, f_mem = m, f_room = room, f_srcPtr = srcBuffer, f_dstPtr = dstBuffer, f_hint = 1\<rparr>
      in chain (require Assert_Failed (dstBuffer = 0 \<longrightarrow> dstSize = 0)) (\<lambda>_.
         chain (LZ4F_stages c v) (\<lambda>r.
         case r of
           Return_Now code v1 \<Rightarrow>
             Inr \<lparr>o_code = code, o_dstSize = 0, o_srcSize = 0, o_mem = f_mem v1, o_room = f_room v1, o_ctx = f_ctx v1\<rparr>
         | Another _ \<Rightarrow> Inl Assert_Failed
         | Done v1 \<Rightarrow>
             chain (f_preserve c v1) (\<lambda>v2.
             Inr \<lparr>o_code = of_nat (f_hint v2), o_dstSize = nat (f_dstPtr v2 - dstBuffer),
                  o_srcSize = nat (f_srcPtr v2 - srcBuffer), o_mem = f_mem v2, o_room = f_room v2, o_ctx = f_ctx v2\<rparr>))))"

definition LZ4F_decompress_usingDict ::
  "room \<Rightarrow> memory \<Rightarrow> LZ4F_dctx \<Rightarrow> int \<Rightarrow> nat \<Rightarrow> int \<Rightarrow> nat \<Rightarrow> int \<Rightarrow> nat \<Rightarrow> bool \<Rightarrow> (nat \<Rightarrow> int) \<Rightarrow> (nat \<Rightarrow> int) \<Rightarrow> df_result outcome" where
  "LZ4F_decompress_usingDict room m dctx dstBuffer dstSize srcBuffer srcSize dict dictLen stableDst newTmpIn newTmpOutBuffer =
     LZ4F_decompress room m
       (if stage_no (dx_dStage dctx) \<le> stage_no stage_init then dctx\<lparr>dx_dict := dict, dx_dictSize := dictLen\<rparr> else dctx)
       dstBuffer dstSize srcBuffer srcSize stableDst newTmpIn newTmpOutBuffer"

text \<open>
  \<open>LZ4F_getFrameInfo\<close> reads the header from a caller's buffer, or tells what a context knows of a
  frame that has begun; the result has the hint or the error, the preferences if it stores them,
  and the number of bytes it read in \<open>o_srcSize\<close>.
\<close>

definition LZ4F_getFrameInfo ::
  "room \<Rightarrow> memory \<Rightarrow> LZ4F_dctx \<Rightarrow> int \<Rightarrow> nat \<Rightarrow> (nat \<Rightarrow> int) \<Rightarrow> (nat \<Rightarrow> int) \<Rightarrow> (df_result \<times> LZ4F_preferences option) outcome" where
  "LZ4F_getFrameInfo room m dctx srcBuffer srcSize newTmpIn newTmpOutBuffer =
     (let fail = (\<lambda>code x. \<lparr>o_code = code, o_dstSize = 0, o_srcSize = 0, o_mem = m, o_room = room, o_ctx = x\<rparr>) in
      if stage_no (dx_dStage dctx) > stage_no storeFrameHeader then
        chain (LZ4F_decompress room m dctx 0 0 0 0 False newTmpIn newTmpOutBuffer) (\<lambda>r.
        Inr (r\<lparr>o_srcSize := 0\<rparr>, Some (dx_frameInfo dctx)))
      else if dx_dStage dctx = storeFrameHeader then Inr (fail (err0r ERROR_frameDecoding_alreadyStarted) dctx, None)
      else if srcBuffer = 0 then Inr (fail (err0r ERROR_srcPtr_wrong) dctx, None)
      else
        chain (f_bytes room m srcBuffer srcSize) (\<lambda>src.
        let hSize = LZ4F_headerSize src in
        if LZ4F_isError hSize then Inr (fail hSize dctx, None)
        else if srcSize < unat hSize then Inr (fail (err0r ERROR_frameHeader_incomplete) dctx, None)
        else
          chain (LZ4F_storeHeader False (take (unat hSize) src) dctx) (\<lambda>(r, x).
          case r of
            Inl e \<Rightarrow> Inr (fail (err0r e) x, Some (dx_frameInfo x))
          | Inr k \<Rightarrow> Inr ((fail 4 x)\<lparr>o_srcSize := k\<rparr>, Some (dx_frameInfo x)))))"


end
