(* ===== verification/Lz4_Frame_Roundtrip.thy ===== *)
theory Lz4_Frame_Roundtrip
  imports Lz4_Frame_Decompress Lz4_Roundtrip Lz4_Frame_Spec
begin

text \<open>
  The frame decompressor against the meaning of a frame: a frame that has a meaning, given whole
  and with room for its content and one block more, is decompressed by one call to that content.
  The stages are taken one after the other; the invariant ties the context at the beginning of
  a block to the bytes that are left and to the output so far.
\<close>

section \<open>Ranges and the loop\<close>

lemma f_ok_lends: "f_ok room p n \<longleftrightarrow> lends room p (p + int n)"
  by (auto simp: f_ok_def lends_def)

lemma f_bytes_lent: "lends room p (p + int n) \<Longrightarrow> f_bytes room m p n = Inr (mem_bytes m p n)"
  by (simp add: f_bytes_def f_ok_lends)

lemma f_memcpy_lent:
  "lends room s (s + int n) \<Longrightarrow> lends room d (d + int n) \<Longrightarrow> d + int n \<le> s \<or> s + int n \<le> d
   \<Longrightarrow> f_memcpy room m d s n = Inr (memmove m d s n)"
  by (simp add: f_memcpy_def f_ok_lends)

lemma mem_bytes_memmove: "mem_bytes (memmove m d s n) d n = mem_bytes m s n"
  by (rule nth_equalityI) (auto simp: memmove_def)

lemma stages_Another: "f_stage c v = Inr (Another v') \<Longrightarrow> LZ4F_stages c v = LZ4F_stages c v'"
  by (subst LZ4F_stages.simps) simp

lemma stages_same: "f_stage c v = f_stage c v' \<Longrightarrow> LZ4F_stages c v = LZ4F_stages c v'"
  by (subst (1 2) LZ4F_stages.simps) simp

lemma stages_Done: "f_stage c v = Inr (Done v') \<Longrightarrow> LZ4F_stages c v = Inr (Done v')"
  by (subst LZ4F_stages.simps) simp

lemma lz4_decode_extends: "lz4_decode bs hist = Some W \<Longrightarrow> \<exists>xs. W = hist @ xs"
proof (induction bs hist rule: lz4_decode.induct)
  case (2 t bs out)
  have copy: "\<exists>xs. lz4_copy h off n = h @ xs" for h off n
  proof (induction n arbitrary: h)
    case (Suc n)
    from Suc [of "h @ [h ! (length h - off)]"] show ?case by auto
  qed simp
  show ?case
  proof (cases "lz4_len (unat (drop_bit 4 t)) bs")
    case (Some q)
    obtain ll bs1 where q: "q = (ll, bs1)" by (cases q)
    show ?thesis
    proof (cases "length bs1 = ll")
      case True
      with "2.prems" Some q show ?thesis by auto
    next
      case False
      let ?off = "unat (LZ4_readLE16 (drop ll bs1))"
      obtain ml bs2 where more: "lz4_len (unat (t AND 15)) (drop (ll + 2) bs1) = Some (ml, bs2)"
        and g: "\<not> length bs1 < ll" "\<not> length bs1 < ll + 2" "\<not> (?off = 0 \<or> length (out @ take ll bs1) < ?off)"
        and d: "lz4_decode bs2 (lz4_copy (out @ take ll bs1) ?off (ml + 4)) = Some W"
        using "2.prems" False by (auto simp: Some q Let_def split: option.splits if_splits)
      from "2.IH" [OF Some q [symmetric] g(1) False g(2) refl refl g(3) more refl d]
      obtain xs where "W = lz4_copy (out @ take ll bs1) ?off (ml + 4) @ xs" by blast
      with copy [of "out @ take ll bs1" ?off "ml + 4"] show ?thesis by auto
    qed
  qed (use "2.prems" in simp)
qed simp

section \<open>The invariant between blocks\<close>

text \<open>The caller's buffers, and the source that is left, \<open>bs\<close>.\<close>

definition io_ok :: "df_call \<Rightarrow> df_vars \<Rightarrow> bytes \<Rightarrow> bool" where
  "io_ok c v bs \<longleftrightarrow>
     0 < f_srcPtr v \<and> f_srcPtr v + int (length bs) = f_srcEnd c \<and> f_srcEnd c < 4294967296
     \<and> mem_bytes (f_mem v) (f_srcPtr v) (length bs) = bs
     \<and> 0 < f_dstStart c \<and> f_dstStart c \<le> f_dstPtr v \<and> f_dstPtr v \<le> f_dstEnd c \<and> f_dstEnd c < 4294967296
     \<and> lends (f_room v) (f_srcPtr v) (f_srcEnd c) \<and> lends (f_room v) (f_dstStart c) (f_dstEnd c)
     \<and> (f_srcEnd c \<le> f_dstStart c \<or> f_dstEnd c \<le> f_srcPtr v)"

text \<open>The running checksum and size, and the history, for the output so far, \<open>out\<close>.\<close>

definition sums_ok :: "LZ4F_dctx \<Rightarrow> bytes \<Rightarrow> bool" where
  "sums_ok x out \<longleftrightarrow>
     (contentChecksumFlag (dx_frameInfo x) \<longrightarrow> xxh_rep 0 (dx_xxh x) out)
     \<and> dx_frameRemainingSize x =
         (if contentSize (dx_frameInfo x) \<noteq> 0 then contentSize (dx_frameInfo x) - of_nat (length out) else 0)"

definition dict_holds :: "df_call \<Rightarrow> LZ4F_dctx \<Rightarrow> bytes \<Rightarrow> bool" where
  "dict_holds c x out \<longleftrightarrow>
     (if blockMode (dx_frameInfo x) = LZ4F_blockLinked
      then dx_dictSize x = length out \<and> (out \<noteq> [] \<longrightarrow> dx_dict x = f_dstStart c)
      else dx_dictSize x = 0)"

definition between_blocks :: "df_call \<Rightarrow> df_vars \<Rightarrow> LZ4F_preferences \<Rightarrow> bytes \<Rightarrow> bytes \<Rightarrow> bool" where
  "between_blocks c v p bs out \<longleftrightarrow>
     io_ok c v bs \<and> dx_frameInfo (f_ctx v) = p \<and> dx_maxBlockSize (f_ctx v) = block_max p
     \<and> length (dx_header (f_ctx v)) = 19
     \<and> f_dstPtr v = f_dstStart c + int (length out)
     \<and> mem_bytes (f_mem v) (f_dstStart c) (length out) = out
     \<and> sums_ok (f_ctx v) out \<and> dict_holds c (f_ctx v) out"

lemma io_left: "io_ok c v bs \<Longrightarrow> f_left c v = length bs"
  unfolding io_ok_def f_left_def by linarith

lemma mem_bytes_take: "n \<le> k \<Longrightarrow> mem_bytes m p n = take n (mem_bytes m p k)"
  by (rule nth_equalityI) auto

lemma mem_bytes_drop: "n \<le> k \<Longrightarrow> mem_bytes m (p + int n) (k - n) = drop n (mem_bytes m p k)"
  by (rule nth_equalityI) (auto simp: algebra_simps)

lemma io_bytes:
  assumes "io_ok c v bs" and "n \<le> length bs"
  shows "f_bytes (f_room v) (f_mem v) (f_srcPtr v) n = Inr (take n bs)"
    and "lends (f_room v) (f_srcPtr v) (f_srcPtr v + int n)"
    and "mem_bytes (f_mem v) (f_srcPtr v) n = take n bs"
proof -
  show lent: "lends (f_room v) (f_srcPtr v) (f_srcPtr v + int n)"
    by (rule lends_mono [of _ "f_srcPtr v" "f_srcEnd c"]) (use assms in \<open>auto simp: io_ok_def\<close>)
  show b: "mem_bytes (f_mem v) (f_srcPtr v) n = take n bs"
    using assms mem_bytes_take [of n "length bs" "f_mem v" "f_srcPtr v"] by (simp add: io_ok_def)
  show "f_bytes (f_room v) (f_mem v) (f_srcPtr v) n = Inr (take n bs)"
    using f_bytes_lent [OF lent] b by simp
qed

lemma io_skip:
  assumes "io_ok c v bs" and "n \<le> length bs"
  shows "io_ok c (v\<lparr>f_srcPtr := f_srcPtr v + int n\<rparr>) (drop n bs)"
proof -
  have "lends (f_room v) (f_srcPtr v + int n) (f_srcEnd c)"
    by (rule lends_mono [of _ "f_srcPtr v" "f_srcEnd c"]) (use assms in \<open>auto simp: io_ok_def\<close>)
  moreover have "mem_bytes (f_mem v) (f_srcPtr v + int n) (length bs - n) = drop n bs"
    using assms mem_bytes_drop [of n "length bs" "f_mem v" "f_srcPtr v"] by (simp add: io_ok_def)
  ultimately show ?thesis using assms by (auto simp: io_ok_def)
qed

lemma io_ctx [simp]:
  "io_ok c (v\<lparr>f_ctx := x\<rparr>) bs = io_ok c v bs" "io_ok c (v\<lparr>f_hint := n\<rparr>) bs = io_ok c v bs"
  by (simp_all add: io_ok_def)

text \<open>Output of \<open>k\<close> bytes, anything beyond them within \<open>cap\<close> being of no account.\<close>

lemma io_write:
  assumes "io_ok c v bs" and "changed (f_mem v) m (f_dstPtr v) (f_dstPtr v + int cap)"
    and "f_dstPtr v + int cap \<le> f_dstEnd c" and "k \<le> cap"
  shows "io_ok c (v\<lparr>f_mem := m, f_dstPtr := f_dstPtr v + int k\<rparr>) bs"
proof -
  have "mem_bytes m (f_srcPtr v) (length bs) = mem_bytes (f_mem v) (f_srcPtr v) (length bs)"
    by (rule mem_bytes_outside [OF assms(2)]) (use assms in \<open>auto simp: io_ok_def\<close>)
  with assms show ?thesis by (auto simp: io_ok_def)
qed

lemma sums_step:
  assumes "sums_ok x out" and "xxh1 = (if contentChecksumFlag (dx_frameInfo x) then XXH32_update (dx_xxh x) ys else dx_xxh x)"
  shows "sums_ok (x\<lparr>dx_xxh := xxh1, dx_frameRemainingSize := (if contentSize (dx_frameInfo x) \<noteq> 0
      then dx_frameRemainingSize x - of_nat (length ys) else dx_frameRemainingSize x)\<rparr>) (out @ ys)"
  using assms by (auto simp: sums_ok_def intro: xxh_rep_upd)

lemma account_step:
  assumes "sums_ok (f_ctx v) out" and "lends (f_room v) p (p + int n)" and "mem_bytes (f_mem v) p n = ys"
  shows "\<exists>h r. f_account v p n = Inr (v\<lparr>f_ctx := (f_ctx v)\<lparr>dx_xxh := h, dx_frameRemainingSize := r\<rparr>\<rparr>)
    \<and> sums_ok ((f_ctx v)\<lparr>dx_xxh := h, dx_frameRemainingSize := r\<rparr>) (out @ ys)"
  using sums_step [OF assms(1) refl, of ys] assms(3) f_bytes_lent [OF assms(2), of "f_mem v"]
  by (auto simp: f_account_def Let_def intro!: exI)

lemma history_step:
  assumes "dict_holds c (f_ctx v) out" and "f_dstPtr v = f_dstStart c + int (length out)" and "0 < f_dstStart c"
  shows "\<exists>d n. f_history c v (length ys) False = Inr (v\<lparr>f_ctx := (f_ctx v)\<lparr>dx_dict := d, dx_dictSize := n\<rparr>\<rparr>)
    \<and> dict_holds c ((f_ctx v)\<lparr>dx_dict := d, dx_dictSize := n\<rparr>) (out @ ys)"
proof (cases "blockMode (dx_frameInfo (f_ctx v)) = LZ4F_blockLinked")
  case True
  define x where "x = (f_ctx v)\<lparr>dx_dict := f_dstStart c, dx_dictSize := length out + length ys\<rparr>"
  have "LZ4F_updateDict (f_room v) (f_mem v) (f_ctx v) (f_dstPtr v) (length ys) (f_dstStart c) False = Inr (f_mem v, x)"
    using assms True by (cases "out = []") (simp_all add: LZ4F_updateDict_def dict_holds_def Let_def x_def)
  with True have "f_history c v (length ys) False = Inr (v\<lparr>f_ctx := x\<rparr>)" by (simp add: f_history_def)
  moreover have "dict_holds c x (out @ ys)" using True by (simp add: dict_holds_def x_def)
  ultimately show ?thesis unfolding x_def by blast
next
  case False
  then have "f_history c v (length ys) False = Inr (v\<lparr>f_ctx := (f_ctx v)\<lparr>dx_dict := dx_dict (f_ctx v), dx_dictSize := dx_dictSize (f_ctx v)\<rparr>\<rparr>)"
    by (simp add: f_history_def)
  with False assms(1) show ?thesis
    by (intro exI [of _ "dx_dict (f_ctx v)"] exI [of _ "dx_dictSize (f_ctx v)"]) (auto simp: dict_holds_def)
qed

lemma sums_ok_upd [simp]:
  "sums_ok (x\<lparr>dx_dStage := s\<rparr>) out = sums_ok x out" "sums_ok (x\<lparr>dx_tmpInTarget := n\<rparr>) out = sums_ok x out"
  "sums_ok (x\<lparr>dx_tmpInSize := n\<rparr>) out = sums_ok x out" "sums_ok (x\<lparr>dx_blockChecksum := h\<rparr>) out = sums_ok x out"
  "sums_ok (x\<lparr>dx_dict := d, dx_dictSize := n\<rparr>) out = sums_ok x out"
  by (simp_all add: sums_ok_def)

lemma dict_holds_upd [simp]:
  "dict_holds c (x\<lparr>dx_dStage := s\<rparr>) out = dict_holds c x out" "dict_holds c (x\<lparr>dx_tmpInTarget := n\<rparr>) out = dict_holds c x out"
  "dict_holds c (x\<lparr>dx_tmpInSize := n\<rparr>) out = dict_holds c x out" "dict_holds c (x\<lparr>dx_blockChecksum := h\<rparr>) out = dict_holds c x out"
  "dict_holds c (x\<lparr>dx_xxh := h, dx_frameRemainingSize := r\<rparr>) out = dict_holds c x out"
  by (simp_all add: dict_holds_def)

lemma readLE32_take [simp]: "4 \<le> n \<Longrightarrow> LZ4F_readLE32 (take n bs) = LZ4F_readLE32 bs"
  by (simp add: LZ4F_readLE32_def)

lemma uncompressed_flag: "h AND LZ4F_BLOCKUNCOMPRESSED_FLAG \<noteq> 0 \<longleftrightarrow> LZ4F_BLOCKUNCOMPRESSED_FLAG \<le> h"
proof -
  have flag: "LZ4F_BLOCKUNCOMPRESSED_FLAG = push_bit 31 1" by (simp add: LZ4F_BLOCKUNCOMPRESSED_FLAG_def)
  have fb: "bit LZ4F_BLOCKUNCOMPRESSED_FLAG k \<longleftrightarrow> k = 31" for k
    unfolding flag by (auto simp only: bit_push_bit_iff bit_1_iff possible_bit_word) simp
  have "h AND LZ4F_BLOCKUNCOMPRESSED_FLAG = (if bit h 31 then LZ4F_BLOCKUNCOMPRESSED_FLAG else 0)"
    by (rule bit_word_eqI) (auto simp: bit_and_iff fb)
  moreover have "LZ4F_BLOCKUNCOMPRESSED_FLAG \<noteq> 0" by (simp add: LZ4F_BLOCKUNCOMPRESSED_FLAG_def)
  ultimately have "h AND LZ4F_BLOCKUNCOMPRESSED_FLAG \<noteq> 0 \<longleftrightarrow> bit h 31" by simp
  also have "\<dots> \<longleftrightarrow> bit (unat h) 31" by (simp add: bit_unsigned_iff)
  also have "\<dots> \<longleftrightarrow> odd (unat h div 2 ^ 31)" by (rule bit_iff_odd)
  also have "\<dots> \<longleftrightarrow> 2147483648 \<le> unat h"
  proof (cases "unat h < 2147483648")
    case False
    then have "unat h div 2147483648 = 1" using unat_less_2p32 [of h] by (intro div_nat_eqI) auto
    with False show ?thesis by simp
  qed simp
  also have "\<dots> \<longleftrightarrow> LZ4F_BLOCKUNCOMPRESSED_FLAG \<le> h" by (simp add: word_le_nat_alt LZ4F_BLOCKUNCOMPRESSED_FLAG_def)
  finally show ?thesis .
qed

section \<open>One block\<close>

text \<open>What the size word before a block leads to.\<close>

lemma block_header:
  assumes "between_blocks c v p bs out" and "dx_dStage (f_ctx v) = getBlockHeader" and "4 \<le> length bs"
  shows "f_stage c v = f_blockHeader c (v\<lparr>f_srcPtr := f_srcPtr v + 4\<rparr>) (take 4 bs)"
proof -
  have io: "io_ok c v bs" using assms(1) by (simp add: between_blocks_def)
  show ?thesis using io_bytes(1) [OF io assms(3)] io_left [OF io] assms(2,3) by (simp add: f_stage_def f_getBlockHeader_def)
qed

lemma getBlockChecksum_step:
  assumes "io_ok c v bs" and "4 \<le> length bs" and "dx_tmpInSize (f_ctx v) = 0"
    and "XXH32_digest (dx_blockChecksum (f_ctx v)) = LZ4F_readLE32 bs"
  shows "f_getBlockChecksum c v = f_goto getBlockHeader (v\<lparr>f_srcPtr := f_srcPtr v + 4\<rparr>)"
  using io_bytes(1) [OF assms(1,2)] io_left [OF assms(1)] assms(2-4)
  by (simp add: f_getBlockChecksum_def f_checkBlock_def)

text \<open>What does not touch the invariant, skipping a part of the source, and delivering output.\<close>

lemma between_upd [simp]:
  "between_blocks c (v\<lparr>f_ctx := x\<lparr>dx_dStage := s\<rparr>\<rparr>) p bs out = between_blocks c (v\<lparr>f_ctx := x\<rparr>) p bs out"
  "between_blocks c (v\<lparr>f_ctx := x\<lparr>dx_tmpInTarget := n\<rparr>\<rparr>) p bs out = between_blocks c (v\<lparr>f_ctx := x\<rparr>) p bs out"
  "between_blocks c (v\<lparr>f_ctx := x\<lparr>dx_tmpInSize := n\<rparr>\<rparr>) p bs out = between_blocks c (v\<lparr>f_ctx := x\<rparr>) p bs out"
  "between_blocks c (v\<lparr>f_ctx := x\<lparr>dx_blockChecksum := h\<rparr>\<rparr>) p bs out = between_blocks c (v\<lparr>f_ctx := x\<rparr>) p bs out"
  "between_blocks c (v\<lparr>f_ctx := f_ctx v\<rparr>) p bs out = between_blocks c v p bs out"
  "between_blocks c (v\<lparr>f_mem := f_mem v\<rparr>) p bs out = between_blocks c v p bs out"
  by (simp_all add: between_blocks_def)

lemma between_io: "between_blocks c v p bs out \<Longrightarrow> io_ok c v bs"
  by (simp add: between_blocks_def)

lemma between_skip:
  assumes "between_blocks c v p bs out" and "n \<le> length bs"
  shows "between_blocks c (v\<lparr>f_srcPtr := f_srcPtr v + int n\<rparr>) p (drop n bs) out"
  using io_skip [OF between_io [OF assms(1)] assms(2)] assms(1) by (simp add: between_blocks_def)

lemma between_goto:
  "between_blocks c v p bs out \<Longrightarrow> f_goto s v = Inr (Another (v\<lparr>f_ctx := (f_ctx v)\<lparr>dx_dStage := s\<rparr>\<rparr>))
   \<and> between_blocks c (v\<lparr>f_ctx := (f_ctx v)\<lparr>dx_dStage := s\<rparr>\<rparr>) p bs out"
  by (simp add: f_goto_def)

lemma deliver:
  assumes inv: "between_blocks c (v\<lparr>f_mem := m0\<rparr>) p bs out"
    and ch: "changed m0 (f_mem v) (f_dstPtr v) (f_dstPtr v + int cap)" and cap: "f_dstPtr v + int cap \<le> f_dstEnd c" "length ys \<le> cap"
    and ys: "mem_bytes (f_mem v) (f_dstPtr v) (length ys) = ys"
    and q: "lends (f_room v) q (q + int (length ys))" "mem_bytes (f_mem v) q (length ys) = ys"
  shows "\<exists>x1 x2. f_account v q (length ys) = Inr (v\<lparr>f_ctx := x1\<rparr>) \<and> f_history c (v\<lparr>f_ctx := x1\<rparr>) (length ys) False = Inr (v\<lparr>f_ctx := x2\<rparr>)
    \<and> between_blocks c (v\<lparr>f_ctx := x2, f_dstPtr := f_dstPtr v + int (length ys)\<rparr>) p bs (out @ ys)
    \<and> dx_blockChecksum x2 = dx_blockChecksum (f_ctx v)"
proof -
  note i = inv [unfolded between_blocks_def, simplified]
  have dst: "f_dstPtr v = f_dstStart c + int (length out)" "mem_bytes m0 (f_dstStart c) (length out) = out" "0 < f_dstStart c"
    using i by (simp_all add: io_ok_def)
  obtain h r where a: "f_account v q (length ys) = Inr (v\<lparr>f_ctx := (f_ctx v)\<lparr>dx_xxh := h, dx_frameRemainingSize := r\<rparr>\<rparr>)"
    "sums_ok ((f_ctx v)\<lparr>dx_xxh := h, dx_frameRemainingSize := r\<rparr>) (out @ ys)"
    using account_step [of v out q "length ys" ys] i q by auto
  define w where "w = v\<lparr>f_ctx := (f_ctx v)\<lparr>dx_xxh := h, dx_frameRemainingSize := r\<rparr>\<rparr>"
  obtain d k where b: "f_history c w (length ys) False = Inr (w\<lparr>f_ctx := (f_ctx w)\<lparr>dx_dict := d, dx_dictSize := k\<rparr>\<rparr>)"
    "dict_holds c ((f_ctx w)\<lparr>dx_dict := d, dx_dictSize := k\<rparr>) (out @ ys)"
    using history_step [of c w out ys] i dst by (auto simp: w_def)
  have io: "io_ok c (v\<lparr>f_dstPtr := f_dstPtr v + int (length ys)\<rparr>) bs"
    using io_write [of c "v\<lparr>f_mem := m0\<rparr>" bs "f_mem v" cap "length ys"] i ch cap by (simp add: io_ok_def)
  have "mem_bytes (f_mem v) (f_dstStart c) (length out) = out"
    using mem_bytes_outside [OF ch, of "f_dstStart c" "length out"] dst by simp
  then have out: "mem_bytes (f_mem v) (f_dstStart c) (length (out @ ys)) = out @ ys"
    using ys dst(1) by (simp add: mem_bytes_add)
  have bb: "between_blocks c (w\<lparr>f_ctx := (f_ctx w)\<lparr>dx_dict := d, dx_dictSize := k\<rparr>, f_dstPtr := f_dstPtr v + int (length ys)\<rparr>) p bs (out @ ys)"
    using i io out a(2) b(2) dst(1) unfolding between_blocks_def by (simp add: w_def io_ok_def)
  show ?thesis
    by (rule exI [of _ "f_ctx w"], rule exI [of _ "(f_ctx w)\<lparr>dx_dict := d, dx_dictSize := k\<rparr>"])
      (use a(1) b(1) bb in \<open>simp add: w_def\<close>)
qed

text \<open>A block of the frame, as the bytes \<open>bs\<close> begin with one.\<close>

definition block_at :: "LZ4F_preferences \<Rightarrow> bytes \<Rightarrow> u32 \<Rightarrow> bytes \<Rightarrow> nat \<Rightarrow> bool" where
  "block_at p bs h body used \<longleftrightarrow>
     LZ4F_readLE32 bs = h \<and> h \<noteq> 0 \<and> unat (h AND 0x7FFFFFFF) = length body \<and> take (length body) (drop 4 bs) = body
     \<and> used = 4 + length body + (if blockChecksumFlag p then 4 else 0) \<and> used \<le> length bs
     \<and> (blockChecksumFlag p \<longrightarrow> LZ4F_readLE32 (drop (4 + length body) bs) = XXH32 body 0)"

lemma copyDirect_step:
  assumes inv: "between_blocks c v p bs out" and n: "dx_tmpInTarget (f_ctx v) = length body" "length body \<le> length bs"
    and body: "body = take (length body) bs" and space: "f_dstPtr v + int (length body) \<le> f_dstEnd c"
  shows "\<exists>w. f_copyDirect c v = (if blockChecksumFlag p then f_goto getBlockChecksum (w\<lparr>f_ctx := (f_ctx w)\<lparr>dx_tmpInSize := 0\<rparr>\<rparr>)
      else f_goto getBlockHeader w)
    \<and> between_blocks c w p (drop (length body) bs) (out @ body) \<and> f_room w = f_room v
    \<and> (blockChecksumFlag p \<longrightarrow> dx_blockChecksum (f_ctx w) = XXH32_update (dx_blockChecksum (f_ctx v)) body)"
proof -
  define n where "n = length body"
  note io = between_io [OF inv]
  have p: "dx_frameInfo (f_ctx v) = p" using inv by (simp add: between_blocks_def)
  define m where "m = memmove (f_mem v) (f_dstPtr v) (f_srcPtr v) n"
  have src: "lends (f_room v) (f_srcPtr v) (f_srcPtr v + int n)" "mem_bytes (f_mem v) (f_srcPtr v) n = body"
    using io_bytes(2,3) [OF io assms(3)] body by (simp_all add: n_def)
  have dst: "lends (f_room v) (f_dstPtr v) (f_dstPtr v + int n)"
    by (rule lends_mono [of _ "f_dstStart c" "f_dstEnd c"]) (use io space in \<open>auto simp: io_ok_def n_def\<close>)
  have apart: "f_dstPtr v + int n \<le> f_srcPtr v \<or> f_srcPtr v + int n \<le> f_dstPtr v"
    using io space assms(3) unfolding io_ok_def n_def by auto
  have copy: "f_memcpy (f_room v) (f_mem v) (f_dstPtr v) (f_srcPtr v) n = Inr m"
    unfolding m_def by (rule f_memcpy_lent [OF src(1) dst apart])
  have ch: "changed (f_mem v) m (f_dstPtr v) (f_dstPtr v + int n)" using memmove_changed [of "int n"] by (simp add: m_def)
  have mem: "mem_bytes m (f_srcPtr v) n = body" "mem_bytes m (f_dstPtr v) n = body"
    using mem_bytes_outside [OF ch, of "f_srcPtr v" n] apart src(2) mem_bytes_memmove [of "f_mem v" "f_dstPtr v" "f_srcPtr v" n]
    by (auto simp: m_def)
  define v1 where "v1 = v\<lparr>f_mem := m, f_ctx := (f_ctx v)\<lparr>dx_blockChecksum :=
      (if blockChecksumFlag p then XXH32_update (dx_blockChecksum (f_ctx v)) body else dx_blockChecksum (f_ctx v))\<rparr>\<rparr>"
  have "between_blocks c (v1\<lparr>f_mem := f_mem v\<rparr>) p bs out"
    using inv by (simp add: between_blocks_def v1_def)
  from deliver [OF this, of n body "f_srcPtr v"] ch space mem src
  obtain x1 x2 where d: "f_account v1 (f_srcPtr v) n = Inr (v1\<lparr>f_ctx := x1\<rparr>)"
    "f_history c (v1\<lparr>f_ctx := x1\<rparr>) n False = Inr (v1\<lparr>f_ctx := x2\<rparr>)"
    "between_blocks c (v1\<lparr>f_ctx := x2, f_dstPtr := f_dstPtr v1 + int n\<rparr>) p bs (out @ body)"
    "dx_blockChecksum x2 = dx_blockChecksum (f_ctx v1)"
    by (auto simp: v1_def n_def)
  define w where "w = v1\<lparr>f_ctx := x2, f_srcPtr := f_srcPtr v1 + int n, f_dstPtr := f_dstPtr v1 + int n\<rparr>"
  have room: "min n (min (f_left c v) (f_space c v)) = n"
    using io_left [OF io] assms(3) space by (simp add: f_space_def n_def)
  have "f_dstPtr v \<noteq> 0" using io by (simp add: io_ok_def)
  then have "f_copyDirect c v = (if blockChecksumFlag p then f_goto getBlockChecksum (w\<lparr>f_ctx := (f_ctx w)\<lparr>dx_tmpInSize := 0\<rparr>\<rparr>)
      else f_goto getBlockHeader w)"
    using d(1,2) assms(2) unfolding f_copyDirect_def Let_def p room n_def [symmetric] assms(2) copy chain_Inr mem(1)
      v1_def [symmetric] by (simp add: w_def)
  moreover have "between_blocks c w p (drop n bs) (out @ body)"
    using between_skip [OF d(3), of n] assms(3) by (simp add: w_def n_def between_blocks_def io_ok_def)
  ultimately show ?thesis using d(4) by (intro exI [of _ w]) (simp add: w_def v1_def n_def)
qed

lemma stored_step:
  assumes inv: "between_blocks c v p bs out" and st: "dx_dStage (f_ctx v) = getBlockHeader"
    and b: "block_at p bs h body used" and stored: "LZ4F_BLOCKUNCOMPRESSED_FLAG \<le> h" and max: "length body \<le> block_max p"
    and space: "f_dstPtr v + int (length body) \<le> f_dstEnd c"
  shows "\<exists>w. LZ4F_stages c v = LZ4F_stages c w \<and> between_blocks c w p (drop used bs) (out @ body)
    \<and> dx_dStage (f_ctx w) = getBlockHeader \<and> f_room w = f_room v"
proof -
  let ?n = "length body" and ?flag = "blockChecksumFlag p" and ?x = "f_ctx v"
  note h = b [unfolded block_at_def]
  have hd: "LZ4F_readLE32 bs = h" "h \<noteq> 0" "unat (h AND 0x7FFFFFFF) = ?n" "4 \<le> length bs" using h by simp_all
  have p: "dx_frameInfo ?x = p" "dx_maxBlockSize ?x = block_max p" using inv by (simp_all add: between_blocks_def)
  define v1 where "v1 = (v\<lparr>f_srcPtr := f_srcPtr v + 4\<rparr>)\<lparr>f_ctx := ?x\<lparr>dx_tmpInTarget := ?n,
      dx_blockChecksum := (if ?flag then XXH32_reset 0 else dx_blockChecksum ?x), dx_dStage := copyDirect\<rparr>\<rparr>"
  have s1: "f_stage c v = Inr (Another v1)"
    using block_header [OF inv st] hd stored max p
    by (simp add: f_blockHeader_def Let_def uncompressed_flag f_goto_def v1_def)
  have inv1: "between_blocks c v1 p (drop 4 bs) out"
    using between_skip [OF inv, of 4] h by (simp add: v1_def between_blocks_def)
  have pre: "dx_tmpInTarget (f_ctx v1) = ?n" "?n \<le> length (drop 4 bs)" "body = take ?n (drop 4 bs)" "f_dstPtr v1 + int ?n \<le> f_dstEnd c"
    using h space by (auto simp: v1_def)
  obtain w where w: "f_copyDirect c v1 = (if ?flag then f_goto getBlockChecksum (w\<lparr>f_ctx := (f_ctx w)\<lparr>dx_tmpInSize := 0\<rparr>\<rparr>)
      else f_goto getBlockHeader w)"
    "between_blocks c w p (drop (?n + 4) bs) (out @ body)" "f_room w = f_room v"
    "?flag \<longrightarrow> dx_blockChecksum (f_ctx w) = XXH32_update (XXH32_reset 0) body"
    using copyDirect_step [OF inv1 pre] by (auto simp: v1_def)
  have s2: "f_stage c v1 = f_copyDirect c v1" by (simp add: f_stage_def v1_def)
  show ?thesis
  proof (cases ?flag)
    case False
    let ?w = "w\<lparr>f_ctx := (f_ctx w)\<lparr>dx_dStage := getBlockHeader\<rparr>\<rparr>"
    have "LZ4F_stages c v = LZ4F_stages c ?w"
      using stages_Another [OF s1] stages_Another [of c v1 ?w] s2 w(1) False by (simp add: f_goto_def)
    with w(2,3) h False show ?thesis by (intro exI [of _ ?w]) (simp add: add.commute)
  next
    case True
    define w1 where "w1 = w\<lparr>f_ctx := (f_ctx w)\<lparr>dx_tmpInSize := 0, dx_dStage := getBlockChecksum\<rparr>\<rparr>"
    let ?w = "w1\<lparr>f_srcPtr := f_srcPtr w1 + 4, f_ctx := (f_ctx w1)\<lparr>dx_dStage := getBlockHeader\<rparr>\<rparr>"
    have inv2: "between_blocks c w1 p (drop (?n + 4) bs) (out @ body)" using w(2) by (simp add: w1_def between_blocks_def)
    have l: "4 \<le> length (drop (?n + 4) bs)" using h True by auto
    have "XXH32_digest (dx_blockChecksum (f_ctx w1)) = XXH32 body 0"
      using xxh_rep_digest [OF xxh_rep_upd [OF xxh_rep_reset]] w(4) True by (simp add: w1_def)
    then have "f_getBlockChecksum c w1 = f_goto getBlockHeader (w1\<lparr>f_srcPtr := f_srcPtr w1 + 4\<rparr>)"
      using h True by (intro getBlockChecksum_step [OF between_io [OF inv2] l]) (simp_all add: w1_def add.commute)
    then have "f_stage c w1 = Inr (Another ?w)" by (simp add: f_stage_def f_goto_def w1_def)
    moreover have "f_stage c v1 = Inr (Another w1)" using s2 w(1) True by (simp add: f_goto_def w1_def)
    ultimately have "LZ4F_stages c v = LZ4F_stages c ?w" using stages_Another [OF s1] stages_Another by simp
    moreover have "between_blocks c ?w p (drop used bs) (out @ body)"
      using between_skip [OF inv2 l] h True by (simp add: between_blocks_def add.commute add.left_commute)
    ultimately show ?thesis using w(3) by (intro exI [of _ ?w]) (simp add: w1_def)
  qed
qed

section \<open>A compressed block\<close>

definition block_hist :: "LZ4F_preferences \<Rightarrow> bytes \<Rightarrow> bytes" where
  "block_hist p out = (if blockMode p = LZ4F_blockLinked then out else [])"

lemma dict_decoded:
  assumes inv: "between_blocks c v p bs out" and d: "f_dict (f_ctx v) = (dict, n)"
    and q: "0 < q" "lends (f_room v) q (q + int len)" "q + int len < 4294967296" "len < 16777216"
      "q + int len \<le> f_dstStart c \<or> f_dstEnd c \<le> q"
    and cap: "f_dstPtr v + int cap \<le> f_dstEnd c"
  shows "decoded (f_mem v) (LZ4_decompress_safe_usingDict (f_room v) (f_mem v) q (f_dstPtr v) (int len) (int cap) dict n)
    (mem_bytes (f_mem v) q len) (block_hist p out) (f_dstPtr v) (int cap)"
proof -
  note i = inv [unfolded between_blocks_def io_ok_def]
  have l: "lends (f_room v) (f_dstStart c) (f_dstPtr v + int cap)"
    by (rule lends_mono [of _ "f_dstStart c" "f_dstEnd c"]) (use i cap in auto)
  have bufs: "buffers_ok (f_room v) q (int len) (f_dstPtr v) (int cap) (f_dstPtr v - int k)" if "k \<le> length out" for k
  proof -
    have "lends (f_room v) (f_dstPtr v - int k) (f_dstPtr v + int cap)"
      by (rule lends_mono [OF l]) (use i that in auto)
    then show ?thesis using i q cap that by (auto simp: buffers_ok_def)
  qed
  have dec: "decoded (f_mem v) (LZ4_decompress_safe_usingDict (f_room v) (f_mem v) q (f_dstPtr v) (int len) (int cap) dict n)
    (mem_bytes (f_mem v) q len) (mem_bytes (f_mem v) dict n) (f_dstPtr v) (int cap)"
    if "n = 0 \<or> dict + int n = f_dstPtr v" "n \<le> length out"
    using usingDict_decoded [of "f_room v" q "int len" "f_dstPtr v" "int cap" dict n "f_mem v"] bufs [of n] bufs [of 0] that
    by (auto simp: usingDict_ok_def)
  show ?thesis
  proof (cases "blockMode p = LZ4F_blockLinked")
    case False
    then have "n = 0" using i d by (auto simp: dict_holds_def f_dict_def split: if_splits)
    with dec False show ?thesis by (simp add: block_hist_def)
  next
    case True
    then have dl: "dx_dictSize (f_ctx v) = length out" "out \<noteq> [] \<longrightarrow> dx_dict (f_ctx v) = f_dstStart c"
      using i by (auto simp: dict_holds_def)
    show ?thesis
    proof (cases "(dict, n) = (f_dstStart c + int (length out) - 65536, 65536) \<and> length out > 65536")
      case far: True
      then have dn: "dict = f_dstStart c + int (length out) - 65536" "n = 65536" "65536 < length out" by simp_all
      have "mem_bytes (f_mem v) (f_dstStart c + int (length out) - 65536) 65536 = drop (length out - 65536) out"
        using dn(3) i mem_bytes_drop [of "length out - 65536" "length out" "f_mem v" "f_dstStart c"] by (simp add: of_nat_diff algebra_simps)
      then have "mem_bytes (f_mem v) dict n = drop (length out - 65536) out" by (simp only: dn)
      moreover have "n = 0 \<or> dict + int n = f_dstPtr v" "n \<le> length out" using dn i by auto
      ultimately have "decoded (f_mem v) (LZ4_decompress_safe_usingDict (f_room v) (f_mem v) q (f_dstPtr v) (int len) (int cap) dict n)
        (mem_bytes (f_mem v) q len) (drop (length out - 65536) out) (f_dstPtr v) (int cap)"
        using dec by simp
      moreover have "out = take (length out - 65536) out @ drop (length out - 65536) out" by simp
      ultimately show ?thesis
        using True far decoded_prefix [of "drop (length out - 65536) out" "f_mem v" _ _ "take (length out - 65536) out"]
        by (simp add: block_hist_def)
    next
      case False
      then have "n = length out" "out \<noteq> [] \<longrightarrow> dict = f_dstStart c" using d dl by (auto simp: f_dict_def split: if_splits)
      with dec i True show ?thesis by (cases "out = []") (auto simp: block_hist_def)
    qed
  qed
qed

lemma decode_direct_step:
  assumes inv: "between_blocks c v p bs out"
    and q: "0 < q" "lends (f_room v) q (q + int (length body))" "q + int (length body) < 4294967296" "length body < 16777216"
      "q + int (length body) \<le> f_dstStart c \<or> f_dstEnd c \<le> q"
    and body: "mem_bytes (f_mem v) q (length body) = body" "dx_tmpInTarget (f_ctx v) = length body"
    and cap: "f_dstPtr v + int (block_max p) \<le> f_dstEnd c" "0 < block_max p"
    and meaning: "lz4_decode body (block_hist p out) = Some (block_hist p out @ ys)"
      "lz4_strict (length (block_hist p out @ ys)) body (block_hist p out)" "length ys \<le> block_max p"
  shows "\<exists>w. f_decode_direct c v q = f_goto getBlockHeader w \<and> between_blocks c w p bs (out @ ys) \<and> f_room w = f_room v"
proof -
  obtain dict n where d: "f_dict (f_ctx v) = (dict, n)" by (cases "f_dict (f_ctx v)")
  let ?res = "LZ4_decompress_safe_usingDict (f_room v) (f_mem v) q (f_dstPtr v) (int (length body)) (int (block_max p)) dict n"
  have io: "io_ok c v bs" "dx_maxBlockSize (f_ctx v) = block_max p" using inv by (simp_all add: between_blocks_def)
  have "decoded (f_mem v) ?res body (block_hist p out) (f_dstPtr v) (int (block_max p))"
    using dict_decoded [OF inv d q cap(1)] body(1) by simp
  moreover have "lz4_strict (length (block_hist p out) + block_max p) body (block_hist p out)"
    by (rule strict_mono [OF meaning(2)]) (use meaning(3) in simp)
  ultimately obtain r m where r: "?res = Inr (r, m)" "r \<le> int (block_max p)" "0 \<le> r"
    "changed (f_mem v) m (f_dstPtr v) (f_dstPtr v + int (block_max p))"
    "lz4_decode0 body (block_hist p out) = Some (block_hist p out @ mem_bytes m (f_dstPtr v) (nat r))"
    using cap(2) by (auto simp: decoded_def)
  have ys: "mem_bytes m (f_dstPtr v) (nat r) = ys" using lz4_decode_lax [OF meaning(1)] r(5) by simp
  then have k: "nat r = length ys" using length_mem_bytes by metis
  define v1 where "v1 = v\<lparr>f_mem := m\<rparr>"
  have dst: "lends (f_room v) (f_dstPtr v) (f_dstPtr v + int (length ys))"
    by (rule lends_mono [of _ "f_dstStart c" "f_dstEnd c"]) (use io cap meaning(3) in \<open>auto simp: io_ok_def\<close>)
  have "between_blocks c (v1\<lparr>f_mem := f_mem v\<rparr>) p bs out" using inv by (simp add: v1_def)
  from deliver [OF this, of "block_max p" ys "f_dstPtr v"] r(4) cap(1) meaning(3) ys dst
  obtain x1 x2 where a: "f_account v1 (f_dstPtr v) (length ys) = Inr (v1\<lparr>f_ctx := x1\<rparr>)"
    "f_history c (v1\<lparr>f_ctx := x1\<rparr>) (length ys) False = Inr (v1\<lparr>f_ctx := x2\<rparr>)"
    "between_blocks c (v1\<lparr>f_ctx := x2, f_dstPtr := f_dstPtr v1 + int (length ys)\<rparr>) p bs (out @ ys)"
    by (auto simp: v1_def k)
  have "f_dstPtr v \<noteq> 0" using io by (simp add: io_ok_def)
  then have "f_decode_direct c v q = f_goto getBlockHeader (v1\<lparr>f_ctx := x2, f_dstPtr := f_dstPtr v1 + int (length ys)\<rparr>)"
    using r(1,3) a(1,2) k unfolding f_decode_direct_def Let_def d prod.case body(2) io(2)
    by (simp add: v1_def [symmetric])
  with a(3) show ?thesis by (intro exI [of _ "v1\<lparr>f_ctx := x2, f_dstPtr := f_dstPtr v1 + int (length ys)\<rparr>"]) (simp add: v1_def)
qed

lemma decodeBlock_step:
  assumes "dx_tmpInTarget (f_ctx v) = n + (if blockChecksumFlag (dx_frameInfo (f_ctx v)) then 4 else 0)"
    and "dx_maxBlockSize (f_ctx v) \<le> f_space c v"
    and "blockChecksumFlag (dx_frameInfo (f_ctx v)) \<Longrightarrow>
      f_bytes (f_room v) (f_mem v) q (n + 4) = Inr bs \<and> LZ4F_readLE32 (drop n bs) = XXH32 (take n bs) 0"
  shows "f_decodeBlock c v q = f_decode_direct c (v\<lparr>f_ctx := (f_ctx v)\<lparr>dx_tmpInTarget := n\<rparr>\<rparr>) q"
  using assms by (cases "blockChecksumFlag (dx_frameInfo (f_ctx v))") (simp_all add: f_decodeBlock_def Let_def f_space_def)

lemma compressed_step:
  assumes inv: "between_blocks c v p bs out" and st: "dx_dStage (f_ctx v) = getBlockHeader"
    and b: "block_at p bs h body used" and packed: "\<not> LZ4F_BLOCKUNCOMPRESSED_FLAG \<le> h" and max: "length body \<le> block_max p"
    and cap: "f_dstPtr v + int (block_max p) \<le> f_dstEnd c" "0 < block_max p" "block_max p \<le> 4194304"
    and more: "used < length bs"
    and meaning: "lz4_decode body (block_hist p out) = Some (block_hist p out @ ys)"
      "lz4_strict (length (block_hist p out @ ys)) body (block_hist p out)" "length ys \<le> block_max p"
  shows "\<exists>w. LZ4F_stages c v = LZ4F_stages c w \<and> between_blocks c w p (drop used bs) (out @ ys)
    \<and> dx_dStage (f_ctx w) = getBlockHeader \<and> f_room w = f_room v"
proof -
  let ?n = "length body" and ?flag = "blockChecksumFlag p" and ?x = "f_ctx v"
  define crc where "crc = (if ?flag then 4 else (0 :: nat))"
  note h = b [unfolded block_at_def, folded crc_def]
  have p: "dx_frameInfo ?x = p" "dx_maxBlockSize ?x = block_max p" using inv by (simp_all add: between_blocks_def)
  note io = between_io [OF inv]
  define v1 where "v1 = (v\<lparr>f_srcPtr := f_srcPtr v + 4\<rparr>)\<lparr>f_ctx := ?x\<lparr>dx_tmpInTarget := ?n + crc, dx_dStage := getCBlock\<rparr>\<rparr>"
  have "f_dstPtr v \<noteq> f_dstEnd c" "f_srcPtr v + 4 \<noteq> f_srcEnd c" using cap h more io by (auto simp: io_ok_def)
  then have s1: "f_stage c v = Inr (Another v1)"
    using block_header [OF inv st] h packed max p
    by (simp add: f_blockHeader_def Let_def uncompressed_flag v1_def crc_def)
  have inv1: "between_blocks c v1 p (drop 4 bs) out"
    using between_skip [OF inv, of 4] h by (simp add: v1_def between_blocks_def)
  note io1 = between_io [OF inv1]
  have len: "?n + crc \<le> length (drop 4 bs)" using h by auto
  define v2 where "v2 = v1\<lparr>f_srcPtr := f_srcPtr v1 + int (?n + crc)\<rparr>"
  have "drop (?n + crc) (drop 4 bs) = drop used bs" using h by (simp add: ac_simps)
  then have inv2: "between_blocks c v2 p (drop used bs) out"
    using between_skip [OF inv1 len] by (simp only: v2_def)
  have s2: "f_stage c v1 = f_decodeBlock c v2 (f_srcPtr v1)"
  proof -
    have "dx_tmpInTarget (f_ctx v1) = ?n + crc" "dx_dStage (f_ctx v1) = getCBlock" by (simp_all add: v1_def)
    with io_left [OF io1] len show ?thesis by (simp add: f_stage_def f_getCBlock_def v2_def)
  qed
  have sum: "f_bytes (f_room v2) (f_mem v2) (f_srcPtr v1) (?n + 4) = Inr (take (?n + 4) (drop 4 bs))
      \<and> LZ4F_readLE32 (drop ?n (take (?n + 4) (drop 4 bs))) = XXH32 (take ?n (take (?n + 4) (drop 4 bs))) 0" if ?flag
    using io_bytes(1) [OF io1, of "?n + 4"] len h that
    by (simp add: v2_def crc_def drop_take add.commute min_def)
  have dec: "f_decodeBlock c v2 (f_srcPtr v1) = f_decode_direct c (v2\<lparr>f_ctx := (f_ctx v2)\<lparr>dx_tmpInTarget := ?n\<rparr>\<rparr>) (f_srcPtr v1)"
    by (rule decodeBlock_step [where bs = "take (?n + 4) (drop 4 bs)"]) (use p cap(1) sum in \<open>simp_all add: v2_def v1_def crc_def f_space_def\<close>)
  let ?v3 = "v2\<lparr>f_ctx := (f_ctx v2)\<lparr>dx_tmpInTarget := ?n\<rparr>\<rparr>"
  have inv3: "between_blocks c ?v3 p (drop used bs) out" using inv2 by simp
  have "?n \<le> length (drop 4 bs)" using len by simp
  note src = io_bytes(2,3) [OF io1 this]
  have "\<exists>w. f_decode_direct c ?v3 (f_srcPtr v1) = f_goto getBlockHeader w \<and> between_blocks c w p (drop used bs) (out @ ys) \<and> f_room w = f_room ?v3"
    by (rule decode_direct_step [OF inv3 _ _ _ _ _ _ _ _ cap(2) meaning])
      (use src io1 len h max cap in \<open>auto simp: v2_def v1_def io_ok_def\<close>)
  then obtain w where w: "f_decode_direct c ?v3 (f_srcPtr v1) = f_goto getBlockHeader w"
    "between_blocks c w p (drop used bs) (out @ ys)" "f_room w = f_room v" by (auto simp: v2_def v1_def)
  let ?w = "w\<lparr>f_ctx := (f_ctx w)\<lparr>dx_dStage := getBlockHeader\<rparr>\<rparr>"
  have "LZ4F_stages c v = LZ4F_stages c ?w"
    using stages_Another [OF s1] stages_Another [of c v1 ?w] s2 dec w(1) by (simp add: f_goto_def)
  with w(2,3) show ?thesis by (intro exI [of _ ?w]) simp
qed

section \<open>A whole frame\<close>

text \<open>A context that waits for a frame.\<close>

definition dctx_idle :: "LZ4F_dctx \<Rightarrow> bool" where
  "dctx_idle x \<longleftrightarrow>
     dx_dStage x = getFrameHeader \<and> dx_dict x = 0 \<and> dx_dictSize x = 0 \<and> dx_frameRemainingSize x = 0
     \<and> length (dx_header x) = 19"

definition frame_over :: "df_call \<Rightarrow> df_vars \<Rightarrow> bytes \<Rightarrow> bool" where
  "frame_over c w content \<longleftrightarrow>
     f_hint w = 0 \<and> f_srcPtr w = f_srcEnd c \<and> f_dstPtr w = f_dstStart c + int (length content)
     \<and> mem_bytes (f_mem w) (f_dstStart c) (length content) = content \<and> dctx_idle (f_ctx w)"

lemma finish_step:
  assumes inv: "between_blocks c v p bs out" and st: "dx_dStage (f_ctx v) = getBlockHeader"
    and e: "4 \<le> length bs" "LZ4F_readLE32 bs = 0" "lz4f_finish p (drop 4 bs) out = Some content"
  shows "content = out" and "\<exists>w. LZ4F_stages c v = Inr (Done w) \<and> frame_over c w out \<and> f_room w = f_room v"
proof -
  have fin: "contentSize p = 0 \<or> contentSize p = of_nat (length out)" "content = out"
    "length (drop 4 bs) = (if contentChecksumFlag p then 4 else 0)"
    "contentChecksumFlag p \<Longrightarrow> LZ4F_readLE32 (drop 4 bs) = XXH32 out 0"
    using e(3) by (auto simp: lz4f_finish_def split: if_splits)
  show "content = out" by (rule fin)
  define v1 where "v1 = (v\<lparr>f_srcPtr := f_srcPtr v + 4\<rparr>)\<lparr>f_ctx := (f_ctx v)\<lparr>dx_dStage := getSuffix\<rparr>\<rparr>"
  have s1: "f_stage c v = Inr (Another v1)"
    using block_header [OF inv st e(1)] e(1,2) by (simp add: f_blockHeader_def Let_def f_goto_def v1_def)
  have inv1: "between_blocks c v1 p (drop 4 bs) out"
    using between_skip [OF inv e(1)] by (simp add: v1_def between_blocks_def)
  note i = inv1 [unfolded between_blocks_def io_ok_def sums_ok_def]
  have r: "dx_frameRemainingSize (f_ctx v1) = 0" using i fin(1) by auto
  define w where "w = v1\<lparr>f_srcPtr := f_srcEnd c, f_ctx := LZ4F_resetDecompressionContext (f_ctx v1), f_hint := 0\<rparr>"
  have "f_stage c v1 = f_getSuffix c v1" by (simp add: f_stage_def v1_def)
  also have "\<dots> = Inr (Done w)"
  proof (cases "contentChecksumFlag p")
    case False
    then have "f_srcPtr v1 = f_srcEnd c" using i fin(3) by simp
    then have "v1\<lparr>f_srcPtr := f_srcEnd c\<rparr> = v1" by simp
    then show ?thesis using False i r by (simp add: f_getSuffix_def f_frame_done_def f_stop_def w_def)
  next
    case True
    then have l: "4 \<le> length (drop 4 bs)" "f_srcPtr v1 + 4 = f_srcEnd c" using i fin(3) by simp_all
    have "XXH32_digest (dx_xxh (f_ctx v1)) = XXH32 out 0" using i True by (simp add: xxh_rep_digest)
    then show ?thesis
      using True i r l io_bytes(1) [OF between_io [OF inv1] l(1)] io_left [OF between_io [OF inv1]] fin(4)
      by (simp add: f_getSuffix_def f_checkSuffix_def f_frame_done_def f_stop_def w_def)
  qed
  finally have "LZ4F_stages c v = Inr (Done w)" using stages_Another [OF s1] stages_Done by simp
  moreover have "frame_over c w out"
    using i r by (simp add: frame_over_def dctx_idle_def w_def LZ4F_resetDecompressionContext_def)
  ultimately show "\<exists>w. LZ4F_stages c v = Inr (Done w) \<and> frame_over c w out \<and> f_room w = f_room v"
    by (intro exI [of _ w]) (simp add: w_def v1_def)
qed

lemma body_extends: "lz4f_body p stored body out = Some out1 \<Longrightarrow> \<exists>ys. out1 = out @ ys"
  by (auto simp: lz4f_body_def Let_def split: if_splits option.splits)

text \<open>One round of the meaning of the blocks.\<close>

lemma lz4f_blocks_cases:
  assumes "lz4f_blocks p bs out = Some content"
  obtains (End) "4 \<le> length bs" "LZ4F_readLE32 bs = 0" "lz4f_finish p (drop 4 bs) out = Some content"
  | (Block) h body used out1 where "block_at p bs h body used"
      "lz4f_body p (LZ4F_BLOCKUNCOMPRESSED_FLAG \<le> h) body out = Some out1" "lz4f_blocks p (drop used bs) out1 = Some content"
proof -
  define h where "h = LZ4F_readLE32 bs"
  define n where "n = unat (h AND 0x7FFFFFFF)"
  define body where "body = take n (drop 4 bs)"
  define crc where "crc = (if blockChecksumFlag p then 4 else (0 :: nat))"
  have l: "4 \<le> length bs" using assms by (subst (asm) lz4f_blocks.simps) (simp split: if_splits)
  show thesis
  proof (cases "h = 0")
    case True
    with assms l have "lz4f_finish p (drop 4 bs) out = Some content"
      by (subst (asm) lz4f_blocks.simps) (simp add: Let_def h_def)
    with l True show thesis by (intro End) (simp_all add: h_def)
  next
    case False
    from assms obtain out1 where o: "4 + n + crc \<le> length bs"
      "blockChecksumFlag p \<Longrightarrow> LZ4F_readLE32 (drop (4 + n) bs) = XXH32 body 0"
      "lz4f_body p (LZ4F_BLOCKUNCOMPRESSED_FLAG \<le> h) body out = Some out1"
      "lz4f_blocks p (drop (4 + n + crc) bs) out1 = Some content"
      using l False by (subst (asm) lz4f_blocks.simps)
        (auto simp: Let_def crc_def body_def simp flip: h_def n_def split: if_splits option.splits)
    have "length body = n" using o(1) by (simp add: body_def)
    then have "block_at p bs h body (4 + n + crc)"
      using o(1,2) False by (simp add: block_at_def body_def flip: h_def n_def crc_def)
    with o(3,4) show thesis by (intro Block)
  qed
qed

lemma blocks_extend: "lz4f_blocks p bs out = Some content \<Longrightarrow> length out \<le> length content"
proof (induction "length bs" arbitrary: bs out rule: less_induct)
  case less
  from less.prems show ?case
  proof (cases rule: lz4f_blocks_cases)
    case End
    then show ?thesis by (auto simp: lz4f_finish_def split: if_splits)
  next
    case (Block h body used out1)
    have "length (drop used bs) < length bs" using Block(1) by (auto simp: block_at_def)
    from less.hyps [OF this Block(3)] body_extends [OF Block(2)] show ?thesis by auto
  qed
qed

lemma body_meaning:
  assumes "lz4f_body p False body out = Some out1"
  obtains ys where "lz4_decode body (block_hist p out) = Some (block_hist p out @ ys)"
    "lz4_strict (length (block_hist p out @ ys)) body (block_hist p out)" "length ys \<le> block_max p"
    "out1 = out @ ys" "length body \<le> block_max p"
proof -
  obtain W where W: "lz4_decode body (block_hist p out) = Some W" "length W \<le> length (block_hist p out) + block_max p"
    "lz4_strict (length W) body (block_hist p out)" "out1 = out @ drop (length (block_hist p out)) W" "length body \<le> block_max p"
    using assms by (auto simp: lz4f_body_def Let_def block_hist_def split: if_splits option.splits)
  from lz4_decode_extends [OF W(1)] obtain ys where "W = block_hist p out @ ys" by blast
  with W show thesis by (intro that) auto
qed

lemma blocks_run:
  assumes "lz4f_blocks p bs out = Some content" and "between_blocks c v p bs out" and "dx_dStage (f_ctx v) = getBlockHeader"
    and "f_dstStart c + int (length content + block_max p) \<le> f_dstEnd c" and "0 < block_max p" "block_max p \<le> 4194304"
  shows "\<exists>w. LZ4F_stages c v = Inr (Done w) \<and> frame_over c w content \<and> f_room w = f_room v"
  using assms(1-3)
proof (induction "length bs" arbitrary: bs out v rule: less_induct)
  case less
  from less.prems(1) show ?case
  proof (cases rule: lz4f_blocks_cases)
    case End
    with finish_step [OF less.prems(2,3)] show ?thesis by auto
  next
    case (Block h body used out1)
    have dst: "f_dstPtr v = f_dstStart c + int (length out)" using less.prems(2) by (simp add: between_blocks_def)
    have "length out1 \<le> length content" by (rule blocks_extend [OF Block(3)])
    have step: "\<exists>w. LZ4F_stages c v = LZ4F_stages c w \<and> between_blocks c w p (drop used bs) out1
      \<and> dx_dStage (f_ctx w) = getBlockHeader \<and> f_room w = f_room v"
    proof (cases "LZ4F_BLOCKUNCOMPRESSED_FLAG \<le> h")
      case True
      then have "out1 = out @ body" "length body \<le> block_max p"
        using Block(2) by (auto simp: lz4f_body_def Let_def split: if_splits)
      with stored_step [OF less.prems(2,3) Block(1) True] \<open>length out1 \<le> length content\<close> dst assms(4) show ?thesis by auto
    next
      case False
      then have "lz4f_body p False body out = Some out1" using Block(2) by simp
      then obtain ys where ys: "lz4_decode body (block_hist p out) = Some (block_hist p out @ ys)"
        "lz4_strict (length (block_hist p out @ ys)) body (block_hist p out)" "length ys \<le> block_max p"
        "out1 = out @ ys" "length body \<le> block_max p" by (rule body_meaning)
      have "used < length bs" using Block(3) by (subst (asm) lz4f_blocks.simps) (auto split: if_splits)
      with compressed_step [OF less.prems(2,3) Block(1) False ys(5) _ assms(5,6) _ ys(1-3)] ys(4)
        \<open>length out1 \<le> length content\<close> dst assms(4) show ?thesis by auto
    qed
    then obtain w where w: "LZ4F_stages c v = LZ4F_stages c w" "between_blocks c w p (drop used bs) out1"
      "dx_dStage (f_ctx w) = getBlockHeader" "f_room w = f_room v" by blast
    have "length (drop used bs) < length bs" using Block(1) by (auto simp: block_at_def)
    from less.hyps [OF this Block(3) w(2,3)] w(1,4) show ?thesis by simp
  qed
qed

section \<open>The header\<close>

lemma header_if:
  "(if b then Header_Error e else r) = Frame_Header p n \<longleftrightarrow> \<not> b \<and> r = Frame_Header p n"
  "(if b then Skippable_Frame else r) = Frame_Header p n \<longleftrightarrow> \<not> b \<and> r = Frame_Header p n"
  "(if b then Header_Incomplete k else r) = Frame_Header p n \<longleftrightarrow> \<not> b \<and> r = Frame_Header p n"
  "(if b then Header_Error e else r) = Header_Incomplete m \<longleftrightarrow> \<not> b \<and> r = Header_Incomplete m"
  "(if b then Skippable_Frame else r) = Header_Incomplete m \<longleftrightarrow> \<not> b \<and> r = Header_Incomplete m"
  by auto

definition frame_header_size :: "u8 \<Rightarrow> nat" where
  "frame_header_size FLG = minFHSize + (if drop_bit 3 FLG AND 1 \<noteq> 0 then 8 else 0) + (if FLG AND 1 \<noteq> 0 then 4 else 0)"

lemmas decodeHeader_conds = LZ4F_decodeHeader_def [unfolded Let_def, folded frame_header_size_def]

lemma frame_header_size_bounds: "7 \<le> frame_header_size FLG" "frame_header_size FLG \<le> 19"
  "drop_bit 3 FLG AND 1 \<noteq> 0 \<Longrightarrow> 15 \<le> frame_header_size FLG"
  by (simp_all add: frame_header_size_def minFHSize_def)

lemma readLE64_take [simp]: "8 \<le> n \<Longrightarrow> LZ4F_readLE64 (take n bs) = LZ4F_readLE64 bs"
  by (simp add: LZ4F_readLE64_def)

lemma decodeHeader_size: "LZ4F_decodeHeader src = Frame_Header p n \<Longrightarrow> n = frame_header_size (src ! 4) \<and> n \<le> length src"
  unfolding decodeHeader_conds header_if by auto

lemma decodeHeader_take:
  assumes "LZ4F_decodeHeader src = Frame_Header p n" and "n \<le> k"
  shows "LZ4F_decodeHeader (take k src) = Frame_Header p n"
proof -
  have n: "n = frame_header_size (src ! 4)" "n \<le> length src" using decodeHeader_size [OF assms(1)] by auto
  note b = frame_header_size_bounds [of "src ! 4"]
  have k: "7 \<le> k" using b(1) n(1) assms(2) by simp
  have len: "\<not> length (take k src) < minFHSize" "\<not> length (take k src) < n"
    using k n assms(2) b(1) by (simp_all add: minFHSize_def)
  have eqs: "take k src ! 4 = src ! 4" "take k src ! 5 = src ! 5" "LZ4F_readLE32 (take k src) = LZ4F_readLE32 src"
    using k by simp_all
  have more: "take (n - 5) (drop 4 (take k src)) = take (n - 5) (drop 4 src)"
    "LZ4F_readLE32 (drop (n - 5) (take k src)) = LZ4F_readLE32 (drop (n - 5) src)"
    "take k src ! (n - 1) = src ! (n - 1)"
    "(if drop_bit 3 (src ! 4) AND 1 \<noteq> 0 then LZ4F_readLE64 (drop 6 (take k src)) else 0)
      = (if drop_bit 3 (src ! 4) AND 1 \<noteq> 0 then LZ4F_readLE64 (drop 6 src) else 0)"
    using assms(2) b n(1) by (auto simp: drop_take min_def)
  show ?thesis
    using assms(1) [unfolded decodeHeader_conds header_if n(1) [symmetric]] len
    unfolding decodeHeader_conds header_if eqs n(1) [symmetric] more by blast
qed

lemma decodeHeader_short:
  assumes "LZ4F_decodeHeader src = Frame_Header p n" and "7 \<le> k" and "k < n"
  shows "LZ4F_decodeHeader (take k src) = Header_Incomplete n"
proof -
  have n: "n = frame_header_size (src ! 4)" "n \<le> length src" using decodeHeader_size [OF assms(1)] by auto
  show ?thesis
    using assms n unfolding decodeHeader_conds header_if
    by (simp add: minFHSize_def LZ4F_MAGICNUMBER_def LZ4F_MAGIC_SKIPPABLE_START_def split del: if_split)
qed

lemma decodeHeader_prefs:
  assumes "LZ4F_decodeHeader src = Frame_Header p n"
  shows "0 < block_max p" and "block_max p \<le> 4194304" and "drop_bit 3 (src ! 4) AND 1 = 0 \<Longrightarrow> contentSize p = 0"
    and "block_max p \<in> {65536, 262144, 1048576, 4194304}"
proof -
  let ?id = "drop_bit 4 (src ! 5) AND 7"
  have p: "blockSizeID p = ucast ?id" "\<not> ?id < 4" "drop_bit 3 (src ! 4) AND 1 = 0 \<Longrightarrow> contentSize p = 0"
    using assms unfolding decodeHeader_conds header_if by auto
  have "?id = take_bit 3 (drop_bit 4 (src ! 5))" by (simp add: take_bit_eq_mask mask_eq_exp_minus_1 and.commute)
  then have "unat ?id < 8" by (simp add: take_bit_eq_mod unat_mod_distrib)
  with p(2) have "unat ?id \<in> {4, 5, 6, 7}" by (auto simp: word_less_nat_alt)
  moreover have "unat (ucast i :: u32) = unat i" if "unat i < 8" for i :: u8
    using that by (simp add: unsigned_ucast_eq take_bit_eq_mod)
  from this [OF \<open>unat ?id < 8\<close>] have "unat (blockSizeID p) = unat ?id" by (simp only: p(1))
  ultimately have "blockSizeID p \<in> {4, 5, 6, 7}" by (auto simp: word_unat_eq_iff)
  then have "LZ4F_getBlockSize (blockSizeID p) \<in> {65536, 262144, 1048576, 4194304}"
    by (auto simp: LZ4F_getBlockSize_def Let_def)
  then show "0 < block_max p" "block_max p \<le> 4194304" "block_max p \<in> {65536, 262144, 1048576, 4194304}"
    by (auto simp: block_max_def)
  show "drop_bit 3 (src ! 4) AND 1 = 0 \<Longrightarrow> contentSize p = 0" by (rule p)
qed

section \<open>From the first byte to the first block\<close>

lemma storeHeader_frame:
  assumes "LZ4F_decodeHeader src = Frame_Header p n" and "dx_frameRemainingSize x = 0"
  shows "LZ4F_storeHeader own src x = Inr (Inr n, x\<lparr>dx_frameInfo := p, dx_frameType := LZ4F_frame,
    dx_maxBlockSize := block_max p, dx_frameRemainingSize := contentSize p, dx_dStage := stage_init\<rparr>)"
  using assms decodeHeader_prefs(3) [OF assms(1)] by (simp add: LZ4F_storeHeader_def block_max_def Let_def)

lemma storeHeader_incomplete:
  assumes "LZ4F_decodeHeader src = Header_Incomplete n"
  shows "LZ4F_storeHeader True src x = Inr (Inr (length src), x\<lparr>dx_frameInfo := zero_prefs, dx_frameType := LZ4F_frame,
    dx_tmpInSize := length src, dx_tmpInTarget := n, dx_dStage := storeFrameHeader\<rparr>)"
  using assms by (simp add: LZ4F_storeHeader_def Let_def)

text \<open>The header is decoded, the buffers are not set up yet.\<close>

definition header_read :: "df_vars \<Rightarrow> df_vars \<Rightarrow> LZ4F_preferences \<Rightarrow> nat \<Rightarrow> bool" where
  "header_read v w p n \<longleftrightarrow>
     w = v\<lparr>f_srcPtr := f_srcPtr v + int n, f_ctx := f_ctx w\<rparr>
     \<and> dx_dStage (f_ctx w) = stage_init \<and> dx_frameInfo (f_ctx w) = p \<and> dx_maxBlockSize (f_ctx w) = block_max p
     \<and> dx_frameRemainingSize (f_ctx w) = contentSize p \<and> dx_dict (f_ctx w) = dx_dict (f_ctx v)
     \<and> dx_dictSize (f_ctx w) = dx_dictSize (f_ctx v) \<and> dx_tmpIn (f_ctx w) = dx_tmpIn (f_ctx v)
     \<and> dx_tmpOutBuffer (f_ctx w) = dx_tmpOutBuffer (f_ctx v) \<and> dx_maxBufferSize (f_ctx w) = dx_maxBufferSize (f_ctx v)
     \<and> length (dx_header (f_ctx w)) = 19"

text \<open>More of a header that comes in pieces: \<open>s\<close> bytes are there, \<open>t\<close> are wanted.\<close>

lemma fill_header_step:
  assumes "io_ok c v (drop s file)" and "dx_tmpInSize (f_ctx v) = s" and "take s (dx_header (f_ctx v)) = take s file"
    and "length (dx_header (f_ctx v)) = 19" and "s \<le> t" "t \<le> 19" "t \<le> length file"
  shows "\<exists>h. f_fill_header c t v = Inr (v\<lparr>f_srcPtr := f_srcPtr v + int (t - s), f_ctx := (f_ctx v)\<lparr>dx_header := h, dx_tmpInSize := t\<rparr>\<rparr>)
    \<and> take t h = take t file \<and> length h = 19"
proof -
  have l: "t - s \<le> length (drop s file)" using assms by simp
  have k: "min (t - s) (f_left c v) = t - s" using io_left [OF assms(1)] l by simp
  define y where "y = take (t - s) (drop s file)"
  have y: "length y = t - s" using l by (simp add: y_def)
  define h where "h = take s (dx_header (f_ctx v)) @ y @ drop t (dx_header (f_ctx v))"
  have "header_put (dx_header (f_ctx v)) s y = Inr h"
    using assms by (simp add: header_put_def h_def y)
  then have "f_fill_header c t v = Inr (v\<lparr>f_srcPtr := f_srcPtr v + int (t - s), f_ctx := (f_ctx v)\<lparr>dx_header := h, dx_tmpInSize := t\<rparr>\<rparr>)"
    using io_bytes(1) [OF assms(1) l] k assms(2,5) by (simp add: f_fill_header_def f_wanted_def Let_def y_def)
  moreover have "h = take t file @ drop t (dx_header (f_ctx v))"
    using assms take_add [of s "t - s" "file"] by (simp add: h_def y_def)
  moreover have "length h = 19" using assms by (simp add: h_def y)
  ultimately show ?thesis using assms(7) by auto
qed

lemma storeFrameHeader_last:
  assumes "io_ok c v (drop s file)" and "dx_tmpInSize (f_ctx v) = s" and "take s (dx_header (f_ctx v)) = take s file"
    and "length (dx_header (f_ctx v)) = 19" and "dx_tmpInTarget (f_ctx v) = n" and "s \<le> n"
    and "LZ4F_decodeHeader file = Frame_Header p n" and "dx_frameRemainingSize (f_ctx v) = 0"
  shows "\<exists>w. f_storeFrameHeader c v = Inr (Another w) \<and> header_read v w p (n - s)"
proof -
  have n: "n \<le> 19" "n \<le> length file"
    using decodeHeader_size [OF assms(7)] frame_header_size_bounds(2) [of "file ! 4"] by auto
  obtain h where h: "f_fill_header c n v = Inr (v\<lparr>f_srcPtr := f_srcPtr v + int (n - s), f_ctx := (f_ctx v)\<lparr>dx_header := h, dx_tmpInSize := n\<rparr>\<rparr>)"
    "take n h = take n file" "length h = 19"
    using fill_header_step [OF assms(1-4,6) n] by blast
  note st = storeHeader_frame [OF decodeHeader_take [OF assms(7) order_refl]]
  show ?thesis
    using h assms(5,8) by (simp add: f_storeFrameHeader_def Let_def st header_read_def)
qed

lemma header_step:
  assumes io: "io_ok c v file" and idle: "dctx_idle (f_ctx v)" and hd: "LZ4F_decodeHeader file = Frame_Header p n"
  shows "\<exists>w. LZ4F_stages c v = LZ4F_stages c w \<and> header_read v w p n"
proof (cases "19 \<le> length file")
  case True
  have n: "n \<le> length file" using decodeHeader_size [OF hd] by simp
  define w where "w = v\<lparr>f_srcPtr := f_srcPtr v + int n, f_ctx := (f_ctx v)\<lparr>dx_frameInfo := p, dx_frameType := LZ4F_frame,
    dx_maxBlockSize := block_max p, dx_frameRemainingSize := contentSize p, dx_dStage := stage_init\<rparr>\<rparr>"
  have "f_stage c v = Inr (Another w)"
    using idle True io_left [OF io] io_bytes(1) [OF io order_refl] storeHeader_frame [OF hd, of "f_ctx v" False]
    by (simp add: f_stage_def f_getFrameHeader_def dctx_idle_def maxFHSize_def w_def)
  moreover have "header_read v w p n" using idle by (simp add: header_read_def w_def dctx_idle_def)
  ultimately show ?thesis using stages_Another by blast
next
  case False
  have n: "7 \<le> n" "n \<le> 19" "n \<le> length file"
    using decodeHeader_size [OF hd] frame_header_size_bounds(1,2) [of "file ! 4"] by auto
  define v1 where "v1 = v\<lparr>f_ctx := (f_ctx v)\<lparr>dx_tmpInSize := 0, dx_tmpInTarget := 7, dx_dStage := storeFrameHeader\<rparr>\<rparr>"
  have io1: "io_ok c v1 (drop 0 file)" and x1: "length (dx_header (f_ctx v1)) = 19" "dx_frameRemainingSize (f_ctx v1) = 0"
    using io idle by (simp_all add: v1_def dctx_idle_def)
  have s0: "f_stage c v = f_storeFrameHeader c v1"
    using idle False n io_left [OF io] by (auto simp: f_stage_def f_getFrameHeader_def dctx_idle_def maxFHSize_def minFHSize_def v1_def Let_def)
  show ?thesis
  proof (cases "n = 7")
    case True
    then obtain w where w: "f_storeFrameHeader c v1 = Inr (Another w)" "header_read v1 w p (n - 0)"
      using storeFrameHeader_last [OF io1 _ _ x1(1) _ _ hd x1(2)] by (auto simp: v1_def)
    moreover have "header_read v w p n" using w(2) by (simp add: header_read_def v1_def)
    ultimately show ?thesis using s0 stages_Another [of c v w] by auto
  next
    case False
    obtain h where h: "f_fill_header c 7 v1 = Inr (v1\<lparr>f_srcPtr := f_srcPtr v1 + int (7 - 0), f_ctx := (f_ctx v1)\<lparr>dx_header := h, dx_tmpInSize := 7\<rparr>\<rparr>)"
      "take 7 h = take 7 file" "length h = 19"
      using fill_header_step [OF io1 _ _ x1(1), of 7] n by (auto simp: v1_def)
    define v2 where "v2 = v1\<lparr>f_srcPtr := f_srcPtr v1 + 7, f_ctx := (f_ctx v1)\<lparr>dx_header := h, dx_frameInfo := zero_prefs,
      dx_frameType := LZ4F_frame, dx_tmpInSize := 7, dx_tmpInTarget := n, dx_dStage := storeFrameHeader\<rparr>\<rparr>"
    have "LZ4F_decodeHeader (take 7 file) = Header_Incomplete n" by (rule decodeHeader_short [OF hd]) (use n False in auto)
    then have s1: "f_storeFrameHeader c v1 = Inr (Another v2)"
      using h n by (simp add: f_storeFrameHeader_def Let_def storeHeader_incomplete v1_def v2_def min_def)
    have "io_ok c (v1\<lparr>f_srcPtr := f_srcPtr v1 + int 7\<rparr>) (drop 7 (drop 0 file))"
      by (rule io_skip [OF io1]) (use n in simp)
    then have io2: "io_ok c v2 (drop 7 file)" by (simp add: v2_def io_ok_def)
    obtain w where w: "f_storeFrameHeader c v2 = Inr (Another w)" "header_read v2 w p (n - 7)"
      using storeFrameHeader_last [OF io2 _ _ _ _ n(1) hd] h n x1 by (auto simp: v2_def)
    have "header_read v w p n" using w(2) n by (simp add: header_read_def v2_def v1_def of_nat_diff)
    moreover have "LZ4F_stages c v = LZ4F_stages c w"
      using stages_Another [of c v v2] stages_Another [of c v2 w] s0 s1 w(1) by (simp add: f_stage_def v2_def)
    ultimately show ?thesis by blast
  qed
qed

text \<open>Setting up the buffers leaves the caller's ranges alone.\<close>

definition callers :: "room \<Rightarrow> LZ4F_dctx \<Rightarrow> int \<Rightarrow> int \<Rightarrow> bool" where
  "callers room x a b \<longleftrightarrow> lends (f_free (dx_tmpOutBuffer x) (f_free (dx_tmpIn x) room)) a b"

lemma lends_subset: "lends room a b \<Longrightarrow> set room \<subseteq> set room' \<Longrightarrow> lends room' a b"
  by (auto simp: lends_def list_ex_iff)

lemma callers_lent: "callers room x a b \<Longrightarrow> lends room a b"
  unfolding callers_def by (erule lends_subset) (auto simp: f_free_def)

lemma buffers_step:
  assumes "\<And>n. f_tmpIn c n \<noteq> 0" and "\<And>n. f_tmpOutBuffer c n \<noteq> 0"
  shows "\<exists>t u k room. f_buffers c v = Inr (v\<lparr>f_ctx := (f_ctx v)\<lparr>dx_tmpIn := t, dx_tmpOutBuffer := u, dx_maxBufferSize := k\<rparr>, f_room := room\<rparr>)
    \<and> (\<forall>a b. callers (f_room v) (f_ctx v) a b \<longrightarrow> lends room a b)"
proof (cases "dx_maxBlockSize (f_ctx v) + (if blockMode (dx_frameInfo (f_ctx v)) = LZ4F_blockLinked then 131072 else 0) > dx_maxBufferSize (f_ctx v)")
  case True
  let ?x = "f_ctx v" and ?n = "dx_maxBlockSize (f_ctx v) + (if blockMode (dx_frameInfo (f_ctx v)) = LZ4F_blockLinked then 131072 else 0)"
  let ?in = "f_tmpIn c (dx_maxBlockSize (f_ctx v) + 4)" and ?out = "f_tmpOutBuffer c ?n"
  let ?room = "f_alloc ?out ?n (f_free (dx_tmpOutBuffer ?x) (f_alloc ?in (dx_maxBlockSize ?x + 4) (f_free (dx_tmpIn ?x) (f_room v))))"
  have "f_buffers c v = Inr (v\<lparr>f_ctx := ?x\<lparr>dx_tmpIn := ?in, dx_tmpOutBuffer := ?out, dx_maxBufferSize := ?n\<rparr>, f_room := ?room\<rparr>)"
    using assms True by (simp add: f_buffers_def Let_def)
  moreover have "lends ?room a b" if "callers (f_room v) ?x a b" for a b
    using that unfolding callers_def by (rule lends_subset) (auto simp: f_free_def f_alloc_def)
  ultimately show ?thesis by blast
next
  case False
  then have "f_buffers c v = Inr (v\<lparr>f_ctx := (f_ctx v)\<lparr>dx_tmpIn := dx_tmpIn (f_ctx v), dx_tmpOutBuffer := dx_tmpOutBuffer (f_ctx v),
      dx_maxBufferSize := dx_maxBufferSize (f_ctx v)\<rparr>, f_room := f_room v\<rparr>)"
    by (simp add: f_buffers_def Let_def)
  with callers_lent show ?thesis by blast
qed

lemma init_step:
  assumes io: "io_ok c v rest" and st: "dx_dStage (f_ctx v) = stage_init"
    and x: "dx_maxBlockSize (f_ctx v) = block_max (dx_frameInfo (f_ctx v))" "dx_frameRemainingSize (f_ctx v) = contentSize (dx_frameInfo (f_ctx v))"
      "dx_dictSize (f_ctx v) = 0" "length (dx_header (f_ctx v)) = 19" "f_dstPtr v = f_dstStart c"
    and al: "\<And>n. f_tmpIn c n \<noteq> 0" "\<And>n. f_tmpOutBuffer c n \<noteq> 0"
    and room: "callers (f_room v) (f_ctx v) (f_srcPtr v) (f_srcEnd c)" "callers (f_room v) (f_ctx v) (f_dstStart c) (f_dstEnd c)"
  shows "\<exists>w. LZ4F_stages c v = LZ4F_stages c w \<and> between_blocks c w (dx_frameInfo (f_ctx v)) rest [] \<and> dx_dStage (f_ctx w) = getBlockHeader"
proof -
  define v0 where "v0 = v\<lparr>f_ctx := (f_ctx v)\<lparr>dx_xxh := (if contentChecksumFlag (dx_frameInfo (f_ctx v)) then XXH32_reset 0 else dx_xxh (f_ctx v))\<rparr>\<rparr>"
  have room0: "callers (f_room v0) (f_ctx v0) = callers (f_room v) (f_ctx v)" by (simp add: v0_def callers_def fun_eq_iff)
  obtain t u k r where b: "f_buffers c v0 = Inr (v0\<lparr>f_ctx := (f_ctx v0)\<lparr>dx_tmpIn := t, dx_tmpOutBuffer := u, dx_maxBufferSize := k\<rparr>, f_room := r\<rparr>)"
    "\<forall>a b. callers (f_room v) (f_ctx v) a b \<longrightarrow> lends r a b"
    using buffers_step [OF al, of v0] unfolding room0 by blast
  define w where "w = v0\<lparr>f_room := r, f_ctx := (f_ctx v0)\<lparr>dx_tmpIn := t, dx_tmpOutBuffer := u, dx_maxBufferSize := k, dx_tmpInSize := 0,
    dx_tmpInTarget := 0, dx_tmpOut := u, dx_tmpOutStart := 0, dx_tmpOutSize := 0, dx_dStage := getBlockHeader\<rparr>\<rparr>"
  have "f_stage c v = f_stage c w"
    using st b(1) by (simp add: f_stage_def f_init_def v0_def [symmetric] Let_def w_def)
  then have "LZ4F_stages c v = LZ4F_stages c w" by (rule stages_same)
  moreover have "io_ok c w rest" using io b(2) room by (simp add: io_ok_def w_def v0_def)
  then have "between_blocks c w (dx_frameInfo (f_ctx v)) rest []"
    using x by (simp add: between_blocks_def w_def v0_def sums_ok_def dict_holds_def xxh_rep_reset)
  ultimately show ?thesis by (intro exI [of _ w]) (simp add: w_def)
qed

section \<open>One call\<close>

definition frame_block_max :: "bytes \<Rightarrow> nat" where
  "frame_block_max bs = (case LZ4F_decodeHeader bs of Frame_Header p _ \<Rightarrow> block_max p | _ \<Rightarrow> 0)"

text \<open>What a call gives when the whole frame is there.\<close>

definition decompressed :: "df_result \<Rightarrow> int \<Rightarrow> nat \<Rightarrow> bytes \<Rightarrow> bool" where
  "decompressed r dst srcSize content \<longleftrightarrow>
     o_code r = 0 \<and> o_srcSize r = srcSize \<and> o_dstSize r = length content
     \<and> mem_bytes (o_mem r) dst (length content) = content \<and> dctx_idle (o_ctx r)"

lemma preserve_idle: "dctx_idle (f_ctx v) \<Longrightarrow> f_preserve c v = Inr v"
  by (simp add: f_preserve_def Let_def dctx_idle_def)

lemma LZ4F_decompress_frame:
  assumes dec: "lz4f_decode (mem_bytes m src n) = Some content" and idle: "dctx_idle x"
    and src: "0 < src" "src + int n < 4294967296" "callers room x src (src + int n)"
    and dst: "0 < dst" "dst + int cap < 4294967296" "callers room x dst (dst + int cap)"
    and apart: "src + int n \<le> dst \<or> dst + int cap \<le> src"
    and cap: "length content + frame_block_max (mem_bytes m src n) \<le> cap"
    and al: "\<And>k. newTmpIn k \<noteq> 0" "\<And>k. newTmpOutBuffer k \<noteq> 0"
  shows "\<exists>r. LZ4F_decompress room m x dst cap src n stableDst newTmpIn newTmpOutBuffer = Inr r \<and> decompressed r dst n content"
proof -
  define bs where "bs = mem_bytes m src n"
  define c where "c = \<lparr>f_srcEnd = src + int n, f_dstStart = dst, f_dstEnd = dst + int cap, f_stableDst = stableDst,
    f_tmpIn = newTmpIn, f_tmpOutBuffer = newTmpOutBuffer\<rparr>"
  define v where "v = \<lparr>f_ctx = x, f_mem = m, f_room = room, f_srcPtr = src, f_dstPtr = dst, f_hint = 1\<rparr>"
  obtain p k where h: "LZ4F_decodeHeader bs = Frame_Header p k" "lz4f_blocks p (drop k bs) [] = Some content"
    using dec by (auto simp: lz4f_decode_def bs_def split: header_result.splits)
  have k: "k \<le> length bs" using decodeHeader_size [OF h(1)] by simp
  have io: "io_ok c v bs"
    using src dst apart callers_lent [OF src(3)] callers_lent [OF dst(3)] by (simp add: io_ok_def c_def v_def bs_def)
  obtain v1 where v1: "LZ4F_stages c v = LZ4F_stages c v1" "header_read v v1 p k"
    using header_step [OF io _ h(1)] idle by (auto simp: v_def)
  note r = v1(2) [unfolded header_read_def]
  have f1: "f_srcPtr v1 = src + int k" "f_dstPtr v1 = dst" "f_room v1 = room" "f_mem v1 = m"
    using r by (auto simp: v_def dest: arg_cong [where f = f_srcPtr] arg_cong [where f = f_dstPtr]
        arg_cong [where f = f_room] arg_cong [where f = f_mem])
  have io1: "io_ok c v1 (drop k bs)"
    using io_skip [OF io k] f1 by (simp add: io_ok_def v_def)
  have x1: "dx_tmpIn (f_ctx v1) = dx_tmpIn x" "dx_tmpOutBuffer (f_ctx v1) = dx_tmpOutBuffer x" "dx_dictSize (f_ctx v1) = 0"
    using r idle by (simp_all add: v_def dctx_idle_def)
  have "callers (f_room v1) (f_ctx v1) (f_srcPtr v1) (f_srcEnd c)" "callers (f_room v1) (f_ctx v1) (f_dstStart c) (f_dstEnd c)"
    using src(3) dst(3) x1 k lends_mono [of _ src "src + int n" "src + int k" "src + int n"] by (auto simp: callers_def f1 c_def bs_def)
  then obtain v2 where v2: "LZ4F_stages c v1 = LZ4F_stages c v2" "between_blocks c v2 p (drop k bs) []" "dx_dStage (f_ctx v2) = getBlockHeader"
    using init_step [OF io1] r x1(3) al f1 by (auto simp: c_def)
  have "f_dstStart c + int (length content + block_max p) \<le> f_dstEnd c"
    using cap h(1) by (simp add: c_def frame_block_max_def bs_def)
  then obtain w where w: "LZ4F_stages c v2 = Inr (Done w)" "frame_over c w content"
    using blocks_run [OF h(2) v2(2,3)] decodeHeader_prefs(1,2) [OF h(1)] by blast
  have "LZ4F_stages c v = Inr (Done w)" using v1(1) v2(1) w(1) by simp
  moreover have "f_preserve c w = Inr w" using w(2) by (intro preserve_idle) (simp add: frame_over_def)
  ultimately have "LZ4F_decompress room m x dst cap src n stableDst newTmpIn newTmpOutBuffer =
    Inr \<lparr>o_code = of_nat (f_hint w), o_dstSize = nat (f_dstPtr w - dst), o_srcSize = nat (f_srcPtr w - src),
      o_mem = f_mem w, o_room = f_room w, o_ctx = f_ctx w\<rparr>"
    using dst(1) by (simp add: LZ4F_decompress_def Let_def c_def v_def)
  then show ?thesis using w(2) by (simp add: decompressed_def frame_over_def c_def)
qed

end
