(* ===== verification/Lz4_Frame_Safe.thy ===== *)
theory Lz4_Frame_Safe
  imports Lz4_Frame_Roundtrip
begin

text \<open>
  The frame decompressor on any input: an invariant of the context between calls, and the proof
  that a call that gets such a context never reads or writes outside of the caller's buffers and
  its own, never fails an assertion, takes and gives no more than it is offered, and leaves such
  a context again, or, after an error, one that a reset makes so. For callers that do not pledge
  that their output stays in place, and without a dictionary of their own.
\<close>

section \<open>The context between calls\<close>

definition block_sizes :: "nat set" where
  "block_sizes = {65536, 262144, 1048576, 4194304}"

text \<open>Two ranges with at least a byte between them.\<close>

definition away :: "int \<Rightarrow> int \<Rightarrow> int \<Rightarrow> int \<Rightarrow> bool" where
  "away a b p q \<longleftrightarrow> b < p \<or> q < a"

definition own_size :: "room \<Rightarrow> LZ4F_dctx \<Rightarrow> nat \<Rightarrow> bool" where
  "own_size room x B \<longleftrightarrow>
     B \<in> block_sizes \<and> dx_maxBufferSize x \<in> {B, B + 131072}
     \<and> 0 < dx_tmpIn x \<and> dx_tmpIn x + int (B + 4) < 4294967296
     \<and> lends room (dx_tmpIn x) (dx_tmpIn x + int (B + 4))
     \<and> 0 < dx_tmpOutBuffer x \<and> dx_tmpOutBuffer x + int (dx_maxBufferSize x) < 4294967296
     \<and> lends room (dx_tmpOutBuffer x) (dx_tmpOutBuffer x + int (dx_maxBufferSize x))
     \<and> away (dx_tmpIn x) (dx_tmpIn x + int (B + 4)) (dx_tmpOutBuffer x) (dx_tmpOutBuffer x + int (dx_maxBufferSize x))"

definition own_ok :: "room \<Rightarrow> LZ4F_dctx \<Rightarrow> bool" where
  "own_ok room x \<longleftrightarrow> dx_maxBufferSize x = 0 \<or> (\<exists>B. own_size room x B)"

text \<open>The sizes of the frame that is being decoded, and where a block may be decoded to.\<close>

definition linked :: "LZ4F_dctx \<Rightarrow> bool" where
  "linked x \<longleftrightarrow> blockMode (dx_frameInfo x) = LZ4F_blockLinked"

definition sized :: "LZ4F_dctx \<Rightarrow> bool" where
  "sized x \<longleftrightarrow>
     dx_maxBlockSize x \<in> block_sizes
     \<and> dx_maxBlockSize x + (if linked x then 131072 else 0) \<le> dx_maxBufferSize x
     \<and> dx_tmpOutBuffer x \<le> dx_tmpOut x
     \<and> dx_tmpOut x + int (dx_maxBlockSize x) \<le> dx_tmpOutBuffer x + int (dx_maxBufferSize x)"

definition crc_size :: "LZ4F_dctx \<Rightarrow> nat" where
  "crc_size x = (if blockChecksumFlag (dx_frameInfo x) then 4 else 0)"

text \<open>How much history the flush still needs in front of \<open>tmpOut\<close>.\<close>

definition flush_copy :: "LZ4F_dctx \<Rightarrow> nat" where
  "flush_copy x = min (65536 - dx_tmpOutSize x) (nat (dx_tmpOut x - dx_tmpOutBuffer x))"

definition flush_dict :: "LZ4F_dctx \<Rightarrow> bool" where
  "flush_dict x \<longleftrightarrow>
     (if dx_dict x = dx_tmpOutBuffer x \<and> dx_dictSize x \<noteq> 0
      then dx_dict x + int (dx_dictSize x) = dx_tmpOut x + int (dx_tmpOutStart x)
      else flush_copy x = 0 \<or> flush_copy x + dx_tmpOutStart x \<le> dx_dictSize x)"

definition stage_ok :: "LZ4F_dctx \<Rightarrow> bool" where
  "stage_ok x =
     (case dx_dStage x of
        getFrameHeader \<Rightarrow> dx_dictSize x = 0
      | storeFrameHeader \<Rightarrow>
          dx_dictSize x = 0 \<and> dx_tmpInSize x \<le> dx_tmpInTarget x \<and> 7 \<le> dx_tmpInTarget x \<and> dx_tmpInTarget x \<le> 19
          \<and> (7 < dx_tmpInTarget x \<longrightarrow> 7 \<le> dx_tmpInSize x \<and> LZ4F_readLE32 (dx_header x) = LZ4F_MAGICNUMBER)
      | stage_init \<Rightarrow> dx_dictSize x = 0 \<and> dx_maxBlockSize x \<in> block_sizes
      | getBlockHeader \<Rightarrow> sized x
      | storeBlockHeader \<Rightarrow> sized x \<and> dx_tmpInSize x \<le> 4
      | copyDirect \<Rightarrow> sized x
      | getBlockChecksum \<Rightarrow> sized x \<and> dx_tmpInSize x \<le> 4
      | getCBlock \<Rightarrow> sized x \<and> crc_size x < dx_tmpInTarget x \<and> dx_tmpInTarget x \<le> dx_maxBlockSize x + crc_size x
      | storeCBlock \<Rightarrow> sized x \<and> crc_size x < dx_tmpInTarget x \<and> dx_tmpInTarget x \<le> dx_maxBlockSize x + crc_size x
          \<and> dx_tmpInSize x \<le> dx_tmpInTarget x
      | flushOut \<Rightarrow> sized x \<and> dx_tmpOutStart x \<le> dx_tmpOutSize x \<and> dx_tmpOutSize x \<le> dx_maxBlockSize x
          \<and> (linked x \<longrightarrow> flush_dict x)
      | getSuffix \<Rightarrow> sized x
      | storeSuffix \<Rightarrow> sized x \<and> dx_tmpInSize x \<le> 4
      | getSFrameSize \<Rightarrow> True
      | storeSFrameSize \<Rightarrow> dx_tmpInSize x \<le> 8 \<and> dx_tmpInTarget x = 8
      | skipSkippable \<Rightarrow> True)"

text \<open>Between blocks the history is empty or, for linked blocks, in \<open>tmpOutBuffer\<close>.\<close>

definition history_rests :: "LZ4F_dctx \<Rightarrow> bool" where
  "history_rests x \<longleftrightarrow>
     dx_dictSize x = 0 \<or> linked x \<and> dx_dict x = dx_tmpOutBuffer x \<and> dx_dictSize x \<le> dx_maxBufferSize x"

definition block_stage :: "dStage \<Rightarrow> bool" where
  "block_stage s \<longleftrightarrow> 3 \<le> stage_no s \<and> stage_no s < 10"

definition dctx_ok :: "room \<Rightarrow> LZ4F_dctx \<Rightarrow> bool" where
  "dctx_ok room x \<longleftrightarrow>
     length (dx_header x) = 19 \<and> own_ok room x \<and> stage_ok x \<and> (block_stage (dx_dStage x) \<longrightarrow> history_rests x)"

section \<open>The invariant of a call\<close>

definition headed :: "dStage \<Rightarrow> bool" where
  "headed s \<longleftrightarrow> 3 \<le> stage_no s \<and> stage_no s < 12"

definition io_range :: "df_call \<Rightarrow> df_vars \<Rightarrow> bool" where
  "io_range c v \<longleftrightarrow>
     f_srcPtr v \<le> f_srcEnd c \<and> f_srcEnd c < 4294967296 \<and> (f_srcPtr v < f_srcEnd c \<longrightarrow> 0 < f_srcPtr v)
     \<and> 0 \<le> f_dstStart c \<and> f_dstStart c \<le> f_dstPtr v \<and> f_dstPtr v \<le> f_dstEnd c \<and> f_dstEnd c < 4294967296
     \<and> (f_dstStart c = 0 \<longrightarrow> f_dstEnd c = 0)
     \<and> (f_srcEnd c \<le> f_dstStart c \<or> f_dstEnd c \<le> f_srcPtr v)"

text \<open>
  While a header is read the caller's ranges must survive the replacement of the own buffers, and
  what the allocator may answer is away from them.
\<close>

definition fresh_range :: "df_call \<Rightarrow> df_vars \<Rightarrow> int \<Rightarrow> nat \<Rightarrow> bool" where
  "fresh_range c v p n \<longleftrightarrow>
     p = 0 \<or> 0 < p \<and> p + int n < 4294967296
       \<and> away p (p + int n) (f_srcPtr v) (f_srcEnd c) \<and> away p (p + int n) (f_dstStart c) (f_dstEnd c)"

definition alloc_ok :: "df_call \<Rightarrow> df_vars \<Rightarrow> bool" where
  "alloc_ok c v \<longleftrightarrow>
     (\<forall>n. fresh_range c v (f_tmpIn c n) n \<and> fresh_range c v (f_tmpOutBuffer c n) n)
     \<and> (\<forall>n. f_tmpIn c n \<noteq> 0 \<longrightarrow> f_tmpIn c n \<noteq> dx_tmpOutBuffer (f_ctx v))
     \<and> (\<forall>n k. f_tmpIn c n \<noteq> 0 \<longrightarrow> f_tmpOutBuffer c k \<noteq> 0 \<longrightarrow>
          away (f_tmpIn c n) (f_tmpIn c n + int n) (f_tmpOutBuffer c k) (f_tmpOutBuffer c k + int k))"

definition own_away :: "df_call \<Rightarrow> df_vars \<Rightarrow> nat \<Rightarrow> bool" where
  "own_away c v B \<longleftrightarrow>
     away (dx_tmpIn (f_ctx v)) (dx_tmpIn (f_ctx v) + int (B + 4)) (f_srcPtr v) (f_srcEnd c)
     \<and> away (dx_tmpIn (f_ctx v)) (dx_tmpIn (f_ctx v) + int (B + 4)) (f_dstStart c) (f_dstEnd c)
     \<and> away (dx_tmpOutBuffer (f_ctx v)) (dx_tmpOutBuffer (f_ctx v) + int (dx_maxBufferSize (f_ctx v))) (f_srcPtr v) (f_srcEnd c)
     \<and> away (dx_tmpOutBuffer (f_ctx v)) (dx_tmpOutBuffer (f_ctx v) + int (dx_maxBufferSize (f_ctx v))) (f_dstStart c) (f_dstEnd c)"

definition head_inv :: "df_call \<Rightarrow> df_vars \<Rightarrow> bool" where
  "head_inv c v \<longleftrightarrow>
     length (dx_header (f_ctx v)) = 19 \<and> io_range c v \<and> alloc_ok c v
     \<and> (dx_maxBufferSize (f_ctx v) = 0 \<or> (\<exists>B. own_size (f_room v) (f_ctx v) B \<and> own_away c v B))
     \<and> callers (f_room v) (f_ctx v) (f_srcPtr v) (f_srcEnd c) \<and> callers (f_room v) (f_ctx v) (f_dstStart c) (f_dstEnd c)"

text \<open>In a frame the caller's ranges are lent, and the own buffers are away from them.\<close>

definition work_inv :: "df_call \<Rightarrow> df_vars \<Rightarrow> nat \<Rightarrow> bool" where work_inv_own:
  "work_inv c v B \<longleftrightarrow>
     length (dx_header (f_ctx v)) = 19 \<and> io_range c v \<and> sized (f_ctx v) \<and> own_size (f_room v) (f_ctx v) B
     \<and> lends (f_room v) (f_srcPtr v) (f_srcEnd c) \<and> lends (f_room v) (f_dstStart c) (f_dstEnd c) \<and> own_away c v B"

lemmas work_inv_def = work_inv_own [unfolded own_away_def]

text \<open>Where the history may be during a call: nowhere, in the own buffer, or right before the output.\<close>

definition history_ok :: "df_call \<Rightarrow> df_vars \<Rightarrow> bool" where
  "history_ok c v \<longleftrightarrow>
     (let x = f_ctx v in
      dx_dictSize x = 0
      \<or> linked x \<and> (dx_dict x = dx_tmpOutBuffer x \<and> dx_dictSize x \<le> dx_maxBufferSize x
           \<or> f_dstStart c \<le> dx_dict x \<and> dx_dict x + int (dx_dictSize x) = f_dstPtr v))"

definition call_inv :: "df_call \<Rightarrow> df_vars \<Rightarrow> bool" where
  "call_inv c v \<longleftrightarrow>
     stage_ok (f_ctx v) \<and> (if headed (dx_dStage (f_ctx v)) then \<exists>B. work_inv c v B else head_inv c v)
     \<and> (block_stage (dx_dStage (f_ctx v)) \<longrightarrow> history_ok c v)"

text \<open>What a stage may do: go on, stop, or return with a hint or an error.\<close>

definition idle_ok :: "df_vars \<Rightarrow> bool" where
  "idle_ok v \<longleftrightarrow> own_ok (f_room v) (f_ctx v) \<and> length (dx_header (f_ctx v)) = 19"

definition within :: "df_call \<Rightarrow> df_vars \<Rightarrow> bool" where
  "within c v \<longleftrightarrow> f_srcPtr v \<le> f_srcEnd c \<and> f_dstStart c \<le> f_dstPtr v \<and> f_dstPtr v \<le> f_dstEnd c"

definition stage_safe :: "df_call \<Rightarrow> df_next outcome \<Rightarrow> bool" where
  "stage_safe c r \<longleftrightarrow>
     (case r of
        Inl _ \<Rightarrow> False
      | Inr (Another v) \<Rightarrow> call_inv c v
      | Inr (Done v) \<Rightarrow> idle_ok v \<and> within c v \<and> stage_ok (f_ctx v) \<and> (block_stage (dx_dStage (f_ctx v)) \<longrightarrow> call_inv c v)
      | Inr (Return_Now code v) \<Rightarrow>
          idle_ok v \<and> (LZ4F_isError code \<or> stage_ok (f_ctx v) \<and> \<not> block_stage (dx_dStage (f_ctx v))))"

lemma isError_err0r [simp]: "e \<noteq> OK_NoError \<Longrightarrow> e \<noteq> ERROR_maxCode \<Longrightarrow> LZ4F_isError (err0r e)"
  by (cases e) (simp_all add: LZ4F_isError_def err0r_def)

lemma stage_classes [simp]:
  "headed getBlockHeader" "headed storeBlockHeader" "headed copyDirect" "headed getBlockChecksum" "headed getCBlock"
  "headed storeCBlock" "headed flushOut" "headed getSuffix" "headed storeSuffix"
  "\<not> headed getFrameHeader" "\<not> headed storeFrameHeader" "\<not> headed stage_init" "\<not> headed getSFrameSize"
  "\<not> headed storeSFrameSize" "\<not> headed skipSkippable"
  "block_stage getBlockHeader" "block_stage storeBlockHeader" "block_stage copyDirect" "block_stage getBlockChecksum"
  "block_stage getCBlock" "block_stage storeCBlock" "block_stage flushOut" "\<not> block_stage getSuffix" "\<not> block_stage storeSuffix"
  "\<not> block_stage getFrameHeader" "\<not> block_stage storeFrameHeader" "\<not> block_stage stage_init" "\<not> block_stage getSFrameSize"
  "\<not> block_stage storeSFrameSize" "\<not> block_stage skipSkippable"
  by (simp_all add: headed_def block_stage_def)

lemma block_headed: "block_stage s \<Longrightarrow> headed s"
  by (simp add: headed_def block_stage_def)

lemma work_idle: "work_inv c v B \<Longrightarrow> idle_ok v \<and> within c v"
  by (auto simp: work_inv_def idle_ok_def own_ok_def within_def io_range_def)

lemma head_idle: "head_inv c v \<Longrightarrow> idle_ok v \<and> within c v"
  by (auto simp: head_inv_def idle_ok_def within_def io_range_def own_ok_def)

lemma call_idle: "call_inv c v \<Longrightarrow> idle_ok v \<and> within c v"
  using work_idle head_idle by (auto simp: call_inv_def split: if_splits)

lemma stop_safe [intro]: "call_inv c (v\<lparr>f_hint := n\<rparr>) \<Longrightarrow> stage_safe c (f_stop n v)"
  using call_idle [of c "v\<lparr>f_hint := n\<rparr>"] by (auto simp: f_stop_def stage_safe_def call_inv_def)

lemma goto_safe [intro]: "call_inv c (v\<lparr>f_ctx := (f_ctx v)\<lparr>dx_dStage := s\<rparr>\<rparr>) \<Longrightarrow> stage_safe c (f_goto s v)"
  by (simp add: f_goto_def stage_safe_def)

lemma error_safe: "idle_ok v \<Longrightarrow> e \<noteq> OK_NoError \<Longrightarrow> e \<noteq> ERROR_maxCode \<Longrightarrow> stage_safe c (f_error e v)"
  by (simp add: f_error_def stage_safe_def)

section \<open>Moving on within a frame\<close>

definition keeps_frame :: "df_vars \<Rightarrow> df_vars \<Rightarrow> bool" where
  "keeps_frame v v' \<longleftrightarrow>
     f_room v' = f_room v \<and> length (dx_header (f_ctx v')) = length (dx_header (f_ctx v))
     \<and> dx_frameInfo (f_ctx v') = dx_frameInfo (f_ctx v) \<and> dx_maxBlockSize (f_ctx v') = dx_maxBlockSize (f_ctx v)
     \<and> dx_maxBufferSize (f_ctx v') = dx_maxBufferSize (f_ctx v) \<and> dx_tmpIn (f_ctx v') = dx_tmpIn (f_ctx v)
     \<and> dx_tmpOutBuffer (f_ctx v') = dx_tmpOutBuffer (f_ctx v)"

lemma away_mono: "away a b p q \<Longrightarrow> p \<le> p' \<Longrightarrow> q' \<le> q \<Longrightarrow> p' \<le> q' \<Longrightarrow> away a b p' q'"
  by (auto simp: away_def)

lemma work_move:
  assumes "work_inv c v B" and "keeps_frame v v'" and "sized (f_ctx v')"
    and "f_srcPtr v \<le> f_srcPtr v'" "f_srcPtr v' \<le> f_srcEnd c" "f_dstPtr v \<le> f_dstPtr v'" "f_dstPtr v' \<le> f_dstEnd c"
  shows "work_inv c v' B"
proof -
  note i = assms(1) [unfolded work_inv_def io_range_def]
  note k = assms(2) [unfolded keeps_frame_def]
  have "lends (f_room v') (f_srcPtr v') (f_srcEnd c)" using i k assms(4) lends_mono by fastforce
  moreover have "0 < f_srcPtr v'" if "f_srcPtr v' < f_srcEnd c" using i that assms(4) by linarith
  moreover have "f_srcEnd c \<le> f_dstStart c \<or> f_dstEnd c \<le> f_srcPtr v'" using i assms(4) by linarith
  ultimately show ?thesis
    using i k assms(3-7) away_mono [of _ _ "f_srcPtr v" "f_srcEnd c" "f_srcPtr v'" "f_srcEnd c"]
    by (simp add: work_inv_def io_range_def own_size_def)
qed

lemma keeps_frame_trans: "keeps_frame u v \<Longrightarrow> keeps_frame v w \<Longrightarrow> keeps_frame u w"
  by (simp add: keeps_frame_def)

lemma sized_keeps: "sized (f_ctx v) \<Longrightarrow> keeps_frame v v' \<Longrightarrow> dx_tmpOut (f_ctx v') = dx_tmpOut (f_ctx v) \<Longrightarrow> sized (f_ctx v')"
  by (simp add: keeps_frame_def sized_def linked_def)

text \<open>The sizes of the own buffers.\<close>

lemma own_block:
  assumes "work_inv c v B"
  shows "dx_maxBlockSize (f_ctx v) \<le> B" and "linked (f_ctx v) \<Longrightarrow> 131072 + dx_maxBlockSize (f_ctx v) \<le> dx_maxBufferSize (f_ctx v)"
    and "0 < dx_maxBlockSize (f_ctx v)" and "dx_maxBlockSize (f_ctx v) \<le> 4194304" and "dx_maxBufferSize (f_ctx v) \<le> 4325376"
proof -
  have s: "dx_maxBlockSize (f_ctx v) \<in> block_sizes" "B \<in> block_sizes" "dx_maxBufferSize (f_ctx v) \<in> {B, B + 131072}"
    "dx_maxBlockSize (f_ctx v) + (if linked (f_ctx v) then 131072 else 0) \<le> dx_maxBufferSize (f_ctx v)"
    using assms by (auto simp: work_inv_def own_size_def sized_def)
  then have "dx_maxBlockSize (f_ctx v) \<le> B + 131072" by (auto split: if_splits)
  with s(1,2) show "dx_maxBlockSize (f_ctx v) \<le> B" by (auto simp: block_sizes_def)
  show "linked (f_ctx v) \<Longrightarrow> 131072 + dx_maxBlockSize (f_ctx v) \<le> dx_maxBufferSize (f_ctx v)" using s(4) by simp
  show "0 < dx_maxBlockSize (f_ctx v)" "dx_maxBlockSize (f_ctx v) \<le> 4194304" "dx_maxBufferSize (f_ctx v) \<le> 4325376"
    using s(1-3) by (auto simp: block_sizes_def)
qed

lemma work_src:
  assumes "work_inv c v B" and "n \<le> f_left c v"
  shows "lends (f_room v) (f_srcPtr v) (f_srcPtr v + int n)" and "f_srcPtr v + int n \<le> f_srcEnd c"
    and "f_bytes (f_room v) (f_mem v) (f_srcPtr v) n = Inr (mem_bytes (f_mem v) (f_srcPtr v) n)"
proof -
  show e: "f_srcPtr v + int n \<le> f_srcEnd c" using assms by (auto simp: f_left_def work_inv_def io_range_def)
  show l: "lends (f_room v) (f_srcPtr v) (f_srcPtr v + int n)"
    by (rule lends_mono [of _ "f_srcPtr v" "f_srcEnd c"]) (use assms e in \<open>auto simp: work_inv_def\<close>)
  show "f_bytes (f_room v) (f_mem v) (f_srcPtr v) n = Inr (mem_bytes (f_mem v) (f_srcPtr v) n)" by (rule f_bytes_lent [OF l])
qed

lemma work_dst:
  assumes "work_inv c v B" and "n \<le> f_space c v"
  shows "lends (f_room v) (f_dstPtr v) (f_dstPtr v + int n)" and "f_dstPtr v + int n \<le> f_dstEnd c"
proof -
  show e: "f_dstPtr v + int n \<le> f_dstEnd c" using assms by (auto simp: f_space_def work_inv_def io_range_def)
  show "lends (f_room v) (f_dstPtr v) (f_dstPtr v + int n)"
    by (rule lends_mono [of _ "f_dstStart c" "f_dstEnd c"]) (use assms e in \<open>auto simp: work_inv_def io_range_def\<close>)
qed

lemma work_tmpIn:
  assumes "work_inv c v B" and "k + n \<le> B + 4"
  shows "lends (f_room v) (dx_tmpIn (f_ctx v) + int k) (dx_tmpIn (f_ctx v) + int k + int n)"
  by (rule lends_mono [of _ "dx_tmpIn (f_ctx v)" "dx_tmpIn (f_ctx v) + int (B + 4)"])
    (use assms in \<open>auto simp: work_inv_def own_size_def\<close>)

lemma work_tmpOut:
  assumes "work_inv c v B" and "dx_tmpOutBuffer (f_ctx v) \<le> p" and "p + int n \<le> dx_tmpOutBuffer (f_ctx v) + int (dx_maxBufferSize (f_ctx v))"
  shows "lends (f_room v) p (p + int n)"
  by (rule lends_mono [of _ "dx_tmpOutBuffer (f_ctx v)" "dx_tmpOutBuffer (f_ctx v) + int (dx_maxBufferSize (f_ctx v))"])
    (use assms in \<open>auto simp: work_inv_def own_size_def\<close>)

section \<open>The pieces of a stage\<close>

lemma fill_tmpIn_safe:
  assumes inv: "work_inv c v B" and n: "dx_tmpInSize (f_ctx v) \<le> t" "t \<le> B + 4"
  shows "\<exists>m k. k \<le> f_left c v \<and> k \<le> t - dx_tmpInSize (f_ctx v)
    \<and> f_fill_tmpIn c t v = Inr (v\<lparr>f_mem := m, f_srcPtr := f_srcPtr v + int k, f_ctx := (f_ctx v)\<lparr>dx_tmpInSize := dx_tmpInSize (f_ctx v) + k\<rparr>\<rparr>)"
proof -
  let ?s = "dx_tmpInSize (f_ctx v)"
  define k where "k = min (t - ?s) (f_left c v)"
  have k: "k \<le> f_left c v" "?s + k \<le> B + 4" using n by (auto simp: k_def)
  have "dx_tmpIn (f_ctx v) + int ?s + int k \<le> f_srcPtr v \<or> f_srcPtr v + int k \<le> dx_tmpIn (f_ctx v) + int ?s"
    using inv work_src(2) [OF inv k(1)] k(2) by (auto simp: work_inv_def away_def)
  from f_memcpy_lent [OF work_src(1) [OF inv k(1)] work_tmpIn [OF inv k(2)] this, of "f_mem v"]
  have "f_fill_tmpIn c t v = Inr (v\<lparr>f_mem := memmove (f_mem v) (dx_tmpIn (f_ctx v) + int ?s) (f_srcPtr v) k,
      f_srcPtr := f_srcPtr v + int k, f_ctx := (f_ctx v)\<lparr>dx_tmpInSize := ?s + k\<rparr>\<rparr>)"
    using n by (simp add: f_fill_tmpIn_def Let_def f_wanted_def k_def)
  with k(1) show ?thesis by (intro exI [of _ "memmove (f_mem v) (dx_tmpIn (f_ctx v) + int ?s) (f_srcPtr v) k"] exI [of _ k]) (simp add: k_def)
qed

lemma fill_header_safe:
  assumes "dx_tmpInSize (f_ctx v) \<le> t" "t \<le> 19" "length (dx_header (f_ctx v)) = 19"
    and "\<And>n. n \<le> f_left c v \<Longrightarrow> lends (f_room v) (f_srcPtr v) (f_srcPtr v + int n)"
  shows "\<exists>h k. k \<le> f_left c v \<and> k \<le> t - dx_tmpInSize (f_ctx v) \<and> length h = 19
    \<and> take (dx_tmpInSize (f_ctx v)) h = take (dx_tmpInSize (f_ctx v)) (dx_header (f_ctx v))
    \<and> f_fill_header c t v = Inr (v\<lparr>f_srcPtr := f_srcPtr v + int k, f_ctx := (f_ctx v)\<lparr>dx_header := h, dx_tmpInSize := dx_tmpInSize (f_ctx v) + k\<rparr>\<rparr>)"
proof -
  let ?s = "dx_tmpInSize (f_ctx v)" and ?h = "dx_header (f_ctx v)"
  define k where "k = min (t - ?s) (f_left c v)"
  define bs where "bs = mem_bytes (f_mem v) (f_srcPtr v) k"
  define h where "h = take ?s ?h @ bs @ drop (?s + k) ?h"
  have k: "k \<le> f_left c v" "?s + k \<le> 19" using assms(1,2) by (auto simp: k_def)
  have "f_bytes (f_room v) (f_mem v) (f_srcPtr v) k = Inr bs" unfolding bs_def by (rule f_bytes_lent [OF assms(4) [OF k(1)]])
  moreover have "header_put ?h ?s bs = Inr h" using k(2) assms(3) by (simp add: header_put_def h_def bs_def)
  ultimately have "f_fill_header c t v = Inr (v\<lparr>f_srcPtr := f_srcPtr v + int k, f_ctx := (f_ctx v)\<lparr>dx_header := h, dx_tmpInSize := ?s + k\<rparr>\<rparr>)"
    using assms(1) by (simp add: f_fill_header_def Let_def f_wanted_def flip: k_def)
  moreover have "length h = 19" "take ?s h = take ?s ?h" using k(2) assms(3) by (simp_all add: h_def bs_def)
  ultimately show ?thesis using k(1) by (intro exI [of _ h] exI [of _ k]) (simp add: k_def)
qed

lemma account_safe:
  assumes "lends (f_room v) p (p + int n)"
  shows "\<exists>h r. f_account v p n = Inr (v\<lparr>f_ctx := (f_ctx v)\<lparr>dx_xxh := h, dx_frameRemainingSize := r\<rparr>\<rparr>)"
  unfolding f_account_def Let_def f_bytes_lent [OF assms] chain_Inr by blast

section \<open>The history\<close>

text \<open>Copies into the own output buffer, from it, from the output, or from where the history is.\<close>

lemma out_copy:
  assumes inv: "work_inv c v B" and d: "dx_tmpOutBuffer (f_ctx v) \<le> d" "d + int n \<le> dx_tmpOutBuffer (f_ctx v) + int (dx_maxBufferSize (f_ctx v))"
    and s: "f_dstStart c \<le> s" "s + int n \<le> f_dstEnd c"
  shows "f_memcpy (f_room v) m d s n = Inr (memmove m d s n)" and "f_memcpy (f_room v) m s d n = Inr (memmove m s d n)"
proof -
  have lent: "lends (f_room v) s (s + int n)"
    by (rule lends_mono [of _ "f_dstStart c" "f_dstEnd c"]) (use inv s in \<open>auto simp: work_inv_def\<close>)
  have "d + int n \<le> s \<or> s + int n \<le> d"
    using inv d s by (auto simp: work_inv_def away_def)
  then show "f_memcpy (f_room v) m d s n = Inr (memmove m d s n)" "f_memcpy (f_room v) m s d n = Inr (memmove m s d n)"
    using f_memcpy_lent [OF lent work_tmpOut [OF inv d]] f_memcpy_lent [OF work_tmpOut [OF inv d] lent] by auto
qed

lemma tmp_copy:
  assumes inv: "work_inv c v B" and d: "dx_tmpOutBuffer (f_ctx v) \<le> d" "d + int n \<le> s"
    and s: "s + int n \<le> dx_tmpOutBuffer (f_ctx v) + int (dx_maxBufferSize (f_ctx v))"
  shows "f_memcpy (f_room v) m d s n = Inr (memmove m d s n)"
  by (rule f_memcpy_lent [OF work_tmpOut [OF inv] work_tmpOut [OF inv]]) (use d s in auto)

text \<open>The own buffer does not touch the output.\<close>

lemma not_prefix:
  assumes "work_inv c v B" and "n \<le> dx_maxBufferSize (f_ctx v)" and "f_dstStart c \<le> p" "p \<le> f_dstEnd c"
  shows "dx_tmpOutBuffer (f_ctx v) + int n \<noteq> p" and "dx_tmpOutBuffer (f_ctx v) \<noteq> p"
  using assms by (auto simp: work_inv_def away_def)

lemma updateDict_safe:
  assumes inv: "work_inv c v B" and hist: "history_ok c v" and l: "linked (f_ctx v)"
    and p: "f_dstPtr v \<noteq> 0" "f_dstPtr v + int n \<le> f_dstEnd c"
  shows "\<exists>m d k. LZ4F_updateDict (f_room v) (f_mem v) (f_ctx v) (f_dstPtr v) n (f_dstStart c) False
      = Inr (m, (f_ctx v)\<lparr>dx_dict := d, dx_dictSize := k\<rparr>)
    \<and> (k = 0 \<or> d = dx_tmpOutBuffer (f_ctx v) \<and> k \<le> dx_maxBufferSize (f_ctx v)
        \<or> f_dstStart c \<le> d \<and> d + int k = f_dstPtr v + int n)"
proof -
  let ?x = "f_ctx v" and ?p = "f_dstPtr v" and ?U = "LZ4F_updateDict (f_room v) (f_mem v) (f_ctx v) (f_dstPtr v) n (f_dstStart c) False"
  have io: "f_dstStart c \<le> ?p" "0 < f_dstStart c" "dx_tmpOutBuffer ?x \<noteq> 0"
    using inv p by (auto simp: work_inv_def io_range_def own_size_def)
  consider (none) "dx_dictSize ?x = 0"
    | (before) "dx_dictSize ?x \<noteq> 0" "f_dstStart c \<le> dx_dict ?x" "dx_dict ?x + int (dx_dictSize ?x) = ?p"
    | (own) "dx_dictSize ?x \<noteq> 0" "dx_dict ?x = dx_tmpOutBuffer ?x" "dx_dictSize ?x \<le> dx_maxBufferSize ?x"
    using hist by (auto simp: history_ok_def Let_def)
  then show ?thesis
  proof cases
    case none
    then have "?U = Inr (f_mem v, ?x\<lparr>dx_dict := ?p, dx_dictSize := n\<rparr>)" using p by (simp add: LZ4F_updateDict_def)
    with io show ?thesis by (intro exI conjI) auto
  next
    case before
    then have "?U = Inr (f_mem v, ?x\<lparr>dx_dict := dx_dict ?x, dx_dictSize := dx_dictSize ?x + n\<rparr>)"
      using p io by (simp add: LZ4F_updateDict_def Let_def)
    with before show ?thesis
      by (intro exI [of _ "f_mem v"] exI [of _ "dx_dict ?x"] exI [of _ "dx_dictSize ?x + n"]) simp
  next
    case own
    have np: "dx_tmpOutBuffer ?x + int (dx_dictSize ?x) \<noteq> ?p" by (rule not_prefix [OF inv own(3) io(1)]) (use p in simp)
    note U = LZ4F_updateDict_def [of "f_room v" "f_mem v" ?x ?p n "f_dstStart c" False]
    show ?thesis
    proof (cases "65536 \<le> nat (?p - f_dstStart c) + n")
      case True
      then have "?U = Inr (f_mem v, ?x\<lparr>dx_dict := f_dstStart c, dx_dictSize := nat (?p - f_dstStart c) + n\<rparr>)"
        using own p io np by (simp add: U Let_def)
      with io show ?thesis by (intro exI conjI) auto
    next
      case far: False
      have size: "196608 \<le> dx_maxBufferSize ?x"
        using own_block(2) [OF inv l] inv by (auto simp: work_inv_def sized_def block_sizes_def)
      obtain m1 k where m1: "(if dx_dictSize ?x + n > dx_maxBufferSize ?x
          then chain (f_memcpy (f_room v) (f_mem v) (dx_tmpOutBuffer ?x) (dx_dict ?x + int (dx_dictSize ?x) - int (65536 - n)) (65536 - n)) (\<lambda>m1. Inr (m1, 65536 - n))
          else Inr (f_mem v, dx_dictSize ?x)) = Inr (m1, k)" "k + n \<le> dx_maxBufferSize ?x"
        using tmp_copy [OF inv order_refl, of "65536 - n" "dx_dict ?x + int (dx_dictSize ?x) - int (65536 - n)" "f_mem v"] own size far
        by (cases "dx_dictSize ?x + n > dx_maxBufferSize ?x") auto
      have "f_memcpy (f_room v) m1 (dx_tmpOutBuffer ?x + int k) ?p n = Inr (memmove m1 (dx_tmpOutBuffer ?x + int k) ?p n)"
        by (rule out_copy(1) [OF inv]) (use m1(2) io p in auto)
      then have "?U = Inr (memmove m1 (dx_tmpOutBuffer ?x + int k) ?p n, ?x\<lparr>dx_dictSize := k + n\<rparr>)"
        using own(1) p io np far m1(1) unfolding U Let_def if_not_P [OF own(1)] by (simp add: own(2) cong: if_cong)
      then have "?U = Inr (memmove m1 (dx_tmpOutBuffer ?x + int k) ?p n, ?x\<lparr>dx_dict := dx_dict ?x, dx_dictSize := k + n\<rparr>)" by simp
      with own(2) m1(2) show ?thesis by blast
    qed
  qed
qed

lemma history_safe:
  assumes inv: "work_inv c v B" and hist: "history_ok c v" and p: "f_dstPtr v \<noteq> 0" "f_dstPtr v + int n \<le> f_dstEnd c"
  shows "\<exists>m d k. f_history c v n False = Inr (v\<lparr>f_mem := m, f_ctx := (f_ctx v)\<lparr>dx_dict := d, dx_dictSize := k\<rparr>\<rparr>)
    \<and> (k = 0 \<or> linked (f_ctx v) \<and> (d = dx_tmpOutBuffer (f_ctx v) \<and> k \<le> dx_maxBufferSize (f_ctx v)
        \<or> f_dstStart c \<le> d \<and> d + int k = f_dstPtr v + int n))"
proof (cases "linked (f_ctx v)")
  case True
  with updateDict_safe [OF inv hist True p] show ?thesis by (fastforce simp: f_history_def linked_def)
next
  case False
  then have "dx_dictSize (f_ctx v) = 0" using hist by (simp add: history_ok_def Let_def)
  moreover have "f_history c v n False = Inr (v\<lparr>f_mem := f_mem v, f_ctx := (f_ctx v)\<lparr>dx_dict := dx_dict (f_ctx v), dx_dictSize := dx_dictSize (f_ctx v)\<rparr>\<rparr>)"
    using False by (simp add: f_history_def linked_def)
  ultimately show ?thesis by blast
qed

lemma updateDict_tmp_safe:
  assumes inv: "work_inv c v B" and hist: "history_ok c v" and l: "linked (f_ctx v)" and fl: "flush_dict (f_ctx v)"
    and t: "dx_tmpOutStart (f_ctx v) + n \<le> dx_tmpOutSize (f_ctx v)" "dx_tmpOutSize (f_ctx v) \<le> dx_maxBlockSize (f_ctx v)"
    and p: "f_dstPtr v \<noteq> 0" "f_dstPtr v + int n \<le> f_dstEnd c"
  shows "\<exists>d k. LZ4F_updateDict (f_room v) m (f_ctx v) (f_dstPtr v) n (f_dstStart c) True
      = Inr (m, (f_ctx v)\<lparr>dx_dict := d, dx_dictSize := k\<rparr>)
    \<and> (k = 0 \<or> d = dx_tmpOutBuffer (f_ctx v) \<and> k \<le> dx_maxBufferSize (f_ctx v)
        \<or> f_dstStart c \<le> d \<and> d + int k = f_dstPtr v + int n)
    \<and> flush_dict ((f_ctx v)\<lparr>dx_dict := d, dx_dictSize := k, dx_tmpOutStart := dx_tmpOutStart (f_ctx v) + n\<rparr>)"
proof -
  let ?x = "f_ctx v" and ?p = "f_dstPtr v" and ?U = "LZ4F_updateDict (f_room v) m (f_ctx v) (f_dstPtr v) n (f_dstStart c) True"
  have io: "f_dstStart c \<le> ?p" "0 < f_dstStart c" "dx_tmpOutBuffer ?x \<noteq> 0"
    using inv p by (auto simp: work_inv_def io_range_def own_size_def)
  have off: "q \<noteq> dx_tmpOutBuffer ?x" if "f_dstStart c \<le> q" "q \<le> f_dstEnd c" for q
    using not_prefix(2) [OF inv _ that, of 0] by auto
  consider (none) "dx_dictSize ?x = 0"
    | (before) "dx_dictSize ?x \<noteq> 0" "f_dstStart c \<le> dx_dict ?x" "dx_dict ?x + int (dx_dictSize ?x) = ?p"
    | (own) "dx_dictSize ?x \<noteq> 0" "dx_dict ?x = dx_tmpOutBuffer ?x" "dx_dictSize ?x \<le> dx_maxBufferSize ?x"
    using hist by (auto simp: history_ok_def Let_def)
  then show ?thesis
  proof cases
    case none
    have "?U = Inr (m, ?x\<lparr>dx_dict := ?p, dx_dictSize := n\<rparr>)" using p none by (simp add: LZ4F_updateDict_def)
    moreover have "?p \<noteq> dx_tmpOutBuffer ?x" using off [of ?p] io p by simp
    ultimately show ?thesis using io none fl
      by (intro exI [of _ ?p] exI [of _ n]) (auto simp: flush_dict_def flush_copy_def)
  next
    case before
    have "?U = Inr (m, ?x\<lparr>dx_dict := dx_dict ?x, dx_dictSize := dx_dictSize ?x + n\<rparr>)"
      using p io before by (simp add: LZ4F_updateDict_def Let_def)
    moreover have "dx_dict ?x \<noteq> dx_tmpOutBuffer ?x" using off [of "dx_dict ?x"] before p by simp
    ultimately show ?thesis using before fl
      by (intro exI [of _ "dx_dict ?x"] exI [of _ "dx_dictSize ?x + n"]) (auto simp: flush_dict_def flush_copy_def)
  next
    case own
    have np: "dx_tmpOutBuffer ?x + int (dx_dictSize ?x) \<noteq> ?p" by (rule not_prefix [OF inv own(3) io(1)]) (use p in simp)
    have e: "dx_tmpOutBuffer ?x + int (dx_dictSize ?x) = dx_tmpOut ?x + int (dx_tmpOutStart ?x)"
      using fl own by (simp add: flush_dict_def)
    show ?thesis
    proof (cases "65536 \<le> nat (?p - f_dstStart c) + n")
      case True
      let ?k = "nat (?p - f_dstStart c) + n"
      have "?U = Inr (m, ?x\<lparr>dx_dict := f_dstStart c, dx_dictSize := ?k\<rparr>)"
        using True own p io np by (simp add: LZ4F_updateDict_def Let_def)
      moreover have "f_dstStart c \<noteq> dx_tmpOutBuffer ?x" using off [of "f_dstStart c"] io p by simp
      moreover have "flush_copy ?x = 0 \<or> flush_copy ?x + (dx_tmpOutStart ?x + n) \<le> ?k"
        using True t(1) by (auto simp: flush_copy_def)
      ultimately show ?thesis using io
        by (intro exI [of _ "f_dstStart c"] exI [of _ ?k]) (auto simp: flush_dict_def flush_copy_def)
    next
      case False
      have "?U = Inr (m, ?x\<lparr>dx_dict := dx_dict ?x, dx_dictSize := dx_dictSize ?x + n\<rparr>)"
        using False own p io np e by (simp add: LZ4F_updateDict_def Let_def)
      moreover have "dx_dictSize ?x + n \<le> dx_maxBufferSize ?x"
        using e t inv by (auto simp: work_inv_def sized_def)
      ultimately show ?thesis using own e
        by (intro exI [of _ "dx_dict ?x"] exI [of _ "dx_dictSize ?x + n"]) (auto simp: flush_dict_def)
    qed
  qed
qed

section \<open>The stages of a block\<close>

definition keeps_all :: "df_vars \<Rightarrow> df_vars \<Rightarrow> bool" where
  "keeps_all v v' \<longleftrightarrow>
     keeps_frame v v' \<and> dx_tmpOut (f_ctx v') = dx_tmpOut (f_ctx v) \<and> f_dstPtr v' = f_dstPtr v
     \<and> dx_dict (f_ctx v') = dx_dict (f_ctx v) \<and> dx_dictSize (f_ctx v') = dx_dictSize (f_ctx v)"

definition working :: "df_call \<Rightarrow> df_vars \<Rightarrow> nat \<Rightarrow> bool" where
  "working c v B \<longleftrightarrow> work_inv c v B \<and> history_ok c v"

lemma work_src_move:
  assumes "work_inv c v B" and "keeps_all v v'" and "f_srcPtr v \<le> f_srcPtr v'" "f_srcPtr v' \<le> f_srcEnd c"
  shows "work_inv c v' B"
proof (rule work_move [OF assms(1) _ _ assms(3,4)])
  show "keeps_frame v v'" "sized (f_ctx v')"
    using assms sized_keeps [of v v'] by (auto simp: keeps_all_def work_inv_def)
qed (use assms in \<open>auto simp: keeps_all_def work_inv_def io_range_def\<close>)

lemma history_keeps: "history_ok c v \<Longrightarrow> keeps_all v v' \<Longrightarrow> history_ok c v'"
  by (simp add: history_ok_def keeps_all_def keeps_frame_def linked_def Let_def)

lemma working_move:
  assumes "working c v B" and "keeps_all v v'" and "f_srcPtr v \<le> f_srcPtr v'" "f_srcPtr v' \<le> f_srcEnd c"
  shows "working c v' B"
  using work_src_move [OF _ assms(2-4)] history_keeps [OF _ assms(2)] assms(1) by (simp add: working_def)

lemma working_same: "working c v B \<Longrightarrow> keeps_all v v' \<Longrightarrow> f_srcPtr v' = f_srcPtr v \<Longrightarrow> working c v' B"
  by (rule working_move) (auto simp: working_def work_inv_def io_range_def)

lemma working_take:
  assumes "working c v B" and "keeps_all (v\<lparr>f_srcPtr := f_srcPtr v + int n\<rparr>) v'" and "n \<le> f_left c v"
    and "f_srcPtr v' = f_srcPtr v + int n"
  shows "working c v' B"
proof (rule working_move [OF assms(1)])
  show "keeps_all v v'" using assms(2) by (simp add: keeps_all_def keeps_frame_def)
  show "f_srcPtr v \<le> f_srcPtr v'" "f_srcPtr v' \<le> f_srcEnd c"
    using assms work_src(2) [of c v B n] by (simp_all add: working_def)
qed

lemma working_call:
  "working c v B \<Longrightarrow> stage_ok (f_ctx v) \<Longrightarrow> headed (dx_dStage (f_ctx v)) \<Longrightarrow> call_inv c v"
  by (auto simp: working_def call_inv_def)

lemma working_sized: "working c v B \<Longrightarrow> sized (f_ctx v)"
  by (simp add: working_def work_inv_def)

lemma call_working:
  assumes "call_inv c v" and "block_stage (dx_dStage (f_ctx v))"
  obtains B where "working c v B" "stage_ok (f_ctx v)"
  using assms block_headed [OF assms(2)] by (auto simp: call_inv_def working_def)

lemma working_idle: "working c v B \<Longrightarrow> idle_ok v"
  using work_idle by (auto simp: working_def)

lemma sized_upd [simp]:
  "sized (x\<lparr>dx_dStage := s\<rparr>) = sized x" "sized (x\<lparr>dx_tmpInSize := n\<rparr>) = sized x" "sized (x\<lparr>dx_tmpInTarget := n\<rparr>) = sized x"
  "sized (x\<lparr>dx_blockChecksum := h\<rparr>) = sized x" "sized (x\<lparr>dx_header := b\<rparr>) = sized x"
  "sized (x\<lparr>dx_xxh := h\<rparr>) = sized x" "sized (x\<lparr>dx_frameRemainingSize := r\<rparr>) = sized x"
  "sized (x\<lparr>dx_dict := d\<rparr>) = sized x" "sized (x\<lparr>dx_dictSize := n\<rparr>) = sized x"
  "sized (x\<lparr>dx_tmpOutSize := n\<rparr>) = sized x" "sized (x\<lparr>dx_tmpOutStart := n\<rparr>) = sized x"
  by (simp_all add: sized_def linked_def)

lemmas keeps = keeps_all_def keeps_frame_def

lemma size_positive:
  assumes "h \<noteq> (0 :: u32)" and "\<not> h AND LZ4F_BLOCKUNCOMPRESSED_FLAG \<noteq> 0"
  shows "0 < unat (h AND 0x7FFFFFFF)"
proof -
  have "unat h < 2147483648"
    using assms(2) unfolding uncompressed_flag by (simp add: word_le_nat_alt LZ4F_BLOCKUNCOMPRESSED_FLAG_def)
  moreover have "0 < unat h" using assms(1) by (simp add: unat_gt_0)
  ultimately show ?thesis by (simp add: and_7F)
qed

lemma blockHeader_safe:
  assumes w: "working c v B"
  shows "stage_safe c (f_blockHeader c v bs)"
proof -
  define h where "h = LZ4F_readLE32 bs"
  let ?n = "unat (h AND 0x7FFFFFFF)" and ?x = "f_ctx v"
  have crc: "(if blockChecksumFlag (dx_frameInfo ?x) then 4 else 0) = crc_size ?x" by (simp add: crc_size_def)
  note b = f_blockHeader_def [of c v bs, unfolded Let_def, folded h_def, unfolded crc]
  consider "h = 0" | "h \<noteq> 0" "dx_maxBlockSize ?x < ?n"
    | "h \<noteq> 0" "?n \<le> dx_maxBlockSize ?x" "h AND LZ4F_BLOCKUNCOMPRESSED_FLAG \<noteq> 0"
    | "h \<noteq> 0" "?n \<le> dx_maxBlockSize ?x" "\<not> h AND LZ4F_BLOCKUNCOMPRESSED_FLAG \<noteq> 0" by linarith
  then show ?thesis
  proof cases
    case 1
    show ?thesis unfolding b using 1
      by (simp, intro goto_safe working_call [where B = B] working_same [OF w])
        (use working_sized [OF w] in \<open>simp_all add: keeps stage_ok_def\<close>)
  next
    case 2
    then show ?thesis unfolding b using error_safe [OF working_idle [OF w]] by simp
  next
    case 3
    show ?thesis unfolding b using 3
      by (simp, intro conjI impI goto_safe working_call [where B = B] working_same [OF w])
        (use working_sized [OF w] in \<open>simp_all add: keeps stage_ok_def\<close>)
  next
    case 4
    let ?v = "v\<lparr>f_ctx := ?x\<lparr>dx_tmpInTarget := ?n + crc_size ?x, dx_dStage := getCBlock\<rparr>\<rparr>"
    have "stage_ok (f_ctx ?v)"
      using size_positive [OF 4(1,3)] 4(2) working_sized [OF w] by (simp add: stage_ok_def crc_size_def)
    then have inv: "call_inv c (?v\<lparr>f_hint := k\<rparr>)" "call_inv c ?v" for k
      by (intro working_call [where B = B] working_same [OF w]; simp add: keeps)+
    show ?thesis unfolding b using 4 stop_safe [OF inv(1)] inv(2) by (simp add: stage_safe_def)
  qed
qed

lemma chainI: "m = Inr x \<Longrightarrow> stage_safe c (f x) \<Longrightarrow> stage_safe c (chain m f)"
  by simp

lemma storeBlockHeader_safe:
  assumes w: "working c v B" and st: "dx_dStage (f_ctx v) = storeBlockHeader" "dx_tmpInSize (f_ctx v) \<le> 4"
  shows "stage_safe c (f_storeBlockHeader c v)"
proof -
  have inv: "work_inv c v B" using w by (simp add: working_def)
  obtain m k where f: "k \<le> f_left c v" "k \<le> 4 - dx_tmpInSize (f_ctx v)"
    "f_fill_tmpIn c 4 v = Inr (v\<lparr>f_mem := m, f_srcPtr := f_srcPtr v + int k, f_ctx := (f_ctx v)\<lparr>dx_tmpInSize := dx_tmpInSize (f_ctx v) + k\<rparr>\<rparr>)"
    using fill_tmpIn_safe [OF inv st(2)] by auto
  let ?v1 = "v\<lparr>f_mem := m, f_srcPtr := f_srcPtr v + int k, f_ctx := (f_ctx v)\<lparr>dx_tmpInSize := dx_tmpInSize (f_ctx v) + k\<rparr>\<rparr>"
  have w1: "working c (?v1\<lparr>f_hint := n\<rparr>) B" "working c ?v1 B" for n
    by (rule working_take [OF w _ f(1)]; simp add: keeps)+
  have "call_inv c (?v1\<lparr>f_hint := n\<rparr>)" for n
    by (rule working_call [OF w1(1)]) (use st f(2) working_sized [OF w] in \<open>simp_all add: stage_ok_def\<close>)
  moreover have "f_bytes (f_room ?v1) (f_mem ?v1) (dx_tmpIn (f_ctx ?v1)) 4 = Inr (mem_bytes m (dx_tmpIn (f_ctx v)) 4)"
    using f_bytes_lent [OF work_tmpIn [OF inv, of 0 4]] by simp
  ultimately show ?thesis
    using blockHeader_safe [OF w1(2)] stop_safe by (simp add: f_storeBlockHeader_def Let_def f(3))
qed

lemma getBlockHeader_safe:
  assumes w: "working c v B"
  shows "stage_safe c (f_getBlockHeader c v)"
proof (cases "4 \<le> f_left c v")
  case True
  have inv: "work_inv c v B" using w by (simp add: working_def)
  have "working c (v\<lparr>f_srcPtr := f_srcPtr v + int 4\<rparr>) B" by (rule working_take [OF w _ True]) (simp_all add: keeps)
  then show ?thesis using True work_src(3) [OF inv True] blockHeader_safe by (simp add: f_getBlockHeader_def)
next
  case False
  have "working c (v\<lparr>f_ctx := (f_ctx v)\<lparr>dx_tmpInSize := 0, dx_dStage := storeBlockHeader\<rparr>\<rparr>) B"
    by (rule working_same [OF w]) (simp_all add: keeps)
  with False show ?thesis using storeBlockHeader_safe by (simp add: f_getBlockHeader_def)
qed

text \<open>The output of a stage: what it delivers, and the history behind it.\<close>

lemma deliver_safe:
  assumes w: "working c v B" and q: "lends (f_room v) q (q + int n)"
    and p: "f_dstPtr v \<noteq> 0" "f_dstPtr v + int n \<le> f_dstEnd c"
  shows "\<exists>x1 m x2. f_account v q n = Inr (v\<lparr>f_ctx := x1\<rparr>) \<and> f_history c (v\<lparr>f_ctx := x1\<rparr>) n False = Inr (v\<lparr>f_mem := m, f_ctx := x2\<rparr>)
    \<and> working c (v\<lparr>f_mem := m, f_ctx := x2, f_dstPtr := f_dstPtr v + int n\<rparr>) B
    \<and> dx_dStage x2 = dx_dStage (f_ctx v) \<and> dx_frameInfo x2 = dx_frameInfo (f_ctx v) \<and> dx_maxBlockSize x2 = dx_maxBlockSize (f_ctx v)"
proof -
  obtain h r where a: "f_account v q n = Inr (v\<lparr>f_ctx := (f_ctx v)\<lparr>dx_xxh := h, dx_frameRemainingSize := r\<rparr>\<rparr>)"
    using account_safe [OF q] by blast
  define u where "u = v\<lparr>f_ctx := (f_ctx v)\<lparr>dx_xxh := h, dx_frameRemainingSize := r\<rparr>\<rparr>"
  have wu: "working c u B" by (rule working_same [OF w]) (simp_all add: keeps u_def)
  obtain m d k where b: "f_history c u n False = Inr (u\<lparr>f_mem := m, f_ctx := (f_ctx u)\<lparr>dx_dict := d, dx_dictSize := k\<rparr>\<rparr>)"
    "k = 0 \<or> linked (f_ctx u) \<and> (d = dx_tmpOutBuffer (f_ctx u) \<and> k \<le> dx_maxBufferSize (f_ctx u)
        \<or> f_dstStart c \<le> d \<and> d + int k = f_dstPtr u + int n)"
    using history_safe [of c u B n] wu p by (auto simp: working_def u_def)
  let ?x2 = "(f_ctx u)\<lparr>dx_dict := d, dx_dictSize := k\<rparr>"
  let ?w = "v\<lparr>f_mem := m, f_ctx := ?x2, f_dstPtr := f_dstPtr v + int n\<rparr>"
  have "work_inv c ?w B"
    by (rule work_move [of c v]) (use w p in \<open>auto simp: working_def keeps_frame_def u_def work_inv_def io_range_def\<close>)
  moreover have "history_ok c ?w" using b(2) by (auto simp: history_ok_def linked_def u_def Let_def)
  ultimately have "working c ?w B" by (simp add: working_def)
  with a b(1) show ?thesis unfolding u_def
    by (intro exI [of _ "(f_ctx v)\<lparr>dx_xxh := h, dx_frameRemainingSize := r\<rparr>"] exI [of _ m] exI [of _ ?x2]) (simp add: u_def)
qed

lemma copyDirect_safe:
  assumes w: "working c v B" and st: "dx_dStage (f_ctx v) = copyDirect"
  shows "stage_safe c (f_copyDirect c v)"
proof -
  have inv: "work_inv c v B" using w by (simp add: working_def)
  let ?x = "f_ctx v" and ?flag = "blockChecksumFlag (dx_frameInfo (f_ctx v))" and ?t = "dx_tmpInTarget (f_ctx v)"
  text \<open>The end of the stage.\<close>
  have fin: "stage_safe c (let x = f_ctx v1; v2 = v1\<lparr>f_srcPtr := f_srcPtr v1 + int k, f_dstPtr := f_dstPtr v1 + int k\<rparr>
      in if k = ?t then (if ?flag then f_goto getBlockChecksum (v2\<lparr>f_ctx := x\<lparr>dx_tmpInSize := 0\<rparr>\<rparr>) else f_goto getBlockHeader v2)
         else f_stop (?t - k + (if ?flag then 4 else 0) + 4) (v2\<lparr>f_ctx := x\<lparr>dx_tmpInTarget := ?t - k\<rparr>\<rparr>))"
    if "working c (v1\<lparr>f_dstPtr := f_dstPtr v1 + int k\<rparr>) B" "k \<le> f_left c v1" "dx_dStage (f_ctx v1) = copyDirect" for v1 k
  proof -
    let ?u = "v1\<lparr>f_srcPtr := f_srcPtr v1 + int k, f_dstPtr := f_dstPtr v1 + int k\<rparr>"
    have s: "sized (f_ctx v1)" using working_sized [OF that(1)] by simp
    have move: "working c u B" if "keeps_all ?u u" "f_srcPtr u = f_srcPtr v1 + int k" for u
      using working_take [OF \<open>working c (v1\<lparr>f_dstPtr := f_dstPtr v1 + int k\<rparr>) B\<close>, of k u] that \<open>k \<le> f_left c v1\<close>
      by (simp add: keeps f_left_def)
    show ?thesis unfolding Let_def
      by (auto intro!: goto_safe stop_safe working_call [where B = B] move simp: keeps stage_ok_def s that(3))
  qed
  show ?thesis
  proof (cases "f_dstPtr v = 0")
    case True
    have "working c (v\<lparr>f_dstPtr := f_dstPtr v + int 0\<rparr>) B" using w by simp
    from fin [OF this _ st] show ?thesis by (simp only: f_copyDirect_def Let_def if_P [OF True] chain_Inr prod.case le0)
  next
    case False
    define k where "k = min ?t (min (f_left c v) (f_space c v))"
    have k: "k \<le> f_left c v" "k \<le> f_space c v" by (auto simp: k_def)
    note src = work_src(1,2) [OF inv k(1)] and dst = work_dst [OF inv k(2)]
    have "f_dstPtr v + int k \<le> f_srcPtr v \<or> f_srcPtr v + int k \<le> f_dstPtr v"
      using inv src(2) dst(2) by (auto simp: work_inv_def io_range_def)
    note m = f_memcpy_lent [OF src(1) dst(1) this, of "f_mem v"]
    define m1 where "m1 = memmove (f_mem v) (f_dstPtr v) (f_srcPtr v) k"
    define v1 where "v1 = v\<lparr>f_mem := m1, f_ctx := ?x\<lparr>dx_blockChecksum :=
      (if ?flag then XXH32_update (dx_blockChecksum ?x) (mem_bytes m1 (f_srcPtr v) k) else dx_blockChecksum ?x)\<rparr>\<rparr>"
    have w1: "working c v1 B" by (rule working_same [OF w]) (simp_all add: keeps v1_def)
    obtain x1 m2 x2 where d: "f_account v1 (f_srcPtr v) k = Inr (v1\<lparr>f_ctx := x1\<rparr>)"
      "f_history c (v1\<lparr>f_ctx := x1\<rparr>) k False = Inr (v1\<lparr>f_mem := m2, f_ctx := x2\<rparr>)"
      "working c (v1\<lparr>f_mem := m2, f_ctx := x2, f_dstPtr := f_dstPtr v1 + int k\<rparr>) B" "dx_dStage x2 = copyDirect"
      using deliver_safe [OF w1, of "f_srcPtr v" k] src(1) False dst(2) st by (auto simp: v1_def)
    define v2 where "v2 = v1\<lparr>f_mem := m2, f_ctx := x2\<rparr>"
    have "working c (v2\<lparr>f_dstPtr := f_dstPtr v2 + int k\<rparr>) B" using d(3) by (simp add: v2_def)
    from fin [OF this] k(1) d(4) have "stage_safe c (let x = f_ctx v2; w = v2\<lparr>f_srcPtr := f_srcPtr v2 + int k, f_dstPtr := f_dstPtr v2 + int k\<rparr>
      in if k = ?t then (if ?flag then f_goto getBlockChecksum (w\<lparr>f_ctx := x\<lparr>dx_tmpInSize := 0\<rparr>\<rparr>) else f_goto getBlockHeader w)
         else f_stop (?t - k + (if ?flag then 4 else 0) + 4) (w\<lparr>f_ctx := x\<lparr>dx_tmpInTarget := ?t - k\<rparr>\<rparr>))"
      by (simp add: v2_def v1_def f_left_def)
    then show ?thesis
      unfolding f_copyDirect_def Let_def if_not_P [OF False] k_def [symmetric] m m1_def [symmetric] chain_Inr
        v1_def [symmetric] d(1,2) v2_def [symmetric] prod.case .
  qed
qed

lemma getBlockChecksum_safe:
  assumes w: "working c v B" and st: "dx_dStage (f_ctx v) = getBlockChecksum" "dx_tmpInSize (f_ctx v) \<le> 4"
  shows "stage_safe c (f_getBlockChecksum c v)"
proof -
  have inv: "work_inv c v B" and h19: "length (dx_header (f_ctx v)) = 19" using w by (simp_all add: working_def work_inv_def)
  have chk: "stage_safe c (f_checkBlock u bs)" if "working c u B" for u bs
  proof -
    have "call_inv c (u\<lparr>f_ctx := (f_ctx u)\<lparr>dx_dStage := getBlockHeader\<rparr>\<rparr>)"
      by (rule working_call [where B = B], rule working_same [OF that]) (use working_sized [OF that] in \<open>simp_all add: keeps stage_ok_def\<close>)
    then show ?thesis using error_safe [OF working_idle [OF that]] by (auto simp: f_checkBlock_def)
  qed
  show ?thesis
  proof (cases "4 \<le> f_left c v \<and> dx_tmpInSize (f_ctx v) = 0")
    case True
    have "working c (v\<lparr>f_srcPtr := f_srcPtr v + int 4\<rparr>) B" by (rule working_take [OF w]) (use True in \<open>simp_all add: keeps\<close>)
    from chk [OF this] True work_src(3) [OF inv, of 4] show ?thesis by (simp add: f_getBlockChecksum_def)
  next
    case False
    obtain h k where f: "k \<le> f_left c v" "k \<le> 4 - dx_tmpInSize (f_ctx v)" "length h = 19"
      "f_fill_header c 4 v = Inr (v\<lparr>f_srcPtr := f_srcPtr v + int k, f_ctx := (f_ctx v)\<lparr>dx_header := h, dx_tmpInSize := dx_tmpInSize (f_ctx v) + k\<rparr>\<rparr>)"
      using fill_header_safe [of v 4 c] st(2) h19 work_src(1) [OF inv] by auto
    let ?u = "v\<lparr>f_srcPtr := f_srcPtr v + int k, f_ctx := (f_ctx v)\<lparr>dx_header := h, dx_tmpInSize := dx_tmpInSize (f_ctx v) + k\<rparr>\<rparr>"
    have u: "working c ?u B" "working c (?u\<lparr>f_hint := n\<rparr>) B" for n
      by (rule working_take [OF w _ f(1)]; simp add: keeps f(3) h19)+
    have "stage_safe c (f_stop n ?u)" for n
      by (rule stop_safe, rule working_call [OF u(2)]) (use st f(2) working_sized [OF w] in \<open>simp_all add: stage_ok_def\<close>)
    then show ?thesis
      using chk [OF u(1)] unfolding f_getBlockChecksum_def if_not_P [OF False] by (simp add: f(4))
  qed
qed

section \<open>Decoding a block\<close>

text \<open>A compressed block is in the source or in \<open>tmpIn\<close>, away from where it is decoded to.\<close>

definition input_ok :: "df_call \<Rightarrow> df_vars \<Rightarrow> int \<Rightarrow> nat \<Rightarrow> bool" where
  "input_ok c v q n \<longleftrightarrow>
     0 < q \<and> q + int n < 4294967296 \<and> n < 16777216 \<and> lends (f_room v) q (q + int n)
     \<and> (q + int n \<le> f_dstStart c \<or> f_dstEnd c \<le> q)
     \<and> (q + int n \<le> dx_tmpOutBuffer (f_ctx v) \<or> dx_tmpOutBuffer (f_ctx v) + int (dx_maxBufferSize (f_ctx v)) \<le> q)"

lemma history_size: "f_dict x = (d, n) \<Longrightarrow> n \<le> dx_dictSize x \<and> (dx_dictSize x \<le> 1073741824 \<longrightarrow> d = dx_dict x \<and> n = dx_dictSize x)
    \<and> (n \<noteq> 0 \<longrightarrow> d + int n = dx_dict x + int (dx_dictSize x)) \<and> (n = 0 \<longrightarrow> dx_dictSize x = 0)"
  by (auto simp: f_dict_def split: if_splits)

lemma history_place:
  assumes w: "working c v B" and d: "f_dict (f_ctx v) = (d, n)"
  obtains (none) "n = 0" "dx_dictSize (f_ctx v) = 0"
    | (own) "n = dx_dictSize (f_ctx v)" "linked (f_ctx v)" "0 < n" "d = dx_dict (f_ctx v)" "d = dx_tmpOutBuffer (f_ctx v)" "n \<le> dx_maxBufferSize (f_ctx v)"
    | (before) "n \<noteq> 0" "linked (f_ctx v)" "f_dstStart c \<le> d" "d + int n = f_dstPtr v" "f_dstStart c \<le> dx_dict (f_ctx v)"
        "dx_dict (f_ctx v) + int (dx_dictSize (f_ctx v)) = f_dstPtr v" "n \<le> dx_dictSize (f_ctx v)"
proof (cases "n = 0")
  case True
  with history_size [OF d] none show thesis by blast
next
  case False
  have inv: "work_inv c v B" using w by (simp add: working_def)
  note h = history_size [OF d]
  have "dx_dictSize (f_ctx v) \<noteq> 0" using h False by simp
  with w have hist: "linked (f_ctx v) \<and> (dx_dict (f_ctx v) = dx_tmpOutBuffer (f_ctx v) \<and> dx_dictSize (f_ctx v) \<le> dx_maxBufferSize (f_ctx v)
      \<or> f_dstStart c \<le> dx_dict (f_ctx v) \<and> dx_dict (f_ctx v) + int (dx_dictSize (f_ctx v)) = f_dstPtr v)"
    unfolding working_def history_ok_def Let_def by blast
  then have l: "linked (f_ctx v)" ..
  from hist [THEN conjunct2] show thesis
  proof
    assume o: "dx_dict (f_ctx v) = dx_tmpOutBuffer (f_ctx v) \<and> dx_dictSize (f_ctx v) \<le> dx_maxBufferSize (f_ctx v)"
    then have "dx_dictSize (f_ctx v) \<le> 1073741824" using own_block(5) [OF inv] by simp
    with h have "d = dx_dict (f_ctx v)" "n = dx_dictSize (f_ctx v)" by blast+
    with o l False show thesis by (intro own) simp_all
  next
    assume o: "f_dstStart c \<le> dx_dict (f_ctx v) \<and> dx_dict (f_ctx v) + int (dx_dictSize (f_ctx v)) = f_dstPtr v"
    with h have "f_dstStart c \<le> d" "d + int n = f_dstPtr v" using False by linarith+
    with o l h False show thesis by (intro before) simp_all
  qed
qed

text \<open>The output is lent from its start on, and the source is away from it.\<close>

lemma dst_buffers:
  assumes w: "working c v B" and q: "input_ok c v q t" and cap: "f_dstPtr v + int cap \<le> f_dstEnd c" and p: "0 < f_dstPtr v"
    and low: "f_dstStart c \<le> low" "low \<le> f_dstPtr v"
  shows "buffers_ok (f_room v) q (int t) (f_dstPtr v) (int cap) low"
proof -
  have i: "0 \<le> f_dstStart c" "f_dstStart c = 0 \<longrightarrow> f_dstEnd c = 0" "f_dstEnd c < 4294967296" "lends (f_room v) (f_dstStart c) (f_dstEnd c)"
    using w by (simp_all add: working_def work_inv_def io_range_def)
  have l: "lends (f_room v) low (f_dstPtr v + int cap)"
    by (rule lends_mono [OF i(4)]) (use cap low in simp_all)
  have s: "0 < low" using i(1,2) low p cap by auto
  have "q + int t \<le> f_dstPtr v \<or> f_dstPtr v + int cap \<le> q" using q cap low unfolding input_ok_def by linarith
  with l s q i(3) cap low(2) show ?thesis by (simp add: buffers_ok_def input_ok_def)
qed

lemma usingDict_dst:
  assumes w: "working c v B" and q: "input_ok c v q t" and d: "f_dict (f_ctx v) = (d, n)" and cap: "f_dstPtr v + int cap \<le> f_dstEnd c" and p: "0 < f_dstPtr v"
  shows "usingDict_ok (f_room v) q (int t) (f_dstPtr v) (int cap) d n"
proof -
  have inv: "work_inv c v B" and start: "f_dstStart c \<le> f_dstPtr v" using w by (simp_all add: working_def work_inv_def io_range_def)
  note bufs = dst_buffers [OF w q cap p]
  show ?thesis
    using w d
  proof (cases rule: history_place)
    case none
    then show ?thesis using bufs [of "f_dstPtr v"] start by (simp add: usingDict_ok_def)
  next
    case own
    have "lends (f_room v) d (d + int n)" using work_tmpOut [OF inv, of d n] own by simp
    moreover have "0 < d" "d + int n \<le> f_dstPtr v \<or> f_dstPtr v + int cap \<le> d"
      using inv own(5,6) start cap by (auto simp: work_inv_def own_size_def away_def)
    moreover have "d + int n \<noteq> f_dstPtr v" using not_prefix(1) [OF inv own(6) start] cap own(5) by simp
    ultimately show ?thesis using bufs [of "f_dstPtr v"] start by (simp add: usingDict_ok_def dict_lent_def)
  next
    case before
    then have "d = f_dstPtr v - int n" by simp
    with before bufs [of d] show ?thesis by (simp add: usingDict_ok_def)
  qed
qed

lemma decode_direct_safe:
  assumes w: "working c v B" and q: "input_ok c v q (dx_tmpInTarget (f_ctx v))" and sp: "dx_maxBlockSize (f_ctx v) \<le> f_space c v"
  shows "stage_safe c (f_decode_direct c v q)"
proof -
  have inv: "work_inv c v B" using w by (simp add: working_def)
  obtain d n where d: "f_dict (f_ctx v) = (d, n)" by (cases "f_dict (f_ctx v)")
  have p: "0 < f_dstPtr v" "f_dstPtr v + int (dx_maxBlockSize (f_ctx v)) \<le> f_dstEnd c"
    using own_block(3) [OF inv] sp inv work_dst(2) [OF inv sp] by (auto simp: work_inv_def io_range_def)
  let ?res = "LZ4_decompress_safe_usingDict (f_room v) (f_mem v) q (f_dstPtr v) (int (dx_tmpInTarget (f_ctx v))) (int (dx_maxBlockSize (f_ctx v))) d n"
  obtain r m where r: "?res = Inr (r, m)" "r \<le> int (dx_maxBlockSize (f_ctx v))"
    using usingDict_decoded [OF usingDict_dst [OF w q d p(2,1)], of "f_mem v"] by (auto simp: decoded_def)
  have wm: "working c (v\<lparr>f_mem := m\<rparr>) B" by (rule working_same [OF w]) (simp_all add: keeps)
  show ?thesis
  proof (cases "r < 0")
    case True
    then show ?thesis using r(1) p(1) d error_safe [OF working_idle [OF wm]] by (simp add: f_decode_direct_def Let_def)
  next
    case False
    define k where "k = nat r"
    have k: "k \<le> f_space c v" using r(2) sp False by (simp add: k_def)
    obtain x1 m1 x2 where a: "f_account (v\<lparr>f_mem := m\<rparr>) (f_dstPtr v) k = Inr (v\<lparr>f_mem := m, f_ctx := x1\<rparr>)"
      "f_history c (v\<lparr>f_mem := m, f_ctx := x1\<rparr>) k False = Inr (v\<lparr>f_mem := m1, f_ctx := x2\<rparr>)"
      "working c (v\<lparr>f_mem := m1, f_ctx := x2, f_dstPtr := f_dstPtr v + int k\<rparr>) B"
      using deliver_safe [OF wm, of "f_dstPtr v" k] work_dst [OF inv k] p(1) by auto
    have "call_inv c (v\<lparr>f_mem := m1, f_dstPtr := f_dstPtr v + int k, f_ctx := x2\<lparr>dx_dStage := getBlockHeader\<rparr>\<rparr>)"
      by (rule working_call [where B = B], rule working_same [OF a(3)]) (use working_sized [OF a(3)] in \<open>simp_all add: keeps stage_ok_def\<close>)
    then show ?thesis
      using False r(1) p(1) d a(1,2) by (simp add: f_decode_direct_def Let_def k_def [symmetric]) (auto intro!: goto_safe)
  qed
qed

lemma history_tmp_safe:
  assumes w: "working c v B" and fl: "linked (f_ctx v) \<longrightarrow> flush_dict (f_ctx v)"
    and t: "dx_tmpOutStart (f_ctx v) + n \<le> dx_tmpOutSize (f_ctx v)" "dx_tmpOutSize (f_ctx v) \<le> dx_maxBlockSize (f_ctx v)"
    and p: "f_dstPtr v \<noteq> 0" "f_dstPtr v + int n \<le> f_dstEnd c"
  shows "\<exists>d k. f_history c (v\<lparr>f_mem := m\<rparr>) n True = Inr (v\<lparr>f_mem := m, f_ctx := (f_ctx v)\<lparr>dx_dict := d, dx_dictSize := k\<rparr>\<rparr>)
    \<and> (k = 0 \<or> linked (f_ctx v) \<and> (d = dx_tmpOutBuffer (f_ctx v) \<and> k \<le> dx_maxBufferSize (f_ctx v)
        \<or> f_dstStart c \<le> d \<and> d + int k = f_dstPtr v + int n))
    \<and> (linked (f_ctx v) \<longrightarrow> flush_dict ((f_ctx v)\<lparr>dx_dict := d, dx_dictSize := k, dx_tmpOutStart := dx_tmpOutStart (f_ctx v) + n\<rparr>))"
proof (cases "linked (f_ctx v)")
  case True
  have "work_inv c v B" "history_ok c v" using w by (simp_all add: working_def)
  from updateDict_tmp_safe [OF this True _ t p, of m] fl True obtain d k where
    u: "LZ4F_updateDict (f_room v) m (f_ctx v) (f_dstPtr v) n (f_dstStart c) True = Inr (m, (f_ctx v)\<lparr>dx_dict := d, dx_dictSize := k\<rparr>)"
      "k = 0 \<or> d = dx_tmpOutBuffer (f_ctx v) \<and> k \<le> dx_maxBufferSize (f_ctx v) \<or> f_dstStart c \<le> d \<and> d + int k = f_dstPtr v + int n"
      "flush_dict ((f_ctx v)\<lparr>dx_dict := d, dx_dictSize := k, dx_tmpOutStart := dx_tmpOutStart (f_ctx v) + n\<rparr>)"
    by blast
  have "f_history c (v\<lparr>f_mem := m\<rparr>) n True = Inr (v\<lparr>f_mem := m, f_ctx := (f_ctx v)\<lparr>dx_dict := d, dx_dictSize := k\<rparr>\<rparr>)"
    using True u(1) by (simp add: f_history_def linked_def)
  with u(2,3) True show ?thesis by blast
next
  case False
  then have "dx_dictSize (f_ctx v) = 0" using w by (simp add: working_def history_ok_def Let_def)
  moreover have "f_history c (v\<lparr>f_mem := m\<rparr>) n True
      = Inr (v\<lparr>f_mem := m, f_ctx := (f_ctx v)\<lparr>dx_dict := dx_dict (f_ctx v), dx_dictSize := dx_dictSize (f_ctx v)\<rparr>\<rparr>)"
    using False by (simp add: f_history_def linked_def)
  ultimately show ?thesis using False by blast
qed

lemma flushOut_safe:
  assumes w: "working c v B" and st: "dx_dStage (f_ctx v) = flushOut" and fl: "linked (f_ctx v) \<longrightarrow> flush_dict (f_ctx v)"
    and t: "dx_tmpOutStart (f_ctx v) \<le> dx_tmpOutSize (f_ctx v)" "dx_tmpOutSize (f_ctx v) \<le> dx_maxBlockSize (f_ctx v)"
  shows "stage_safe c (f_flushOut c v)"
proof -
  have inv: "work_inv c v B" using w by (simp add: working_def)
  let ?x = "f_ctx v" and ?last = "\<lambda>v2. if dx_tmpOutStart (f_ctx v2) = dx_tmpOutSize (f_ctx v2) then f_goto getBlockHeader v2 else f_stop 4 v2"
  have fin: "stage_safe c (?last u)"
    if u: "working c u B" "dx_dStage (f_ctx u) = flushOut" "linked (f_ctx u) \<longrightarrow> flush_dict (f_ctx u)"
      "dx_tmpOutStart (f_ctx u) \<le> dx_tmpOutSize (f_ctx u)" "dx_tmpOutSize (f_ctx u) \<le> dx_maxBlockSize (f_ctx u)" for u
  proof -
    note s = working_sized [OF u(1)]
    have "call_inv c (u\<lparr>f_ctx := (f_ctx u)\<lparr>dx_dStage := getBlockHeader\<rparr>\<rparr>)"
      by (rule working_call [where B = B], rule working_same [OF u(1)]) (use s in \<open>simp_all add: keeps stage_ok_def\<close>)
    moreover have "call_inv c (u\<lparr>f_hint := 4\<rparr>)"
      by (rule working_call [where B = B], rule working_same [OF u(1)]) (use s u(2-5) in \<open>simp_all add: keeps stage_ok_def\<close>)
    ultimately show ?thesis using goto_safe stop_safe by simp
  qed
  show ?thesis
  proof (cases "f_dstPtr v = 0")
    case True
    with fin [OF w st fl t] show ?thesis by (simp add: f_flushOut_def)
  next
    case False
    define k where "k = min (dx_tmpOutSize ?x - dx_tmpOutStart ?x) (f_space c v)"
    have k: "k \<le> f_space c v" "dx_tmpOutStart ?x + k \<le> dx_tmpOutSize ?x" using t(1) by (auto simp: k_def)
    note dst = work_dst [OF inv k(1)]
    define m where "m = memmove (f_mem v) (f_dstPtr v) (dx_tmpOut ?x + int (dx_tmpOutStart ?x)) k"
    have "f_dstStart c \<le> f_dstPtr v" using inv by (simp add: work_inv_def io_range_def)
    then have cp: "f_memcpy (f_room v) (f_mem v) (f_dstPtr v) (dx_tmpOut ?x + int (dx_tmpOutStart ?x)) k = Inr m"
      unfolding m_def by (intro out_copy(2) [OF inv]) (use working_sized [OF w] k(2) t(2) dst(2) in \<open>auto simp: sized_def\<close>)
    obtain d j where h: "f_history c (v\<lparr>f_mem := m\<rparr>) k True = Inr (v\<lparr>f_mem := m, f_ctx := ?x\<lparr>dx_dict := d, dx_dictSize := j\<rparr>\<rparr>)"
      "j = 0 \<or> linked ?x \<and> (d = dx_tmpOutBuffer ?x \<and> j \<le> dx_maxBufferSize ?x \<or> f_dstStart c \<le> d \<and> d + int j = f_dstPtr v + int k)"
      "linked ?x \<longrightarrow> flush_dict (?x\<lparr>dx_dict := d, dx_dictSize := j, dx_tmpOutStart := dx_tmpOutStart ?x + k\<rparr>)"
      using history_tmp_safe [OF w fl k(2) t(2) False dst(2), of m] by blast
    let ?u = "v\<lparr>f_mem := m, f_dstPtr := f_dstPtr v + int k,
      f_ctx := ?x\<lparr>dx_dict := d, dx_dictSize := j, dx_tmpOutStart := dx_tmpOutStart ?x + k\<rparr>\<rparr>"
    have "work_inv c ?u B"
      by (rule work_move [OF inv]) (use dst(2) inv in \<open>auto simp: keeps_frame_def work_inv_def io_range_def\<close>)
    moreover have "history_ok c ?u" using h(2) by (auto simp: history_ok_def linked_def Let_def)
    ultimately have "stage_safe c (?last ?u)"
      by (intro fin) (use st h(3) k(2) t(2) in \<open>simp_all add: working_def linked_def\<close>)
    then show ?thesis
      using False t(1) cp h(1) by (simp add: f_flushOut_def Let_def flip: k_def)
  qed
qed

lemma place_tmpOut_safe:
  assumes w: "working c v B"
  shows "\<exists>m k p. f_place_tmpOut v = Inr (v\<lparr>f_mem := m, f_ctx := (f_ctx v)\<lparr>dx_dictSize := k, dx_tmpOut := p\<rparr>\<rparr>)
    \<and> working c (v\<lparr>f_mem := m, f_ctx := (f_ctx v)\<lparr>dx_dictSize := k, dx_tmpOut := p\<rparr>\<rparr>) B
    \<and> (linked (f_ctx v) \<longrightarrow> p = dx_tmpOutBuffer (f_ctx v) + int (if dx_dict (f_ctx v) = dx_tmpOutBuffer (f_ctx v) then k else min k 65536))"
proof -
  let ?x = "f_ctx v" and ?buf = "dx_tmpOutBuffer (f_ctx v)"
  have inv: "work_inv c v B" and hist: "history_ok c v" using w by (simp_all add: working_def)
  have size_dict: "sized (?x\<lparr>dx_dictSize := k, dx_tmpOut := p\<rparr>) = sized (?x\<lparr>dx_tmpOut := p\<rparr>)" for k p
    by (simp add: sized_def linked_def)
  have moved: "working c (v\<lparr>f_mem := m, f_ctx := ?x\<lparr>dx_dictSize := k, dx_tmpOut := p\<rparr>\<rparr>) B"
    if "sized (?x\<lparr>dx_tmpOut := p\<rparr>)" "history_ok c (v\<lparr>f_mem := m, f_ctx := ?x\<lparr>dx_dictSize := k, dx_tmpOut := p\<rparr>\<rparr>)" for m k p
    using work_move [OF inv, of "v\<lparr>f_mem := m, f_ctx := ?x\<lparr>dx_dictSize := k, dx_tmpOut := p\<rparr>\<rparr>"] that inv
    by (simp add: working_def keeps_frame_def size_dict) (simp add: work_inv_def io_range_def)
  show ?thesis
  proof (cases "linked ?x")
    case False
    have "f_place_tmpOut v = Inr (v\<lparr>f_mem := f_mem v, f_ctx := ?x\<lparr>dx_dictSize := dx_dictSize ?x, dx_tmpOut := dx_tmpOut ?x\<rparr>\<rparr>)"
      using False by (simp add: f_place_tmpOut_def linked_def)
    moreover have "working c (v\<lparr>f_mem := f_mem v, f_ctx := ?x\<lparr>dx_dictSize := dx_dictSize ?x, dx_tmpOut := dx_tmpOut ?x\<rparr>\<rparr>) B"
      using w by simp
    ultimately show ?thesis using False by blast
  next
    case l: True
    note size = own_block(2) [OF inv l]
    have sz: "sized (?x\<lparr>dx_tmpOut := ?buf + int j\<rparr>)" if "j \<le> 131072" for j
      using working_sized [OF w] size that l by (simp add: sized_def linked_def)
    show ?thesis
    proof (cases "dx_dict ?x = ?buf")
      case own: True
      show ?thesis
      proof (cases "dx_dictSize ?x > 131072")
        case True
        have n: "dx_dictSize ?x \<le> dx_maxBufferSize ?x"
          using hist own True not_prefix [OF inv order_refl, of "f_dstPtr v"] inv not_prefix(2) [OF inv, of 0 "dx_dict ?x"]
          by (auto simp: history_ok_def Let_def work_inv_def io_range_def)
        let ?m = "memmove (f_mem v) ?buf (dx_dict ?x + int (dx_dictSize ?x) - 65536) 65536"
        have "f_memcpy (f_room v) (f_mem v) ?buf (dx_dict ?x + int (dx_dictSize ?x) - 65536) 65536 = Inr ?m"
          by (rule tmp_copy [OF inv]) (use own True n in auto)
        then have "f_place_tmpOut v = Inr (v\<lparr>f_mem := ?m, f_ctx := ?x\<lparr>dx_dictSize := 65536, dx_tmpOut := ?buf + int 65536\<rparr>\<rparr>)"
          using l own True by (simp add: f_place_tmpOut_def linked_def Let_def)
        moreover have "working c (v\<lparr>f_mem := ?m, f_ctx := ?x\<lparr>dx_dictSize := 65536, dx_tmpOut := ?buf + int 65536\<rparr>\<rparr>) B"
          by (rule moved) (use sz [of 65536] own l size in \<open>simp_all add: history_ok_def linked_def Let_def\<close>)
        ultimately show ?thesis using own by (intro exI conjI) (assumption, assumption, simp)
      next
        case False
        have "f_place_tmpOut v = Inr (v\<lparr>f_mem := f_mem v, f_ctx := ?x\<lparr>dx_dictSize := dx_dictSize ?x, dx_tmpOut := ?buf + int (dx_dictSize ?x)\<rparr>\<rparr>)"
          using l own False by (simp add: f_place_tmpOut_def linked_def Let_def)
        moreover have "working c (v\<lparr>f_mem := f_mem v, f_ctx := ?x\<lparr>dx_dictSize := dx_dictSize ?x, dx_tmpOut := ?buf + int (dx_dictSize ?x)\<rparr>\<rparr>) B"
          by (rule moved) (use sz [of "dx_dictSize ?x"] own l size False in \<open>simp_all add: history_ok_def linked_def Let_def\<close>)
        ultimately show ?thesis using own by (intro exI conjI) (assumption, assumption, simp)
      qed
    next
      case out: False
      let ?p = "?buf + int (min (dx_dictSize ?x) 65536)"
      have "f_place_tmpOut v = Inr (v\<lparr>f_mem := f_mem v, f_ctx := ?x\<lparr>dx_dictSize := dx_dictSize ?x, dx_tmpOut := ?p\<rparr>\<rparr>)"
        using l out by (simp add: f_place_tmpOut_def linked_def Let_def)
      moreover have "working c (v\<lparr>f_mem := f_mem v, f_ctx := ?x\<lparr>dx_dictSize := dx_dictSize ?x, dx_tmpOut := ?p\<rparr>\<rparr>) B"
        by (rule moved) (use sz [of "min (dx_dictSize ?x) 65536"] hist in \<open>simp_all add: history_ok_def linked_def Let_def\<close>)
      ultimately show ?thesis using out by (intro exI conjI) (assumption, assumption, simp)
    qed
  qed
qed

lemma tmpOut_buffers:
  assumes w: "working c v B" and q: "input_ok c v q t" and low: "dx_tmpOutBuffer (f_ctx v) \<le> low" "low \<le> dx_tmpOut (f_ctx v)"
  shows "buffers_ok (f_room v) q (int t) (dx_tmpOut (f_ctx v)) (int (dx_maxBlockSize (f_ctx v))) low"
proof -
  let ?x = "f_ctx v"
  have inv: "work_inv c v B" using w by (simp add: working_def)
  have o: "0 < dx_tmpOutBuffer ?x" "dx_tmpOutBuffer ?x + int (dx_maxBufferSize ?x) < 4294967296"
    "dx_tmpOut ?x + int (dx_maxBlockSize ?x) \<le> dx_tmpOutBuffer ?x + int (dx_maxBufferSize ?x)"
    using inv by (simp_all add: work_inv_def own_size_def sized_def)
  have "lends (f_room v) low (dx_tmpOut ?x + int (dx_maxBlockSize ?x))"
    using work_tmpOut [OF inv low(1), of "nat (dx_tmpOut ?x + int (dx_maxBlockSize ?x) - low)"] o(3) low(2) by simp
  moreover have "q + int t \<le> dx_tmpOut ?x \<or> dx_tmpOut ?x + int (dx_maxBlockSize ?x) \<le> q"
    using q o(3) low unfolding input_ok_def by linarith
  ultimately show ?thesis using q o low by (simp add: buffers_ok_def input_ok_def)
qed

lemma usingDict_tmpOut:
  assumes w: "working c v B" and q: "input_ok c v q t" and d: "f_dict (f_ctx v) = (d, n)"
    and p: "linked (f_ctx v) \<longrightarrow> dx_tmpOut (f_ctx v) = dx_tmpOutBuffer (f_ctx v)
      + int (if dx_dict (f_ctx v) = dx_tmpOutBuffer (f_ctx v) then dx_dictSize (f_ctx v) else min (dx_dictSize (f_ctx v)) 65536)"
  shows "usingDict_ok (f_room v) q (int t) (dx_tmpOut (f_ctx v)) (int (dx_maxBlockSize (f_ctx v))) d n"
proof -
  let ?x = "f_ctx v"
  have inv: "work_inv c v B" using w by (simp add: working_def)
  have s: "dx_tmpOutBuffer ?x \<le> dx_tmpOut ?x" "dx_tmpOut ?x + int (dx_maxBlockSize ?x) \<le> dx_tmpOutBuffer ?x + int (dx_maxBufferSize ?x)"
    using working_sized [OF w] by (simp_all add: sized_def)
  note bufs = tmpOut_buffers [OF w q]
  show ?thesis
    using w d
  proof (cases rule: history_place)
    case none
    then show ?thesis using bufs [of "dx_tmpOut ?x"] s(1) by (simp add: usingDict_ok_def)
  next
    case own
    then have "dx_tmpOut ?x = d + int n" using p by simp
    then show ?thesis using bufs [of d] own(5) by (simp add: usingDict_ok_def)
  next
    case before
    have dst: "0 \<le> f_dstStart c" "f_dstStart c = 0 \<longrightarrow> f_dstEnd c = 0" "f_dstPtr v \<le> f_dstEnd c" "lends (f_room v) (f_dstStart c) (f_dstEnd c)"
      "away (dx_tmpOutBuffer ?x) (dx_tmpOutBuffer ?x + int (dx_maxBufferSize ?x)) (f_dstStart c) (f_dstEnd c)"
      using inv by (simp_all add: work_inv_def io_range_def)
    have "lends (f_room v) d (d + int n)" by (rule lends_mono [OF dst(4)]) (use before dst(3) in simp_all)
    moreover have "0 < d" "d + int n \<le> dx_tmpOut ?x \<or> dx_tmpOut ?x + int (dx_maxBlockSize ?x) \<le> d" "d + int n \<noteq> dx_tmpOut ?x"
      using before(1,3,4) dst(1-3,5) s by (auto simp: away_def)
    ultimately show ?thesis using bufs [of "dx_tmpOut ?x"] s(1) by (simp add: usingDict_ok_def dict_lent_def)
  qed
qed

lemma decode_tmp_safe:
  assumes w: "working c v B" and q: "input_ok c v q (dx_tmpInTarget (f_ctx v))"
  shows "stage_safe c (f_decode_tmp c v q)"
proof -
  obtain m j p where pl: "f_place_tmpOut v = Inr (v\<lparr>f_mem := m, f_ctx := (f_ctx v)\<lparr>dx_dictSize := j, dx_tmpOut := p\<rparr>\<rparr>)"
    "working c (v\<lparr>f_mem := m, f_ctx := (f_ctx v)\<lparr>dx_dictSize := j, dx_tmpOut := p\<rparr>\<rparr>) B"
    "linked (f_ctx v) \<longrightarrow> p = dx_tmpOutBuffer (f_ctx v) + int (if dx_dict (f_ctx v) = dx_tmpOutBuffer (f_ctx v) then j else min j 65536)"
    using place_tmpOut_safe [OF w] by blast
  define u where "u = v\<lparr>f_mem := m, f_ctx := (f_ctx v)\<lparr>dx_dictSize := j, dx_tmpOut := p\<rparr>\<rparr>"
  let ?x = "f_ctx u" and ?t = "dx_tmpInTarget (f_ctx u)"
  have wu: "working c u B" using pl(2) by (simp add: u_def)
  have inv: "work_inv c u B" using wu by (simp add: working_def)
  have at: "linked ?x \<longrightarrow> dx_tmpOut ?x = dx_tmpOutBuffer ?x
      + int (if dx_dict ?x = dx_tmpOutBuffer ?x then dx_dictSize ?x else min (dx_dictSize ?x) 65536)"
    using pl(3) by (simp add: u_def linked_def)
  have qu: "input_ok c u q ?t" using q by (simp add: input_ok_def u_def)
  obtain d n where d: "f_dict ?x = (d, n)" by (cases "f_dict ?x")
  let ?res = "LZ4_decompress_safe_usingDict (f_room u) (f_mem u) q (dx_tmpOut ?x) (int ?t) (int (dx_maxBlockSize ?x)) d n"
  obtain r m1 where r: "?res = Inr (r, m1)" "r \<le> int (dx_maxBlockSize ?x)"
    using usingDict_decoded [OF usingDict_tmpOut [OF wu qu d at], of "f_mem u"] by (auto simp: decoded_def)
  have wm: "working c (u\<lparr>f_mem := m1\<rparr>) B" by (rule working_same [OF wu]) (simp_all add: keeps)
  note step = f_decode_tmp_def [of c v q, unfolded pl(1), folded u_def, unfolded chain_Inr Let_def d prod.case r(1)]
  show ?thesis
  proof (cases "r < 0")
    case True
    then show ?thesis using error_safe [OF working_idle [OF wm]] unfolding step by simp
  next
    case False
    define k where "k = nat r"
    have k: "k \<le> dx_maxBlockSize ?x" using r(2) False by (simp add: k_def)
    have "lends (f_room u) (dx_tmpOut ?x) (dx_tmpOut ?x + int k)"
      by (rule work_tmpOut [OF inv]) (use working_sized [OF wu] k in \<open>auto simp: sized_def\<close>)
    then obtain h z where a: "f_account (u\<lparr>f_mem := m1\<rparr>) (dx_tmpOut ?x) k
        = Inr (u\<lparr>f_mem := m1, f_ctx := ?x\<lparr>dx_xxh := h, dx_frameRemainingSize := z\<rparr>\<rparr>)"
      using account_safe [of "u\<lparr>f_mem := m1\<rparr>" "dx_tmpOut ?x" k] by auto
    let ?u = "u\<lparr>f_mem := m1, f_ctx := ?x\<lparr>dx_xxh := h, dx_frameRemainingSize := z, dx_tmpOutSize := k, dx_tmpOutStart := 0, dx_dStage := flushOut\<rparr>\<rparr>"
    have "working c ?u B" by (rule working_same [OF wu]) (simp_all add: keeps)
    moreover have "linked (f_ctx ?u) \<longrightarrow> flush_dict (f_ctx ?u)"
      using at by (auto simp: linked_def flush_dict_def flush_copy_def)
    ultimately have "stage_safe c (f_flushOut c ?u)" by (intro flushOut_safe) (use k in simp_all)
    then show ?thesis using False a unfolding step by (simp flip: k_def)
  qed
qed

lemma decodeBlock_safe:
  assumes w: "working c v B" and q: "input_ok c v q (dx_tmpInTarget (f_ctx v))" and t: "crc_size (f_ctx v) \<le> dx_tmpInTarget (f_ctx v)"
  shows "stage_safe c (f_decodeBlock c v q)"
proof -
  let ?x = "f_ctx v" and ?flag = "blockChecksumFlag (dx_frameInfo (f_ctx v))"
  define k where "k = dx_tmpInTarget ?x - (if ?flag then 4 else 0)"
  define v1 where "v1 = v\<lparr>f_ctx := ?x\<lparr>dx_tmpInTarget := k\<rparr>\<rparr>"
  have k: "k + (if ?flag then 4 else 0) = dx_tmpInTarget ?x" using t by (auto simp: k_def crc_size_def)
  have w1: "working c v1 B" by (rule working_same [OF w]) (simp_all add: keeps v1_def)
  have l: "lends (f_room v) q (q + int (dx_tmpInTarget ?x))" using q by (simp add: input_ok_def)
  have "lends (f_room v) q (q + int k)" by (rule lends_mono [OF l]) (use k in auto)
  then have q1: "input_ok c v1 q (dx_tmpInTarget (f_ctx v1))" using q k by (auto simp: input_ok_def v1_def)
  have dec: "stage_safe c (if f_space c v1 \<ge> dx_maxBlockSize (f_ctx v1) then f_decode_direct c v1 q else f_decode_tmp c v1 q)"
    using decode_direct_safe [OF w1 q1] decode_tmp_safe [OF w1 q1] by simp
  have err: "stage_safe c (f_error ERROR_blockChecksum_invalid v1)" using error_safe [OF working_idle [OF w1]] by simp
  show ?thesis
  proof (cases ?flag)
    case True
    have "f_bytes (f_room v) (f_mem v) q (k + 4) = Inr (mem_bytes (f_mem v) q (k + 4))"
      by (rule f_bytes_lent) (use l k True in simp)
    moreover have "4 \<le> dx_tmpInTarget ?x" using t True by (simp add: crc_size_def)
    ultimately show ?thesis
      using dec err True unfolding f_decodeBlock_def Let_def k_def [symmetric] v1_def [symmetric] by simp
  next
    case False
    then show ?thesis using dec unfolding f_decodeBlock_def Let_def k_def [symmetric] v1_def [symmetric] by simp
  qed
qed

lemma getCBlock_safe:
  assumes w: "working c v B" and t: "crc_size (f_ctx v) < dx_tmpInTarget (f_ctx v)" "dx_tmpInTarget (f_ctx v) \<le> dx_maxBlockSize (f_ctx v) + crc_size (f_ctx v)"
  shows "stage_safe c (f_getCBlock c v)"
proof (cases "f_left c v < dx_tmpInTarget (f_ctx v)")
  case True
  have "call_inv c (v\<lparr>f_ctx := (f_ctx v)\<lparr>dx_tmpInSize := 0, dx_dStage := storeCBlock\<rparr>\<rparr>)"
    by (rule working_call [where B = B], rule working_same [OF w]) (use t working_sized [OF w] in \<open>simp_all add: keeps stage_ok_def crc_size_def\<close>)
  then show ?thesis using True goto_safe by (simp add: f_getCBlock_def Let_def)
next
  case False
  let ?t = "dx_tmpInTarget (f_ctx v)"
  let ?u = "v\<lparr>f_srcPtr := f_srcPtr v + int ?t\<rparr>"
  have inv: "work_inv c v B" using w by (simp add: working_def)
  have n: "?t \<le> f_left c v" "0 < ?t" using False t(1) by simp_all
  have u: "working c ?u B" by (rule working_take [OF w _ n(1)]) (simp_all add: keeps)
  note s = work_src(1,2) [OF inv n(1)]
  have i: "f_srcEnd c < 4294967296" "f_srcPtr v < f_srcEnd c \<longrightarrow> 0 < f_srcPtr v" "f_srcEnd c \<le> f_dstStart c \<or> f_dstEnd c \<le> f_srcPtr v"
    "away (dx_tmpOutBuffer (f_ctx v)) (dx_tmpOutBuffer (f_ctx v) + int (dx_maxBufferSize (f_ctx v))) (f_srcPtr v) (f_srcEnd c)"
    using inv by (simp_all add: work_inv_def io_range_def)
  have "?t < 16777216" using t(2) own_block(4) [OF inv] by (simp add: crc_size_def split: if_splits)
  then have "input_ok c ?u (f_srcPtr v) ?t" using i s n(2) by (auto simp: input_ok_def away_def)
  then show ?thesis using False decodeBlock_safe [OF u] t(1) by (simp add: f_getCBlock_def Let_def)
qed

lemma tmpIn_input:
  assumes inv: "work_inv c v B" and n: "n \<le> B + 4"
  shows "input_ok c v (dx_tmpIn (f_ctx v)) n"
proof -
  have i: "0 < dx_tmpIn (f_ctx v)" "dx_tmpIn (f_ctx v) + int (B + 4) < 4294967296" "B \<in> block_sizes"
    "away (dx_tmpIn (f_ctx v)) (dx_tmpIn (f_ctx v) + int (B + 4)) (f_dstStart c) (f_dstEnd c)"
    "away (dx_tmpIn (f_ctx v)) (dx_tmpIn (f_ctx v) + int (B + 4)) (dx_tmpOutBuffer (f_ctx v)) (dx_tmpOutBuffer (f_ctx v) + int (dx_maxBufferSize (f_ctx v)))"
    using inv by (simp_all add: work_inv_def own_size_def)
  have "lends (f_room v) (dx_tmpIn (f_ctx v)) (dx_tmpIn (f_ctx v) + int n)"
    using work_tmpIn [OF inv, of 0 n] n by simp
  with i n show ?thesis by (auto simp: input_ok_def away_def block_sizes_def)
qed

lemma storeCBlock_safe:
  assumes w: "working c v B" and st: "dx_dStage (f_ctx v) = storeCBlock" "dx_tmpInSize (f_ctx v) \<le> dx_tmpInTarget (f_ctx v)"
    and t: "crc_size (f_ctx v) < dx_tmpInTarget (f_ctx v)" "dx_tmpInTarget (f_ctx v) \<le> dx_maxBlockSize (f_ctx v) + crc_size (f_ctx v)"
  shows "stage_safe c (f_storeCBlock c v)"
proof -
  have inv: "work_inv c v B" using w by (simp add: working_def)
  let ?t = "dx_tmpInTarget (f_ctx v)"
  have n: "?t \<le> B + 4" using t(2) own_block(1) [OF inv] by (simp add: crc_size_def split: if_splits)
  obtain m k where f: "k \<le> f_left c v" "k \<le> ?t - dx_tmpInSize (f_ctx v)"
    "f_fill_tmpIn c ?t v = Inr (v\<lparr>f_mem := m, f_srcPtr := f_srcPtr v + int k, f_ctx := (f_ctx v)\<lparr>dx_tmpInSize := dx_tmpInSize (f_ctx v) + k\<rparr>\<rparr>)"
    using fill_tmpIn_safe [OF inv st(2) n] by auto
  let ?v1 = "v\<lparr>f_mem := m, f_srcPtr := f_srcPtr v + int k, f_ctx := (f_ctx v)\<lparr>dx_tmpInSize := dx_tmpInSize (f_ctx v) + k\<rparr>\<rparr>"
  have w1: "working c (?v1\<lparr>f_hint := j\<rparr>) B" "working c ?v1 B" for j
    by (rule working_take [OF w _ f(1)]; simp add: keeps)+
  have "call_inv c (?v1\<lparr>f_hint := j\<rparr>)" for j
    by (rule working_call [OF w1(1)]) (use st t f(2) working_sized [OF w] in \<open>simp_all add: stage_ok_def crc_size_def\<close>)
  then have stop: "stage_safe c (f_stop j ?v1)" for j by (rule stop_safe)
  have "work_inv c ?v1 B" using w1(2) by (simp add: working_def)
  from tmpIn_input [OF this n] have "stage_safe c (f_decodeBlock c ?v1 (dx_tmpIn (f_ctx v)))"
    using decodeBlock_safe [OF w1(2), of "dx_tmpIn (f_ctx v)"] t(1) by (simp add: crc_size_def)
  with stop show ?thesis by (simp add: f_storeCBlock_def Let_def f(3))
qed

section \<open>The end of a frame\<close>

text \<open>Behind the last block the history no longer matters.\<close>

lemma suffix_take:
  assumes "work_inv c v B" and "keeps_all (v\<lparr>f_srcPtr := f_srcPtr v + int n\<rparr>) v'" and "n \<le> f_left c v"
    and "f_srcPtr v' = f_srcPtr v + int n"
  shows "work_inv c v' B"
proof (rule work_src_move [OF assms(1)])
  show "keeps_all v v'" using assms(2) by (simp add: keeps)
  show "f_srcPtr v \<le> f_srcPtr v'" "f_srcPtr v' \<le> f_srcEnd c"
    using assms(4) work_src(2) [OF assms(1,3)] by simp_all
qed

lemma suffix_call:
  "work_inv c v B \<Longrightarrow> dx_dStage (f_ctx v) = storeSuffix \<Longrightarrow> dx_tmpInSize (f_ctx v) \<le> 4 \<Longrightarrow> call_inv c v"
  by (auto simp: call_inv_def stage_ok_def work_inv_def)

lemma frame_done_safe:
  assumes w: "work_inv c v B"
  shows "stage_safe c (f_frame_done v)"
  using w work_idle [OF w]
  by (simp add: f_frame_done_def f_stop_def stage_safe_def LZ4F_resetDecompressionContext_def idle_ok_def within_def
      stage_ok_def own_ok_def own_size_def)

lemma checkSuffix_safe: "work_inv c v B \<Longrightarrow> stage_safe c (f_checkSuffix v bs)"
  using frame_done_safe error_safe [of v] work_idle [of c v B] by (auto simp: f_checkSuffix_def)

lemma storeSuffix_safe:
  assumes inv: "work_inv c v B" and st: "dx_dStage (f_ctx v) = storeSuffix" "dx_tmpInSize (f_ctx v) \<le> 4"
  shows "stage_safe c (f_storeSuffix c v)"
proof -
  obtain m k where f: "k \<le> f_left c v" "k \<le> 4 - dx_tmpInSize (f_ctx v)"
    "f_fill_tmpIn c 4 v = Inr (v\<lparr>f_mem := m, f_srcPtr := f_srcPtr v + int k, f_ctx := (f_ctx v)\<lparr>dx_tmpInSize := dx_tmpInSize (f_ctx v) + k\<rparr>\<rparr>)"
    using fill_tmpIn_safe [OF inv st(2)] by auto
  let ?v1 = "v\<lparr>f_mem := m, f_srcPtr := f_srcPtr v + int k, f_ctx := (f_ctx v)\<lparr>dx_tmpInSize := dx_tmpInSize (f_ctx v) + k\<rparr>\<rparr>"
  have w1: "work_inv c (?v1\<lparr>f_hint := j\<rparr>) B" "work_inv c ?v1 B" for j
    by (rule suffix_take [OF inv _ f(1)]; simp add: keeps)+
  have "call_inv c (?v1\<lparr>f_hint := j\<rparr>)" for j
    by (rule suffix_call [OF w1(1)]) (use st f(2) in simp_all)
  moreover have "f_bytes (f_room ?v1) (f_mem ?v1) (dx_tmpIn (f_ctx ?v1)) 4 = Inr (mem_bytes m (dx_tmpIn (f_ctx v)) 4)"
    using f_bytes_lent [OF work_tmpIn [OF inv, of 0 4]] by simp
  ultimately show ?thesis
    using checkSuffix_safe [OF w1(2)] stop_safe by (simp add: f_storeSuffix_def Let_def f(3))
qed

lemma getSuffix_safe:
  assumes inv: "work_inv c v B"
  shows "stage_safe c (f_getSuffix c v)"
proof -
  have "work_inv c (v\<lparr>f_ctx := (f_ctx v)\<lparr>dx_tmpInSize := 0, dx_dStage := storeSuffix\<rparr>\<rparr>) B"
    by (rule suffix_take [OF inv, of 0]) (simp_all add: keeps)
  then have short: "stage_safe c (f_storeSuffix c (v\<lparr>f_ctx := (f_ctx v)\<lparr>dx_tmpInSize := 0, dx_dStage := storeSuffix\<rparr>\<rparr>))"
    by (rule storeSuffix_safe) simp_all
  have "stage_safe c (chain (f_bytes (f_room v) (f_mem v) (f_srcPtr v) 4) (f_checkSuffix (v\<lparr>f_srcPtr := f_srcPtr v + 4\<rparr>)))"
    if l: "4 \<le> f_left c v"
  proof -
    have "work_inv c (v\<lparr>f_srcPtr := f_srcPtr v + int 4\<rparr>) B" by (rule suffix_take [OF inv _ l]) (simp_all add: keeps)
    then show ?thesis using work_src(3) [OF inv l] checkSuffix_safe by simp
  qed
  with short show ?thesis
    using frame_done_safe [OF inv] error_safe [of v] work_idle [OF inv] by (auto simp: f_getSuffix_def)
qed

end
