(* ===== verification/Lz4_Frame_Calls.thy ===== *)
theory Lz4_Frame_Calls
  imports Lz4_Frame_Safe
begin

text \<open>
  The header stages, the machine as a whole, and what a program may rely on that calls
  \<open>LZ4F_decompress\<close> again and again with whatever it has.
\<close>

section \<open>The header\<close>

definition header_facts :: "bytes \<Rightarrow> header_result \<Rightarrow> bool" where
  "header_facts src r =
     (case r of
        Header_Error e \<Rightarrow> e \<noteq> OK_NoError \<and> e \<noteq> ERROR_maxCode
      | Skippable_Frame \<Rightarrow> LZ4F_readLE32 src \<noteq> LZ4F_MAGICNUMBER
      | Header_Incomplete n \<Rightarrow> LZ4F_readLE32 src = LZ4F_MAGICNUMBER
      | Frame_Header p n \<Rightarrow> True)"

lemma decodeHeader_facts: "header_facts src (LZ4F_decodeHeader src)"
proof -
  have skip: "LZ4F_readLE32 src AND 0xFFFFFFF0 = LZ4F_MAGIC_SKIPPABLE_START \<Longrightarrow> LZ4F_readLE32 src \<noteq> LZ4F_MAGICNUMBER"
    by (auto simp: LZ4F_MAGICNUMBER_def LZ4F_MAGIC_SKIPPABLE_START_def)
  have split: "(b \<Longrightarrow> header_facts src r) \<Longrightarrow> (\<not> b \<Longrightarrow> header_facts src r') \<Longrightarrow> header_facts src (if b then r else r')" for b r r'
    by simp
  show ?thesis unfolding LZ4F_decodeHeader_def Let_def
    by (intro split) (use skip in \<open>simp_all add: header_facts_def\<close>)
qed

text \<open>What the header stages leave alone.\<close>

definition keeps_head :: "df_vars \<Rightarrow> df_vars \<Rightarrow> bool" where
  "keeps_head v v' \<longleftrightarrow>
     f_room v' = f_room v \<and> length (dx_header (f_ctx v')) = length (dx_header (f_ctx v)) \<and> f_dstPtr v' = f_dstPtr v
     \<and> dx_maxBufferSize (f_ctx v') = dx_maxBufferSize (f_ctx v) \<and> dx_tmpIn (f_ctx v') = dx_tmpIn (f_ctx v)
     \<and> dx_tmpOutBuffer (f_ctx v') = dx_tmpOutBuffer (f_ctx v)"

lemma head_move:
  assumes h: "head_inv c v" and k: "keeps_head v v'" and s: "f_srcPtr v \<le> f_srcPtr v'" "f_srcPtr v' \<le> f_srcEnd c"
  shows "head_inv c v'"
proof -
  note i = h [unfolded head_inv_def io_range_def] and k = k [unfolded keeps_head_def]
  have aw: "away a b (f_srcPtr v') (f_srcEnd c)" if "away a b (f_srcPtr v) (f_srcEnd c)" for a b
    using away_mono [OF that] s by simp
  have "io_range c v'" using i k s by (auto simp: io_range_def)
  moreover have "fresh_range c v' p n" if "fresh_range c v p n" for p n
    using that aw by (auto simp: fresh_range_def)
  then have "alloc_ok c v'" using i k by (simp add: alloc_ok_def)
  moreover have "own_away c v' B" if "own_away c v B" for B using that aw k by (simp add: own_away_def)
  moreover have "own_size (f_room v') (f_ctx v') = own_size (f_room v) (f_ctx v)" using k by (auto simp: own_size_def fun_eq_iff)
  moreover have "callers (f_room v') (f_ctx v') = callers (f_room v) (f_ctx v)" using k by (auto simp: callers_def fun_eq_iff)
  moreover have "callers (f_room v) (f_ctx v) (f_srcPtr v') (f_srcEnd c)"
    using i s lends_mono unfolding callers_def by blast
  ultimately show ?thesis using i k unfolding head_inv_def by auto
qed

lemma head_same: "head_inv c v \<Longrightarrow> keeps_head v v' \<Longrightarrow> f_srcPtr v' = f_srcPtr v \<Longrightarrow> head_inv c v'"
  by (rule head_move) (auto simp: head_inv_def io_range_def)

lemma head_src:
  assumes "head_inv c v" and "n \<le> f_left c v"
  shows "lends (f_room v) (f_srcPtr v) (f_srcPtr v + int n)" and "f_srcPtr v + int n \<le> f_srcEnd c"
    and "f_bytes (f_room v) (f_mem v) (f_srcPtr v) n = Inr (mem_bytes (f_mem v) (f_srcPtr v) n)"
proof -
  show e: "f_srcPtr v + int n \<le> f_srcEnd c" using assms by (auto simp: f_left_def head_inv_def io_range_def)
  show l: "lends (f_room v) (f_srcPtr v) (f_srcPtr v + int n)"
    by (rule lends_mono [of _ "f_srcPtr v" "f_srcEnd c"]) (use assms e callers_lent in \<open>auto simp: head_inv_def\<close>)
  show "f_bytes (f_room v) (f_mem v) (f_srcPtr v) n = Inr (mem_bytes (f_mem v) (f_srcPtr v) n)" by (rule f_bytes_lent [OF l])
qed

lemma head_take:
  assumes "head_inv c v" and "n \<le> f_left c v" and "f_srcPtr v' = f_srcPtr v + int n" and "keeps_head v v'"
  shows "head_inv c v'"
  by (rule head_move [OF assms(1,4)]) (use assms(3) head_src(2) [OF assms(1,2)] in simp_all)

lemma head_call: "head_inv c v \<Longrightarrow> stage_ok (f_ctx v) \<Longrightarrow> \<not> headed (dx_dStage (f_ctx v)) \<Longrightarrow> call_inv c v"
  using block_headed by (auto simp: call_inv_def)

text \<open>What decoding a header leaves: an error, or a context that is fit for the next stage.\<close>

definition header_left :: "LZ4F_dctx \<Rightarrow> LZ4F_dctx \<Rightarrow> nat \<Rightarrow> (LZ4F_errorCodes + nat) \<Rightarrow> bool" where
  "header_left x x1 n r \<longleftrightarrow>
     length (dx_header x1) = length (dx_header x) \<and> dx_maxBufferSize x1 = dx_maxBufferSize x
     \<and> dx_tmpIn x1 = dx_tmpIn x \<and> dx_tmpOutBuffer x1 = dx_tmpOutBuffer x
     \<and> (case r of
          Inl e \<Rightarrow> e \<noteq> OK_NoError \<and> e \<noteq> ERROR_maxCode
        | Inr k \<Rightarrow> k \<le> n \<and> stage_ok x1 \<and> \<not> headed (dx_dStage x1))"

lemma storeHeader_safe:
  assumes x: "dx_dictSize x = 0" and own: "own \<Longrightarrow> length src \<le> 19 \<and> (7 < length src \<longrightarrow> LZ4F_readLE32 src = LZ4F_MAGICNUMBER) \<and> 7 \<le> length src \<and> LZ4F_readLE32 (dx_header x) = LZ4F_readLE32 src"
    and other: "\<not> own \<Longrightarrow> 19 \<le> length src"
  shows "\<exists>r x1. LZ4F_storeHeader own src x = Inr (r, x1) \<and> header_left x x1 (length src) r"
proof (cases "LZ4F_decodeHeader src")
  case (Header_Error e)
  then have "e \<noteq> OK_NoError \<and> e \<noteq> ERROR_maxCode" using decodeHeader_facts [of src] by (simp add: header_facts_def)
  with Header_Error show ?thesis by (simp add: LZ4F_storeHeader_def Let_def header_left_def)
next
  case Skippable_Frame
  then have m: "LZ4F_readLE32 src \<noteq> LZ4F_MAGICNUMBER" and n: "7 \<le> length src"
    using decodeHeader_facts [of src] decodeHeader_sizes [of src] by (simp_all add: header_facts_def header_sizes_def minFHSize_def)
  then have "own \<longrightarrow> length src \<le> 8" using own by (cases "7 < length src") auto
  with Skippable_Frame n show ?thesis by (simp add: LZ4F_storeHeader_def Let_def header_left_def stage_ok_def)
next
  case (Header_Incomplete n)
  then have m: "LZ4F_readLE32 src = LZ4F_MAGICNUMBER" and n: "7 \<le> length src" "length src < n" "n \<le> 19"
    using decodeHeader_facts [of src] decodeHeader_sizes [of src] by (simp_all add: header_facts_def header_sizes_def minFHSize_def maxFHSize_def)
  have own "LZ4F_readLE32 (dx_header x) = LZ4F_MAGICNUMBER" using own other m n by (cases own; simp)+
  with Header_Incomplete n x show ?thesis by (simp add: LZ4F_storeHeader_def Let_def header_left_def stage_ok_def)
next
  case (Frame_Header p n)
  then have "block_max p \<in> block_sizes" "n \<le> length src"
    using decodeHeader_prefs(4) [OF Frame_Header] decodeHeader_size [OF Frame_Header] by (simp_all add: block_sizes_def)
  with Frame_Header x show ?thesis by (simp add: LZ4F_storeHeader_def Let_def header_left_def stage_ok_def block_max_def)
qed

lemma storeFrameHeader_safe:
  assumes h: "head_inv c v" and st: "dx_dStage (f_ctx v) = storeFrameHeader" "stage_ok (f_ctx v)"
  shows "stage_safe c (f_storeFrameHeader c v)"
proof -
  let ?x = "f_ctx v" and ?t = "dx_tmpInTarget (f_ctx v)" and ?s = "dx_tmpInSize (f_ctx v)"
  have t: "dx_dictSize ?x = 0" "?s \<le> ?t" "7 \<le> ?t" "?t \<le> 19" "7 < ?t \<longrightarrow> 7 \<le> ?s \<and> LZ4F_readLE32 (dx_header ?x) = LZ4F_MAGICNUMBER"
    using st by (simp_all add: stage_ok_def)
  have h19: "length (dx_header ?x) = 19" using h by (simp add: head_inv_def)
  obtain b k where f: "k \<le> f_left c v" "k \<le> ?t - ?s" "length b = 19" "take ?s b = take ?s (dx_header ?x)"
    "f_fill_header c ?t v = Inr (v\<lparr>f_srcPtr := f_srcPtr v + int k, f_ctx := ?x\<lparr>dx_header := b, dx_tmpInSize := ?s + k\<rparr>\<rparr>)"
    using fill_header_safe [OF t(2,4) h19, of c] head_src(1) [OF h] by blast
  let ?v = "v\<lparr>f_srcPtr := f_srcPtr v + int k, f_ctx := ?x\<lparr>dx_header := b, dx_tmpInSize := ?s + k\<rparr>\<rparr>"
  have magic: "LZ4F_readLE32 b = LZ4F_MAGICNUMBER" if "7 < ?t"
    using that t(5) f(4) readLE32_take [of ?s b] readLE32_take [of ?s "dx_header ?x"] by simp
  have stop: "stage_safe c (f_stop n ?v)" for n
    by (rule stop_safe, rule head_call, rule head_take [OF h f(1)])
      (use f(2,3) h19 st(1) t magic in \<open>auto simp: keeps_head_def stage_ok_def\<close>)
  have src: "length (take ?t b) = ?t" "LZ4F_readLE32 (take ?t b) = LZ4F_readLE32 b" using f(3) t(3,4) by simp_all
  have "\<exists>r x1. LZ4F_storeHeader True (take ?t b) (f_ctx ?v) = Inr (r, x1) \<and> header_left (f_ctx ?v) x1 (length (take ?t b)) r"
    by (rule storeHeader_safe) (use t src magic in simp_all)
  then obtain r x1 where r: "LZ4F_storeHeader True (take ?t b) (f_ctx ?v) = Inr (r, x1)" "header_left (f_ctx ?v) x1 ?t r"
    unfolding src(1) by blast
  have hd: "head_inv c (?v\<lparr>f_ctx := x1\<rparr>)"
    by (rule head_take [OF h f(1)]) (use r(2) f(3) h19 in \<open>simp_all add: keeps_head_def header_left_def\<close>)
  have "stage_safe c (case r of Inl e \<Rightarrow> f_error e (?v\<lparr>f_ctx := x1\<rparr>) | Inr _ \<Rightarrow> Inr (Another (?v\<lparr>f_ctx := x1\<rparr>)))"
  proof (cases r)
    case (Inl e)
    then show ?thesis using error_safe [of "?v\<lparr>f_ctx := x1\<rparr>" e c] head_idle [OF hd] r(2) by (simp add: header_left_def)
  next
    case (Inr n)
    then have "call_inv c (?v\<lparr>f_ctx := x1\<rparr>)" using head_call [OF hd] r(2) by (simp add: header_left_def)
    with Inr show ?thesis by (simp add: stage_safe_def)
  qed
  then show ?thesis using stop r(1) by (simp add: f_storeFrameHeader_def f(5) Let_def)
qed

lemma getFrameHeader_safe:
  assumes h: "head_inv c v" and st: "dx_dStage (f_ctx v) = getFrameHeader" "dx_dictSize (f_ctx v) = 0"
  shows "stage_safe c (f_getFrameHeader c v)"
proof (cases "maxFHSize \<le> f_left c v")
  case True
  let ?src = "mem_bytes (f_mem v) (f_srcPtr v) (f_left c v)"
  obtain r x1 where r: "LZ4F_storeHeader False ?src (f_ctx v) = Inr (r, x1)" "header_left (f_ctx v) x1 (f_left c v) r"
    using storeHeader_safe [OF st(2), of False ?src] True by (auto simp: maxFHSize_def)
  have k: "keeps_head v (v\<lparr>f_ctx := x1\<rparr>)" using r(2) by (simp add: keeps_head_def header_left_def)
  have "stage_safe c (case r of Inl e \<Rightarrow> f_error e (v\<lparr>f_ctx := x1\<rparr>)
    | Inr n \<Rightarrow> Inr (Another (v\<lparr>f_ctx := x1, f_srcPtr := f_srcPtr v + int n\<rparr>)))"
  proof (cases r)
    case (Inl e)
    then show ?thesis using error_safe [of "v\<lparr>f_ctx := x1\<rparr>" e c] head_idle [OF head_same [OF h k]] r(2) by (simp add: header_left_def)
  next
    case (Inr n)
    then have n: "n \<le> f_left c v" "stage_ok x1" "\<not> headed (dx_dStage x1)" using r(2) by (simp_all add: header_left_def)
    have "head_inv c (v\<lparr>f_ctx := x1, f_srcPtr := f_srcPtr v + int n\<rparr>)"
      by (rule head_take [OF h n(1)]) (use k in \<open>simp_all add: keeps_head_def\<close>)
    then have "call_inv c (v\<lparr>f_ctx := x1, f_srcPtr := f_srcPtr v + int n\<rparr>)" by (rule head_call) (use n in simp_all)
    with Inr show ?thesis by (simp add: stage_safe_def)
  qed
  then show ?thesis using True r(1) head_src(3) [OF h order_refl] by (simp add: f_getFrameHeader_def)
next
  case False
  let ?u = "v\<lparr>f_ctx := (f_ctx v)\<lparr>dx_tmpInSize := 0, dx_tmpInTarget := minFHSize, dx_dStage := storeFrameHeader\<rparr>\<rparr>"
  have "head_inv c ?u" by (rule head_same [OF h]) (simp_all add: keeps_head_def)
  then have "stage_safe c (f_storeFrameHeader c ?u)"
    by (rule storeFrameHeader_safe) (use st in \<open>simp_all add: stage_ok_def minFHSize_def\<close>)
  moreover have "stage_safe c (Inr (Return_Now (of_nat minFHSize) (v\<lparr>f_ctx := (f_ctx v)\<lparr>dx_tmpInSize := 0\<rparr>\<rparr>)))"
    using head_idle [OF h] st by (simp add: stage_safe_def stage_ok_def idle_ok_def own_ok_def own_size_def)
  ultimately show ?thesis using False by (simp add: f_getFrameHeader_def Let_def)
qed

section \<open>Skippable frames\<close>

lemma decodeSFrameSize_safe: "head_inv c v \<Longrightarrow> stage_safe c (f_decodeSFrameSize v bs)"
  unfolding f_decodeSFrameSize_def Let_def
  by (rule goto_safe, rule head_call, erule head_same) (simp_all add: keeps_head_def stage_ok_def)

lemma storeSFrameSize_safe:
  assumes h: "head_inv c v" and st: "dx_dStage (f_ctx v) = storeSFrameSize" "dx_tmpInSize (f_ctx v) \<le> 8" "dx_tmpInTarget (f_ctx v) = 8"
  shows "stage_safe c (f_storeSFrameSize c v)"
proof -
  let ?x = "f_ctx v" and ?s = "dx_tmpInSize (f_ctx v)"
  have h19: "length (dx_header ?x) = 19" using h by (simp add: head_inv_def)
  obtain b k where f: "k \<le> f_left c v" "k \<le> 8 - ?s" "length b = 19"
    "f_fill_header c 8 v = Inr (v\<lparr>f_srcPtr := f_srcPtr v + int k, f_ctx := ?x\<lparr>dx_header := b, dx_tmpInSize := ?s + k\<rparr>\<rparr>)"
    using fill_header_safe [OF st(2) _ h19, of c] head_src(1) [OF h] by auto
  let ?v = "v\<lparr>f_srcPtr := f_srcPtr v + int k, f_ctx := ?x\<lparr>dx_header := b, dx_tmpInSize := ?s + k\<rparr>\<rparr>"
  have hd: "head_inv c (?v\<lparr>f_hint := n\<rparr>)" "head_inv c ?v" for n
    by (rule head_take [OF h f(1)]; use f(3) h19 in \<open>simp add: keeps_head_def\<close>)+
  have "stage_safe c (f_stop n ?v)" for n
    by (rule stop_safe, rule head_call [OF hd(1)]) (use st f(2) in \<open>simp_all add: stage_ok_def\<close>)
  with decodeSFrameSize_safe [OF hd(2)] show ?thesis by (simp add: f_storeSFrameSize_def st(3) f(4) Let_def)
qed

lemma getSFrameSize_safe:
  assumes h: "head_inv c v"
  shows "stage_safe c (f_getSFrameSize c v)"
proof (cases "4 \<le> f_left c v")
  case True
  have "head_inv c (v\<lparr>f_srcPtr := f_srcPtr v + int 4\<rparr>)" by (rule head_take [OF h True]) (simp_all add: keeps_head_def)
  with True show ?thesis using head_src(3) [OF h True] decodeSFrameSize_safe by (simp add: f_getSFrameSize_def)
next
  case False
  have "head_inv c (v\<lparr>f_ctx := (f_ctx v)\<lparr>dx_tmpInSize := 4, dx_tmpInTarget := 8, dx_dStage := storeSFrameSize\<rparr>\<rparr>)"
    by (rule head_same [OF h]) (simp_all add: keeps_head_def)
  from storeSFrameSize_safe [OF this] False show ?thesis by (simp add: f_getSFrameSize_def)
qed

lemma skipSkippable_safe:
  assumes h: "head_inv c v" and st: "dx_dStage (f_ctx v) = skipSkippable"
  shows "stage_safe c (f_skipSkippable c v)"
proof -
  define k where "k = min (dx_tmpInTarget (f_ctx v)) (f_left c v)"
  let ?v = "v\<lparr>f_srcPtr := f_srcPtr v + int k, f_ctx := (f_ctx v)\<lparr>dx_tmpInTarget := dx_tmpInTarget (f_ctx v) - k\<rparr>\<rparr>"
  have k: "k \<le> f_left c v" by (simp add: k_def)
  have hd: "head_inv c (?v\<lparr>f_hint := n\<rparr>)" "head_inv c ?v" for n
    by (rule head_take [OF h k]; simp add: keeps_head_def)+
  have stop: "stage_safe c (f_stop n ?v)" for n
    by (rule stop_safe, rule head_call [OF hd(1)]) (use st in \<open>simp_all add: stage_ok_def\<close>)
  have fin: "stage_safe c (f_frame_done ?v)"
    using head_idle [OF hd(2)]
    by (simp add: f_frame_done_def f_stop_def stage_safe_def LZ4F_resetDecompressionContext_def idle_ok_def within_def
        stage_ok_def own_ok_def own_size_def)
  show ?thesis unfolding f_skipSkippable_def Let_def k_def [symmetric]
    by (split if_split, intro conjI impI) (rule stop, rule fin)
qed

section \<open>Setting up the buffers\<close>

lemma lends_self: "lends ((p, q) # room) p q"
  by (simp add: lends_def)

lemma buffers_safe:
  assumes h: "head_inv c v" and b: "dx_maxBlockSize (f_ctx v) \<in> block_sizes"
  shows "(\<exists>v1. f_buffers c v = Inl v1 \<and> idle_ok v1)
    \<or> (\<exists>t u k room B. f_buffers c v = Inr (v\<lparr>f_ctx := (f_ctx v)\<lparr>dx_tmpIn := t, dx_tmpOutBuffer := u, dx_maxBufferSize := k\<rparr>, f_room := room\<rparr>)
        \<and> dx_maxBlockSize (f_ctx v) + (if linked (f_ctx v) then 131072 else 0) \<le> k
        \<and> own_size room ((f_ctx v)\<lparr>dx_tmpIn := t, dx_tmpOutBuffer := u, dx_maxBufferSize := k\<rparr>) B
        \<and> own_away c (v\<lparr>f_ctx := (f_ctx v)\<lparr>dx_tmpIn := t, dx_tmpOutBuffer := u, dx_maxBufferSize := k\<rparr>, f_room := room\<rparr>) B
        \<and> lends room (f_srcPtr v) (f_srcEnd c) \<and> lends room (f_dstStart c) (f_dstEnd c))"
proof -
  let ?x = "f_ctx v" and ?B = "dx_maxBlockSize (f_ctx v)"
  define n where "n = ?B + (if linked ?x then 131072 else 0)"
  have h19: "length (dx_header ?x) = 19" and ca: "callers (f_room v) ?x (f_srcPtr v) (f_srcEnd c)" "callers (f_room v) ?x (f_dstStart c) (f_dstEnd c)"
    and al: "alloc_ok c v" and own: "dx_maxBufferSize ?x = 0 \<or> (\<exists>B. own_size (f_room v) ?x B \<and> own_away c v B)"
    using h by (simp_all add: head_inv_def)
  have n0: "0 < n" "n \<in> {?B, ?B + 131072}" using b by (auto simp: n_def block_sizes_def)
  note def = f_buffers_def [of c v, unfolded Let_def linked_def [of ?x, symmetric] n_def [symmetric]]
  show ?thesis
  proof (cases "dx_maxBufferSize ?x < n")
    case False
    then obtain B where B: "own_size (f_room v) ?x B" "own_away c v B" using own n0(1) by auto
    have "f_buffers c v = Inr (v\<lparr>f_ctx := ?x\<lparr>dx_tmpIn := dx_tmpIn ?x, dx_tmpOutBuffer := dx_tmpOutBuffer ?x,
        dx_maxBufferSize := dx_maxBufferSize ?x\<rparr>, f_room := f_room v\<rparr>)"
      using False by (simp add: def)
    moreover have "lends (f_room v) (f_srcPtr v) (f_srcEnd c)" "lends (f_room v) (f_dstStart c) (f_dstEnd c)"
      using ca callers_lent by blast+
    ultimately show ?thesis
      using B False
      by (intro disjI2 exI [of _ "dx_tmpIn ?x"] exI [of _ "dx_tmpOutBuffer ?x"] exI [of _ "dx_maxBufferSize ?x"] exI [of _ "f_room v"] exI [of _ B])
        (simp add: n_def)
  next
    case True
    define t where "t = f_tmpIn c (?B + 4)"
    define u where "u = f_tmpOutBuffer c n"
    define room where "room = f_alloc u n (f_free (dx_tmpOutBuffer ?x) (f_alloc t (?B + 4) (f_free (dx_tmpIn ?x) (f_room v))))"
    show ?thesis
    proof (cases "t = 0 \<or> u = 0")
      case fail: True
      then obtain v1 where "f_buffers c v = Inl v1" "dx_maxBufferSize (f_ctx v1) = 0" "length (dx_header (f_ctx v1)) = 19"
        using True h19 by (cases "t = 0") (simp_all add: def t_def [symmetric] u_def [symmetric])
      then show ?thesis by (auto simp: idle_ok_def own_ok_def)
    next
      case tu: False
      let ?x1 = "?x\<lparr>dx_tmpIn := t, dx_tmpOutBuffer := u, dx_maxBufferSize := n\<rparr>"
      have e: "f_buffers c v = Inr (v\<lparr>f_ctx := ?x1, f_room := room\<rparr>)"
        using True tu by (simp add: def t_def [symmetric] u_def [symmetric] room_def [symmetric])
      have fr: "fresh_range c v t (?B + 4)" "fresh_range c v u n" "t \<noteq> dx_tmpOutBuffer ?x" "away t (t + int (?B + 4)) u (u + int n)"
        using al tu unfolding alloc_ok_def t_def u_def by blast+
      have "lends room t (t + int (?B + 4))"
        by (rule lends_subset [OF lends_self [where room = "[]"]]) (use fr(3) in \<open>auto simp: room_def f_alloc_def f_free_def\<close>)
      moreover have "lends room u (u + int n)"
        by (rule lends_subset [OF lends_self [where room = "[]"]]) (auto simp: room_def f_alloc_def)
      ultimately have "own_size room ?x1 ?B"
        using fr(1,2,4) tu b n0(2) by (simp add: own_size_def fresh_range_def)
      moreover have "own_away c (v\<lparr>f_ctx := ?x1, f_room := room\<rparr>) ?B"
        using fr(1,2) tu by (simp add: own_away_def fresh_range_def)
      moreover have "lends room a z" if "callers (f_room v) ?x a z" for a z
        using that unfolding callers_def by (rule lends_subset) (auto simp: f_free_def f_alloc_def room_def)
      ultimately show ?thesis
        using e ca
        by (intro disjI2 exI [of _ t] exI [of _ u] exI [of _ n] exI [of _ room] exI [of _ ?B]) (simp add: n_def)
    qed
  qed
qed

lemma init_safe:
  assumes h: "head_inv c v" and st: "dx_dictSize (f_ctx v) = 0" "dx_maxBlockSize (f_ctx v) \<in> block_sizes"
  shows "stage_safe c (f_init c v)"
proof -
  define v0 where "v0 = v\<lparr>f_ctx := (f_ctx v)\<lparr>dx_xxh := (if contentChecksumFlag (dx_frameInfo (f_ctx v)) then XXH32_reset 0 else dx_xxh (f_ctx v))\<rparr>\<rparr>"
  have h0: "head_inv c v0" by (rule head_same [OF h]) (simp_all add: keeps_head_def v0_def)
  have b0: "dx_maxBlockSize (f_ctx v0) \<in> block_sizes" using st(2) by (simp add: v0_def)
  note def = f_init_def [of c v, unfolded Let_def, folded v0_def]
  from buffers_safe [OF h0 b0] show ?thesis
  proof (elim disjE exE conjE)
    fix v1 assume "f_buffers c v0 = Inl v1" "idle_ok v1"
    then show ?thesis using error_safe [of v1 ERROR_allocation_failed c] by (simp add: def)
  next
    fix t u k room B
    assume e: "f_buffers c v0 = Inr (v0\<lparr>f_ctx := (f_ctx v0)\<lparr>dx_tmpIn := t, dx_tmpOutBuffer := u, dx_maxBufferSize := k\<rparr>, f_room := room\<rparr>)"
      and k: "dx_maxBlockSize (f_ctx v0) + (if linked (f_ctx v0) then 131072 else 0) \<le> k"
      and own: "own_size room ((f_ctx v0)\<lparr>dx_tmpIn := t, dx_tmpOutBuffer := u, dx_maxBufferSize := k\<rparr>) B"
      and aw: "own_away c (v0\<lparr>f_ctx := (f_ctx v0)\<lparr>dx_tmpIn := t, dx_tmpOutBuffer := u, dx_maxBufferSize := k\<rparr>, f_room := room\<rparr>) B"
      and l: "lends room (f_srcPtr v0) (f_srcEnd c)" "lends room (f_dstStart c) (f_dstEnd c)"
    let ?w = "v0\<lparr>f_room := room, f_ctx := (f_ctx v0)\<lparr>dx_tmpIn := t, dx_tmpOutBuffer := u, dx_maxBufferSize := k, dx_tmpInSize := 0, dx_tmpInTarget := 0,
      dx_tmpOut := u, dx_tmpOutStart := 0, dx_tmpOutSize := 0, dx_dStage := getBlockHeader\<rparr>\<rparr>"
    have "sized (f_ctx ?w)" using k b0 by (simp add: sized_def linked_def split: if_splits)
    moreover have "own_size room (f_ctx ?w) B" "own_away c ?w B" using own aw by (simp_all add: own_size_def own_away_def)
    moreover have "io_range c ?w" "length (dx_header (f_ctx ?w)) = 19" using h0 by (simp_all add: head_inv_def io_range_def)
    ultimately have "work_inv c ?w B" using l by (simp add: work_inv_own)
    moreover have "history_ok c ?w" using st(1) by (simp add: history_ok_def Let_def v0_def)
    ultimately have "working c ?w B" by (simp add: working_def)
    from getBlockHeader_safe [OF this] show ?thesis by (simp add: def e)
  qed
qed

section \<open>The machine\<close>

lemma stage_safe_all:
  assumes "call_inv c v"
  shows "stage_safe c (f_stage c v)"
proof (cases "headed (dx_dStage (f_ctx v))")
  case True
  then obtain B where w: "work_inv c v B" and s: "stage_ok (f_ctx v)" using assms by (auto simp: call_inv_def)
  have b: "working c v B" if "block_stage (dx_dStage (f_ctx v))" using that w assms by (simp add: call_inv_def working_def)
  show ?thesis
  proof (cases "dx_dStage (f_ctx v)")
    case getBlockHeader
    with b getBlockHeader_safe show ?thesis by (simp add: f_stage_def)
  next
    case storeBlockHeader
    with b s storeBlockHeader_safe show ?thesis by (simp add: f_stage_def stage_ok_def)
  next
    case copyDirect
    with b copyDirect_safe show ?thesis by (simp add: f_stage_def)
  next
    case getBlockChecksum
    with b s getBlockChecksum_safe show ?thesis by (simp add: f_stage_def stage_ok_def)
  next
    case getCBlock
    with b s getCBlock_safe show ?thesis by (simp add: f_stage_def stage_ok_def)
  next
    case storeCBlock
    with b s storeCBlock_safe show ?thesis by (simp add: f_stage_def stage_ok_def)
  next
    case flushOut
    with b s flushOut_safe show ?thesis by (simp add: f_stage_def stage_ok_def)
  next
    case getSuffix
    with w getSuffix_safe show ?thesis by (simp add: f_stage_def)
  next
    case storeSuffix
    with w s storeSuffix_safe show ?thesis by (simp add: f_stage_def stage_ok_def)
  qed (use True in simp_all)
next
  case False
  then have h: "head_inv c v" and s: "stage_ok (f_ctx v)" using assms by (simp_all add: call_inv_def)
  show ?thesis
  proof (cases "dx_dStage (f_ctx v)")
    case getFrameHeader
    with h s getFrameHeader_safe show ?thesis by (simp add: f_stage_def stage_ok_def)
  next
    case storeFrameHeader
    with h s storeFrameHeader_safe show ?thesis by (simp add: f_stage_def)
  next
    case stage_init
    with h s init_safe show ?thesis by (simp add: f_stage_def stage_ok_def)
  next
    case getSFrameSize
    with h getSFrameSize_safe show ?thesis by (simp add: f_stage_def)
  next
    case storeSFrameSize
    with h s storeSFrameSize_safe show ?thesis by (simp add: f_stage_def stage_ok_def)
  next
    case skipSkippable
    with h skipSkippable_safe show ?thesis by (simp add: f_stage_def)
  qed (use False in simp_all)
qed

lemma stages_safe: "call_inv c v \<Longrightarrow> stage_safe c (LZ4F_stages c v) \<and> LZ4F_stages c v \<noteq> Inr (Another w)"
proof (induction c v rule: LZ4F_stages.induct)
  case (1 c v)
  note safe = stage_safe_all [OF 1(2)]
  show ?case
  proof (cases "\<exists>v1. f_stage c v = Inr (Another v1)")
    case True
    then obtain v1 where s: "f_stage c v = Inr (Another v1)" ..
    then have "call_inv c v1" using safe by (simp add: stage_safe_def)
    from 1(1) [OF s refl this] stages_Another [OF s] show ?thesis by simp
  next
    case False
    then have "LZ4F_stages c v = f_stage c v" by (subst LZ4F_stages.simps) (simp split: sum.split df_next.split)
    with safe False show ?thesis by auto
  qed
qed

section \<open>The end of a call\<close>

definition left_ok :: "df_vars \<Rightarrow> df_vars \<Rightarrow> bool" where
  "left_ok v v' \<longleftrightarrow> f_srcPtr v' = f_srcPtr v \<and> f_dstPtr v' = f_dstPtr v \<and> dctx_ok (f_room v') (f_ctx v')"

lemma rests_if_kept:
  assumes w: "working c v B" and k: "\<not> linked (f_ctx v) \<or> dx_dict (f_ctx v) = dx_tmpOutBuffer (f_ctx v) \<or> dx_dict (f_ctx v) = 0"
  shows "history_rests (f_ctx v)"
proof (cases "dx_dictSize (f_ctx v) = 0")
  case True
  then show ?thesis by (simp add: history_rests_def)
next
  case False
  let ?x = "f_ctx v"
  have i: "0 < dx_tmpOutBuffer ?x" "0 \<le> f_dstStart c" "f_dstStart c = 0 \<longrightarrow> f_dstEnd c = 0" "f_dstPtr v \<le> f_dstEnd c" "f_dstStart c \<le> f_dstPtr v"
    "away (dx_tmpOutBuffer ?x) (dx_tmpOutBuffer ?x + int (dx_maxBufferSize ?x)) (f_dstStart c) (f_dstEnd c)"
    using w by (simp_all add: working_def work_inv_def io_range_def own_size_def)
  have h: "linked ?x" "dx_dict ?x = dx_tmpOutBuffer ?x \<and> dx_dictSize ?x \<le> dx_maxBufferSize ?x
      \<or> f_dstStart c \<le> dx_dict ?x \<and> dx_dict ?x + int (dx_dictSize ?x) = f_dstPtr v"
    using w False by (auto simp: working_def history_ok_def Let_def)
  moreover have "\<not> (f_dstStart c \<le> dx_dict ?x \<and> dx_dict ?x + int (dx_dictSize ?x) = f_dstPtr v)"
    using k h(1) i False unfolding away_def by linarith
  ultimately show ?thesis by (simp add: history_rests_def)
qed

lemma preserve_kept:
  assumes "f_preserve c v = Inr v" and "idle_ok v" "stage_ok (f_ctx v)" "block_stage (dx_dStage (f_ctx v)) \<longrightarrow> history_rests (f_ctx v)"
  shows "\<exists>v'. f_preserve c v = Inr v' \<and> left_ok v v'"
  using assms by (simp add: left_ok_def dctx_ok_def idle_ok_def)

text \<open>The history that is in the output moves to the own buffer.\<close>

lemma preserve_flush:
  assumes w: "working c v B" and st: "dx_dStage (f_ctx v) = flushOut" "stage_ok (f_ctx v)" and l: "linked (f_ctx v)"
    and d: "dx_dict (f_ctx v) \<noteq> dx_tmpOutBuffer (f_ctx v)" "dx_dict (f_ctx v) \<noteq> 0" and c: "\<not> f_stableDst c"
  shows "\<exists>v'. f_preserve c v = Inr v' \<and> left_ok v v'"
proof -
  let ?x = "f_ctx v" and ?copy = "flush_copy (f_ctx v)" and ?buf = "dx_tmpOutBuffer (f_ctx v)"
  let ?keep = "nat (dx_tmpOut ?x - ?buf)" and ?last = "dx_dict ?x + int (dx_dictSize ?x) - int (dx_tmpOutStart ?x)"
  have inv: "work_inv c v B" and hist: "history_ok c v" using w by (simp_all add: working_def)
  have s: "sized ?x" "dx_tmpOutStart ?x \<le> dx_tmpOutSize ?x" "dx_tmpOutSize ?x \<le> dx_maxBlockSize ?x"
    and fl: "?copy = 0 \<or> ?copy + dx_tmpOutStart ?x \<le> dx_dictSize ?x"
    using st l d(1) by (simp_all add: stage_ok_def flush_dict_def)
  have sz: "?buf \<le> dx_tmpOut ?x" "dx_tmpOut ?x + int (dx_maxBlockSize ?x) \<le> ?buf + int (dx_maxBufferSize ?x)" "0 < ?buf"
    using inv by (simp_all add: work_inv_def sized_def own_size_def)
  have pos: "f_dstPtr v \<le> f_dstEnd c" using inv by (simp add: work_inv_def io_range_def)
  have "\<exists>m. f_memcpy (f_room v) (f_mem v) (?buf + int (?keep - ?copy)) (?last - int ?copy) ?copy = Inr m"
  proof (cases "?copy = 0")
    case True
    then show ?thesis by (simp add: f_memcpy_def f_ok_def)
  next
    case False
    then have "f_dstStart c \<le> dx_dict ?x" "dx_dict ?x + int (dx_dictSize ?x) = f_dstPtr v"
      using hist fl d(1) by (auto simp: history_ok_def Let_def)
    moreover have "?copy \<le> ?keep" by (simp add: flush_copy_def)
    moreover have "int ?copy + int (dx_tmpOutStart ?x) \<le> int (dx_dictSize ?x)" using fl False by linarith
    ultimately show ?thesis using out_copy(1) [OF inv, of "?buf + int (?keep - ?copy)" ?copy "?last - int ?copy" "f_mem v"] sz pos
      by (auto simp: of_nat_diff)
  qed
  then obtain m where m: "f_memcpy (f_room v) (f_mem v) (?buf + int (?keep - ?copy)) (?last - int ?copy) ?copy = Inr m" ..
  have copy: "min (if dx_tmpOutSize ?x > 65536 then 0 else 65536 - dx_tmpOutSize ?x) ?keep = ?copy" by (simp add: flush_copy_def)
  let ?v = "v\<lparr>f_mem := m, f_ctx := ?x\<lparr>dx_dict := ?buf, dx_dictSize := ?keep + dx_tmpOutStart ?x\<rparr>\<rparr>"
  have "f_preserve c v = Inr ?v"
    using l d c st(1) sz(3) m unfolding f_preserve_def Let_def linked_def copy by simp
  moreover have "flush_dict (?x\<lparr>dx_dict := ?buf, dx_dictSize := ?keep + dx_tmpOutStart ?x\<rparr>)"
    using sz(1) by (auto simp: flush_dict_def flush_copy_def)
  moreover have "?keep + dx_tmpOutStart ?x \<le> dx_maxBufferSize ?x" using sz s by linarith
  ultimately show ?thesis
    using working_idle [OF w] s st(1) l
    by (simp add: left_ok_def dctx_ok_def idle_ok_def own_ok_def own_size_def stage_ok_def history_rests_def linked_def)
qed

lemma preserve_block:
  assumes w: "working c v B" and st: "block_stage (dx_dStage (f_ctx v))" "dx_dStage (f_ctx v) \<noteq> flushOut" "stage_ok (f_ctx v)" and l: "linked (f_ctx v)"
    and d: "dx_dict (f_ctx v) \<noteq> dx_tmpOutBuffer (f_ctx v)" "dx_dict (f_ctx v) \<noteq> 0" and c: "\<not> f_stableDst c"
  shows "\<exists>v'. f_preserve c v = Inr v' \<and> left_ok v v'"
proof -
  let ?x = "f_ctx v" and ?buf = "dx_tmpOutBuffer (f_ctx v)" and ?n = "min (dx_dictSize (f_ctx v)) 65536"
  have inv: "work_inv c v B" and hist: "history_ok c v" using w by (simp_all add: working_def)
  have pos: "f_dstPtr v \<le> f_dstEnd c" using inv by (simp add: work_inv_def io_range_def)
  note size = own_block(2) [OF inv l]
  have "\<exists>m. f_memcpy (f_room v) (f_mem v) ?buf (dx_dict ?x + int (dx_dictSize ?x) - int ?n) ?n = Inr m"
  proof (cases "dx_dictSize ?x = 0")
    case True
    then show ?thesis by (simp add: f_memcpy_def f_ok_def)
  next
    case False
    then have "f_dstStart c \<le> dx_dict ?x" "dx_dict ?x + int (dx_dictSize ?x) = f_dstPtr v"
      using hist d(1) by (auto simp: history_ok_def Let_def)
    then show ?thesis using out_copy(1) [OF inv order_refl, of ?n "dx_dict ?x + int (dx_dictSize ?x) - int ?n" "f_mem v"] size pos
      by auto
  qed
  then obtain m where m: "f_memcpy (f_room v) (f_mem v) ?buf (dx_dict ?x + int (dx_dictSize ?x) - int ?n) ?n = Inr m" ..
  let ?x1 = "?x\<lparr>dx_dict := ?buf, dx_dictSize := ?n, dx_tmpOut := ?buf + int ?n\<rparr>"
  have "2 \<le> stage_no (dx_dStage ?x)" "stage_no (dx_dStage ?x) < stage_no getSuffix" using st(1) by (simp_all add: block_stage_def)
  then have "f_preserve c v = Inr (v\<lparr>f_mem := m, f_ctx := ?x1\<rparr>)"
    using l d c st(2) m unfolding f_preserve_def Let_def linked_def by simp
  moreover have "sized ?x1" using working_sized [OF w] size by (simp add: sized_def linked_def)
  then have "stage_ok ?x1" using st by (cases "dx_dStage ?x") (simp_all add: stage_ok_def crc_size_def)
  moreover have "?n \<le> dx_maxBufferSize ?x" using size by linarith
  then have "history_rests ?x1" using l by (simp add: history_rests_def linked_def)
  ultimately show ?thesis
    using working_idle [OF w] by (simp add: left_ok_def dctx_ok_def idle_ok_def own_ok_def own_size_def)
qed

lemma preserve_safe:
  assumes i: "idle_ok v" "stage_ok (f_ctx v)" "block_stage (dx_dStage (f_ctx v)) \<longrightarrow> call_inv c v" and c: "\<not> f_stableDst c"
  shows "\<exists>v'. f_preserve c v = Inr v' \<and> left_ok v v'"
proof -
  let ?x = "f_ctx v"
  consider (kept) "\<not> (linked ?x \<and> dx_dict ?x \<noteq> dx_tmpOutBuffer ?x \<and> dx_dict ?x \<noteq> 0) \<or> \<not> block_stage (dx_dStage ?x) \<and> dx_dStage ?x \<noteq> stage_init"
    | (start) "linked ?x" "dx_dict ?x \<noteq> dx_tmpOutBuffer ?x" "dx_dict ?x \<noteq> 0" "dx_dStage ?x = stage_init"
    | (block) "linked ?x" "dx_dict ?x \<noteq> dx_tmpOutBuffer ?x" "dx_dict ?x \<noteq> 0" "block_stage (dx_dStage ?x)" by blast
  then show ?thesis
  proof cases
    case kept
    show ?thesis
    proof (rule preserve_kept [OF _ i(1,2)])
      show "f_preserve c v = Inr v"
        using kept by (cases "dx_dStage ?x") (auto simp: f_preserve_def Let_def linked_def)
      show "block_stage (dx_dStage ?x) \<longrightarrow> history_rests ?x"
        using kept i(3) rests_if_kept [of c v] call_working [of c v] by blast
    qed
  next
    case start
    then show ?thesis using i c
      by (simp add: f_preserve_def Let_def linked_def stage_ok_def f_memcpy_def f_ok_def left_ok_def dctx_ok_def idle_ok_def own_ok_def own_size_def)
  next
    case block
    then obtain B where "working c v B" using i(3) call_working by blast
    with block i(2) c preserve_flush preserve_block show ?thesis by (cases "dx_dStage ?x = flushOut") blast+
  qed
qed

section \<open>A call\<close>

text \<open>
  What a call relies on: the caller's ranges are lent, apart from each other, and not the
  context's own; what the allocator gives is away from them and from each other.
\<close>

definition call_ok_for :: "room \<Rightarrow> LZ4F_dctx \<Rightarrow> int \<Rightarrow> nat \<Rightarrow> int \<Rightarrow> nat \<Rightarrow> (nat \<Rightarrow> int) \<Rightarrow> (nat \<Rightarrow> int) \<Rightarrow> bool" where
  "call_ok_for room x dst dstSize src srcSize newTmpIn newTmpOutBuffer \<longleftrightarrow>
     0 \<le> src \<and> (0 < srcSize \<longrightarrow> 0 < src) \<and> src + int srcSize < 4294967296
     \<and> 0 \<le> dst \<and> (dst = 0 \<longrightarrow> dstSize = 0) \<and> dst + int dstSize < 4294967296
     \<and> (src + int srcSize \<le> dst \<or> dst + int dstSize \<le> src)
     \<and> callers room x src (src + int srcSize) \<and> callers room x dst (dst + int dstSize)
     \<and> (\<forall>p k. (p, k) \<in> {(src, srcSize), (dst, dstSize)} \<longrightarrow>
          (dx_maxBufferSize x \<noteq> 0 \<longrightarrow>
             away (dx_tmpIn x) (dx_tmpIn x + int (dx_maxBufferSize x + 4)) p (p + int k)
             \<and> away (dx_tmpOutBuffer x) (dx_tmpOutBuffer x + int (dx_maxBufferSize x)) p (p + int k))
          \<and> (\<forall>n. newTmpIn n \<noteq> 0 \<longrightarrow> away (newTmpIn n) (newTmpIn n + int n) p (p + int k))
          \<and> (\<forall>n. newTmpOutBuffer n \<noteq> 0 \<longrightarrow> away (newTmpOutBuffer n) (newTmpOutBuffer n + int n) p (p + int k)))
     \<and> (\<forall>n. newTmpIn n \<noteq> 0 \<longrightarrow> 0 < newTmpIn n \<and> newTmpIn n + int n < 4294967296 \<and> newTmpIn n \<noteq> dx_tmpOutBuffer x)
     \<and> (\<forall>n. newTmpOutBuffer n \<noteq> 0 \<longrightarrow> 0 < newTmpOutBuffer n \<and> newTmpOutBuffer n + int n < 4294967296)
     \<and> (\<forall>n k. newTmpIn n \<noteq> 0 \<longrightarrow> newTmpOutBuffer k \<noteq> 0 \<longrightarrow>
          away (newTmpIn n) (newTmpIn n + int n) (newTmpOutBuffer k) (newTmpOutBuffer k + int k))"

lemma away_shorter: "away a b p q \<Longrightarrow> b' \<le> b \<Longrightarrow> away a b' p q"
  by (auto simp: away_def)

lemma call_okD:
  assumes "call_ok_for room x dst dstSize src srcSize newTmpIn newTmpOutBuffer"
  shows "0 \<le> src \<and> (0 < srcSize \<longrightarrow> 0 < src) \<and> src + int srcSize < 4294967296
     \<and> 0 \<le> dst \<and> (dst = 0 \<longrightarrow> dstSize = 0) \<and> dst + int dstSize < 4294967296
     \<and> (src + int srcSize \<le> dst \<or> dst + int dstSize \<le> src)"
    and "callers room x src (src + int srcSize)" "callers room x dst (dst + int dstSize)"
    and "\<And>p k. (p, k) = (src, srcSize) \<or> (p, k) = (dst, dstSize) \<Longrightarrow> dx_maxBufferSize x \<noteq> 0 \<longrightarrow>
          away (dx_tmpIn x) (dx_tmpIn x + int (dx_maxBufferSize x + 4)) p (p + int k)
          \<and> away (dx_tmpOutBuffer x) (dx_tmpOutBuffer x + int (dx_maxBufferSize x)) p (p + int k)"
    and "\<And>p k n. (p, k) = (src, srcSize) \<or> (p, k) = (dst, dstSize) \<Longrightarrow> newTmpIn n \<noteq> 0 \<Longrightarrow>
          away (newTmpIn n) (newTmpIn n + int n) p (p + int k)"
    and "\<And>p k n. (p, k) = (src, srcSize) \<or> (p, k) = (dst, dstSize) \<Longrightarrow> newTmpOutBuffer n \<noteq> 0 \<Longrightarrow>
          away (newTmpOutBuffer n) (newTmpOutBuffer n + int n) p (p + int k)"
    and "\<forall>n. newTmpIn n \<noteq> 0 \<longrightarrow> 0 < newTmpIn n \<and> newTmpIn n + int n < 4294967296 \<and> newTmpIn n \<noteq> dx_tmpOutBuffer x"
    and "\<forall>n. newTmpOutBuffer n \<noteq> 0 \<longrightarrow> 0 < newTmpOutBuffer n \<and> newTmpOutBuffer n + int n < 4294967296"
    and "\<forall>n k. newTmpIn n \<noteq> 0 \<longrightarrow> newTmpOutBuffer k \<noteq> 0 \<longrightarrow>
          away (newTmpIn n) (newTmpIn n + int n) (newTmpOutBuffer k) (newTmpOutBuffer k + int k)"
  using assms unfolding call_ok_for_def by auto

lemma call_begins:
  assumes x: "dctx_ok room x" and io: "call_ok_for room x dst dstSize src srcSize newTmpIn newTmpOutBuffer"
    and c: "c = \<lparr>f_srcEnd = src + int srcSize, f_dstStart = dst, f_dstEnd = (if dst \<noteq> 0 then dst + int dstSize else 0), f_stableDst = False,
              f_tmpIn = newTmpIn, f_tmpOutBuffer = newTmpOutBuffer\<rparr>"
    and v: "v = \<lparr>f_ctx = x, f_mem = m, f_room = room, f_srcPtr = src, f_dstPtr = dst, f_hint = 1\<rparr>"
  shows "call_inv c v"
proof -
  note io1 = call_okD(1) [OF io] and ca = call_okD(2,3) [OF io] and al = call_okD(7,8,9) [OF io]
  note own_sep = call_okD(4) [OF io] and new_sep = call_okD(5,6) [OF io]
  have e: "f_dstEnd c = dst + int dstSize" "f_srcEnd c = src + int srcSize" "f_dstStart c = dst" using io1 by (auto simp: c)
  have vs: "f_ctx v = x" "f_room v = room" "f_srcPtr v = src" "f_dstPtr v = dst" by (simp_all add: v)
  have range: "io_range c v" using io1 unfolding io_range_def e vs by auto
  have h19: "length (dx_header x) = 19" and own: "own_ok room x" and st: "stage_ok x"
    and hist: "block_stage (dx_dStage x) \<Longrightarrow> history_rests x"
    using x by (simp_all add: dctx_ok_def)
  have away: "own_away c v B" if "own_size room x B" for B
  proof -
    have B: "B \<le> dx_maxBufferSize x" "dx_maxBufferSize x \<noteq> 0" using that by (auto simp: own_size_def block_sizes_def)
    have "away (dx_tmpIn x) (dx_tmpIn x + int (B + 4)) p (p + int k)" if "(p, k) = (src, srcSize) \<or> (p, k) = (dst, dstSize)" for p k
      by (rule away_shorter) (use own_sep [OF that] B in auto)
    then show ?thesis using own_sep B(2) unfolding own_away_def e vs by auto
  qed
  have "stage_ok (f_ctx v)" using st by (simp add: vs)
  moreover have "\<exists>B. work_inv c v B" if h: "headed (dx_dStage x)"
  proof -
    have s: "sized x" using h st by (cases "dx_dStage x") (simp_all add: stage_ok_def)
    then have "dx_maxBufferSize x \<noteq> 0" by (auto simp: sized_def block_sizes_def)
    then obtain B where B: "own_size room x B" using own by (auto simp: own_ok_def)
    have "lends room src (src + int srcSize)" "lends room dst (dst + int dstSize)" using ca callers_lent by blast+
    with B away [OF B] s range h19 have "work_inv c v B" by (simp add: work_inv_own vs e)
    then show ?thesis ..
  qed
  moreover have "head_inv c v"
  proof -
    have f: "f_tmpIn c = newTmpIn" "f_tmpOutBuffer c = newTmpOutBuffer" by (simp_all add: c)
    have "fresh_range c v (newTmpIn n) n" "fresh_range c v (newTmpOutBuffer n) n" for n
      using al(1,2) new_sep [of src srcSize] new_sep [of dst dstSize] unfolding fresh_range_def e vs by auto
    then have "alloc_ok c v" using al(1,3) unfolding alloc_ok_def f vs by blast
    then show ?thesis using h19 range ca own away unfolding head_inv_def own_ok_def e vs by blast
  qed
  moreover have "history_ok c v" if "block_stage (dx_dStage x)"
    using hist [OF that] by (auto simp: history_rests_def history_ok_def Let_def vs)
  ultimately show ?thesis by (simp add: call_inv_def vs)
qed

text \<open>
  Whatever the source holds, wherever the context stopped before and however little it gets: the
  call returns, without a fault; it has taken and written no more than it was offered, and its
  context is fit for the next call, or, after an error, is when it is reset.
\<close>

lemma decompress_call:
  assumes x: "dctx_ok room x" and io: "call_ok_for room x dst dstSize src srcSize newTmpIn newTmpOutBuffer"
  shows "\<exists>r. LZ4F_decompress room m x dst dstSize src srcSize False newTmpIn newTmpOutBuffer = Inr r
    \<and> o_srcSize r \<le> srcSize \<and> o_dstSize r \<le> dstSize
    \<and> (dctx_ok (o_room r) (o_ctx r)
       \<or> LZ4F_isError (o_code r) \<and> dctx_ok (o_room r) (LZ4F_resetDecompressionContext (o_ctx r)))"
proof -
  define c where "c = \<lparr>f_srcEnd = src + int srcSize, f_dstStart = dst, f_dstEnd = (if dst \<noteq> 0 then dst + int dstSize else 0), f_stableDst = False,
    f_tmpIn = newTmpIn, f_tmpOutBuffer = newTmpOutBuffer\<rparr>"
  define v where "v = \<lparr>f_ctx = x, f_mem = m, f_room = room, f_srcPtr = src, f_dstPtr = dst, f_hint = 1\<rparr>"
  have null: "dst = 0 \<longrightarrow> dstSize = 0" using io by (simp add: call_ok_for_def)
  note s = stages_safe [OF call_begins [OF x io c_def v_def]]
  note def = LZ4F_decompress_def [of room m x dst dstSize src srcSize False newTmpIn newTmpOutBuffer, unfolded Let_def,
    folded c_def v_def]
  obtain r where r: "LZ4F_stages c v = Inr r" "\<And>w. r \<noteq> Another w" "stage_safe c (Inr r)"
    using s by (cases "LZ4F_stages c v") (auto simp: stage_safe_def)
  show ?thesis
  proof (cases r)
    case (Return_Now code w)
    then have i: "idle_ok w" "LZ4F_isError code \<or> stage_ok (f_ctx w) \<and> \<not> block_stage (dx_dStage (f_ctx w))"
      using r(3) by (simp_all add: stage_safe_def)
    have "dctx_ok (f_room w) (LZ4F_resetDecompressionContext (f_ctx w))"
      using i(1) by (simp add: dctx_ok_def idle_ok_def LZ4F_resetDecompressionContext_def stage_ok_def own_ok_def own_size_def)
    moreover have "dctx_ok (f_room w) (f_ctx w)" if "\<not> LZ4F_isError code"
      using i that by (simp add: dctx_ok_def idle_ok_def)
    ultimately show ?thesis using null r(1) Return_Now by (auto simp: def)
  next
    case (Done w)
    then have i: "idle_ok w" "within c w" "stage_ok (f_ctx w)" "block_stage (dx_dStage (f_ctx w)) \<longrightarrow> call_inv c w"
      using r(3) by (simp_all add: stage_safe_def)
    have "\<not> f_stableDst c" by (simp add: c_def)
    from preserve_safe [OF i(1,3,4) this] obtain w' where w': "f_preserve c w = Inr w'" "left_ok w w'" by blast
    have "f_srcPtr w' \<le> src + int srcSize" "f_dstPtr w' \<le> dst + int dstSize"
      using i(2) w'(2) null by (auto simp: within_def left_ok_def c_def split: if_splits)
    then show ?thesis using null r(1) Done w' by (auto simp: def left_ok_def nat_le_iff)
  qed (use r(2) in blast)
qed

section \<open>Sequences of calls\<close>

text \<open>
  How a program uses a context: it creates it, gives it pieces of any size, resets it after an
  error or whenever it wants, and in between lends and takes back any memory but the context's
  own buffers.
\<close>

inductive frame_session :: "room \<Rightarrow> LZ4F_dctx \<Rightarrow> bool" where
  created: "LZ4F_createDecompressionContext True versionNumber = (code, Some x) \<Longrightarrow> frame_session room x"
| called: "frame_session room x \<Longrightarrow> call_ok_for room x dst dstSize src srcSize newTmpIn newTmpOutBuffer \<Longrightarrow>
    LZ4F_decompress room m x dst dstSize src srcSize False newTmpIn newTmpOutBuffer = Inr r \<Longrightarrow>
    frame_session (o_room r) (if LZ4F_isError (o_code r) then LZ4F_resetDecompressionContext (o_ctx r) else o_ctx r)"
| reset: "frame_session room x \<Longrightarrow> frame_session room (LZ4F_resetDecompressionContext x)"
| lent: "frame_session room x \<Longrightarrow> (\<And>a b. a \<in> {dx_tmpIn x, dx_tmpOutBuffer x} \<Longrightarrow> lends room a b \<Longrightarrow> lends room' a b) \<Longrightarrow>
    frame_session room' x"

lemma reset_ok: "dctx_ok room x \<Longrightarrow> dctx_ok room (LZ4F_resetDecompressionContext x)"
  by (simp add: dctx_ok_def LZ4F_resetDecompressionContext_def stage_ok_def own_ok_def own_size_def)

lemma session_ok: "frame_session room x \<Longrightarrow> dctx_ok room x"
proof (induction rule: frame_session.induct)
  case (created versionNumber code x room)
  then show ?case by (auto simp: LZ4F_createDecompressionContext_def dctx_ok_def own_ok_def stage_ok_def)
next
  case (called room x dst dstSize src srcSize newTmpIn newTmpOutBuffer m r)
  from decompress_call [OF called.IH called.hyps(2), of m] called.hyps(3) reset_ok show ?case by auto
next
  case (reset room x)
  then show ?case by (simp add: reset_ok)
next
  case (lent room x room')
  then show ?case by (auto simp: dctx_ok_def own_ok_def own_size_def)
qed

end
