(* ===== verification/Lz4_Frame_Properties.thy ===== *)
theory Lz4_Frame_Properties
  imports Lz4_Frame_Calls Log_Day
begin

text \<open>
  What the frame decompressor guarantees for a whole frame and for any input, and the composition
  of the two sides of the program: the file of a day's log, given to \<open>LZ4F_decompress\<close>, comes back as the sentences.
\<close>

section \<open>A frame\<close>

lemma frame_block_max_le: "frame_block_max bs \<le> 4194304"
  by (auto simp: frame_block_max_def dest: decodeHeader_prefs(2) split: header_result.split)

text \<open>
  C3: One call of \<open>LZ4F_decompress\<close> with an idle context decompresses a whole frame, for every
  frame that has a meaning under the format (linked or independent blocks, stored or packed, with
  or without block checksums, content checksum and content size): it reads no byte out of place
  and returns 0, it has taken the whole frame and written exactly its content to the start of the
  destination, and the context is idle again. The destination needs room for the content and one
  block, source and destination are the caller's, apart from each other and from the buffers of
  the context, and memory can be had.
\<close>

theorem frame_decompresses:
  assumes "lz4f_decode (mem_bytes m src n) = Some content" and "dctx_idle x"
    and "0 < src" and "src + int n < 4294967296" and "callers room x src (src + int n)"
    and "0 < dst" and "dst + int dstSize < 4294967296" and "callers room x dst (dst + int dstSize)"
    and "src + int n \<le> dst \<or> dst + int dstSize \<le> src"
    and "length content + frame_block_max (mem_bytes m src n) \<le> dstSize"
    and "\<And>k. newTmpIn k \<noteq> 0" and "\<And>k. newTmpOutBuffer k \<noteq> 0"
  shows "\<exists>r. LZ4F_decompress room m x dst dstSize src n stableDst newTmpIn newTmpOutBuffer = Inr r
    \<and> o_code r = 0 \<and> o_srcSize r = n \<and> o_dstSize r = length content
    \<and> mem_bytes (o_mem r) dst (length content) = content \<and> dctx_idle (o_ctx r)"
  using LZ4F_decompress_frame [OF assms] by (simp add: decompressed_def)

text \<open>A packed block with a match, and a stored one.\<close>

definition sample_block :: bytes where
  "sample_block = enc_seq [97, 98, 99, 100] 4 4 @ enc_last [101, 102, 103, 104, 105]"

definition sample_frame :: bytes where
  "sample_frame = LZ4F_header kPrefs
     @ LZ4F_writeLE32 13 @ sample_block
     @ LZ4F_writeLE32 0x80000003 @ [106, 107, 108]
     @ LZ4F_writeLE32 0"

definition sample_dctx :: LZ4F_dctx where
  "sample_dctx = the (snd (LZ4F_createDecompressionContext True LZ4F_VERSION))"

lemma sample_dctx_idle: "dctx_idle sample_dctx"
  by (simp add: sample_dctx_def LZ4F_createDecompressionContext_def dctx_idle_def)

lemma sample_dctx_callers: "callers room sample_dctx a b \<longleftrightarrow> lends room a b"
  by (simp add: sample_dctx_def LZ4F_createDecompressionContext_def callers_def f_free_def)

definition sample_text :: bytes where
  "sample_text = [97, 98, 99, 100, 97, 98, 99, 100, 97, 98, 99, 100, 101, 102, 103, 104, 105, 106, 107, 108]"

lemma sample_frame_decodes: "lz4f_decode sample_frame = Some sample_text"
proof -
  let ?w = "[97, 98, 99, 100] :: bytes" and ?l = "[101, 102, 103, 104, 105] :: bytes" and ?c = "[106, 107, 108] :: bytes"
  have copy: "lz4_copy ?w 4 8 @ ?l = take 17 sample_text" "length (lz4_copy ?w 4 8) = 12"
    by (simp_all add: sample_text_def eval_nat_numeral)
  have "lz4_decode sample_block [] = Some (take 17 sample_text)"
    unfolding sample_block_def using copy by (subst decode_enc_seq) (simp_all add: decode_enc_last)
  moreover have "lz4_strict 17 sample_block []"
    unfolding sample_block_def using copy strict_enc_last [of "lz4_copy ?w 4 8" ?l 17] length_enc_last [of ?l]
    by (subst strict_enc_seq) simp_all
  moreover have len: "length sample_block = 13" "length sample_text = 20"
    by (simp_all add: sample_block_def sample_text_def enc_seq_def enc_last_def enc_len_def le16.enc_length)
  moreover have max: "block_max kPrefs = 65536"
    by (simp add: block_max_def kPrefs_def LZ4F_getBlockSize_def)
  ultimately have "lz4f_body kPrefs False sample_block [] = Some (take 17 sample_text)"
    by (simp add: lz4f_body_def)
  then have 1: "lz4f_blocks kPrefs (LZ4F_writeLE32 13 @ sample_block @ [] @ rest) [] = lz4f_blocks kPrefs rest (take 17 sample_text)" for rest
    using lz4f_blocks_block [of 13 sample_block kPrefs "[]"] len by (simp add: LZ4F_BLOCKUNCOMPRESSED_FLAG_def kPrefs_flags)
  have "lz4f_body kPrefs True ?c (take 17 sample_text) = Some sample_text"
    using max by (simp add: lz4f_body_def) (simp add: sample_text_def)
  then have 2: "lz4f_blocks kPrefs (LZ4F_writeLE32 0x80000003 @ ?c @ [] @ rest) (take 17 sample_text) = lz4f_blocks kPrefs rest sample_text" for rest
    using lz4f_blocks_block [of "0x80000003" ?c kPrefs "take 17 sample_text"] by (simp add: LZ4F_BLOCKUNCOMPRESSED_FLAG_def kPrefs_flags)
  have 3: "lz4f_blocks kPrefs (LZ4F_writeLE32 0) sample_text = Some sample_text"
    using lz4f_blocks_end [of kPrefs "[]" sample_text] by (simp add: lz4f_finish_def kPrefs_flags)
  show ?thesis
    using 1 2 3 lz4f_decode_header [OF kPrefs_header] by (simp add: sample_frame_def)
qed

lemma length_sample_frame: "length sample_frame = 35"
  by (simp add: sample_frame_def sample_block_def enc_seq_def enc_last_def enc_len_def le16.enc_length length_header kPrefs_def)

lemma mem_bytes_stored: "mem_bytes (store m a bs) a (length bs) = bs"
  by (rule nth_equalityI) (simp_all add: store_def)

theorem frame_decompresses_witness:
  "\<exists>r. LZ4F_decompress [(1000, 2000), (10000, 100000)] (store (\<lambda>_. 0) 1000 sample_frame) sample_dctx 10000 90000 1000 35
      False (\<lambda>_. 200000) (\<lambda>_. 400000) = Inr r
    \<and> o_code r = 0 \<and> o_srcSize r = 35 \<and> o_dstSize r = 20
    \<and> mem_bytes (o_mem r) 10000 20 = sample_text"
proof -
  have m: "mem_bytes (store (\<lambda>_. 0) 1000 sample_frame) 1000 35 = sample_frame"
    using mem_bytes_stored [of _ 1000 sample_frame] by (simp add: length_sample_frame)
  have "frame_block_max sample_frame = 65536"
    using decodeHeader_header [OF kPrefs_header]
    by (simp add: frame_block_max_def sample_frame_def block_max_def kPrefs_def LZ4F_getBlockSize_def)
  moreover have "length sample_text = 20" by (simp add: sample_text_def)
  ultimately show ?thesis
    using frame_decompresses [of "store (\<lambda>_. 0) 1000 sample_frame" 1000 35 _ sample_dctx "[(1000, 2000), (10000, 100000)]"
        10000 90000 "\<lambda>_. 200000" "\<lambda>_. 400000" False]
    by (auto simp: m sample_frame_decodes sample_dctx_idle sample_dctx_callers lends_def)
qed

section \<open>Any input\<close>

text \<open>
  C5: The context stays well formed: a call with a context whose stage, sizes, own buffers and
  history fit together leaves such a context, whatever the source holds, wherever in a frame the
  context stopped before, and however small the pieces are; after an error it does so when it is
  reset.
\<close>

theorem decompress_context_ok:
  assumes "dctx_ok room x" and "call_ok_for room x dst dstSize src srcSize newTmpIn newTmpOutBuffer"
  shows "\<exists>r. LZ4F_decompress room m x dst dstSize src srcSize False newTmpIn newTmpOutBuffer = Inr r
    \<and> (dctx_ok (o_room r) (o_ctx r)
       \<or> LZ4F_isError (o_code r) \<and> dctx_ok (o_room r) (LZ4F_resetDecompressionContext (o_ctx r)))"
  using decompress_call [OF assms, of m] by blast

text \<open>A heap with one free place, which is large enough for any buffer of the decompressor.\<close>

definition heap_at :: "int \<Rightarrow> nat \<Rightarrow> int" where
  "heap_at p n = (if n \<le> 4400000 then p else 0)"

lemma sample_call_ok: "n \<le> 900 \<Longrightarrow> k \<le> 90000 \<Longrightarrow>
    call_ok_for [(1000, 2000), (10000, 100000)] sample_dctx 10000 k 1000 n (heap_at 200000) (heap_at 10000000)"
  by (auto simp: call_ok_for_def sample_dctx_callers lends_def away_def heap_at_def split: if_splits)
    (simp_all add: sample_dctx_def LZ4F_createDecompressionContext_def)

lemma sample_session: "frame_session room sample_dctx"
  by (rule created [of LZ4F_VERSION]) (simp add: sample_dctx_def LZ4F_createDecompressionContext_def)

theorem decompress_context_ok_witness:
  "\<exists>r. LZ4F_decompress [(1000, 2000), (10000, 100000)] (store (\<lambda>_. 0) 1000 sample_frame) sample_dctx 10000 5 1000 20
      False (heap_at 200000) (heap_at 10000000) = Inr r
    \<and> (dctx_ok (o_room r) (o_ctx r)
       \<or> LZ4F_isError (o_code r) \<and> dctx_ok (o_room r) (LZ4F_resetDecompressionContext (o_ctx r)))"
  by (rule decompress_context_ok [OF session_ok [OF sample_session] sample_call_ok]) simp_all

text \<open>
  C4: The frame decompressor is safe on any input: from the creation of a context on, through any
  sequence of calls with pieces of any content and any size, resets, and memory lent and taken
  back between them, the next call ends without reading or writing outside of the caller's
  buffers and its own, without an overlapping copy and without failing an assertion, and it takes
  and writes no more than it was offered.
\<close>

theorem decompress_session_safe:
  assumes "frame_session room x" and "call_ok_for room x dst dstSize src srcSize newTmpIn newTmpOutBuffer"
  shows "\<exists>r. LZ4F_decompress room m x dst dstSize src srcSize False newTmpIn newTmpOutBuffer = Inr r
    \<and> o_srcSize r \<le> srcSize \<and> o_dstSize r \<le> dstSize"
  using decompress_call [OF session_ok [OF assms(1)] assms(2), of m] by blast

theorem decompress_session_safe_witness:
  "\<exists>r. LZ4F_decompress [(1000, 2000), (10000, 100000)] (store (\<lambda>_. 255) 1000 (LZ4F_header kPrefs)) sample_dctx 10000 40000 1000 900
      False (heap_at 200000) (heap_at 10000000) = Inr r
    \<and> o_srcSize r \<le> 900 \<and> o_dstSize r \<le> 40000"
  by (rule decompress_session_safe [OF sample_session sample_call_ok]) simp_all

section \<open>A day's log\<close>

text \<open>
  A call that is fit to decompress the file \<open>bs\<close>, which is in memory at \<open>src\<close>, to a text of
  \<open>k\<close> bytes: the context is idle, the two ranges are the caller's and apart, the destination has
  room for the text and one block of any size, and memory can be had.
\<close>

definition fit_call :: "room \<Rightarrow> memory \<Rightarrow> LZ4F_dctx \<Rightarrow> int \<Rightarrow> nat \<Rightarrow> int \<Rightarrow> bytes \<Rightarrow> nat \<Rightarrow> (nat \<Rightarrow> int) \<Rightarrow> (nat \<Rightarrow> int) \<Rightarrow> bool" where
  "fit_call room m x dst dstSize src bs k newTmpIn newTmpOutBuffer \<longleftrightarrow>
     mem_bytes m src (length bs) = bs \<and> dctx_idle x
     \<and> 0 < src \<and> src + int (length bs) < 4294967296 \<and> callers room x src (src + int (length bs))
     \<and> 0 < dst \<and> dst + int dstSize < 4294967296 \<and> callers room x dst (dst + int dstSize)
     \<and> (src + int (length bs) \<le> dst \<or> dst + int dstSize \<le> src)
     \<and> k + 4194304 \<le> dstSize \<and> (\<forall>j. newTmpIn j \<noteq> 0 \<and> newTmpOutBuffer j \<noteq> 0)"

lemma fit_call_decompresses:
  assumes "lz4f_decode bs = Some content" and "fit_call room m x dst dstSize src bs (length content) newTmpIn newTmpOutBuffer"
  shows "\<exists>d. LZ4F_decompress room m x dst dstSize src (length bs) stableDst newTmpIn newTmpOutBuffer = Inr d
    \<and> decompressed d dst (length bs) content"
  by (rule LZ4F_decompress_frame)
    (use assms frame_block_max_le [of bs] in \<open>simp_all add: fit_call_def\<close>)

text \<open>
  C2: Everything the firmware logs can be read back: the bytes of the file that a day leaves,
  from the rollover that opens it to the one that closes it, are decompressed by one call of
  \<open>LZ4F_decompress\<close> to exactly the device status followed by the sentences that were taken from
  the queue with a fix. The file is at most five times as long as the text and 11 bytes.
\<close>

theorem day_reads_back:
  assumes "log_closed w" and "opens w (log_path w)" and "printable (datetime (pvt_data w))"
    and "length (filebase (confdata w)) < 20" and "statuses_fit (outside w)" and "nmea_short (outside w)"
    and "run_state rollover_lz4log w = (r, w0)" and "log_day supl_client w0 t w1" and "stopped w1 = None"
    and "run_state rollover_lz4log w1 = (r', w2)"
  shows "\<exists>p new rest. events w2 = events w @ new @ close_calls p (log_path w) @ rest
    \<and> length (written p new) \<le> 11 + 5 * length (c_string (jsonbuf w0) @ t)
    \<and> (\<forall>room m x dst dstSize src stableDst newTmpIn newTmpOutBuffer.
         fit_call room m x dst dstSize src (written p new) (length (c_string (jsonbuf w0) @ t)) newTmpIn newTmpOutBuffer \<longrightarrow>
         (\<exists>d. LZ4F_decompress room m x dst dstSize src (length (written p new)) stableDst newTmpIn newTmpOutBuffer = Inr d
            \<and> decompressed d dst (length (written p new)) (bytes_of_string (c_string (jsonbuf w0) @ t))))"
proof -
  obtain p new rest where f: "events w2 = events w @ new @ close_calls p (log_path w) @ rest"
    "lz4f_decode (written p new) = Some (bytes_of_string (c_string (jsonbuf w0) @ t))"
    "length (written p new) \<le> 11 + 5 * length (c_string (jsonbuf w0) @ t)"
    using day_file [OF assms] by blast
  have "\<exists>d. LZ4F_decompress room m x dst dstSize src (length (written p new)) stableDst newTmpIn newTmpOutBuffer = Inr d
      \<and> decompressed d dst (length (written p new)) (bytes_of_string (c_string (jsonbuf w0) @ t))"
    if "fit_call room m x dst dstSize src (written p new) (length (c_string (jsonbuf w0) @ t)) newTmpIn newTmpOutBuffer"
    for room m x dst dstSize src stableDst newTmpIn newTmpOutBuffer
    by (rule fit_call_decompresses [OF f(2)]) (use that in \<open>simp only: length_bytes_of_string\<close>)
  with f(1,3) show ?thesis by blast
qed

theorem day_reads_back_witness:
  "\<exists>w0 w1 r' w2 p new rest d. run_state rollover_lz4log sample_day = (0, w0) \<and> log_day True w0 ''$GPGGA'' w1
    \<and> run_state rollover_lz4log w1 = (r', w2) \<and> events w2 = new @ close_calls p (log_path sample_day) @ rest
    \<and> LZ4F_decompress [(1000, 1000000), (1000000, 6000000)] (store (\<lambda>_. 0) 1000 (written p new)) sample_dctx
        1000000 5000000 1000 (length (written p new)) False (\<lambda>_. 7000000) (\<lambda>_. 17000000) = Inr d
    \<and> o_code d = 0 \<and> mem_bytes (o_mem d) 1000000 (o_dstSize d) = bytes_of_string (c_string (jsonbuf w0) @ ''$GPGGA'')"
proof -
  obtain w0 w1 where 1: "run_state rollover_lz4log sample_day = (0, w0)" "run_state main_message w0 = (''$GPGGA'', w1)"
    "stopped w1 = None"
    using sample_message by blast
  have day: "log_day True w0 ''$GPGGA'' w1"
    using log_day.more [OF log_day.dawn activity.message [OF 1(2)]] by simp
  obtain r' w2 where 2: "run_state rollover_lz4log w1 = (r', w2)" by fastforce
  obtain p new rest where f: "events w2 = events sample_day @ new @ close_calls p (log_path sample_day) @ rest"
    "length (written p new) \<le> 11 + 5 * length (c_string (jsonbuf w0) @ ''$GPGGA'')"
    "\<And>room m x dst dstSize src stableDst newTmpIn newTmpOutBuffer.
       fit_call room m x dst dstSize src (written p new) (length (c_string (jsonbuf w0) @ ''$GPGGA'')) newTmpIn newTmpOutBuffer \<Longrightarrow>
       (\<exists>d. LZ4F_decompress room m x dst dstSize src (length (written p new)) stableDst newTmpIn newTmpOutBuffer = Inr d
          \<and> decompressed d dst (length (written p new)) (bytes_of_string (c_string (jsonbuf w0) @ ''$GPGGA'')))"
    using day_reads_back [OF sample_day_ready(1-3) sample_day_simps(7) sample_day_ready(4,5) 1(1) day 1(3) 2] by blast
  have short: "length (c_string (jsonbuf w0)) < JSONBUFLEN"
    using rollover_opens [OF sample_day_ready(1-3) sample_day_simps(7) sample_day_ready(4)] 1(1) by auto
  have "fit_call [(1000, 1000000), (1000000, 6000000)] (store (\<lambda>_. 0) 1000 (written p new)) sample_dctx 1000000 5000000 1000
    (written p new) (length (c_string (jsonbuf w0) @ ''$GPGGA'')) (\<lambda>_. 7000000) (\<lambda>_. 17000000)"
    using short f(2) by (simp add: JSONBUFLEN_def fit_call_def mem_bytes_stored sample_dctx_idle sample_dctx_callers lends_def)
  from f(3) [OF this] obtain d where
    "LZ4F_decompress [(1000, 1000000), (1000000, 6000000)] (store (\<lambda>_. 0) 1000 (written p new)) sample_dctx
        1000000 5000000 1000 (length (written p new)) False (\<lambda>_. 7000000) (\<lambda>_. 17000000) = Inr d"
    "decompressed d 1000000 (length (written p new)) (bytes_of_string (c_string (jsonbuf w0) @ ''$GPGGA''))"
    by blast
  with 1(1) day 2 f(1) show ?thesis
    unfolding sample_day_simps(2) append_Nil decompressed_def by (metis length_bytes_of_string)
qed

end
