(* ===== verification/Spec2Isabelle.thy ===== *)
theory Spec2Isabelle
  imports Startup Lz4_Decompress_Properties Lz4_Frame_Properties
begin

text \<open>
  A model of the GNSS reflectometry logger: firmware for an nRF9160 board (\<open>firmware_src\<close>) that
  collects NMEA sentences of the receiver, writes them to LZ4 files on an SD card, one per day,
  and uploads finished files over LTE.

  \<^bold>\<open>The compression library\<close> (\<open>modules/lz4stream/lib\<close>). Memory is a map from addresses to bytes,
  a C structure is a record with its fields, a fault (a failed assertion, an access out of bounds,
  an overlapping copy) is an error value of the type \<open>outcome\<close>; machine integers are words
  where they wrap, sizes are natural numbers.

  \<^item> \<open>Bytes\<close>: little-endian integers (\<open>LZ4_readLE16\<close>, \<open>LZ4F_readLE32\<close> and others). \<open>Xxhash\<close>:
    \<open>xxhash.c\<close>, the 32-bit hash, at once and in pieces.
  \<^item> \<open>lz4.c\<close>, compressing: \<open>Lz4_Match\<close> (hash table, match lengths), \<open>Lz4_Compress\<close>
    (\<open>LZ4_compress_generic\<close>), \<open>Lz4_Stream\<close> (\<open>LZ4_compress_fast_continue\<close>, \<open>LZ4_saveDict\<close>).
    \<open>Lz4_Format\<close> is the block format; \<open>Lz4_Window\<close>, \<open>Lz4_Bounds\<close>, \<open>Lz4_Correct\<close> and
    \<open>Lz4_Stream_Correct\<close> prove that every block decodes to its source behind the history, and
    that no write leaves the destination.
  \<^item> \<open>lz4.c\<close>, decompressing: \<open>Lz4_Decompress\<close> (\<open>LZ4_decompress_generic\<close> with its directives and
    the functions made from it). \<open>Lz4_Decompress_Safe\<close> and \<open>Lz4_Decompress_Correct\<close>: for any
    source nothing outside of the buffers is touched, and what is accepted is decoded as the
    format says. \<open>Lz4_Roundtrip\<close> and \<open>Lz4_Decompress_Properties\<close>: streams of blocks, and a
    decompressor that follows a compressor.
  \<^item> \<open>lz4frame.c\<close>, compressing: \<open>Lz4_Frame\<close> (begin, update, flush, end, bounds).
    \<open>Lz4_Frame_Spec\<close> is the frame format (\<open>lz4f_decode\<close>), \<open>Lz4_Frame_Correct\<close> the proof that
    what is written between begin and end is a frame of the text.
  \<^item> \<open>lz4frame.c\<close>, decompressing: \<open>Lz4_Frame_Decompress\<close>, the state machine of
    \<open>LZ4F_decompress\<close>, one function \<open>f_...\<close> for every stage of its \<open>switch\<close>, with the history of
    linked blocks, the checksums and the skippable frames. That the machine ends is the
    termination proof of \<open>LZ4F_stages\<close>: a stage that asks for another one takes from the source
    or is followed by one of lower rank. \<open>Lz4_Frame_Roundtrip\<close>: one call decompresses a whole
    frame to what the format says. \<open>Lz4_Frame_Safe\<close> and \<open>Lz4_Frame_Calls\<close>: an invariant of the
    context, kept by every stage on any input, and that no sequence of calls (\<open>frame_session\<close>)
    faults, for callers that do not pledge a stable destination and give no dictionary.
  \<^item> \<open>lz4file.c\<close>: \<open>Lz4_File\<close> (open, write a line, close), \<open>Lz4_File_Correct\<close>, and
    \<open>Lz4_Properties\<close> with what the library guarantees from the file down to the integers.

  \<^bold>\<open>The application\<close> (\<open>src\<close>). \<open>Zephyr\<close> lists the calls the code makes of the kernel, the file
  system, the modem and the other libraries, none of which is part of the repository: an
  environment, a parameter, answers each of them from the trace of the calls before, so that a
  theorem holds whatever they answer, or names what it relies on (\<open>opens\<close>, \<open>honest\<close>,
  \<open>statuses_fit\<close>). Operations are state monads over a world that records the trace and the static
  variables, extended component by component, and stops at the first null dereference, failed
  assertion or access out of bounds.

  \<^item> \<open>Sd_Card\<close> (\<open>featherw_datalogger.c\<close>), \<open>Led_Buttons\<close> (\<open>led_buttons.c\<close>), \<open>Config\<close>
    (\<open>config.c\<close>), \<open>Modem\<close> (\<open>modem.c\<close>), \<open>Supl\<close> (\<open>supl_support.c\<close>), \<open>Datetime\<close> and \<open>Gnss\<close>
    (\<open>gnss.c\<close>), \<open>Upload\<close> (\<open>uploadclient.c\<close>), \<open>Logger\<close> (\<open>main.c\<close>). \<open>Sockets\<close> is the contract of
    a connection that a static variable holds.
  \<^item> \<open>Startup\<close>: what holds when the main loop is entered. \<open>Logger_Correct\<close>: what uploading does
    to the radio and to the files. \<open>Log_Day\<close>: the activities of the firmware as a step relation,
    and what the log file holds after a day of them. \<open>Lz4_Frame_Properties\<close> puts both halves
    together: that file, given to \<open>LZ4F_decompress\<close>, comes back as the sentences.

  Contracts between parts are locales: \<open>byte_codec\<close> (an integer and its bytes),
  \<open>streaming_hash\<close> (a hash in pieces is the hash of the whole), \<open>block_compressor\<close> (what the frame
  layer asks of the compressor behind its function pointer) and \<open>connection\<close>; each is interpreted
  on the definitions of the code, \<open>connection\<close> on both clients that open sockets.

  \<^bold>\<open>Bounds.\<close> Loops that the outside may keep going for ever have a bound as a parameter: the
  parts of a send (\<open>sendall\<close>, enough when it exceeds the number of bytes), the pieces of a file
  (\<open>upload_body\<close>), the entries of a directory (\<open>lsdir_next\<close>, \<open>sync_loop\<close>, enough when it exceeds
  the number of entries) and the rounds of the LED thread; the theorems say how much is enough or
  hold for every bound. The loops of the compression library end by themselves and are total
  functions. Addresses are below 2^32, as on the board; what is proved of the block decompressor
  is for sources below 16 MB.

  \<^bold>\<open>Not modelled.\<close> \<open>lz4hc.c\<close>: the logger compresses at level -1, which never reaches it. XXH64: the
  frame format uses the 32-bit hash only. Of \<open>lz4.c\<close> the functions for one block without a stream
  and for loading a dictionary, of \<open>lz4frame.c\<close> compressing a frame in one call and with a
  dictionary: nothing calls them. The decompressor's loop for fast targets is not compiled for
  this one. In the application: text that only goes to the log output, and code that is commented
  out. The two programs of \<open>aux_src\<close> are tests of the board. In \<open>Log_Day\<close> an activity runs to its
  end before the next begins; that an event handler may interrupt the main loop between two calls
  is not modelled.
\<close>

end
